(* ===== verification/Prelude.thy ===== *)
theory Prelude
  imports Main "HOL-Library.AList" "HOL-Library.Multiset"
begin

text \<open>
  Shared vocabulary of the development: the part of Rust's standard library that the modelled
  crates call, written out as HOL functions, and the lemmas about it that several components
  need.

  \<^item> A Rust \<open>String\<close>, \<open>&str\<close>, \<open>Bytes\<close> or \<open>&[u8]\<close> is a \<^typ>\<open>string\<close>, read as its
    sequence of (UTF-8) bytes: every \<^typ>\<open>char\<close> is one byte, so \<open>len\<close>, slicing and
    \<open>find\<close> count what the source counts.
  \<^item> A \<open>usize\<close> or \<open>u64\<close> is a \<^typ>\<open>nat\<close>; the saturating operations the source uses
    carry their bound \<open>u64_max\<close> explicitly. An \<open>i32\<close> is an \<^typ>\<open>int\<close> reduced by \<open>i32_wrap\<close>.
  \<^item> Slice access that may be out of range is \<open>get_at\<close> / \<open>get_range\<close> (Rust's \<open>get\<close>).
  \<^item> A \<open>HashMap\<close> or \<open>DashMap\<close> is an association list with distinct keys; the position of
    a key stands for the (unspecified) iteration order.
\<close>

type_synonym bytes = string
type_synonym index = nat
type_synonym ('k, 'v) hash_map = "('k \<times> 'v) list"

named_theorems rust_defs "definitions of the modelled standard library functions"

section \<open>Bounds-checked access\<close>

definition get_at :: "'a list \<Rightarrow> nat \<Rightarrow> 'a option" where
  "get_at b i = (if i < length b then Some (b ! i) else None)"

definition get_range :: "'a list \<Rightarrow> nat \<Rightarrow> nat \<Rightarrow> 'a list option" where
  "get_range b i j = (if i \<le> j \<and> j \<le> length b then Some (take (j - i) (drop i b)) else None)"

lemma get_at_Some_iff: "get_at b i = Some c \<longleftrightarrow> i < length b \<and> b ! i = c"
  by (simp add: get_at_def)

lemma get_at_None_iff: "get_at b i = None \<longleftrightarrow> length b \<le> i"
  by (simp add: get_at_def not_less)

lemma get_at_lengthD: "get_at b i = Some c \<Longrightarrow> i < length b"
  by (simp add: get_at_Some_iff)

lemma get_at_append_right: "get_at (p @ b) (length p + i) = get_at b i"
  by (simp add: get_at_def nth_append)

lemma get_at_take: "i < n \<Longrightarrow> get_at (take n b) i = get_at b i"
  by (auto simp: get_at_def)

text \<open>\<open>Option::or\<close>.\<close>

definition or_else :: "'a option \<Rightarrow> 'a option \<Rightarrow> 'a option" where
  "or_else a b = (case a of Some x \<Rightarrow> Some x | None \<Rightarrow> b)"

section \<open>Strings as bytes\<close>

definition starts_with :: "string \<Rightarrow> string \<Rightarrow> bool" where
  "starts_with p s \<longleftrightarrow> take (length p) s = p"

definition ends_with :: "string \<Rightarrow> string \<Rightarrow> bool" where
  "ends_with p s \<longleftrightarrow> length p \<le> length s \<and> drop (length s - length p) s = p"

definition strip_prefix :: "string \<Rightarrow> string \<Rightarrow> string option" where
  "strip_prefix p s = (if starts_with p s then Some (drop (length p) s) else None)"

definition strip_suffix :: "string \<Rightarrow> string \<Rightarrow> string option" where
  "strip_suffix p s = (if ends_with p s then Some (take (length s - length p) s) else None)"

lemma starts_with_append [simp]: "starts_with p (p @ s)"
  by (simp add: starts_with_def)

lemma starts_with_iff: "starts_with p s \<longleftrightarrow> (\<exists>r. s = p @ r)"
  unfolding starts_with_def by (metis append_eq_conv_conj append_take_drop_id)

lemma strip_prefix_append [simp]: "strip_prefix p (p @ s) = Some s"
  by (simp add: strip_prefix_def)

lemma strip_prefix_Some_iff: "strip_prefix p s = Some r \<longleftrightarrow> s = p @ r"
  by (auto simp: strip_prefix_def starts_with_iff)

lemma ends_with_iff: "ends_with p s \<longleftrightarrow> (\<exists>r. s = r @ p)"
proof
  assume "ends_with p s"
  then have "s = take (length s - length p) s @ p"
    using append_take_drop_id [of "length s - length p" s] by (simp add: ends_with_def)
  then show "\<exists>r. s = r @ p" by blast
qed (auto simp: ends_with_def)

text \<open>Position of a byte: \<open>str::find(c)\<close> and \<open>str::rfind(c)\<close>.\<close>

fun find_byte :: "char \<Rightarrow> string \<Rightarrow> nat option" where
  "find_byte c [] = None"
| "find_byte c (x # xs) = (if x = c then Some 0 else map_option Suc (find_byte c xs))"

definition rfind_byte :: "char \<Rightarrow> string \<Rightarrow> nat option" where
  "rfind_byte c s = map_option (\<lambda>i. length s - Suc i) (find_byte c (rev s))"

lemma find_byte_Some_iff:
  "find_byte c s = Some i \<longleftrightarrow> i < length s \<and> s ! i = c \<and> c \<notin> set (take i s)"
proof (induction s arbitrary: i)
  case Nil
  then show ?case by simp
next
  case (Cons x s)
  show ?case
  proof (cases i)
    case 0
    then show ?thesis by (auto simp: Cons.IH)
  next
    case (Suc j)
    then show ?thesis by (auto simp: Cons.IH)
  qed
qed

lemma find_byte_None_iff: "find_byte c s = None \<longleftrightarrow> c \<notin> set s"
  by (induction s) auto

lemma find_byte_append_notin:
  "c \<notin> set p \<Longrightarrow> find_byte c (p @ c # s) = Some (length p)"
  by (induction p) auto

lemma rfind_byte_append_notin:
  "c \<notin> set s \<Longrightarrow> rfind_byte c (p @ c # s) = Some (length p)"
  by (simp add: rfind_byte_def find_byte_append_notin)

lemma rfind_byte_None_iff: "rfind_byte c s = None \<longleftrightarrow> c \<notin> set s"
  by (simp add: rfind_byte_def find_byte_None_iff)

lemma rfind_byte_SomeE:
  assumes "rfind_byte c s = Some i"
  obtains p q where "s = p @ c # q" "c \<notin> set q" "i = length p"
proof -
  from assms obtain j where j: "find_byte c (rev s) = Some j" and i: "i = length s - Suc j"
    by (auto simp: rfind_byte_def)
  from j have jl: "j < length s" and at: "rev s ! j = c" and nin: "c \<notin> set (take j (rev s))"
    by (auto simp: find_byte_Some_iff)
  have "s ! i = c" using at jl i by (simp add: rev_nth)
  moreover have "i < length s" using i jl by simp
  ultimately have "s = take i s @ c # drop (Suc i) s" by (metis id_take_nth_drop)
  moreover have "c \<notin> set (drop (Suc i) s)"
  proof -
    have "take j (rev s) = rev (drop (length s - j) s)" by (simp add: take_rev)
    moreover have "length s - j = Suc i" using i jl by simp
    ultimately show ?thesis using nin by simp
  qed
  ultimately show ?thesis using that [of "take i s" "drop (Suc i) s"] \<open>i < length s\<close> by simp
qed

text \<open>Substring search of the standard library: \<open>str::find("...")\<close>, the first occurrence.\<close>

fun find_str :: "string \<Rightarrow> string \<Rightarrow> nat option" where
  "find_str p [] = (if p = [] then Some 0 else None)"
| "find_str p (x # xs) =
     (if starts_with p (x # xs) then Some 0 else map_option Suc (find_str p xs))"

lemma find_str_SomeD: "find_str p s = Some i \<Longrightarrow> \<exists>l r. s = l @ p @ r \<and> length l = i"
proof (induction s arbitrary: i)
  case Nil
  then show ?case by (auto split: if_splits)
next
  case (Cons x s)
  show ?case
  proof (cases "starts_with p (x # s)")
    case True
    with Cons.prems show ?thesis by (auto simp: starts_with_iff)
  next
    case False
    with Cons.prems obtain j where "find_str p s = Some j" and i: "i = Suc j" by auto
    then obtain l r where "s = l @ p @ r" "length l = j" using Cons.IH by blast
    then have "x # s = (x # l) @ p @ r \<and> length (x # l) = i" using i by simp
    then show ?thesis by blast
  qed
qed

lemma find_str_bound: "find_str p s = Some i \<Longrightarrow> i + length p \<le> length s"
  using find_str_SomeD by fastforce

lemma find_str_None_iff: "find_str p s = None \<longleftrightarrow> (\<nexists>l r. s = l @ p @ r)"
proof
  assume none: "find_str p s = None"
  show "\<nexists>l r. s = l @ p @ r"
  proof
    assume "\<exists>l r. s = l @ p @ r"
    then obtain l r where "s = l @ p @ r" by blast
    then have "find_str p s \<noteq> None"
    proof (induction l arbitrary: s)
      case Nil
      then have "starts_with p s" by simp
      then show ?case by (cases s) (simp_all add: starts_with_def)
    next
      case (Cons x l)
      then show ?case by auto
    qed
    with none show False by simp
  qed
next
  assume "\<nexists>l r. s = l @ p @ r"
  then show "find_str p s = None" using find_str_SomeD [of p s] by (cases "find_str p s") blast+
qed

definition contains_str :: "string \<Rightarrow> string \<Rightarrow> bool" where
  "contains_str p s \<longleftrightarrow> find_str p s \<noteq> None"

text \<open>\<open>split(c)\<close>: the (never empty) list of pieces between the separators.\<close>

fun split_on :: "char \<Rightarrow> string \<Rightarrow> string list" where
  "split_on c [] = [[]]"
| "split_on c (x # xs) =
     (if x = c then [] # split_on c xs
      else (case split_on c xs of [] \<Rightarrow> [[x]] | y # ys \<Rightarrow> (x # y) # ys))"

lemma split_on_notin: "c \<notin> set x \<Longrightarrow> split_on c x = [x]"
  by (induction x) auto

lemma split_on_cons: "c \<notin> set x \<Longrightarrow> split_on c (x @ c # s) = x # split_on c s"
  by (induction x) auto

lemma split_on_nonempty [simp]: "split_on c s \<noteq> []"
  by (induction s) (auto split: list.splits)

text \<open>\<open>rsplit(c).next()\<close>: what follows the last separator (the whole string without one).\<close>

definition last_segment :: "char \<Rightarrow> string \<Rightarrow> string" where
  "last_segment c s = (case rfind_byte c s of None \<Rightarrow> s | Some i \<Rightarrow> drop (Suc i) s)"

lemma last_segment_notin: "c \<notin> set (last_segment c s)"
proof (cases "rfind_byte c s")
  case None
  then have "c \<notin> set s" by (rule rfind_byte_None_iff [THEN iffD1])
  then show ?thesis unfolding last_segment_def None option.case .
next
  case (Some i)
  then show ?thesis by (auto simp: last_segment_def elim!: rfind_byte_SomeE)
qed

lemma last_segment_idem [simp]: "last_segment c (last_segment c s) = last_segment c s"
  using last_segment_notin [of c s] by (simp add: last_segment_def [of c "last_segment c s"]
    rfind_byte_None_iff [THEN iffD2])

lemma last_segment_append: "c \<notin> set s \<Longrightarrow> last_segment c (p @ c # s) = s"
  by (simp add: last_segment_def rfind_byte_append_notin)


section \<open>Trimming and case folding\<close>

text \<open>
  \<open>str::trim\<close> removes Unicode white space. Over UTF-8 bytes a white-space character is one
  of the 25 encodings below (the \<open>White_Space\<close> property).
\<close>

definition ws_encodings :: "string list" where
  "ws_encodings =
     [[CHR 0x09], [CHR 0x0A], [CHR 0x0B], [CHR 0x0C], [CHR 0x0D], [CHR 0x20],
      [CHR 0xC2, CHR 0x85], [CHR 0xC2, CHR 0xA0], [CHR 0xE1, CHR 0x9A, CHR 0x80],
      [CHR 0xE2, CHR 0x80, CHR 0x80], [CHR 0xE2, CHR 0x80, CHR 0x81],
      [CHR 0xE2, CHR 0x80, CHR 0x82], [CHR 0xE2, CHR 0x80, CHR 0x83],
      [CHR 0xE2, CHR 0x80, CHR 0x84], [CHR 0xE2, CHR 0x80, CHR 0x85],
      [CHR 0xE2, CHR 0x80, CHR 0x86], [CHR 0xE2, CHR 0x80, CHR 0x87],
      [CHR 0xE2, CHR 0x80, CHR 0x88], [CHR 0xE2, CHR 0x80, CHR 0x89],
      [CHR 0xE2, CHR 0x80, CHR 0x8A], [CHR 0xE2, CHR 0x80, CHR 0xA8],
      [CHR 0xE2, CHR 0x80, CHR 0xA9], [CHR 0xE2, CHR 0x80, CHR 0xAF],
      [CHR 0xE2, CHR 0x81, CHR 0x9F], [CHR 0xE3, CHR 0x80, CHR 0x80]]"

definition leading_ws :: "string list \<Rightarrow> string \<Rightarrow> nat" where
  "leading_ws ws s = (case find (\<lambda>w. starts_with w s) ws of None \<Rightarrow> 0 | Some w \<Rightarrow> length w)"

function strip_leading :: "string list \<Rightarrow> string \<Rightarrow> string" where
  "strip_leading ws s =
     (if 0 < leading_ws ws s \<and> s \<noteq> [] then strip_leading ws (drop (leading_ws ws s) s) else s)"
  by pat_completeness auto
termination
  by (relation "measure (\<lambda>(ws, s). length s)") auto

declare strip_leading.simps [simp del]

definition trim_start :: "string \<Rightarrow> string" where
  "trim_start s = strip_leading ws_encodings s"

definition trim_end :: "string \<Rightarrow> string" where
  "trim_end s = rev (strip_leading (map rev ws_encodings) (rev s))"

definition trim :: "string \<Rightarrow> string" where
  "trim s = trim_end (trim_start s)"

lemma strip_leading_suffix: "\<exists>p. s = p @ strip_leading ws s"
proof (induction ws s rule: strip_leading.induct)
  case (1 ws s)
  show ?case
  proof (cases "0 < leading_ws ws s \<and> s \<noteq> []")
    case True
    then obtain p where p: "drop (leading_ws ws s) s = p @ strip_leading ws (drop (leading_ws ws s) s)"
      using "1.IH" by blast
    then have "s = (take (leading_ws ws s) s @ p) @ strip_leading ws s"
      using True append_take_drop_id [of "leading_ws ws s" s]
      by (simp add: strip_leading.simps [of ws s])
    then show ?thesis by blast
  next
    case False
    then have "strip_leading ws s = s" by (subst strip_leading.simps) auto
    then show ?thesis by simp
  qed
qed

lemma strip_leading_no_ws: "leading_ws ws s = 0 \<Longrightarrow> strip_leading ws s = s"
  by (simp add: strip_leading.simps)

lemma leading_ws_0I: "\<forall>w \<in> set ws. \<not> starts_with w s \<Longrightarrow> leading_ws ws s = 0"
  unfolding leading_ws_def by (auto simp: find_Some_iff split: option.splits)

text \<open>A byte that begins or ends no white-space encoding is never trimmed.\<close>

definition plain_byte :: "char \<Rightarrow> bool" where
  "plain_byte c \<longleftrightarrow> (of_char c :: nat) < 0x80 \<and>
     c \<notin> {CHR 0x09, CHR 0x0A, CHR 0x0B, CHR 0x0C, CHR 0x0D, CHR 0x20}"

lemma ws_encodings_not_plain:
  "w \<in> set ws_encodings \<Longrightarrow> w \<noteq> [] \<and> \<not> plain_byte (hd w) \<and> \<not> plain_byte (last w)"
proof -
  have "list_all (\<lambda>w. w \<noteq> [] \<and> \<not> plain_byte (hd w) \<and> \<not> plain_byte (last w)) ws_encodings"
    by code_simp
  then show "w \<in> set ws_encodings \<Longrightarrow> ?thesis" by (simp add: list_all_iff)
qed

lemma starts_with_hd: "starts_with w s \<Longrightarrow> w \<noteq> [] \<Longrightarrow> s \<noteq> [] \<and> hd s = hd w"
  by (auto simp: starts_with_iff)

lemma trim_start_plain: "s = [] \<or> plain_byte (hd s) \<Longrightarrow> trim_start s = s"
  unfolding trim_start_def
  by (intro strip_leading_no_ws leading_ws_0I)
     (metis starts_with_hd ws_encodings_not_plain)

lemma trim_end_plain: "s = [] \<or> plain_byte (last s) \<Longrightarrow> trim_end s = s"
proof -
  assume s: "s = [] \<or> plain_byte (last s)"
  have "\<not> starts_with (rev w) (rev s)" if "w \<in> set ws_encodings" for w
    using that s ws_encodings_not_plain [OF that] starts_with_hd [of "rev w" "rev s"]
    by (auto simp: hd_rev)
  then have "strip_leading (map rev ws_encodings) (rev s) = rev s"
    by (intro strip_leading_no_ws leading_ws_0I) auto
  then show ?thesis by (simp add: trim_end_def)
qed

lemma trim_plain: "s = [] \<or> plain_byte (hd s) \<and> plain_byte (last s) \<Longrightarrow> trim s = s"
  by (auto simp: trim_def trim_start_plain trim_end_plain)

definition ascii_lower :: "char \<Rightarrow> char" where
  "ascii_lower c = (let n = of_char c :: nat in if 65 \<le> n \<and> n \<le> 90 then char_of (n + 32) else c)"

definition is_ascii_upper :: "char \<Rightarrow> bool" where
  "is_ascii_upper c = (let n = of_char c :: nat in 65 \<le> n \<and> n \<le> 90)"

definition to_ascii_lowercase :: "string \<Rightarrow> string" where
  "to_ascii_lowercase s = map ascii_lower s"

definition eq_ignore_ascii_case :: "string \<Rightarrow> string \<Rightarrow> bool" where
  "eq_ignore_ascii_case a b \<longleftrightarrow> to_ascii_lowercase a = to_ascii_lowercase b"

definition is_ascii_digit :: "char \<Rightarrow> bool" where
  "is_ascii_digit c = (let n = of_char c :: nat in 48 \<le> n \<and> n \<le> 57)"

definition is_ascii_alnum :: "char \<Rightarrow> bool" where
  "is_ascii_alnum c = (let n = of_char c :: nat in
     48 \<le> n \<and> n \<le> 57 \<or> 65 \<le> n \<and> n \<le> 90 \<or> 97 \<le> n \<and> n \<le> 122)"

text \<open>\<open>u8::is_ascii_whitespace\<close>: tab, line feed, form feed, carriage return, space.\<close>

definition is_ascii_whitespace :: "char \<Rightarrow> bool" where
  "is_ascii_whitespace c \<longleftrightarrow> c \<in> {CHR 0x09, CHR 0x0A, CHR 0x0C, CHR 0x0D, CHR 0x20}"

lemma ascii_lower_idem [simp]: "ascii_lower (ascii_lower c) = ascii_lower c"
  by (auto simp: ascii_lower_def Let_def)

lemma to_ascii_lowercase_idem [simp]: "to_ascii_lowercase (to_ascii_lowercase s) = to_ascii_lowercase s"
  by (simp add: to_ascii_lowercase_def comp_def)

lemma ascii_lower_not_upper: "\<not> is_ascii_upper c \<Longrightarrow> ascii_lower c = c"
  by (auto simp: ascii_lower_def is_ascii_upper_def Let_def)

lemma length_to_ascii_lowercase [simp]: "length (to_ascii_lowercase s) = length s"
  by (simp add: to_ascii_lowercase_def)

section \<open>Numbers\<close>

definition u16_max :: nat where "u16_max = 65535"
definition u32_max :: nat where "u32_max = 4294967295"
definition u64_max :: nat where "u64_max = 18446744073709551615"

text \<open>\<open>saturating_add\<close> / \<open>saturating_mul\<close> on \<open>u64\<close>; \<open>saturating_sub\<close> is subtraction on \<^typ>\<open>nat\<close>.\<close>

definition sat_add :: "nat \<Rightarrow> nat \<Rightarrow> nat" where
  "sat_add a b = min (a + b) u64_max"

definition sat_mul :: "nat \<Rightarrow> nat \<Rightarrow> nat" where
  "sat_mul a b = min (a * b) u64_max"

text \<open>Release-mode \<open>i32\<close> arithmetic wraps around.\<close>

definition i32_wrap :: "int \<Rightarrow> int" where
  "i32_wrap x = (x + 2147483648) mod 4294967296 - 2147483648"

lemma i32_wrap_id: "- 2147483648 \<le> x \<Longrightarrow> x < 2147483648 \<Longrightarrow> i32_wrap x = x"
  by (simp add: i32_wrap_def)

text \<open>Decimal rendering (\<open>format!("{}", n)\<close>) and \<open>str::parse\<close> for an unsigned type of bound \<open>m\<close>.\<close>

definition digit_char :: "nat \<Rightarrow> char" where
  "digit_char d = char_of (48 + d)"

fun dec_of_nat :: "nat \<Rightarrow> string" where
  "dec_of_nat n = (if n < 10 then [digit_char n] else dec_of_nat (n div 10) @ [digit_char (n mod 10)])"

declare dec_of_nat.simps [simp del]

fun digits_value :: "nat \<Rightarrow> string \<Rightarrow> nat option" where
  "digits_value acc [] = Some acc"
| "digits_value acc (c # cs) =
     (if is_ascii_digit c then digits_value (10 * acc + (of_char c - 48)) cs else None)"

definition parse_uint :: "nat \<Rightarrow> string \<Rightarrow> nat option" where
  "parse_uint m s =
     (let ds = (case s of CHR ''+'' # r \<Rightarrow> r | _ \<Rightarrow> s)
      in if ds = [] then None
         else (case digits_value 0 ds of None \<Rightarrow> None | Some n \<Rightarrow> if n \<le> m then Some n else None))"

lemma digit_char_nat: "d < 10 \<Longrightarrow> (of_char (digit_char d) :: nat) = 48 + d"
  by (simp add: digit_char_def)

lemma digit_char_digit: "d < 10 \<Longrightarrow> is_ascii_digit (digit_char d)"
  by (simp add: is_ascii_digit_def digit_char_nat)

lemma digits_value_append:
  "digits_value a (xs @ ys) = (case digits_value a xs of None \<Rightarrow> None | Some b \<Rightarrow> digits_value b ys)"
  by (induction xs arbitrary: a) auto

lemma digits_value_dec: "digits_value 0 (dec_of_nat n) = Some n"
proof (induction n rule: dec_of_nat.induct)
  case (1 n)
  show ?case
  proof (cases "n < 10")
    case True
    then show ?thesis
      by (simp add: dec_of_nat.simps [of n] digit_char_digit digit_char_nat)
  next
    case False
    then show ?thesis
      using "1.IH" by (simp add: dec_of_nat.simps [of n] digits_value_append digit_char_digit
          digit_char_nat)
  qed
qed

lemma dec_of_nat_digits: "\<forall>c \<in> set (dec_of_nat n). is_ascii_digit c"
proof (induction n rule: dec_of_nat.induct)
  case (1 n)
  then show ?case
    by (cases "n < 10") (simp_all add: dec_of_nat.simps [of n] digit_char_digit)
qed

lemma lower_dec: "to_ascii_lowercase (dec_of_nat n) = dec_of_nat n"
  unfolding to_ascii_lowercase_def using dec_of_nat_digits [of n]
  by (intro map_idI) (auto simp: ascii_lower_def is_ascii_digit_def Let_def)

lemma dec_of_nat_nonempty [simp]: "dec_of_nat n \<noteq> []"
  by (subst dec_of_nat.simps) simp

lemma parse_uint_dec: "n \<le> m \<Longrightarrow> parse_uint m (dec_of_nat n) = Some n"
proof -
  assume "n \<le> m"
  obtain c cs where d: "dec_of_nat n = c # cs" by (cases "dec_of_nat n") auto
  then have "is_ascii_digit c" using dec_of_nat_digits [of n] by simp
  then have "c \<noteq> CHR ''+''" by (auto simp: is_ascii_digit_def)
  then have "(case c # cs of CHR ''+'' # r \<Rightarrow> r | _ \<Rightarrow> c # cs) = c # cs"
    by (auto split: list.splits char.splits bool.splits)
  with \<open>n \<le> m\<close> d digits_value_dec [of n] show ?thesis
    by (simp add: parse_uint_def)
qed

lemma parse_uint_le: "parse_uint m s = Some n \<Longrightarrow> n \<le> m"
  by (auto simp: parse_uint_def Let_def split: if_splits option.splits)

section \<open>Maps\<close>

text \<open>
  The operations of \<open>HashMap\<close> / \<open>DashMap\<close> used by the source: \<open>get\<close>, \<open>insert\<close> (and the
  write through \<open>entry\<close> or \<open>get_mut\<close>), \<open>remove\<close> and \<open>retain\<close>.
\<close>

definition hm_get :: "('k, 'v) hash_map \<Rightarrow> 'k \<Rightarrow> 'v option" where
  "hm_get m k = map_of m k"

definition hm_insert :: "'k \<Rightarrow> 'v \<Rightarrow> ('k, 'v) hash_map \<Rightarrow> ('k, 'v) hash_map" where
  "hm_insert k v m = AList.update k v m"

definition hm_remove :: "'k \<Rightarrow> ('k, 'v) hash_map \<Rightarrow> ('k, 'v) hash_map" where
  "hm_remove k m = filter (\<lambda>(k', _). k' \<noteq> k) m"

definition hm_retain :: "('k \<Rightarrow> 'v \<Rightarrow> bool) \<Rightarrow> ('k, 'v) hash_map \<Rightarrow> ('k, 'v) hash_map" where
  "hm_retain P m = filter (\<lambda>(k, v). P k v) m"

definition hm_keys :: "('k, 'v) hash_map \<Rightarrow> 'k list" where
  "hm_keys m = map fst m"

definition hm_wf :: "('k, 'v) hash_map \<Rightarrow> bool" where
  "hm_wf m \<longleftrightarrow> distinct (map fst m)"

locale map_interface =
  fixes get :: "'m \<Rightarrow> 'k \<Rightarrow> 'v option"
    and insert :: "'k \<Rightarrow> 'v \<Rightarrow> 'm \<Rightarrow> 'm"
    and remove :: "'k \<Rightarrow> 'm \<Rightarrow> 'm"
    and retain :: "('k \<Rightarrow> 'v \<Rightarrow> bool) \<Rightarrow> 'm \<Rightarrow> 'm"
    and keys :: "'m \<Rightarrow> 'k list"
    and wf :: "'m \<Rightarrow> bool"
    and empty :: "'m"
  assumes get_empty: "get empty k = None"
    and get_insert: "get (insert k v m) k' = (if k' = k then Some v else get m k')"
    and get_remove: "get (remove k m) k' = (if k' = k then None else get m k')"
    and get_retain: "wf m \<Longrightarrow> get (retain P m) k =
          (case get m k of None \<Rightarrow> None | Some v \<Rightarrow> if P k v then Some v else None)"
    and keys_get: "k \<in> set (keys m) \<longleftrightarrow> get m k \<noteq> None"
    and wf_empty: "wf empty"
    and wf_insert: "wf m \<Longrightarrow> wf (insert k v m)"
    and wf_remove: "wf m \<Longrightarrow> wf (remove k m)"
    and wf_retain: "wf m \<Longrightarrow> wf (retain P m)"
    and keys_distinct: "wf m \<Longrightarrow> distinct (keys m)"
begin

lemma get_insert_same: "get (insert k v m) k = Some v"
  by (simp add: get_insert)

lemma get_insert_other: "k' \<noteq> k \<Longrightarrow> get (insert k v m) k' = get m k'"
  by (simp add: get_insert)

lemma insert_twice: "get (insert k v (insert k w m)) k' = get (insert k v m) k'"
  by (simp add: get_insert)

lemma insert_swap:
  "k \<noteq> l \<Longrightarrow> get (insert k v (insert l w m)) x = get (insert l w (insert k v m)) x"
  by (auto simp: get_insert)

lemma remove_insert: "get (remove k (insert k v m)) k' = get (remove k m) k'"
  by (simp add: get_remove get_insert)

lemma retain_all: "wf m \<Longrightarrow> (\<And>k v. get m k = Some v \<Longrightarrow> P k v) \<Longrightarrow> get (retain P m) k = get m k"
  by (auto simp: get_retain split: option.splits)

lemma retain_mono: "wf m \<Longrightarrow> get (retain P m) k = Some v \<Longrightarrow> get m k = Some v \<and> P k v"
  by (auto simp: get_retain split: option.splits if_splits)

lemma keys_insert: "set (keys (insert k v m)) = Set.insert k (set (keys m))"
  by (auto simp: keys_get get_insert split: if_splits)

end

lemma map_of_filter_distinct:
  "distinct (map fst m) \<Longrightarrow> map_of (filter (\<lambda>(k, v). P k v) m) k =
     (case map_of m k of None \<Rightarrow> None | Some v \<Rightarrow> if P k v then Some v else None)"
  by (induction m) (auto split: option.splits simp: map_of_eq_None_iff image_iff)

interpretation hm: map_interface hm_get hm_insert hm_remove hm_retain hm_keys hm_wf "[]"
proof
  show "hm_get [] k = None" for k :: 'a by (simp add: hm_get_def)
next
  show "hm_get (hm_insert k v m) k' = (if k' = k then Some v else hm_get m k')"
    for k :: 'a and v :: 'b and m k' by (simp add: hm_get_def hm_insert_def update_conv')
next
  show "hm_get (hm_remove k m) k' = (if k' = k then None else hm_get m k')"
    for k :: 'a and m :: "('a, 'b) hash_map" and k'
    unfolding hm_get_def hm_remove_def by (induction m) auto
next
  show "hm_get (hm_retain P m) k =
      (case hm_get m k of None \<Rightarrow> None | Some v \<Rightarrow> if P k v then Some v else None)"
    if "hm_wf m" for P and m :: "('a, 'b) hash_map" and k
    using that by (simp add: hm_get_def hm_retain_def hm_wf_def map_of_filter_distinct)
next
  show "(k \<in> set (hm_keys m)) = (hm_get m k \<noteq> None)" for k :: 'a and m :: "('a, 'b) hash_map"
    by (simp add: hm_keys_def hm_get_def map_of_eq_None_iff)
next
  show "hm_wf []" by (simp add: hm_wf_def)
next
  show "hm_wf (hm_insert k v m)" if "hm_wf m" for k :: 'a and v :: 'b and m
    using that by (simp add: hm_wf_def hm_insert_def distinct_update)
next
  show "hm_wf (hm_remove k m)" if "hm_wf m" for k :: 'a and m :: "('a, 'b) hash_map"
    using that by (simp add: hm_wf_def hm_remove_def distinct_map_filter)
next
  show "hm_wf (hm_retain P m)" if "hm_wf m" for P and m :: "('a, 'b) hash_map"
    using that by (simp add: hm_wf_def hm_retain_def distinct_map_filter)
next
  show "distinct (hm_keys m)" if "hm_wf m" for m :: "('a, 'b) hash_map"
    using that by (simp add: hm_keys_def hm_wf_def)
qed

section \<open>Errors of the pure core\<close>

text \<open>\<open>hygress_core::error::Error\<close> with its three variants and their message.\<close>

datatype error = Parse string | Invalid string | Unknown string

definition error_to_string :: "error \<Rightarrow> string" where
  "error_to_string e = (case e of
     Parse m \<Rightarrow> ''parse error: '' @ m
   | Invalid m \<Rightarrow> ''invalid: '' @ m
   | Unknown m \<Rightarrow> ''unknown: '' @ m)"

definition quoted :: "string \<Rightarrow> string" where
  "quoted s = CHR 0x27 # s @ [CHR 0x27]"

text \<open>\<open>collect()\<close> into a \<open>Result\<close>: the first error wins.\<close>

fun collect_results :: "('e + 'a) list \<Rightarrow> 'e + 'a list" where
  "collect_results [] = Inr []"
| "collect_results (Inl e # _) = Inl e"
| "collect_results (Inr x # rs) =
     (case collect_results rs of Inl e \<Rightarrow> Inl e | Inr xs \<Rightarrow> Inr (x # xs))"

lemma collect_results_Inr: "collect_results (map Inr xs) = Inr xs"
  by (induction xs) auto

end
