(* ===== verification/Last_Known_Good.thy ===== *)
theory Last_Known_Good
  imports Prelude
begin

text \<open>
  The contract of everything the gateway replaces at run time and keeps when a replacement fails: the
  policy (\<open>policy_loader.rs\<close>) and the configuration snapshot (\<open>config.rs\<close>). An attempt reports whether
  it was accepted; what is in use afterwards is its result, or what was in use.
\<close>

locale last_known_good =
  fixes attempt :: "'i \<Rightarrow> 's \<Rightarrow> bool \<times> 's"
    and in_use :: "'s \<Rightarrow> 'v"
    and outcome :: "'i \<Rightarrow> 's \<Rightarrow> 'v option"
  assumes accepted: "fst (attempt i s) \<longleftrightarrow> outcome i s \<noteq> None"
    and replaced: "in_use (snd (attempt i s)) = (case outcome i s of Some v \<Rightarrow> v | None \<Rightarrow> in_use s)"
    and steady: "outcome j (snd (attempt i s)) = outcome j s"
begin

fun attempts :: "'i list \<Rightarrow> 's \<Rightarrow> 's" where
  "attempts [] s = s"
| "attempts (i # is) s = attempts is (snd (attempt i s))"

lemma rejected_keeps: "\<not> fst (attempt i s) \<Longrightarrow> in_use (snd (attempt i s)) = in_use s"
  by (simp add: accepted replaced)

lemma outcome_attempts: "outcome j (attempts is s) = outcome j s"
  by (induction "is" arbitrary: s) (simp_all add: steady)

text \<open>What is in use is the last accepted outcome, however many attempts failed since.\<close>

lemma last_accepted:
  "in_use (attempts is s) =
     (case List.map_filter (\<lambda>i. outcome i s) is of [] \<Rightarrow> in_use s | v # vs \<Rightarrow> List.last (v # vs))"
proof (induction "is" rule: rev_induct)
  case (snoc i "is")
  have "attempts (is @ [i]) s = snd (attempt i (attempts is s))"
    by (induction "is" arbitrary: s) simp_all
  then show ?case
    using snoc by (auto simp: replaced outcome_attempts map_filter_def split: option.splits list.splits)
qed (simp add: map_filter_def)

lemma in_use_origin:
  "in_use (attempts is s) = in_use s \<or> (\<exists>i \<in> set is. outcome i s = Some (in_use (attempts is s)))"
proof (induction "is" arbitrary: s)
  case (Cons i "is")
  let ?s = "snd (attempt i s)"
  have "in_use (attempts is ?s) = in_use ?s \<or> (\<exists>j \<in> set is. outcome j s = Some (in_use (attempts is ?s)))"
    using Cons.IH [of ?s] by (simp add: steady)
  moreover have "in_use ?s = in_use s \<or> outcome i s = Some (in_use ?s)"
    by (simp add: replaced split: option.splits)
  ultimately show ?case by auto
qed simp

end

end
