(* ===== verification/Destination.thy ===== *)
theory Destination
  imports Prelude
begin

text \<open>
  Service references and destination entries, \<open>hygress-core/src/destination.rs\<close>: the textual
  forms \<open>name.type[:port]\<close> and \<open>"<pct>% <service>"\<close>, their parsers with every error, and the
  newline-separated block. The lemmas give the round trips between text and data.
\<close>

datatype service_type = Static | Dns | Proxy | Tunnel

definition suffix :: "service_type \<Rightarrow> string" where
  "suffix k = (case k of Static \<Rightarrow> ''static'' | Dns \<Rightarrow> ''dns'' | Proxy \<Rightarrow> ''proxy'' | Tunnel \<Rightarrow> ''tunnel'')"

definition from_suffix :: "string \<Rightarrow> service_type option" where
  "from_suffix s =
     (if s = ''static'' then Some Static else if s = ''dns'' then Some Dns
      else if s = ''proxy'' then Some Proxy else if s = ''tunnel'' then Some Tunnel else None)"

record service_ref =
  sr_name :: string
  sr_kind :: service_type
  sr_port :: "nat option"

definition service_name :: "service_ref \<Rightarrow> string" where
  "service_name r = sr_name r @ CHR ''.'' # suffix (sr_kind r)"

definition service_name_with_port :: "service_ref \<Rightarrow> string" where
  "service_name_with_port r =
     service_name r @ CHR '':'' # dec_of_nat (case sr_port r of None \<Rightarrow> 80 | Some p \<Rightarrow> p)"

text \<open>The optional \<open>:port\<close> is split off first, then the type suffix.\<close>

definition split_port :: "string \<Rightarrow> error + string \<times> nat option" where
  "split_port input =
     (case rfind_byte CHR '':'' input of
        Some i \<Rightarrow>
          (let port_str = drop (Suc i) input in
           if port_str = [] then
             Inl (Parse (''service '' @ quoted input @ '' has a trailing '' @ quoted '':'' @ '' without port''))
           else (case parse_uint u16_max port_str of
                   None \<Rightarrow> Inl (Parse (''invalid port '' @ quoted port_str @ '' in service '' @ quoted input))
                 | Some port \<Rightarrow> Inr (take i input, Some port)))
      | None \<Rightarrow> Inr (input, None))"

definition split_kind :: "string \<Rightarrow> string \<Rightarrow> error + string \<times> service_type" where
  "split_kind input name_type =
     (case rfind_byte CHR ''.'' name_type of
        None \<Rightarrow> Inl (Parse (''service '' @ quoted input @ '' missing '' @ quoted ''.type'' @ '' suffix''))
      | Some dot \<Rightarrow>
          (let name = take dot name_type; sfx = drop (Suc dot) name_type in
           if name = [] then Inl (Parse (''service '' @ quoted input @ '' has an empty name''))
           else if sfx = [] then Inl (Parse (''service '' @ quoted input @ '' has an empty type suffix''))
           else (case from_suffix sfx of
                   None \<Rightarrow> Inl (Unknown (''unknown service type '' @ quoted sfx @ '' in '' @ quoted input))
                 | Some kind \<Rightarrow> Inr (name, kind))))"

definition parse_service_with_port :: "string \<Rightarrow> error + service_ref" where
  "parse_service_with_port inp =
     (let input = trim inp in
      if input = [] then Inl (Parse ''empty service reference'')
      else (case split_port input of Inl e \<Rightarrow> Inl e
            | Inr (name_type, port) \<Rightarrow>
                (case split_kind input name_type of Inl e \<Rightarrow> Inl e
                 | Inr (name, kind) \<Rightarrow> Inr \<lparr>sr_name = name, sr_kind = kind, sr_port = port\<rparr>)))"

record destination =
  dest_percent :: "nat option"
  dest_service :: string

definition destination_new :: "string \<Rightarrow> destination" where
  "destination_new s = \<lparr>dest_percent = None, dest_service = s\<rparr>"

definition destination_with_percent :: "nat \<Rightarrow> string \<Rightarrow> destination" where
  "destination_with_percent p s = \<lparr>dest_percent = Some p, dest_service = s\<rparr>"

definition destination_parse :: "string \<Rightarrow> error + destination" where
  "destination_parse ent =
     (let entry = trim ent in
      if entry = [] then Inl (Parse ''empty destination entry'')
      else (case find_byte CHR ''%'' entry of
          Some idx \<Rightarrow>
            (let pct_str = trim (take idx entry) in
             case parse_uint u32_max pct_str of
               None \<Rightarrow> Inl (Parse (''invalid percent '' @ quoted pct_str @ '' in entry '' @ quoted entry))
             | Some percent \<Rightarrow>
                 (let service = trim (drop (Suc idx) entry) in
                  if service = [] then
                    Inl (Parse (''entry '' @ quoted entry @ '' has a percent but no service''))
                  else Inr \<lparr>dest_percent = Some percent, dest_service = service\<rparr>))
        | None \<Rightarrow> Inr \<lparr>dest_percent = None, dest_service = entry\<rparr>))"

definition dest_weight :: "destination \<Rightarrow> nat" where
  "dest_weight d = (case dest_percent d of None \<Rightarrow> 100 | Some p \<Rightarrow> p)"

definition dest_service_ref :: "destination \<Rightarrow> error + service_ref" where
  "dest_service_ref d = parse_service_with_port (dest_service d)"

text \<open>\<open>str::lines\<close>: pieces ended by LF, one CR before it removed, no empty last piece.\<close>

definition str_lines :: "string \<Rightarrow> string list" where
  "str_lines s =
     (let ps = split_on CHR 0x0A s;
          ended = map (\<lambda>p. case strip_suffix [CHR 0x0D] p of None \<Rightarrow> p | Some q \<Rightarrow> q) (butlast ps)
      in ended @ (if last ps = [] then [] else [last ps]))"

definition parse_destinations :: "string \<Rightarrow> error + destination list" where
  "parse_destinations block =
     collect_results (map destination_parse
       (filter (\<lambda>line. line \<noteq> []) (map trim (str_lines block))))"

section \<open>Service references: round trip\<close>

lemma from_suffix_suffix [simp]: "from_suffix (suffix k) = Some k"
  by (cases k) (simp_all add: suffix_def from_suffix_def)

lemma from_suffix_Some_iff: "from_suffix s = Some k \<longleftrightarrow> s = suffix k"
  by (cases k) (auto simp: suffix_def from_suffix_def)

lemma suffix_plain [simp]: "suffix k \<noteq> []" "CHR ''.'' \<notin> set (suffix k)" "CHR '':'' \<notin> set (suffix k)"
  by (cases k; simp add: suffix_def)+

lemma starts_with_append_cut:
  "starts_with w (p @ c # r) \<Longrightarrow> c \<notin> set w \<Longrightarrow> starts_with w p"
proof -
  assume s: "starts_with w (p @ c # r)" and c: "c \<notin> set w"
  have "length w \<le> length p"
  proof (rule ccontr)
    assume "\<not> length w \<le> length p"
    then have "(p @ c # r) ! length p = w ! length p"
      using s by (metis linorder_not_le nth_take starts_with_def)
    then show False using c \<open>\<not> length w \<le> length p\<close> by (metis linorder_not_le nth_append_length nth_mem)
  qed
  then show ?thesis using s by (simp add: starts_with_def)
qed

lemma leading_ws_0_iff: "leading_ws ws_encodings s = 0 \<longleftrightarrow> (\<forall>w \<in> set ws_encodings. \<not> starts_with w s)"
proof
  assume z: "leading_ws ws_encodings s = 0"
  show "\<forall>w \<in> set ws_encodings. \<not> starts_with w s"
  proof (rule ccontr)
    assume "\<not> (\<forall>w \<in> set ws_encodings. \<not> starts_with w s)"
    then have "find (\<lambda>w. starts_with w s) ws_encodings \<noteq> None" unfolding find_None_iff by blast
    then obtain w where w: "find (\<lambda>w. starts_with w s) ws_encodings = Some w" by blast
    then have "w \<in> set ws_encodings" by (auto simp: find_Some_iff)
    then show False using z w ws_encodings_not_plain by (auto simp: leading_ws_def)
  qed
qed (rule leading_ws_0I)

lemma ws_no_ascii: "w \<in> set ws_encodings \<Longrightarrow> CHR ''.'' \<notin> set w \<and> CHR '':'' \<notin> set w"
proof -
  have "list_all (\<lambda>w. CHR ''.'' \<notin> set w \<and> CHR '':'' \<notin> set w) ws_encodings" by code_simp
  then show "w \<in> set ws_encodings \<Longrightarrow> ?thesis" by (simp add: list_all_iff)
qed

lemma leading_ws_strip_leading: "[] \<notin> set ws \<Longrightarrow> leading_ws ws (strip_leading ws s) = 0"
proof (induction ws s rule: strip_leading.induct)
  case (1 ws s)
  show ?case
  proof (cases "0 < leading_ws ws s \<and> s \<noteq> []")
    case True
    then show ?thesis using "1.IH" "1.prems" by (simp add: strip_leading.simps [of ws s])
  next
    case False
    have "leading_ws ws [] = 0"
      using "1.prems" by (intro leading_ws_0I) (auto simp: starts_with_def)
    moreover have "strip_leading ws s = s" using False by (subst strip_leading.simps) auto
    ultimately show ?thesis using False by auto
  qed
qed

lemma trim_end_prefix: "\<exists>q. s = trim_end s @ q"
proof -
  obtain p where "rev s = p @ strip_leading (map rev ws_encodings) (rev s)"
    using strip_leading_suffix by blast
  then have "s = rev (strip_leading (map rev ws_encodings) (rev s)) @ rev p" by (metis rev_append rev_rev_ident)
  then show ?thesis by (auto simp: trim_end_def)
qed

lemma trim_no_leading: "leading_ws ws_encodings (trim s) = 0"
proof -
  obtain q where q: "trim_start s = trim s @ q" using trim_end_prefix [of "trim_start s"]
    by (auto simp: trim_def)
  have "\<forall>w \<in> set ws_encodings. \<not> starts_with w (trim s @ q)"
    using leading_ws_strip_leading [of ws_encodings s] ws_encodings_not_plain
    unfolding q [symmetric] trim_start_def leading_ws_0_iff by blast
  then show ?thesis by (auto simp: leading_ws_0_iff starts_with_iff)
qed

lemma is_ascii_digit_plain: "is_ascii_digit c \<Longrightarrow> plain_byte c"
  by (auto simp: is_ascii_digit_def plain_byte_def Let_def)

lemma trim_service_text:
  assumes "leading_ws ws_encodings name = 0" and "name \<noteq> []"
  shows "trim (name @ CHR ''.'' # s @ CHR '':'' # dec_of_nat n) = name @ CHR ''.'' # s @ CHR '':'' # dec_of_nat n"
proof -
  let ?t = "name @ CHR ''.'' # s @ CHR '':'' # dec_of_nat n"
  have "\<forall>w \<in> set ws_encodings. \<not> starts_with w ?t"
    using assms(1) ws_no_ascii starts_with_append_cut by (auto simp: leading_ws_0_iff)
  then have "trim_start ?t = ?t" unfolding trim_start_def
    by (intro strip_leading_no_ws leading_ws_0I) auto
  moreover have "plain_byte (last ?t)"
    using dec_of_nat_digits [of n] last_in_set [OF dec_of_nat_nonempty [of n]]
    by (auto intro: is_ascii_digit_plain)
  then have "trim_end ?t = ?t" by (intro trim_end_plain) simp
  ultimately show ?thesis by (simp add: trim_def)
qed

lemma parse_service_text:
  assumes "leading_ws ws_encodings name = 0" and "name \<noteq> []" and "p \<le> u16_max"
  shows "parse_service_with_port (name @ CHR ''.'' # suffix k @ CHR '':'' # dec_of_nat p) =
    Inr \<lparr>sr_name = name, sr_kind = k, sr_port = Some p\<rparr>"
proof -
  let ?nt = "name @ CHR ''.'' # suffix k"
  have "CHR '':'' \<notin> set (dec_of_nat p)"
    using dec_of_nat_digits [of p] by (auto simp: is_ascii_digit_def)
  then have "rfind_byte CHR '':'' (?nt @ CHR '':'' # dec_of_nat p) = Some (length ?nt)"
    by (rule rfind_byte_append_notin)
  moreover have "rfind_byte CHR ''.'' ?nt = Some (length name)"
    by (intro rfind_byte_append_notin) simp
  ultimately show ?thesis
    using trim_service_text [OF assms(1,2)] assms(2) parse_uint_dec [OF assms(3)]
    by (simp add: parse_service_with_port_def split_port_def split_kind_def Let_def)
qed

lemma split_port_InrD:
  "split_port i = Inr (nt, port) \<Longrightarrow> (\<exists>q. i = nt @ q) \<and> (\<forall>p. port = Some p \<longrightarrow> p \<le> u16_max)"
  unfolding split_port_def Let_def
  by (auto split: option.splits if_splits dest: parse_uint_le) (metis append_take_drop_id)

lemma split_kind_InrD: "split_kind i nt = Inr (name, kind) \<Longrightarrow> (\<exists>q. nt = name @ q) \<and> name \<noteq> []"
  unfolding split_kind_def Let_def
  by (auto split: option.splits if_splits) (metis append_take_drop_id)

lemma parse_service_InrD:
  assumes "parse_service_with_port inp = Inr r"
  shows "leading_ws ws_encodings (sr_name r) = 0" and "sr_name r \<noteq> []"
    and "sr_port r = Some p \<Longrightarrow> p \<le> u16_max"
proof -
  obtain nt port where sp: "split_port (trim inp) = Inr (nt, port)"
    and sk: "split_kind (trim inp) nt = Inr (sr_name r, sr_kind r)" and "sr_port r = port"
    using assms by (auto simp: parse_service_with_port_def Let_def split: if_splits sum.splits prod.splits)
  then show "sr_name r \<noteq> []" "sr_port r = Some p \<Longrightarrow> p \<le> u16_max"
    using split_port_InrD [OF sp] split_kind_InrD [OF sk] by auto
  obtain q where "trim inp = sr_name r @ q"
    using split_port_InrD [OF sp] split_kind_InrD [OF sk] by auto
  then have "\<forall>w \<in> set ws_encodings. \<not> starts_with w (sr_name r)"
    using trim_no_leading [of inp] by (auto simp: leading_ws_0_iff starts_with_iff)
  then show "leading_ws ws_encodings (sr_name r) = 0" by (simp add: leading_ws_0_iff)
qed

text \<open>
  Whatever text parses as a service reference, printing it with
  \<open>service_name_with_port\<close> and parsing again gives the same reference with its port filled in
  (80 when absent).
\<close>

theorem service_ref_roundtrip:
  assumes "parse_service_with_port inp = Inr r"
  shows "parse_service_with_port (service_name_with_port r) =
    Inr (r\<lparr>sr_port := Some (case sr_port r of None \<Rightarrow> 80 | Some p \<Rightarrow> p)\<rparr>)"
proof -
  have "(case sr_port r of None \<Rightarrow> 80 | Some p \<Rightarrow> p) \<le> u16_max"
    using parse_service_InrD(3) [OF assms] by (auto simp: u16_max_def split: option.splits)
  from parse_service_text [OF _ _ this, of "sr_name r" "sr_kind r"] parse_service_InrD(1,2) [OF assms]
  show ?thesis by (simp add: service_name_with_port_def service_name_def)
qed

theorem service_ref_roundtrip_witness:
  "parse_service_with_port ''model-1.static:80'' =
    Inr \<lparr>sr_name = ''model-1'', sr_kind = Static, sr_port = Some 80\<rparr>"
proof -
  have "parse_service_with_port '' model-1.static'' =
      Inr \<lparr>sr_name = ''model-1'', sr_kind = Static, sr_port = None\<rparr>" by code_simp
  note rt = service_ref_roundtrip [OF this]
  have "service_name_with_port \<lparr>sr_name = ''model-1'', sr_kind = Static, sr_port = None\<rparr> =
      ''model-1.static:80'' \<and> (case None of None \<Rightarrow> 80 | Some p \<Rightarrow> p) = (80::nat)" by code_simp
  with rt show ?thesis by simp
qed

section \<open>Destination blocks: round trip\<close>

fun join_with :: "char \<Rightarrow> string list \<Rightarrow> string" where
  "join_with c [] = []"
| "join_with c [x] = x"
| "join_with c (x # y # xs) = x @ c # join_with c (y # xs)"

definition destination_text :: "destination \<Rightarrow> string" where
  "destination_text d = (case dest_percent d of None \<Rightarrow> dest_service d
     | Some p \<Rightarrow> dec_of_nat p @ ''% '' @ dest_service d)"

definition dest_ok :: "destination \<Rightarrow> bool" where
  "dest_ok d \<longleftrightarrow> dest_service d \<noteq> [] \<and> plain_byte (hd (dest_service d)) \<and>
     plain_byte (last (dest_service d)) \<and> CHR 0x0A \<notin> set (dest_service d) \<and>
     (case dest_percent d of None \<Rightarrow> CHR ''%'' \<notin> set (dest_service d) | Some p \<Rightarrow> p \<le> u32_max)"

lemma split_on_join: "xs \<noteq> [] \<Longrightarrow> \<forall>x \<in> set xs. c \<notin> set x \<Longrightarrow> split_on c (join_with c xs) = xs"
  by (induction c xs rule: join_with.induct) (simp_all add: split_on_notin split_on_cons)

lemma hd_dec_plain: "plain_byte (hd (dec_of_nat n))" "plain_byte (last (dec_of_nat n))"
  using dec_of_nat_digits [of n] by (simp_all add: is_ascii_digit_plain)

lemma dec_no_byte: "\<not> is_ascii_digit c \<Longrightarrow> c \<notin> set (dec_of_nat n)"
  using dec_of_nat_digits [of n] by auto

lemma destination_text_trim: "dest_ok d \<Longrightarrow> trim (destination_text d) = destination_text d"
  by (intro trim_plain) (auto simp: dest_ok_def destination_text_def hd_dec_plain split: option.splits)

lemma destination_text_shape:
  assumes "dest_ok d"
  shows "destination_text d \<noteq> []" "CHR 0x0A \<notin> set (destination_text d)"
    "plain_byte (last (destination_text d))"
  using assms dec_no_byte [of "CHR 0x0A"]
  by (auto simp: dest_ok_def destination_text_def is_ascii_digit_def split: option.splits)

lemma trim_start_space: "plain_byte (hd s) \<Longrightarrow> s \<noteq> [] \<Longrightarrow> trim_start (CHR '' '' # s) = s"
proof -
  assume s: "plain_byte (hd s)" "s \<noteq> []"
  have "leading_ws ws_encodings (CHR '' '' # s) = 1"
    by (simp add: leading_ws_def ws_encodings_def starts_with_def)
  then have "trim_start (CHR '' '' # s) = trim_start s"
    unfolding trim_start_def by (subst strip_leading.simps) simp
  then show ?thesis using s by (simp add: trim_start_plain)
qed

lemma destination_parse_text: "dest_ok d \<Longrightarrow> destination_parse (destination_text d) = Inr d"
proof (cases "dest_percent d")
  case None
  assume ok: "dest_ok d"
  then show ?thesis using None destination_text_trim [OF ok]
    by (cases d) (simp add: destination_parse_def destination_text_def dest_ok_def Let_def
        find_byte_None_iff [THEN iffD2])
next
  case (Some p)
  assume ok: "dest_ok d"
  have t: "destination_text d = dec_of_nat p @ CHR ''%'' # CHR '' '' # dest_service d"
    using Some by (simp add: destination_text_def)
  have f: "find_byte CHR ''%'' (destination_text d) = Some (length (dec_of_nat p))"
    unfolding t by (intro find_byte_append_notin dec_no_byte) (simp add: is_ascii_digit_def)
  have "trim (CHR '' '' # dest_service d) = dest_service d"
    using ok by (simp add: trim_def trim_start_space trim_end_plain dest_ok_def)
  moreover have "trim (dec_of_nat p) = dec_of_nat p" by (intro trim_plain) (simp add: hd_dec_plain)
  moreover have "parse_uint u32_max (dec_of_nat p) = Some p"
    using ok Some by (intro parse_uint_dec) (simp add: dest_ok_def)
  moreover have "take (length (dec_of_nat p)) (destination_text d) = dec_of_nat p"
    "drop (Suc (length (dec_of_nat p))) (destination_text d) = CHR '' '' # dest_service d"
    by (simp_all add: t)
  moreover have "\<lparr>dest_percent = Some p, dest_service = dest_service d\<rparr> = d"
    using Some by (cases d) simp
  ultimately show ?thesis
    using ok f destination_text_trim [OF ok] destination_text_shape(1) [OF ok]
    by (simp add: destination_parse_def Let_def dest_ok_def)
qed

lemma str_lines_join:
  assumes "\<forall>x \<in> set xs. x \<noteq> [] \<and> CHR 0x0A \<notin> set x \<and> plain_byte (last x)"
  shows "str_lines (join_with CHR 0x0A xs) = xs"
proof (cases "xs = []")
  case False
  have cr: "strip_suffix [CHR 0x0D] x = None" if "x \<in> set xs" for x
  proof -
    have "last x \<noteq> CHR 0x0D" using assms that by (auto simp: plain_byte_def)
    then show ?thesis using assms that by (auto simp: strip_suffix_def ends_with_iff)
  qed
  have "map (\<lambda>p. case strip_suffix [CHR 0x0D] p of None \<Rightarrow> p | Some q \<Rightarrow> q) (butlast xs) = butlast xs"
    using cr by (intro map_idI) (simp add: in_set_butlastD)
  moreover have "last xs \<noteq> []" using assms False by simp
  ultimately show ?thesis using False assms
    by (simp add: str_lines_def Let_def split_on_join)
qed (simp add: str_lines_def)

text \<open>
  A newline-separated block written from destinations (with or without percent)
  parses back to exactly those destinations, in order.
\<close>

theorem parse_destinations_roundtrip:
  assumes ok: "\<forall>d \<in> set ds. dest_ok d"
  shows "parse_destinations (join_with CHR 0x0A (map destination_text ds)) = Inr ds"
proof -
  have "str_lines (join_with CHR 0x0A (map destination_text ds)) = map destination_text ds"
    using ok destination_text_shape by (intro str_lines_join) auto
  moreover have "filter (\<lambda>l. l \<noteq> []) (map trim (map destination_text ds)) = map destination_text ds"
    using ok destination_text_shape(1) by (induction ds) (auto simp: destination_text_trim)
  moreover have "map destination_parse (map destination_text ds) = map Inr ds"
    using ok by (simp add: destination_parse_text)
  ultimately show ?thesis unfolding parse_destinations_def by (simp only: collect_results_Inr)
qed

theorem parse_destinations_roundtrip_witness:
  "parse_destinations (join_with CHR 0x0A (map destination_text
     [destination_with_percent 70 ''a.static:80'', destination_new ''gw.dns:30080''])) =
   Inr [destination_with_percent 70 ''a.static:80'', destination_new ''gw.dns:30080'']"
  by (rule parse_destinations_roundtrip)
     (simp add: dest_ok_def destination_new_def destination_with_percent_def plain_byte_def u32_max_def)

end
