(* ===== verification/Retry.thy ===== *)
theory Retry
  imports Destination
begin

text \<open>
  The retry policy, \<open>hygress-core/src/retry.rs\<close>: the annotation parser and the decision whether
  a failed attempt is retried. The trigger set and the \<open>non_idempotent\<close> gate are kept apart, as
  in the code.
\<close>

datatype retry_cond = RError | RTimeout | RHttp5xx | RStatus nat | RNonIdempotent

record retry_policy =
  rp_conditions :: "retry_cond list"
  rp_tries :: nat

record parsed_retry =
  pd_policy :: retry_policy
  pd_unknown :: "string list"

definition default_conditions :: "retry_cond list" where
  "default_conditions = [RError, RTimeout, RStatus 503, RStatus 502, RNonIdempotent]"

definition retry_default :: retry_policy where
  "retry_default = \<lparr>rp_conditions = default_conditions, rp_tries = 2\<rparr>"

definition retry_has :: "retry_policy \<Rightarrow> retry_cond \<Rightarrow> bool" where
  "retry_has p c \<longleftrightarrow> c \<in> set (rp_conditions p)"

definition parse_cond_token :: "string \<Rightarrow> retry_cond option" where
  "parse_cond_token t =
     (if t = ''error'' then Some RError
      else if t = ''timeout'' then Some RTimeout
      else if t = ''5xx'' then Some RHttp5xx
      else if t = ''non_idempotent'' then Some RNonIdempotent
      else
        let num = (case strip_prefix ''http_'' t of Some r \<Rightarrow> r | None \<Rightarrow> t) in
        case parse_uint u16_max num of
          Some n \<Rightarrow> if 400 \<le> n \<and> n \<le> 599 then Some (RStatus n) else None
        | None \<Rightarrow> None)"

text \<open>The token loop: the recognised conditions and the unknown tokens, in order.\<close>

fun parse_cond_tokens :: "string list \<Rightarrow> retry_cond list \<times> string list" where
  "parse_cond_tokens [] = ([], [])"
| "parse_cond_tokens (token # rest) =
     (let t = to_ascii_lowercase (trim token); (out, unknown) = parse_cond_tokens rest in
      if t = [] then (out, unknown)
      else (case parse_cond_token t of
              Some c \<Rightarrow> (c # out, unknown)
            | None \<Rightarrow> (out, t # unknown)))"

definition retry_parse :: "string option \<Rightarrow> string option \<Rightarrow> parsed_retry" where
  "retry_parse conditions tries =
     (let (conds, unknown) =
            (case conditions of
               None \<Rightarrow> (default_conditions, [])
             | Some raw \<Rightarrow> parse_cond_tokens (split_on CHR '','' raw));
          tries = (case tries of
               None \<Rightarrow> 2
             | Some raw \<Rightarrow> min (case parse_uint u32_max (trim raw) of Some n \<Rightarrow> n | None \<Rightarrow> 2) 32)
      in \<lparr>pd_policy = \<lparr>rp_conditions = conds, rp_tries = tries\<rparr>, pd_unknown = unknown\<rparr>)"

definition cond_hit :: "nat option \<Rightarrow> bool \<Rightarrow> bool \<Rightarrow> retry_cond \<Rightarrow> bool" where
  "cond_hit status transport_error timed_out c =
     (case c of
        RError \<Rightarrow> transport_error
      | RTimeout \<Rightarrow> timed_out
      | RHttp5xx \<Rightarrow> (case status of Some s \<Rightarrow> 500 \<le> s \<and> s \<le> 599 | None \<Rightarrow> False)
      | RStatus code \<Rightarrow> status = Some code
      | RNonIdempotent \<Rightarrow> False)"

text \<open>The \<open>for\<close> loop with its early \<open>break\<close>.\<close>

fun retry_eligible :: "nat option \<Rightarrow> bool \<Rightarrow> bool \<Rightarrow> retry_cond list \<Rightarrow> bool" where
  "retry_eligible status te to [] = False"
| "retry_eligible status te to (c # cs) =
     (if cond_hit status te to c then True else retry_eligible status te to cs)"

definition should_retry :: "retry_policy \<Rightarrow> nat option \<Rightarrow> bool \<Rightarrow> bool \<Rightarrow> bool \<Rightarrow> bool" where
  "should_retry p status transport_error timed_out non_idempotent =
     (if rp_conditions p = [] then False
      else if \<not> retry_eligible status transport_error timed_out (rp_conditions p) then False
      else if non_idempotent \<and> RNonIdempotent \<notin> set (rp_conditions p) then False
      else True)"

lemma retry_eligible_iff:
  "retry_eligible status te to cs \<longleftrightarrow> (\<exists>c \<in> set cs. cond_hit status te to c)"
  by (induction cs) auto

lemma cond_hit_iff:
  "cond_hit status te to c \<longleftrightarrow> (c = RError \<and> te) \<or> (c = RTimeout \<and> to) \<or>
     (\<exists>s. status = Some s \<and> (c = RStatus s \<or> 500 \<le> s \<and> s \<le> 599 \<and> c = RHttp5xx))"
  by (cases c; cases status) (auto simp: cond_hit_def)

text \<open>
  A failure is retried exactly when some listed trigger fits it and, for a
  non-idempotent method, the modifier is listed; the modifier alone never triggers, and a status
  that is neither listed nor covered by \<open>5xx\<close> never does.
\<close>

theorem should_retry_iff:
  "should_retry p status te to ni \<longleftrightarrow>
     ((te \<and> RError \<in> set (rp_conditions p)) \<or> (to \<and> RTimeout \<in> set (rp_conditions p)) \<or>
      (\<exists>s. status = Some s \<and> (RStatus s \<in> set (rp_conditions p) \<or>
           500 \<le> s \<and> s \<le> 599 \<and> RHttp5xx \<in> set (rp_conditions p)))) \<and>
     \<not> (ni \<and> RNonIdempotent \<notin> set (rp_conditions p))"
proof -
  have "retry_eligible status te to (rp_conditions p) \<longleftrightarrow>
      (te \<and> RError \<in> set (rp_conditions p)) \<or> (to \<and> RTimeout \<in> set (rp_conditions p)) \<or>
      (\<exists>s. status = Some s \<and> (RStatus s \<in> set (rp_conditions p) \<or>
           500 \<le> s \<and> s \<le> 599 \<and> RHttp5xx \<in> set (rp_conditions p)))"
    unfolding retry_eligible_iff cond_hit_iff by blast
  then show ?thesis by (auto simp: should_retry_def)
qed

section \<open>The annotation text\<close>

definition cond_text :: "retry_cond \<Rightarrow> string" where
  "cond_text c = (case c of RError \<Rightarrow> ''error'' | RTimeout \<Rightarrow> ''timeout'' | RHttp5xx \<Rightarrow> ''5xx''
     | RStatus n \<Rightarrow> ''http_'' @ dec_of_nat n | RNonIdempotent \<Rightarrow> ''non_idempotent'')"

definition cond_ok :: "retry_cond \<Rightarrow> bool" where
  "cond_ok c = (case c of RStatus n \<Rightarrow> 400 \<le> n \<and> n \<le> 599 | _ \<Rightarrow> True)"

declare lower_dec [simp]

lemma lower_append: "to_ascii_lowercase (a @ b) = to_ascii_lowercase a @ to_ascii_lowercase b"
  by (simp add: to_ascii_lowercase_def)

lemma lower_http: "to_ascii_lowercase ''http_'' = ''http_''"
  by code_simp

lemma cond_text_lower: "to_ascii_lowercase (cond_text c) = cond_text c"
proof (cases c)
  case (RStatus n)
  then show ?thesis using lower_append [of "''http_''" "dec_of_nat n"] lower_http
    by (simp add: cond_text_def)
next
  case RError then show ?thesis by (simp add: cond_text_def) code_simp
next
  case RTimeout then show ?thesis by (simp add: cond_text_def) code_simp
next
  case RHttp5xx then show ?thesis by (simp add: cond_text_def) code_simp
next
  case RNonIdempotent then show ?thesis by (simp add: cond_text_def) code_simp
qed

lemma plain_letters:
  "plain_byte CHR ''e''" "plain_byte CHR ''r''" "plain_byte CHR ''t''" "plain_byte CHR ''5''"
  "plain_byte CHR ''x''" "plain_byte CHR ''n''" "plain_byte CHR ''h''"
  by (simp_all add: plain_byte_def)

lemma cond_text_trim: "trim (cond_text c) = cond_text c"
  by (intro trim_plain) (cases c; simp add: cond_text_def hd_dec_plain plain_letters)

lemma cond_text_comma: "CHR '','' \<notin> set (cond_text c)"
  using dec_no_byte [of "CHR '',''"] by (cases c) (auto simp: cond_text_def is_ascii_digit_def)

lemma parse_cond_text: "cond_ok c \<Longrightarrow> parse_cond_token (cond_text c) = Some c"
proof (cases c)
  case (RStatus n)
  assume ok: "cond_ok c"
  have "cond_text c = ''http_'' @ dec_of_nat n" using RStatus by (simp add: cond_text_def)
  moreover have "parse_uint u16_max (dec_of_nat n) = Some n"
    using ok RStatus by (intro parse_uint_dec) (simp add: cond_ok_def u16_max_def)
  ultimately show ?thesis using ok RStatus
    by (simp add: parse_cond_token_def Let_def strip_prefix_def starts_with_def cond_ok_def)
qed (simp_all add: cond_text_def parse_cond_token_def)

lemma parse_cond_texts:
  "\<forall>c \<in> set cs. cond_ok c \<Longrightarrow> parse_cond_tokens (map cond_text cs) = (cs, [])"
proof (induction cs)
  case (Cons c cs)
  have "cond_text c \<noteq> []" by (cases c) (simp_all add: cond_text_def)
  then show ?case using Cons
    by (simp add: cond_text_trim cond_text_lower parse_cond_text Let_def)
qed simp

text \<open>
  The comma-separated text of any condition list and a decimal count parse to that
  list without unknown tokens, with the count capped at 32.
\<close>

theorem retry_parse_roundtrip:
  assumes "cs \<noteq> []" and "\<forall>c \<in> set cs. cond_ok c" and "n \<le> u32_max"
  shows "retry_parse (Some (join_with CHR '','' (map cond_text cs))) (Some (dec_of_nat n)) =
    \<lparr>pd_policy = \<lparr>rp_conditions = cs, rp_tries = min n 32\<rparr>, pd_unknown = []\<rparr>"
proof -
  have "split_on CHR '','' (join_with CHR '','' (map cond_text cs)) = map cond_text cs"
    using assms(1) cond_text_comma by (intro split_on_join) auto
  moreover have "trim (dec_of_nat n) = dec_of_nat n" by (intro trim_plain) (simp add: hd_dec_plain)
  ultimately show ?thesis
    using parse_cond_texts [OF assms(2)] parse_uint_dec [OF assms(3)] by (simp add: retry_parse_def)
qed

theorem retry_parse_roundtrip_witness:
  "retry_parse (Some (join_with CHR '','' (map cond_text default_conditions))) (Some (dec_of_nat 99)) =
    \<lparr>pd_policy = \<lparr>rp_conditions = default_conditions, rp_tries = 32\<rparr>, pd_unknown = []\<rparr>"
  using retry_parse_roundtrip [of default_conditions 99]
  by (simp add: default_conditions_def cond_ok_def u32_max_def)

text \<open>Whatever the annotations say, the attempt budget is bounded.\<close>

lemma retry_parse_bounded: "rp_tries (pd_policy (retry_parse cs tries)) \<le> 32"
  by (auto simp: retry_parse_def Let_def split: option.splits prod.splits)

end
