(* ===== verification/Route.thy ===== *)
theory Route
  imports Retry
begin

text \<open>
  The route rule, \<open>hygress-core/src/route.rs\<close>, with the lookup part of
  \<open>hygress-core/src/model_mapping.rs\<close>: path predicates, the capture-group rewriter, the fallback
  link, the ext-auth scope, provenance, and the validating constructor.
\<close>

datatype route_kind = Main | Fallback | Mirror

record path_pred =
  pp_regex :: string
  pp_ignore_case :: bool

definition path_pred_new :: "string \<Rightarrow> path_pred" where
  "path_pred_new regex = \<lparr>pp_regex = regex, pp_ignore_case = False\<rparr>"

section \<open>Rewriting\<close>

text \<open>The index loop over the template, on the rest of the template.\<close>

fun rewrite :: "string list \<Rightarrow> string \<Rightarrow> string" where
  "rewrite groups [] = []"
| "rewrite groups [c] = [c]"
| "rewrite groups (c # d # rest) =
     (if c = CHR ''$'' then
        if d = CHR ''$'' then CHR ''$'' # rewrite groups rest
        else if 49 \<le> (of_char d :: nat) \<and> (of_char d :: nat) \<le> 57 then
          (let idx = of_char d - 49 in (if idx < length groups then groups ! idx else []) @ rewrite groups rest)
        else c # rewrite groups (d # rest)
      else c # rewrite groups (d # rest))"

text \<open>A template as data: literal bytes and group references, and its rendering.\<close>

datatype rewrite_piece = Lit char | Group nat

fun piece_text :: "rewrite_piece \<Rightarrow> string" where
  "piece_text (Lit c) = (if c = CHR ''$'' then ''$$'' else [c])"
| "piece_text (Group n) = [CHR ''$'', char_of (49 + n)]"

fun piece_value :: "string list \<Rightarrow> rewrite_piece \<Rightarrow> string" where
  "piece_value groups (Lit c) = [c]"
| "piece_value groups (Group n) = (if n < length groups then groups ! n else [])"

lemma rewrite_plain: "c \<noteq> CHR ''$'' \<Longrightarrow> rewrite groups (c # s) = c # rewrite groups s"
  by (cases s) auto

text \<open>
  The rewriter renders every template written from literals (a dollar as \<open>$$\<close>) and
  group references \<open>$1\<close>--\<open>$9\<close> as those literals and the captured groups, an absent group as
  nothing.
\<close>

theorem rewrite_renders:
  assumes "\<forall>p \<in> set ps. \<forall>n. p = Group n \<longrightarrow> n < 9"
  shows "rewrite groups (concat (map piece_text ps)) = concat (map (piece_value groups) ps)"
  using assms
proof (induction ps)
  case (Cons p ps)
  show ?case
  proof (cases p)
    case (Lit c)
    then show ?thesis using Cons by (auto simp: rewrite_plain)
  next
    case (Group n)
    then have "n < 9" using Cons.prems by auto
    then have "(of_char (char_of (49 + n) :: char) :: nat) = 49 + n" by simp
    moreover have "(char_of (49 + n) :: char) \<noteq> CHR ''$''"
    proof
      assume "(char_of (49 + n) :: char) = CHR ''$''"
      then have "(of_char (char_of (49 + n) :: char) :: nat) = 36" by simp
      with calculation show False by simp
    qed
    ultimately show ?thesis using Cons Group \<open>n < 9\<close> by (simp add: Let_def)
  qed
qed simp

theorem rewrite_renders_witness: "rewrite [''v1'', ''chat''] ''/$2$$$7'' = ''/chat$''"
proof -
  have t: "concat (map piece_text [Lit CHR ''/'', Group 1, Lit CHR ''$'', Group 6]) = ''/$2$$$7''"
    by code_simp
  have "rewrite [''v1'', ''chat''] (concat (map piece_text [Lit CHR ''/'', Group 1, Lit CHR ''$'', Group 6]))
      = concat (map (piece_value [''v1'', ''chat'']) [Lit CHR ''/'', Group 1, Lit CHR ''$'', Group 6])"
    by (rule rewrite_renders) simp
  then show ?thesis by (simp only: t) simp
qed

section \<open>Fallback link, auth scope, provenance\<close>

record fallback_link =
  fl_target_key :: string
  fl_main_ingress_name :: string
  fl_max_redirects :: nat
  fl_use_original_request :: bool

definition fallback_link_new :: "string \<Rightarrow> fallback_link" where
  "fallback_link_new target_key = \<lparr>fl_target_key = target_key, fl_main_ingress_name = target_key,
     fl_max_redirects = 10, fl_use_original_request = True\<rparr>"

record auth_scope =
  as_enabled :: bool
  as_scope_root :: string

definition default_scope_root :: string where
  "default_scope_root = ''ai-route-route-''"

definition auth_scope_for_kind :: "route_kind \<Rightarrow> auth_scope" where
  "auth_scope_for_kind kind =
     (case kind of Mirror \<Rightarrow> \<lparr>as_enabled = False, as_scope_root = []\<rparr>
      | _ \<Rightarrow> \<lparr>as_enabled = True, as_scope_root = default_scope_root\<rparr>)"

definition should_auth :: "auth_scope \<Rightarrow> string \<Rightarrow> bool" where
  "should_auth sc origin_ingress =
     (if \<not> as_enabled sc \<or> as_scope_root sc = [] then False
      else starts_with (as_scope_root sc) (last_segment CHR ''/'' origin_ingress))"

record rule_source =
  src_uid :: string
  src_resource_version :: nat
  src_ingress_name :: string

section \<open>Model mapping\<close>

type_synonym model_mapping = "(string \<times> string) list"

definition mapping_lookup :: "model_mapping \<Rightarrow> string \<Rightarrow> string option" where
  "mapping_lookup rules service = map_option snd (find (\<lambda>(svc, _). svc = service) rules)"

section \<open>Route rules\<close>

record route_rule =
  rr_key :: string
  rr_ingress_name :: string
  rr_kind :: route_kind
  rr_path_predicates :: "path_pred list"
  rr_rewrite_target :: "string option"
  rr_destinations :: "destination list"
  rr_retry :: retry_policy
  rr_fallback :: "fallback_link option"
  rr_auth_scope :: auth_scope
  rr_model_mapping :: model_mapping
  rr_sources :: "rule_source list"

fun validate_destinations :: "destination list \<Rightarrow> error + unit" where
  "validate_destinations [] = Inr ()"
| "validate_destinations (d # ds) =
     (case dest_service_ref d of
        Inl e \<Rightarrow> Inl (Invalid (''destination '' @ quoted (dest_service d) @ '': '' @ error_to_string e))
      | Inr _ \<Rightarrow> validate_destinations ds)"

definition route_validate :: "route_rule \<Rightarrow> error + unit" where
  "route_validate r =
     (if rr_key r = [] then Inl (Invalid ''route key must be non-empty'')
      else if rr_kind r = Mirror \<and> as_enabled (rr_auth_scope r) then
        Inl (Invalid ''mirror route must not enable auth (mirror is never authenticated)'')
      else if rr_destinations r = [] then Inl (Invalid ''route must have at least one destination'')
      else validate_destinations (rr_destinations r))"

definition route_new ::
  "string \<Rightarrow> route_kind \<Rightarrow> path_pred list \<Rightarrow> destination list \<Rightarrow> error + route_rule" where
  "route_new key kind path_predicates destinations =
     (let rule = \<lparr>rr_key = key, rr_ingress_name = key, rr_kind = kind,
                  rr_path_predicates = path_predicates, rr_rewrite_target = None,
                  rr_destinations = destinations, rr_retry = retry_default, rr_fallback = None,
                  rr_auth_scope = auth_scope_for_kind kind, rr_model_mapping = [], rr_sources = []\<rparr>
      in case route_validate rule of Inl e \<Rightarrow> Inl e | Inr _ \<Rightarrow> Inr rule)"

definition rewrite_path :: "route_rule \<Rightarrow> string list \<Rightarrow> string option" where
  "rewrite_path r groups = map_option (rewrite groups) (rr_rewrite_target r)"

definition requires_auth :: "route_rule \<Rightarrow> bool" where
  "requires_auth r = should_auth (rr_auth_scope r) (rr_ingress_name r)"

lemma should_auth_namespace:
  "CHR ''/'' \<notin> set name \<Longrightarrow> should_auth sc (ns @ CHR ''/'' # name) = should_auth sc name"
  by (simp add: should_auth_def last_segment_append) (simp add: last_segment_def rfind_byte_None_iff [THEN iffD2])

lemma validate_destinations_Inr:
  "validate_destinations ds = Inr () \<longleftrightarrow> (\<forall>d \<in> set ds. \<exists>r. dest_service_ref d = Inr r)"
  by (induction ds) (auto split: sum.splits)

end
