(* ===== verification/Registry.thy ===== *)
theory Registry
  imports Destination
begin

text \<open>
  The registry table, \<open>hygress-core/src/registry.rs\<close>: a registry row, the outbound proxies, the
  resolution of a row to a connect target with all its error cases, and the per-snapshot index
  that stores every row's resolution.
\<close>

record outbound_proxy =
  op_name :: string
  op_server_address :: string
  op_server_port :: nat
  op_connect_timeout_secs :: "nat option"
  op_listener_port :: "nat option"
  op_kind :: "string option"

record registry =
  reg_id :: string
  reg_kind :: service_type
  reg_domain :: string
  reg_port :: "nat option"
  reg_proxy_ref :: "string option"

datatype resolved_target =
    Direct string
  | Proxied string string outbound_proxy
  | TunnelTo string

definition registry_new :: "string \<Rightarrow> string \<Rightarrow> error + registry" where
  "registry_new service domain =
     (case parse_service_with_port service of Inl e \<Rightarrow> Inl e
      | Inr r \<Rightarrow> Inr \<lparr>reg_id = service_name r, reg_kind = sr_kind r, reg_domain = domain,
                      reg_port = sr_port r, reg_proxy_ref = None\<rparr>)"

definition with_proxy_ref :: "string \<Rightarrow> registry \<Rightarrow> registry" where
  "with_proxy_ref p r = r\<lparr>reg_proxy_ref := Some p\<rparr>"

definition registry_service_name_with_port :: "registry \<Rightarrow> string" where
  "registry_service_name_with_port r =
     reg_id r @ CHR '':'' # dec_of_nat (case reg_port r of None \<Rightarrow> 80 | Some p \<Rightarrow> p)"

definition proxy_new :: "string \<Rightarrow> string \<Rightarrow> nat \<Rightarrow> outbound_proxy" where
  "proxy_new n a p = \<lparr>op_name = n, op_server_address = a, op_server_port = p,
     op_connect_timeout_secs = None, op_listener_port = None, op_kind = None\<rparr>"

definition proxy_find :: "outbound_proxy list \<Rightarrow> string \<Rightarrow> outbound_proxy option" where
  "proxy_find ps name = find (\<lambda>p. op_name p = name) ps"

definition proxy_address :: "outbound_proxy \<Rightarrow> string" where
  "proxy_address p = op_server_address p @ CHR '':'' # dec_of_nat (op_server_port p)"

definition is_port :: "string \<Rightarrow> bool" where
  "is_port s \<longleftrightarrow> parse_uint u16_max s \<noteq> None"

definition has_explicit_port :: "string \<Rightarrow> bool" where
  "has_explicit_port authority =
     (if starts_with ''['' authority then
        (case find_byte CHR '']'' authority of
           Some close \<Rightarrow>
             (let rest = drop (Suc close) authority
              in length rest > 1 \<and> starts_with '':'' rest \<and> is_port (drop 1 rest))
         | None \<Rightarrow> False)
      else (case rfind_byte CHR '':'' authority of
              Some i \<Rightarrow> (let port_str = drop (Suc i) authority in port_str \<noteq> [] \<and> is_port port_str)
            | None \<Rightarrow> False))"

definition normalize_static_domain :: "string \<Rightarrow> nat option \<Rightarrow> error + string" where
  "normalize_static_domain domain port =
     (let trimmed = trim domain in
      if trimmed = [] then Inl (Invalid ''static registry domain is empty'')
      else
        let without_scheme =
              (case find_str ''://'' trimmed of Some i \<Rightarrow> drop (i + 3) trimmed | None \<Rightarrow> trimmed);
            authority =
              (case find_byte CHR ''/'' without_scheme of
                 Some i \<Rightarrow> take i without_scheme | None \<Rightarrow> without_scheme)
        in if authority = [] then
             Inl (Invalid (''static registry domain '' @ quoted domain @ '' has no host''))
           else if has_explicit_port authority then Inr authority
           else Inr (authority @ CHR '':'' # dec_of_nat (case port of None \<Rightarrow> 80 | Some p \<Rightarrow> p)))"

definition domain_with_port :: "registry \<Rightarrow> string" where
  "domain_with_port r =
     (case reg_port r of Some p \<Rightarrow> reg_domain r @ CHR '':'' # dec_of_nat p | None \<Rightarrow> reg_domain r)"

definition registry_resolve :: "outbound_proxy list \<Rightarrow> registry \<Rightarrow> error + resolved_target" where
  "registry_resolve proxies r =
     (if reg_domain r = [] then Inl (Invalid (''registry '' @ quoted (reg_id r) @ '': empty domain''))
      else (case reg_kind r of
        Static \<Rightarrow>
          (case normalize_static_domain (reg_domain r) (reg_port r) of
             Inl e \<Rightarrow> Inl e | Inr address \<Rightarrow> Inr (Direct address))
      | Dns \<Rightarrow>
          (case reg_port r of
             None \<Rightarrow> Inl (Invalid (''dns registry '' @ quoted (reg_id r) @ '' requires a port''))
           | Some port \<Rightarrow> Inr (Direct (reg_domain r @ CHR '':'' # dec_of_nat port)))
      | Proxy \<Rightarrow>
          (case reg_proxy_ref r of
             None \<Rightarrow> Inl (Invalid (''proxy registry '' @ quoted (reg_id r) @ '' requires proxy_ref''))
           | Some name \<Rightarrow>
               (case proxy_find proxies name of
                  None \<Rightarrow> Inl (Unknown (''registry '' @ quoted (reg_id r) @
                            '' references unknown outbound proxy '' @ quoted name))
                | Some proxy \<Rightarrow> Inr (Proxied (domain_with_port r) name proxy)))
      | Tunnel \<Rightarrow> Inr (TunnelTo (domain_with_port r))))"

section \<open>The precomputed index\<close>

record pre_resolved =
  pr_https :: bool
  pr_address :: string
  pr_proxied :: bool
  pr_proxy :: "string option"

definition split_scheme_is_https :: "string \<Rightarrow> bool \<times> string" where
  "split_scheme_is_https domain =
     (case find_str ''://'' domain of
        Some i \<Rightarrow> (eq_ignore_ascii_case (take i domain) ''https'', drop (i + 3) domain)
      | None \<Rightarrow> (False, domain))"

definition pre_resolve :: "outbound_proxy list \<Rightarrow> registry \<Rightarrow> string + pre_resolved" where
  "pre_resolve proxies reg =
     (let (https, bare) = split_scheme_is_https (reg_domain reg);
          shadow = reg\<lparr>reg_domain := bare\<rparr>
      in case registry_resolve proxies shadow of
           Inr (Direct address) \<Rightarrow>
             Inr \<lparr>pr_https = https, pr_address = address, pr_proxied = False, pr_proxy = None\<rparr>
         | Inr (Proxied address _ proxy) \<Rightarrow>
             Inr \<lparr>pr_https = https, pr_address = address, pr_proxied = True,
                 pr_proxy = Some (proxy_address proxy)\<rparr>
         | Inr (TunnelTo address) \<Rightarrow>
             Inr \<lparr>pr_https = https, pr_address = address, pr_proxied = False, pr_proxy = None\<rparr>
         | Inl e \<Rightarrow> Inl (error_to_string e))"

definition or_insert :: "'k \<Rightarrow> 'v \<Rightarrow> ('k, 'v) hash_map \<Rightarrow> ('k, 'v) hash_map" where
  "or_insert k v m = (case hm_get m k of None \<Rightarrow> hm_insert k v m | Some _ \<Rightarrow> m)"

definition precompute_registries ::
  "registry list \<Rightarrow> outbound_proxy list \<Rightarrow> (string, string + pre_resolved) hash_map" where
  "precompute_registries regs proxies =
     foldl (\<lambda>out reg. or_insert (reg_id reg) (pre_resolve proxies reg) out) [] regs"

lemma or_insert_get:
  "hm_get (or_insert k v m) k' =
     (case hm_get m k' of Some w \<Rightarrow> Some w | None \<Rightarrow> if k' = k then Some v else None)"
  by (auto simp: or_insert_def hm.get_insert split: option.splits)

lemma foldl_or_insert_get:
  "hm_get (foldl (\<lambda>out reg. or_insert (key reg) (val reg) out) m regs) k =
     (case hm_get m k of Some w \<Rightarrow> Some w
      | None \<Rightarrow> map_option val (find (\<lambda>reg. key reg = k) regs))"
  by (induction regs arbitrary: m) (auto simp: or_insert_get split: option.splits)

text \<open>
  The index answers every service name exactly as a first-match scan of the
  registries followed by the resolution would, including the error text, and has no entry for
  a name without registry.
\<close>

theorem precompute_registries_scan:
  "hm_get (precompute_registries regs proxies) sid =
     map_option (pre_resolve proxies) (find (\<lambda>r. reg_id r = sid) regs)"
  unfolding precompute_registries_def
  using foldl_or_insert_get [of reg_id "pre_resolve proxies" "[]" regs sid]
  by (simp add: hm.get_empty)

section \<open>Resolved addresses\<close>

lemma has_explicit_port_shape:
  assumes "has_explicit_port a"
  shows "\<exists>h p. a = h @ CHR '':'' # p \<and> is_port p"
proof (cases "starts_with ''['' a")
  case True
  then obtain close where c: "find_byte CHR '']'' a = Some close"
    and r: "starts_with '':'' (drop (Suc close) a)" "is_port (drop 1 (drop (Suc close) a))"
    using assms by (auto simp: has_explicit_port_def Let_def split: option.splits)
  from r(1) obtain q where q: "drop (Suc close) a = CHR '':'' # q" by (auto simp: starts_with_iff)
  then have "a = take (Suc close) a @ CHR '':'' # q" by (metis append_take_drop_id)
  then show ?thesis using r(2) q by auto
next
  case False
  then obtain i where i: "rfind_byte CHR '':'' a = Some i" and p: "is_port (drop (Suc i) a)"
    using assms by (auto simp: has_explicit_port_def Let_def split: option.splits)
  from i obtain h q where "a = h @ CHR '':'' # q" "i = length h" by (rule rfind_byte_SomeE)
  then show ?thesis using p by auto
qed

lemma normalize_static_port:
  assumes "normalize_static_domain d port = Inr a" and "\<forall>p. port = Some p \<longrightarrow> p \<le> u16_max"
  shows "\<exists>h p. a = h @ CHR '':'' # p \<and> is_port p"
proof -
  have "is_port (dec_of_nat (case port of None \<Rightarrow> 80 | Some p \<Rightarrow> p))"
    using assms(2) by (auto simp: is_port_def parse_uint_dec u16_max_def split: option.splits)
  then show ?thesis using assms(1) has_explicit_port_shape
    by (auto simp: normalize_static_domain_def Let_def split: if_splits)
qed

text \<open>
  Resolution of a row with a valid port: a direct target always carries a numeric
  port, a proxied target goes through a configured proxy of the referenced name, and the row
  fails only for the reasons the code gives (an empty domain or host, a dns row without port, a
  proxy row without a known proxy).
\<close>

theorem registry_resolve_sound:
  assumes port: "\<forall>p. reg_port r = Some p \<longrightarrow> p \<le> u16_max"
  shows "case registry_resolve proxies r of
      Inr (Direct a) \<Rightarrow> \<exists>h p. a = h @ CHR '':'' # p \<and> is_port p
    | Inr (Proxied a name proxy) \<Rightarrow>
        reg_proxy_ref r = Some name \<and> proxy \<in> set proxies \<and> op_name proxy = name
    | Inr (TunnelTo a) \<Rightarrow> reg_kind r = Tunnel
    | Inl e \<Rightarrow> reg_domain r = [] \<or>
        (reg_kind r = Static \<and> normalize_static_domain (reg_domain r) (reg_port r) = Inl e) \<or>
        (reg_kind r = Dns \<and> reg_port r = None) \<or>
        (reg_kind r = Proxy \<and> (\<forall>name. reg_proxy_ref r = Some name \<longrightarrow>
           name \<notin> op_name ` set proxies))"
proof (cases "reg_domain r = []")
  case True
  then show ?thesis by (simp add: registry_resolve_def)
next
  case False
  show ?thesis
  proof (cases "reg_kind r")
    case Static
    then show ?thesis using False normalize_static_port [OF _ port]
      by (auto simp: registry_resolve_def split: sum.splits)
  next
    case Dns
    have "is_port (dec_of_nat p)" if "reg_port r = Some p" for p
      using port that by (simp add: is_port_def parse_uint_dec)
    then show ?thesis using False Dns by (auto simp: registry_resolve_def split: option.splits)
  next
    case Proxy
    then show ?thesis using False
      by (auto simp: registry_resolve_def proxy_find_def find_Some_iff find_None_iff
          split: option.splits)
  next
    case Tunnel
    then show ?thesis using False by (simp add: registry_resolve_def)
  qed
qed

theorem registry_resolve_sound_witness:
  "\<exists>h p. ''10.0.0.7:80'' = h @ CHR '':'' # p \<and> is_port p"
proof -
  let ?r = "\<lparr>reg_id = ''w.dns'', reg_kind = Dns, reg_domain = ''10.0.0.7'', reg_port = Some 80,
    reg_proxy_ref = None\<rparr>"
  have "registry_resolve [] ?r = Inr (Direct ''10.0.0.7:80'')"
    by code_simp
  then show ?thesis using registry_resolve_sound [of ?r "[]"] by (simp add: u16_max_def)
qed

end
