(* ===== verification/Config.thy ===== *)
theory Config
  imports Route Registry "HOL-Library.List_Lexorder" "HOL-Library.Char_ord" "HOL-Library.Sublist"
begin

text \<open>
  The control-plane snapshot and its validation, \<open>hygress-core/src/config.rs\<close>: the snapshot
  record, \<open>sanitize\<close> with its three passes over the routes (per-object checks, one mirror, the
  fallback cascade), the provider key-swap selection and the derived model-router settings.
  Strings are ordered byte-wise, as Rust orders them, by the library's lexicographic instance.
\<close>

record gateway_feature_config =
  gf_plugin :: string
  gf_phase :: string
  gf_priority :: int
  gf_fail_open :: bool
  gf_default_config_disable :: bool

record tls_host =
  th_host :: string
  th_is_default :: bool
  th_cert_pem :: string
  th_key_pem :: string

record timing_config =
  downstream_idle_timeout_secs :: nat
  upstream_idle_timeout_secs :: nat
  max_request_headers_kb :: "nat option"

definition timing_default :: timing_config where
  "timing_default = \<lparr>downstream_idle_timeout_secs = 1800, upstream_idle_timeout_secs = 10,
     max_request_headers_kb = None\<rparr>"

record model_router_settings =
  ms_prefix :: string
  ms_target_header :: string
  ms_enable_on_path_suffix :: "string list"
  ms_alias_name_mapping :: "(string, string) hash_map"
  ms_max_body_bytes :: "nat option"

definition model_router_settings_default :: model_router_settings where
  "model_router_settings_default = \<lparr>ms_prefix = ''/model/proxy/'',
     ms_target_header = ''x-higress-llm-model'', ms_enable_on_path_suffix = [],
     ms_alias_name_mapping = [], ms_max_body_bytes = None\<rparr>"

record model_router_config =
  mr_prefix :: string
  mr_target_header :: string
  mr_model_key :: string
  mr_enable_on_path_suffix :: "string list"
  mr_alias_name_mapping :: "(string, string) hash_map"
  mr_max_body_bytes :: nat

definition default_max_body_bytes :: nat where
  "default_max_body_bytes = 8 * 1024 * 1024"

definition model_router_default :: model_router_config where
  "model_router_default = \<lparr>mr_prefix = ''/model/proxy/'', mr_target_header = ''x-higress-llm-model'',
     mr_model_key = ''model'', mr_enable_on_path_suffix = [], mr_alias_name_mapping = [],
     mr_max_body_bytes = default_max_body_bytes\<rparr>"

definition router_from_settings :: "model_router_settings \<Rightarrow> model_router_config" where
  "router_from_settings s =
     \<lparr>mr_prefix = (if ms_prefix s = [] then mr_prefix model_router_default else ms_prefix s),
      mr_target_header = (if ms_target_header s = [] then mr_target_header model_router_default
                          else ms_target_header s),
      mr_model_key = ''model'',
      mr_enable_on_path_suffix = ms_enable_on_path_suffix s,
      mr_alias_name_mapping = ms_alias_name_mapping s,
      mr_max_body_bytes = (case ms_max_body_bytes s of Some n \<Rightarrow> n | None \<Rightarrow> default_max_body_bytes)\<rparr>"

record provider_token =
  pt_service :: string
  pt_ingress_scope :: "string option"
  pt_api_tokens :: "string list"

record config_data =
  cd_routes :: "route_rule list"
  cd_registries :: "registry list"
  cd_proxies :: "outbound_proxy list"
  cd_features :: "gateway_feature_config list"
  cd_tls :: "tls_host list"
  cd_timing :: timing_config
  cd_model_router :: model_router_settings
  cd_provider_tokens :: "provider_token list"

type_synonym validation_error = string

section \<open>Sanitising the routes\<close>

definition route_label :: "route_rule \<Rightarrow> string" where
  "route_label r = (if rr_key r = [] then ''route (empty key)'' else ''route '' @ quoted (rr_key r))"

definition destination_issues :: "string \<Rightarrow> destination \<Rightarrow> validation_error list" where
  "destination_issues label d =
     (case dest_service_ref d of
        Inl e \<Rightarrow> [label @ '': bad endpoint '' @ quoted (dest_service d) @ '': '' @ error_to_string e]
      | Inr _ \<Rightarrow> []) @
     (case dest_percent d of
        Some p \<Rightarrow> if p > 100 then
            [label @ '': destination '' @ quoted (dest_service d) @ '' has out-of-range weight '' @
             dec_of_nat p @ '' (must be 0..=100)''] else []
      | None \<Rightarrow> [])"

text \<open>The checked accumulation with its early \<open>break\<close>.\<close>

fun checked_weight_sum :: "nat \<Rightarrow> destination list \<Rightarrow> nat" where
  "checked_weight_sum acc [] = acc"
| "checked_weight_sum acc (d # ds) =
     (if acc + dest_weight d \<le> u64_max then checked_weight_sum (acc + dest_weight d) ds else u64_max)"

definition is_weighted :: "route_rule \<Rightarrow> bool" where
  "is_weighted r \<longleftrightarrow> list_ex (\<lambda>d. dest_percent d \<noteq> None) (rr_destinations r)"

definition has_fallback_route :: "route_rule list \<Rightarrow> string \<Rightarrow> bool" where
  "has_fallback_route routes key \<longleftrightarrow> list_ex (\<lambda>r. rr_kind r = Fallback \<and> rr_key r = key) routes"

definition route_issues ::
  "route_rule list \<Rightarrow> (route_kind \<times> string) list \<Rightarrow> route_rule \<Rightarrow> validation_error list" where
  "route_issues routes seen r =
     (let label = route_label r;
          sum = checked_weight_sum 0 (rr_destinations r) in
      (if rr_key r = [] then [label @ '': route key must be non-empty'']
       else if (rr_kind r, rr_key r) \<in> set seen then [label @ '': duplicate route key''] else []) @
      (if rr_kind r = Mirror \<and> as_enabled (rr_auth_scope r)
       then [label @ '': mirror route must not have auth enabled''] else []) @
      (if rr_destinations r = [] then [label @ '': has no destinations''] else []) @
      concat (map (destination_issues label) (rr_destinations r)) @
      (if is_weighted r \<and> sum \<noteq> 100
       then [label @ '': destination weights sum to '' @ dec_of_nat sum @ '', expected 100''] else []) @
      (case rr_fallback r of
         Some fl \<Rightarrow> if has_fallback_route routes (fl_target_key fl) then []
                   else [label @ '': fallback target '' @ quoted (fl_target_key fl) @ '' not found in routes'']
       | None \<Rightarrow> []) @
      (if rr_kind r \<noteq> Mirror \<and> as_enabled (rr_auth_scope r) \<and> as_scope_root (rr_auth_scope r) = []
       then [label @ '': auth enabled but scope_root is empty''] else []))"

text \<open>The per-object pass: \<open>seen_keys\<close> grows with every non-empty key, accepted or not.\<close>

fun route_pass ::
  "route_rule list \<Rightarrow> (route_kind \<times> string) list \<Rightarrow> route_rule list \<Rightarrow> route_rule list \<times> validation_error list" where
  "route_pass routes seen [] = ([], [])"
| "route_pass routes seen (r # rs) =
     (let issues = route_issues routes seen r;
          seen' = (if rr_key r = [] then seen else (rr_kind r, rr_key r) # seen);
          (accepted, rest) = route_pass routes seen' rs
      in if issues = [] then (r # accepted, rest) else (accepted, issues @ rest))"

fun mirror_pass :: "bool \<Rightarrow> route_rule list \<Rightarrow> route_rule list \<times> validation_error list" where
  "mirror_pass mirror_seen [] = ([], [])"
| "mirror_pass mirror_seen (r # rs) =
     (if rr_kind r = Mirror \<and> mirror_seen then
        (let (kept, issues) = mirror_pass mirror_seen rs in
         (kept, (''route '' @ quoted (rr_key r) @
            '': only the first mirror route is used as the catch-all; additional mirror routes are unreachable and were dropped'') # issues))
      else
        (let (kept, issues) = mirror_pass (mirror_seen \<or> rr_kind r = Mirror) rs in (r # kept, issues)))"

text \<open>One pass of the cascade against the Fallback keys of the routes it starts from.\<close>

definition fallback_keys :: "route_rule list \<Rightarrow> string list" where
  "fallback_keys routes = map rr_key (filter (\<lambda>r. rr_kind r = Fallback) routes)"

definition dangling :: "string list \<Rightarrow> route_rule \<Rightarrow> bool" where
  "dangling keys r \<longleftrightarrow> (case rr_fallback r of Some fl \<Rightarrow> fl_target_key fl \<notin> set keys | None \<Rightarrow> False)"

definition cascade_pass :: "route_rule list \<Rightarrow> route_rule list \<times> validation_error list" where
  "cascade_pass routes =
     (let keys = fallback_keys routes in
      (filter (\<lambda>r. \<not> dangling keys r) routes,
       map (\<lambda>r. ''route '' @ quoted (rr_key r) @ '': fallback target '' @
              quoted (case rr_fallback r of Some fl \<Rightarrow> fl_target_key fl | None \<Rightarrow> []) @
              '' not accepted (referenced Fallback route was dropped by validation)'')
         (filter (dangling keys) routes)))"

text \<open>The \<open>for _pass in 0..=initial_len\<close> loop, with the passes left as fuel.\<close>

fun cascade :: "nat \<Rightarrow> route_rule list \<Rightarrow> route_rule list \<times> validation_error list" where
  "cascade 0 routes = (routes, [])"
| "cascade (Suc n) routes =
     (let (kept, issues) = cascade_pass routes in
      if length kept \<noteq> length routes
      then (let (final, rest) = cascade n kept in (final, issues @ rest))
      else (kept, issues))"

section \<open>Sanitising registries and provider tokens\<close>

definition registry_issues :: "outbound_proxy list \<Rightarrow> registry \<Rightarrow> validation_error list" where
  "registry_issues proxies reg =
     (let label = ''registry '' @ quoted (reg_id reg) in
      (if reg_id reg = [] \<or> reg_domain reg = [] then [label @ '': id and domain must be non-empty''] else []) @
      (case reg_kind reg of
         Dns \<Rightarrow> if reg_port reg = None then [label @ '': dns registry requires a port''] else []
       | Proxy \<Rightarrow>
           (case reg_proxy_ref reg of
              None \<Rightarrow> [label @ '': proxy registry requires proxy_ref'']
            | Some p \<Rightarrow> if list_ex (\<lambda>x. op_name x = p) proxies then []
                        else [label @ '': references unknown outbound proxy '' @ quoted p])
       | _ \<Rightarrow> []))"

definition is_valid_service_id :: "string \<Rightarrow> bool" where
  "is_valid_service_id service \<longleftrightarrow> service \<noteq> [] \<and>
     list_all (\<lambda>c. is_ascii_alnum c \<or> c = CHR ''-'' \<or> c = CHR ''_'' \<or> c = CHR ''.'') service"

definition token_issues :: "provider_token \<Rightarrow> validation_error list" where
  "token_issues pt =
     (let label = (if pt_service pt = [] then ''provider token (empty service)''
                   else ''provider token '' @ quoted (pt_service pt)) in
      (if is_valid_service_id (pt_service pt) then []
       else [label @ '': service must be a valid `name.type` id (alphanumeric, '' @
             quoted ''-'' @ '', '' @ quoted ''_'' @ '', '' @ quoted ''.'' @ '')'']) @
      (if pt_api_tokens pt = [] then [label @ '': has no apiTokens''] else []))"

text \<open>The shared shape of the two simpler passes.\<close>

fun drop_bad :: "('a \<Rightarrow> validation_error list) \<Rightarrow> 'a list \<Rightarrow> 'a list \<times> validation_error list" where
  "drop_bad check [] = ([], [])"
| "drop_bad check (x # xs) =
     (let (accepted, rest) = drop_bad check xs in
      if check x = [] then (x # accepted, rest) else (accepted, check x @ rest))"

definition sanitize :: "config_data \<Rightarrow> config_data \<times> validation_error list" where
  "sanitize cd =
     (let (routes1, issues1) = route_pass (cd_routes cd) [] (cd_routes cd);
          (routes2, issues2) = mirror_pass False routes1;
          (routes3, issues3) = cascade (Suc (length routes2)) routes2;
          (registries, issues4) = drop_bad (registry_issues (cd_proxies cd)) (cd_registries cd);
          (tokens, issues5) = drop_bad token_issues (cd_provider_tokens cd)
      in (cd\<lparr>cd_routes := routes3, cd_registries := registries, cd_provider_tokens := tokens\<rparr>,
          sort (issues1 @ issues2 @ issues3 @ issues4 @ issues5)))"

section \<open>What an accepted snapshot guarantees\<close>

definition route_ok :: "route_rule \<Rightarrow> bool" where
  "route_ok r \<longleftrightarrow> rr_key r \<noteq> [] \<and> rr_destinations r \<noteq> [] \<and>
     (\<forall>d \<in> set (rr_destinations r). (\<exists>s. dest_service_ref d = Inr s) \<and>
        (\<forall>p. dest_percent d = Some p \<longrightarrow> p \<le> 100)) \<and>
     (is_weighted r \<longrightarrow> sum_list (map dest_weight (rr_destinations r)) = 100) \<and>
     (if rr_kind r = Mirror then \<not> as_enabled (rr_auth_scope r)
      else (as_enabled (rr_auth_scope r) \<longrightarrow> as_scope_root (rr_auth_scope r) \<noteq> []))"

definition routes_ok :: "route_rule list \<Rightarrow> bool" where
  "routes_ok rs \<longleftrightarrow> (\<forall>r \<in> set rs. route_ok r) \<and>
     distinct (map (\<lambda>r. (rr_kind r, rr_key r)) rs) \<and>
     length (filter (\<lambda>r. rr_kind r = Mirror) rs) \<le> 1 \<and>
     (\<forall>r \<in> set rs. \<forall>fl. rr_fallback r = Some fl \<longrightarrow> has_fallback_route rs (fl_target_key fl))"

definition config_ok :: "config_data \<Rightarrow> bool" where
  "config_ok cd \<longleftrightarrow> routes_ok (cd_routes cd) \<and>
     (\<forall>r \<in> set (cd_registries cd). registry_issues (cd_proxies cd) r = []) \<and>
     (\<forall>t \<in> set (cd_provider_tokens cd). token_issues t = [])"

lemma checked_weight_sum_exact:
  "acc \<le> u64_max \<Longrightarrow> checked_weight_sum acc ds = min u64_max (acc + sum_list (map dest_weight ds))"
  by (induction acc ds rule: checked_weight_sum.induct) auto

lemma destination_issues_Nil:
  "destination_issues l d = [] \<longleftrightarrow> (\<exists>s. dest_service_ref d = Inr s) \<and> (\<forall>p. dest_percent d = Some p \<longrightarrow> p \<le> 100)"
  by (auto simp: destination_issues_def split: sum.splits option.splits if_splits)

lemma route_issues_Nil:
  "route_issues routes seen r = [] \<longleftrightarrow> route_ok r \<and> (rr_kind r, rr_key r) \<notin> set seen \<and>
     (\<forall>fl. rr_fallback r = Some fl \<longrightarrow> has_fallback_route routes (fl_target_key fl))"
proof -
  have "checked_weight_sum 0 ds = 100 \<longleftrightarrow> sum_list (map dest_weight ds) = 100" for ds
    by (auto simp: checked_weight_sum_exact u64_max_def min_def)
  then show ?thesis
    unfolding route_issues_def Let_def append_is_Nil_conv concat_eq_Nil_conv route_ok_def
    by (auto simp: destination_issues_Nil split: option.splits if_splits)
qed

lemma route_pass_sound:
  "route_pass routes seen rs = (acc, issues) \<Longrightarrow>
   (\<forall>r \<in> set acc. route_ok r \<and> (rr_kind r, rr_key r) \<notin> set seen) \<and>
   distinct (map (\<lambda>r. (rr_kind r, rr_key r)) acc)"
proof (induction rs arbitrary: seen acc issues)
  case (Cons r rs)
  let ?seen = "if rr_key r = [] then seen else (rr_kind r, rr_key r) # seen"
  obtain acc' issues' where rest: "route_pass routes ?seen rs = (acc', issues')" by fastforce
  note IH = Cons.IH [OF rest]
  show ?case
  proof (cases "route_issues routes seen r = []")
    case True
    then have "acc = r # acc'" using Cons.prems rest by (simp add: Let_def)
    moreover have "rr_key r \<noteq> []" using True by (simp add: route_issues_Nil route_ok_def)
    ultimately show ?thesis using True IH by (auto simp: route_issues_Nil)
  next
    case False
    then have "acc = acc'" using Cons.prems rest by (simp add: Let_def)
    then show ?thesis using IH by (auto split: if_splits)
  qed
qed simp

lemma subseq_set: "subseq xs ys \<Longrightarrow> set xs \<subseteq> set ys"
  by (auto simp: subseq_conv_nths dest: in_set_nthsD)

lemma subseq_distinct_map: "subseq xs ys \<Longrightarrow> distinct (map f ys) \<Longrightarrow> distinct (map f xs)"
  by (auto simp: subseq_conv_nths nths_map [symmetric] intro: distinct_nthsI)

lemma subseq_filter_length: "subseq xs ys \<Longrightarrow> length (filter P xs) \<le> length (filter P ys)"
  by (rule list_emb_length [OF subseq_filter])

lemma route_pass_subseq: "subseq (fst (route_pass routes seen rs)) rs"
  by (induction routes seen rs rule: route_pass.induct) (auto simp: Let_def split: prod.splits)

lemma mirror_pass_subseq:
  "subseq (fst (mirror_pass seen rs)) rs \<and>
   length (filter (\<lambda>r. rr_kind r = Mirror) (fst (mirror_pass seen rs))) \<le> (if seen then 0 else 1)"
proof (induction seen rs rule: mirror_pass.induct)
  case (2 seen r rs)
  show ?case
  proof (cases "rr_kind r = Mirror \<and> seen")
    case True
    then show ?thesis using "2.IH"(1) [OF True] by (auto simp: split_beta)
  next
    case False
    then show ?thesis using "2.IH"(2) [OF False] by (auto simp: split_beta split: if_splits)
  qed
qed simp

lemma cascade_pass_fst:
  "fst (cascade_pass routes) = filter (\<lambda>r. \<not> dangling (fallback_keys routes) r) routes"
  by (simp add: cascade_pass_def Let_def)

text \<open>More fuel than routes is enough to reach the fixpoint.\<close>

lemma cascade_fixpoint:
  "length routes < n \<Longrightarrow> subseq (fst (cascade n routes)) routes \<and>
   (\<forall>r \<in> set (fst (cascade n routes)). \<not> dangling (fallback_keys (fst (cascade n routes))) r)"
proof (induction n arbitrary: routes)
  case (Suc n)
  let ?kept = "filter (\<lambda>r. \<not> dangling (fallback_keys routes) r) routes"
  show ?case
  proof (cases "length ?kept = length routes")
    case True
    have eq: "?kept = routes" by (rule subseq_same_length [OF subseq_filter_left True])
    have "fst (cascade (Suc n) routes) = routes"
      using True eq by (simp add: split_beta cascade_pass_fst)
    then show ?thesis using eq by (simp add: filter_id_conv)
  next
    case False
    then have lt: "length ?kept < n"
      using Suc.prems length_filter_le [of "\<lambda>r. \<not> dangling (fallback_keys routes) r" routes] by linarith
    have "fst (cascade (Suc n) routes) = fst (cascade n ?kept)"
      using False by (simp add: split_beta cascade_pass_fst)
    then show ?thesis using Suc.IH [OF lt] subseq_order.trans [OF _ subseq_filter_left] by metis
  qed
qed simp

lemma not_dangling_iff:
  "\<not> dangling (fallback_keys rs) r \<longleftrightarrow>
     (\<forall>fl. rr_fallback r = Some fl \<longrightarrow> has_fallback_route rs (fl_target_key fl))"
  by (auto simp: dangling_def fallback_keys_def has_fallback_route_def list_ex_iff image_iff
      split: option.splits)

lemma drop_bad_filter:
  "fst (drop_bad check xs) = filter (\<lambda>x. check x = []) xs"
  "snd (drop_bad check xs) = concat (map check xs)"
  by (induction check xs rule: drop_bad.induct) (auto simp: Let_def split_beta)

definition sanitized_routes :: "config_data \<Rightarrow> route_rule list" where
  "sanitized_routes cd =
     (let r2 = fst (mirror_pass False (fst (route_pass (cd_routes cd) [] (cd_routes cd))))
      in fst (cascade (Suc (length r2)) r2))"

lemma sanitize_fst:
  "fst (sanitize cd) = cd\<lparr>cd_routes := sanitized_routes cd,
     cd_registries := filter (\<lambda>r. registry_issues (cd_proxies cd) r = []) (cd_registries cd),
     cd_provider_tokens := filter (\<lambda>t. token_issues t = []) (cd_provider_tokens cd)\<rparr>"
  by (simp add: sanitize_def sanitized_routes_def split_beta Let_def drop_bad_filter)

lemma sanitized_routes_ok: "routes_ok (sanitized_routes cd) \<and> subseq (sanitized_routes cd) (cd_routes cd)"
proof -
  let ?r1 = "fst (route_pass (cd_routes cd) [] (cd_routes cd))"
  let ?r2 = "fst (mirror_pass False ?r1)" and ?r3 = "sanitized_routes cd"
  have p1: "\<forall>r \<in> set ?r1. route_ok r" "distinct (map (\<lambda>r. (rr_kind r, rr_key r)) ?r1)"
    using route_pass_sound [of "cd_routes cd" "[]" "cd_routes cd"] by (metis prod.collapse)+
  have s21: "subseq ?r2 ?r1" and m2: "length (filter (\<lambda>r. rr_kind r = Mirror) ?r2) \<le> 1"
    using mirror_pass_subseq [of False ?r1] by auto
  have s32: "subseq ?r3 ?r2" and fx: "\<forall>r \<in> set ?r3. \<not> dangling (fallback_keys ?r3) r"
    using cascade_fixpoint [of ?r2 "Suc (length ?r2)"] by (simp_all add: sanitized_routes_def Let_def)
  have s31: "subseq ?r3 ?r1" using s32 s21 by (rule subseq_order.trans)
  have "\<forall>r \<in> set ?r3. route_ok r" using p1(1) subseq_set [OF s31] by blast
  moreover have "distinct (map (\<lambda>r. (rr_kind r, rr_key r)) ?r3)"
    by (rule subseq_distinct_map [OF s31 p1(2)])
  moreover have "length (filter (\<lambda>r. rr_kind r = Mirror) ?r3) \<le> 1"
    using subseq_filter_length [OF s32, of "\<lambda>r. rr_kind r = Mirror"] m2 by linarith
  ultimately have "routes_ok ?r3" unfolding routes_ok_def using fx not_dangling_iff by blast
  moreover have "subseq ?r3 (cd_routes cd)"
    using s31 route_pass_subseq by (rule subseq_order.trans)
  ultimately show ?thesis by simp
qed

text \<open>Conversely nothing is dropped from routes that are already well formed.\<close>

lemma route_pass_keeps:
  assumes "\<forall>r \<in> set rs. route_ok r \<and>
      (\<forall>fl. rr_fallback r = Some fl \<longrightarrow> has_fallback_route routes (fl_target_key fl))"
    and "distinct (map (\<lambda>r. (rr_kind r, rr_key r)) rs)"
    and "\<forall>r \<in> set rs. (rr_kind r, rr_key r) \<notin> set seen"
  shows "route_pass routes seen rs = (rs, [])"
  using assms
proof (induction rs arbitrary: seen)
  case (Cons r rs)
  have "route_issues routes seen r = []" using Cons.prems by (simp add: route_issues_Nil)
  moreover have "rr_key r \<noteq> []" using Cons.prems(1) by (simp add: route_ok_def)
  moreover have "route_pass routes ((rr_kind r, rr_key r) # seen) rs = (rs, [])"
    using Cons.prems by (intro Cons.IH) (auto simp: image_iff)
  ultimately show ?case by simp
qed simp

lemma mirror_pass_keeps:
  "length (filter (\<lambda>r. rr_kind r = Mirror) rs) \<le> (if seen then 0 else 1) \<Longrightarrow>
   mirror_pass seen rs = (rs, [])"
proof (induction rs arbitrary: seen)
  case (Cons r rs)
  have "length (filter (\<lambda>r. rr_kind r = Mirror) rs) \<le> (if seen \<or> rr_kind r = Mirror then 0 else 1)"
    using Cons.prems by (auto split: if_splits)
  from Cons.IH [OF this] show ?case using Cons.prems by (auto split: if_splits)
qed simp

lemma cascade_keeps:
  "\<forall>r \<in> set rs. \<not> dangling (fallback_keys rs) r \<Longrightarrow> cascade (Suc n) rs = (rs, [])"
  by (simp add: cascade_pass_def Let_def filter_id_conv filter_empty_conv)

lemma sanitize_keeps:
  assumes ok: "config_ok cd" shows "sanitize cd = (cd, [])"
proof -
  let ?rs = "cd_routes cd"
  have r: "routes_ok ?rs" and reg: "\<forall>r \<in> set (cd_registries cd). registry_issues (cd_proxies cd) r = []"
    and tok: "\<forall>t \<in> set (cd_provider_tokens cd). token_issues t = []"
    using ok by (simp_all add: config_ok_def)
  have "route_pass ?rs [] ?rs = (?rs, [])"
    using r unfolding routes_ok_def by (intro route_pass_keeps) auto
  moreover have "mirror_pass False ?rs = (?rs, [])"
    using r unfolding routes_ok_def by (intro mirror_pass_keeps) auto
  moreover have "cascade (Suc (length ?rs)) ?rs = (?rs, [])"
    using r not_dangling_iff unfolding routes_ok_def by (intro cascade_keeps) blast
  moreover have "drop_bad (registry_issues (cd_proxies cd)) (cd_registries cd) = (cd_registries cd, [])"
    using reg by (intro prod_eqI) (simp_all add: drop_bad_filter filter_id_conv)
  moreover have "drop_bad token_issues (cd_provider_tokens cd) = (cd_provider_tokens cd, [])"
    using tok by (intro prod_eqI) (simp_all add: drop_bad_filter filter_id_conv)
  ultimately show ?thesis by (simp add: sanitize_def)
qed

text \<open>
  Property C23. Whatever the control plane sent, the accepted snapshot is well formed: unique
  non-empty route keys per kind, at most one mirror, no authenticated mirror, parseable
  destinations whose weights are at most 100 and sum to 100 when given, no fallback target without
  an accepted Fallback route (the cascade reaches its fixpoint within its bound), resolvable
  registries and usable tokens; accepted routes keep their order; and a snapshot that already is
  well formed is accepted whole, without an issue, so sanitising twice is sanitising once.
\<close>

theorem sanitize_correct:
  "config_ok (fst (sanitize cd)) \<and> subseq (cd_routes (fst (sanitize cd))) (cd_routes cd) \<and>
   sanitize (fst (sanitize cd)) = (fst (sanitize cd), []) \<and>
   (config_ok cd \<longrightarrow> sanitize cd = (cd, []))"
proof -
  have "config_ok (fst (sanitize cd))"
    using sanitized_routes_ok [of cd] by (auto simp: config_ok_def sanitize_fst)
  then show ?thesis using sanitize_keeps [of "fst (sanitize cd)"] sanitize_keeps [of cd] sanitized_routes_ok [of cd]
    by (simp add: sanitize_fst)
qed

text \<open>A snapshot with a model route, its fallback route and the mirror.\<close>

definition sample_route :: "string \<Rightarrow> route_kind \<Rightarrow> destination list \<Rightarrow> fallback_link option \<Rightarrow> route_rule" where
  "sample_route key kind ds fl =
     \<lparr>rr_key = key, rr_ingress_name = key, rr_kind = kind, rr_path_predicates = [path_pred_new ''/(.*)''],
      rr_rewrite_target = None, rr_destinations = ds, rr_retry = retry_default, rr_fallback = fl,
      rr_auth_scope = auth_scope_for_kind kind, rr_model_mapping = [], rr_sources = []\<rparr>"

definition sample_config :: config_data where
  "sample_config = \<lparr>cd_routes =
       [sample_route ''qwen'' Main [destination_with_percent 100 ''a.static:80''] (Some (fallback_link_new ''m'')),
        sample_route ''m'' Fallback [destination_with_percent 100 ''b.static:80''] None,
        sample_route ''gpustack'' Mirror [destination_new ''gw.dns:80''] None],
     cd_registries = [], cd_proxies = [], cd_features = [], cd_tls = [], cd_timing = timing_default,
     cd_model_router = model_router_settings_default, cd_provider_tokens = []\<rparr>"

lemma sample_services:
  "parse_service_with_port ''a.static:80'' = Inr \<lparr>sr_name = ''a'', sr_kind = Static, sr_port = Some 80\<rparr>"
  "parse_service_with_port ''b.static:80'' = Inr \<lparr>sr_name = ''b'', sr_kind = Static, sr_port = Some 80\<rparr>"
  "parse_service_with_port ''gw.dns:80'' = Inr \<lparr>sr_name = ''gw'', sr_kind = Dns, sr_port = Some 80\<rparr>"
proof -
  have t: "''a.static:80'' = ''a'' @ CHR ''.'' # Destination.suffix Static @ CHR '':'' # dec_of_nat 80"
    "''b.static:80'' = ''b'' @ CHR ''.'' # Destination.suffix Static @ CHR '':'' # dec_of_nat 80"
    "''gw.dns:80'' = ''gw'' @ CHR ''.'' # Destination.suffix Dns @ CHR '':'' # dec_of_nat 80"
    by code_simp+
  have w: "leading_ws ws_encodings ''a'' = 0" "leading_ws ws_encodings ''b'' = 0"
    "leading_ws ws_encodings ''gw'' = 0"
    by code_simp+
  have p: "(80::nat) \<le> u16_max" by (simp add: u16_max_def)
  show "parse_service_with_port ''a.static:80'' = Inr \<lparr>sr_name = ''a'', sr_kind = Static, sr_port = Some 80\<rparr>"
    "parse_service_with_port ''b.static:80'' = Inr \<lparr>sr_name = ''b'', sr_kind = Static, sr_port = Some 80\<rparr>"
    "parse_service_with_port ''gw.dns:80'' = Inr \<lparr>sr_name = ''gw'', sr_kind = Dns, sr_port = Some 80\<rparr>"
    unfolding t by (rule parse_service_text; simp add: w p)+
qed

lemma sample_route_ok:
  assumes "key \<noteq> []" and "\<exists>r. parse_service_with_port s = Inr r"
  shows "kind \<noteq> Mirror \<Longrightarrow> route_ok (sample_route key kind [destination_with_percent 100 s] fl)"
    and "kind = Mirror \<Longrightarrow> route_ok (sample_route key kind [destination_new s] fl)"
  using assms by (cases kind; simp add: sample_route_def route_ok_def is_weighted_def dest_service_ref_def
      destination_with_percent_def destination_new_def dest_weight_def auth_scope_for_kind_def
      default_scope_root_def)+

theorem sanitize_correct_witness: "sanitize sample_config = (sample_config, [])"
proof -
  have ok: "\<forall>r \<in> set (cd_routes sample_config). route_ok r"
    using sample_services unfolding sample_config_def
    by (simp add: sample_route_ok)
  have "distinct (map (\<lambda>r. (rr_kind r, rr_key r)) (cd_routes sample_config))"
    "length (filter (\<lambda>r. rr_kind r = Mirror) (cd_routes sample_config)) \<le> 1"
    "\<forall>r \<in> set (cd_routes sample_config). \<forall>fl. rr_fallback r = Some fl \<longrightarrow>
       has_fallback_route (cd_routes sample_config) (fl_target_key fl)"
    unfolding sample_config_def
    by (simp_all add: sample_route_def has_fallback_route_def fallback_link_new_def)
  with ok have "routes_ok (cd_routes sample_config)" unfolding routes_ok_def by blast
  then have "config_ok sample_config" unfolding config_ok_def by (simp add: sample_config_def)
  then show ?thesis using sanitize_correct [of sample_config] by blast
qed

section \<open>Fallback view and the provider key swap\<close>

record fallback_spec =
  fs_route_key :: string
  fs_main_ingress_name :: string
  fs_target_key :: string
  fs_max_redirects :: nat
  fs_use_original_body :: bool
  fs_use_original_uri :: bool

definition fallback_from_route :: "route_rule \<Rightarrow> fallback_spec option" where
  "fallback_from_route route =
     map_option (\<lambda>link. \<lparr>fs_route_key = rr_key route,
        fs_main_ingress_name = (if fl_main_ingress_name link = [] then rr_ingress_name route
                                else fl_main_ingress_name link),
        fs_target_key = fl_target_key link, fs_max_redirects = fl_max_redirects link,
        fs_use_original_body = fl_use_original_request link,
        fs_use_original_uri = fl_use_original_request link\<rparr>) (rr_fallback route)"

definition config_fallbacks :: "config_data \<Rightarrow> fallback_spec list" where
  "config_fallbacks cd = List.map_filter fallback_from_route (cd_routes cd)"

definition first_token :: "provider_token \<Rightarrow> string option" where
  "first_token pt = (case pt_api_tokens pt of [] \<Rightarrow> None | t # _ \<Rightarrow> Some t)"

text \<open>The loop over the tokens, with the first global token seen so far.\<close>

fun provider_bearer_loop ::
  "string \<Rightarrow> string \<Rightarrow> provider_token option \<Rightarrow> provider_token list \<Rightarrow> string option" where
  "provider_bearer_loop service ingress_bare global [] = Option.bind global first_token"
| "provider_bearer_loop service ingress_bare global (pt # pts) =
     (if pt_service pt \<noteq> service \<or> pt_api_tokens pt = []
      then provider_bearer_loop service ingress_bare global pts
      else (case pt_ingress_scope pt of
              Some scope \<Rightarrow>
                (let scope_bare = last_segment CHR ''/'' scope in
                 if scope_bare \<noteq> [] \<and> scope_bare = ingress_bare then first_token pt
                 else provider_bearer_loop service ingress_bare global pts)
            | None \<Rightarrow>
                provider_bearer_loop service ingress_bare
                  (case global of None \<Rightarrow> Some pt | Some g \<Rightarrow> Some g) pts))"

definition provider_bearer :: "provider_token list \<Rightarrow> string \<Rightarrow> string \<Rightarrow> string option" where
  "provider_bearer tokens service ingress_name =
     provider_bearer_loop service (last_segment CHR ''/'' ingress_name) None tokens"

definition usable_token :: "string \<Rightarrow> provider_token \<Rightarrow> bool" where
  "usable_token service pt \<longleftrightarrow> pt_service pt = service \<and> pt_api_tokens pt \<noteq> []"

definition scope_matches :: "string \<Rightarrow> provider_token \<Rightarrow> bool" where
  "scope_matches ingress_bare pt \<longleftrightarrow> ingress_bare \<noteq> [] \<and>
     (\<exists>scope. pt_ingress_scope pt = Some scope \<and> last_segment CHR ''/'' scope = ingress_bare)"

lemma provider_bearer_loop_spec:
  "provider_bearer_loop service bare global pts =
     (case find (\<lambda>pt. usable_token service pt \<and> scope_matches bare pt) pts of
        Some pt \<Rightarrow> first_token pt
      | None \<Rightarrow> Option.bind (case global of Some g \<Rightarrow> Some g
            | None \<Rightarrow> find (\<lambda>pt. usable_token service pt \<and> pt_ingress_scope pt = None) pts) first_token)"
proof (induction service bare global pts rule: provider_bearer_loop.induct)
  case (2 service bare global pt pts)
  then show ?case
    by (cases "pt_ingress_scope pt"; cases global)
       (auto simp: usable_token_def scope_matches_def Let_def split: option.splits)
qed (auto split: option.splits)

text \<open>
  The key swap picks the first token scoped to the request's ingress (compared by
  bare name) for the service, and only without one the first unscoped token; a token of another
  service, of another ingress, or without keys is never used.
\<close>

theorem provider_bearer_spec:
  "provider_bearer tokens service ingress =
     (case find (\<lambda>pt. usable_token service pt \<and> scope_matches (last_segment CHR ''/'' ingress) pt) tokens of
        Some pt \<Rightarrow> first_token pt
      | None \<Rightarrow> Option.bind (find (\<lambda>pt. usable_token service pt \<and> pt_ingress_scope pt = None) tokens)
                  first_token)"
  unfolding provider_bearer_def provider_bearer_loop_spec option.case ..

end
