(* ===== verification/Headers.thy ===== *)
theory Headers
  imports Prelude
begin

text \<open>
  Header maps of \<open>hygress-core/src/transform.rs\<close>: the case-insensitive multi-value \<open>HeaderMap\<close>,
  the lazy per-candidate overlay \<open>OutboundHeaders\<close>, and the \<open>HeaderOps\<close> trait both implement.
  The trait is a record of operations; its contract is the locale \<open>header_contract\<close>, interpreted
  on both implementations. The overlay is related to the clone-then-mutate map it replaces.
\<close>

section \<open>HeaderMap\<close>

type_synonym header_map = "(string, string list) hash_map"

text \<open>\<open>key\<close> and \<open>lookup\<close>: the name itself when it has no upper-case byte, lowered otherwise.\<close>

definition is_ascii_lowercase :: "string \<Rightarrow> bool" where
  "is_ascii_lowercase name \<longleftrightarrow> \<not> (\<exists>b \<in> set name. is_ascii_upper b)"

definition header_key :: "string \<Rightarrow> string" where
  "header_key name = (if is_ascii_lowercase name then name else to_ascii_lowercase name)"

definition header_insert :: "string \<Rightarrow> string \<Rightarrow> header_map \<Rightarrow> header_map" where
  "header_insert name v m = hm_insert (header_key name) [v] m"

definition header_append :: "string \<Rightarrow> string \<Rightarrow> header_map \<Rightarrow> header_map" where
  "header_append name v m =
     hm_insert (header_key name)
       ((case hm_get m (header_key name) of None \<Rightarrow> [] | Some vs \<Rightarrow> vs) @ [v]) m"

definition header_get :: "header_map \<Rightarrow> string \<Rightarrow> string option" where
  "header_get m name =
     (case hm_get m (header_key name) of Some (v # _) \<Rightarrow> Some v | _ \<Rightarrow> None)"

definition header_get_all :: "header_map \<Rightarrow> string \<Rightarrow> string list" where
  "header_get_all m name = (case hm_get m (header_key name) of None \<Rightarrow> [] | Some vs \<Rightarrow> vs)"

definition header_count :: "header_map \<Rightarrow> string \<Rightarrow> nat" where
  "header_count m name = (case hm_get m (header_key name) of None \<Rightarrow> 0 | Some vs \<Rightarrow> length vs)"

definition header_contains :: "header_map \<Rightarrow> string \<Rightarrow> bool" where
  "header_contains m name \<longleftrightarrow> hm_get m (header_key name) \<noteq> None"

definition header_remove :: "string \<Rightarrow> header_map \<Rightarrow> header_map" where
  "header_remove name m = (if \<not> header_contains m name then m else hm_remove (header_key name) m)"

definition header_names :: "header_map \<Rightarrow> string list" where
  "header_names m = hm_keys m"

text \<open>One pair per value, in map order (both the moving and the cloning branch of the source).\<close>

definition push_name_value_pairs :: "(string \<times> string) list \<Rightarrow> string \<Rightarrow> string list \<Rightarrow> (string \<times> string) list" where
  "push_name_value_pairs pairs name vs = pairs @ map (Pair name) vs"

definition header_into_pairs :: "header_map \<Rightarrow> (string \<times> string) list" where
  "header_into_pairs m = foldl (\<lambda>pairs (name, vs). push_name_value_pairs pairs name vs) [] m"

definition header_from_iter :: "(string \<times> string) list \<Rightarrow> header_map" where
  "header_from_iter ps = foldl (\<lambda>m (k, v). header_append k v m) [] ps"

definition header_wf :: "header_map \<Rightarrow> bool" where
  "header_wf m \<longleftrightarrow> hm_wf m \<and> (\<forall>k vs. hm_get m k = Some vs \<longrightarrow> vs \<noteq> [] \<and> header_key k = k)"

lemma header_key_lower: "header_key n = to_ascii_lowercase n"
  unfolding header_key_def is_ascii_lowercase_def to_ascii_lowercase_def
  by (auto intro!: map_idI [symmetric] ascii_lower_not_upper)

lemma header_key_idem [simp]: "header_key (header_key n) = header_key n"
  by (simp add: header_key_lower)

lemma header_get_all_key [simp]: "header_get_all m (header_key n) = header_get_all m n"
  by (simp add: header_get_all_def)

lemma header_get_all_insert:
  "header_get_all (header_insert n v m) k = (if header_key k = header_key n then [v] else header_get_all m k)"
  by (simp add: header_get_all_def header_insert_def hm.get_insert)

lemma header_get_all_append:
  "header_get_all (header_append n v m) k =
     (if header_key k = header_key n then header_get_all m k @ [v] else header_get_all m k)"
  by (simp add: header_get_all_def header_append_def hm.get_insert split: option.splits)

lemma header_get_all_remove:
  "header_get_all (header_remove n m) k = (if header_key k = header_key n then [] else header_get_all m k)"
  by (simp add: header_get_all_def header_remove_def header_contains_def hm.get_remove)

lemma header_wf_empty: "header_wf []"
  by (simp add: header_wf_def hm.wf_empty hm.get_empty)

lemma header_wf_insert: "header_wf m \<Longrightarrow> header_wf (header_insert n v m)"
  by (auto simp: header_wf_def header_insert_def hm.wf_insert hm.get_insert split: if_splits)

lemma header_wf_append: "header_wf m \<Longrightarrow> header_wf (header_append n v m)"
  by (auto simp: header_wf_def header_append_def hm.wf_insert hm.get_insert split: if_splits)

lemma header_wf_remove: "header_wf m \<Longrightarrow> header_wf (header_remove n m)"
  by (auto simp: header_wf_def header_remove_def hm.wf_remove hm.get_remove split: if_splits)

lemma header_contains_iff: "header_wf m \<Longrightarrow> header_contains m n \<longleftrightarrow> header_get_all m n \<noteq> []"
  by (auto simp: header_wf_def header_contains_def header_get_all_def split: option.splits)

lemma header_get_first:
  "header_get m n = (case header_get_all m n of [] \<Rightarrow> None | v # _ \<Rightarrow> Some v)"
  by (simp add: header_get_def header_get_all_def split: option.splits list.splits)

lemma header_count_length: "header_count m n = length (header_get_all m n)"
  by (simp add: header_count_def header_get_all_def split: option.splits)

section \<open>OutboundHeaders\<close>

record outbound_headers =
  oh_base :: header_map
  oh_overrides :: "(string \<times> string list) list"
  oh_removed :: "string list"

definition oh_new :: "header_map \<Rightarrow> outbound_headers" where
  "oh_new base = \<lparr>oh_base = base, oh_overrides = [], oh_removed = []\<rparr>"

text \<open>\<open>iter_mut().find(..)\<close> on the override list, and \<open>remove(position)\<close>.\<close>

fun ov_modify :: "string \<Rightarrow> (string list \<Rightarrow> string list) \<Rightarrow> (string \<times> string list) list \<Rightarrow>
    (string \<times> string list) list" where
  "ov_modify k f [] = []"
| "ov_modify k f ((n, vs) # ov) = (if n = k then (n, f vs) # ov else (n, vs) # ov_modify k f ov)"

fun ov_remove :: "string \<Rightarrow> (string \<times> string list) list \<Rightarrow> (string \<times> string list) list" where
  "ov_remove k [] = []"
| "ov_remove k ((n, vs) # ov) = (if n = k then ov else (n, vs) # ov_remove k ov)"

definition oh_insert :: "string \<Rightarrow> string \<Rightarrow> outbound_headers \<Rightarrow> outbound_headers" where
  "oh_insert name v h =
     (let key = header_key name;
          h = h\<lparr>oh_removed := remove1 key (oh_removed h)\<rparr>
      in if map_of (oh_overrides h) key \<noteq> None
         then h\<lparr>oh_overrides := ov_modify key (\<lambda>_. [v]) (oh_overrides h)\<rparr>
         else h\<lparr>oh_overrides := oh_overrides h @ [(key, [v])]\<rparr>)"

definition oh_append :: "string \<Rightarrow> string \<Rightarrow> outbound_headers \<Rightarrow> outbound_headers" where
  "oh_append name v h =
     (let key = header_key name;
          was_removed = (key \<in> set (oh_removed h));
          h = h\<lparr>oh_removed := remove1 key (oh_removed h)\<rparr>
      in if map_of (oh_overrides h) key \<noteq> None
         then h\<lparr>oh_overrides := ov_modify key (\<lambda>vs. vs @ [v]) (oh_overrides h)\<rparr>
         else if was_removed then h\<lparr>oh_overrides := oh_overrides h @ [(key, [v])]\<rparr>
         else h\<lparr>oh_overrides := oh_overrides h @ [(key, header_get_all (oh_base h) key @ [v])]\<rparr>)"

definition oh_remove :: "string \<Rightarrow> outbound_headers \<Rightarrow> outbound_headers" where
  "oh_remove name h =
     (let key = header_key name;
          h = h\<lparr>oh_overrides := ov_remove key (oh_overrides h)\<rparr>
      in if header_contains (oh_base h) key \<and> key \<notin> set (oh_removed h)
         then h\<lparr>oh_removed := oh_removed h @ [key]\<rparr> else h)"

definition oh_get :: "outbound_headers \<Rightarrow> string \<Rightarrow> string option" where
  "oh_get h name =
     (let key = header_key name in
      case map_of (oh_overrides h) key of
        Some vs \<Rightarrow> (case vs of [] \<Rightarrow> None | v # _ \<Rightarrow> Some v)
      | None \<Rightarrow> if key \<in> set (oh_removed h) then None else header_get (oh_base h) key)"

definition oh_get_all :: "outbound_headers \<Rightarrow> string \<Rightarrow> string list" where
  "oh_get_all h name =
     (let key = header_key name in
      case map_of (oh_overrides h) key of
        Some vs \<Rightarrow> vs
      | None \<Rightarrow> if key \<in> set (oh_removed h) then [] else header_get_all (oh_base h) key)"

definition oh_count :: "outbound_headers \<Rightarrow> string \<Rightarrow> nat" where
  "oh_count h name = length (oh_get_all h name)"

definition oh_contains :: "outbound_headers \<Rightarrow> string \<Rightarrow> bool" where
  "oh_contains h name =
     (let key = header_key name in
      if map_of (oh_overrides h) key \<noteq> None then True
      else key \<notin> set (oh_removed h) \<and> header_contains (oh_base h) key)"

definition oh_names :: "outbound_headers \<Rightarrow> string list" where
  "oh_names h =
     filter (\<lambda>n. n \<notin> set (oh_removed h)) (header_names (oh_base h)) @
     map fst (filter (\<lambda>(n, _). \<not> header_contains (oh_base h) n) (oh_overrides h))"

text \<open>The dial: base order first, a shadowed name drained at its base position, then the rest.\<close>

fun oh_drain :: "(string \<times> string list) list \<Rightarrow> string list \<Rightarrow> (string \<times> string list) list \<Rightarrow>
    (string \<times> string) list \<Rightarrow> (string \<times> string) list" where
  "oh_drain [] removed overrides pairs =
     foldl (\<lambda>ps (name, vs). push_name_value_pairs ps name vs) pairs overrides"
| "oh_drain ((name, base_values) # base) removed overrides pairs =
     (if name \<in> set removed then oh_drain base removed overrides pairs
      else (case map_of overrides name of
              Some vs \<Rightarrow>
                oh_drain base removed (ov_remove name overrides) (push_name_value_pairs pairs name vs)
            | None \<Rightarrow>
                oh_drain base removed overrides (push_name_value_pairs pairs name base_values)))"

definition oh_into_pairs :: "outbound_headers \<Rightarrow> (string \<times> string) list" where
  "oh_into_pairs h = oh_drain (oh_base h) (oh_removed h) (oh_overrides h) []"

definition oh_materialize :: "outbound_headers \<Rightarrow> header_map" where
  "oh_materialize h =
     (let m = foldl (\<lambda>m name. if header_contains m name then header_remove name m else m)
                (oh_base h) (oh_removed h)
      in foldl (\<lambda>m (name, vs). case vs of [] \<Rightarrow> m
                | v # rest \<Rightarrow> foldl (\<lambda>m w. header_append name w m) (header_insert name v m) rest)
           m (oh_overrides h))"

text \<open>The layout invariant stated in the source.\<close>

definition oh_wf :: "outbound_headers \<Rightarrow> bool" where
  "oh_wf h \<longleftrightarrow> header_wf (oh_base h) \<and> distinct (map fst (oh_overrides h)) \<and>
     distinct (oh_removed h) \<and> set (oh_removed h) \<inter> fst ` set (oh_overrides h) = {} \<and>
     (\<forall>(n, vs) \<in> set (oh_overrides h). header_key n = n \<and> vs \<noteq> []) \<and>
     (\<forall>n \<in> set (oh_removed h). header_key n = n \<and> header_contains (oh_base h) n)"

lemma map_of_ov_modify:
  "map_of (ov_modify k f ov) k' =
     (if k' = k then map_option f (map_of ov k) else map_of ov k')"
  by (induction ov) auto

lemma fst_ov_modify [simp]: "map fst (ov_modify k f ov) = map fst ov"
  by (induction ov) auto

lemma set_ov_modify: "x \<in> set (ov_modify k f ov) \<Longrightarrow> x \<in> set ov \<or> (\<exists>vs. x = (k, f vs) \<and> (k, vs) \<in> set ov)"
  by (induction ov) (auto split: if_splits)

lemma map_of_snoc:
  "map_of (ov @ [(k, v)]) k' =
     (case map_of ov k' of Some x \<Rightarrow> Some x | None \<Rightarrow> if k' = k then Some v else None)"
  by (induction ov) auto

lemma map_of_ov_remove:
  "distinct (map fst ov) \<Longrightarrow> map_of (ov_remove k ov) k' = (if k' = k then None else map_of ov k')"
proof (induction ov)
  case (Cons p ov)
  then have "map_of ov (fst p) = None" by (simp add: map_of_eq_None_iff)
  then show ?case using Cons by (cases p) auto
qed simp

lemma set_ov_remove: "set (ov_remove k ov) \<subseteq> set ov"
  by (induction ov) (auto split: if_splits)

lemma distinct_ov_remove: "distinct (map fst ov) \<Longrightarrow> distinct (map fst (ov_remove k ov))"
proof (induction ov)
  case (Cons p ov)
  have "fst ` set (ov_remove k ov) \<subseteq> fst ` set ov" using set_ov_remove by (rule image_mono)
  then show ?case using Cons by (cases p) auto
qed simp

lemma ov_remove_notin: "distinct (map fst ov) \<Longrightarrow> k \<notin> fst ` set (ov_remove k ov)"
  using map_of_ov_remove [of ov k k] by (simp add: map_of_eq_None_iff)

lemma oh_get_all_key [simp]: "oh_get_all h (header_key n) = oh_get_all h n"
  by (simp add: oh_get_all_def)

lemma oh_get_all_new [simp]: "oh_get_all (oh_new base) n = header_get_all base n"
  by (simp add: oh_get_all_def oh_new_def)

lemma oh_get_all_cases:
  "oh_get_all h n = (case map_of (oh_overrides h) (header_key n) of Some vs \<Rightarrow> vs
     | None \<Rightarrow> if header_key n \<in> set (oh_removed h) then [] else header_get_all (oh_base h) n)"
  by (simp add: oh_get_all_def Let_def split: option.splits)

lemma oh_get_all_insert:
  assumes "oh_wf h"
  shows "oh_get_all (oh_insert n v h) k = (if header_key k = header_key n then [v] else oh_get_all h k)"
proof -
  have d: "distinct (oh_removed h)" using assms by (simp add: oh_wf_def)
  show ?thesis
  proof (cases "map_of (oh_overrides h) (header_key n)")
    case None
    then show ?thesis using d unfolding oh_get_all_cases oh_insert_def Let_def
      by (simp add: map_of_snoc del: map_of_append split: option.splits)
  next
    case (Some vs)
    then show ?thesis using d unfolding oh_get_all_cases oh_insert_def Let_def
      by (simp add: map_of_ov_modify split: option.splits)
  qed
qed

lemma oh_get_all_append:
  assumes "oh_wf h"
  shows "oh_get_all (oh_append n v h) k =
     (if header_key k = header_key n then oh_get_all h k @ [v] else oh_get_all h k)"
proof -
  have d: "distinct (oh_removed h)" using assms by (simp add: oh_wf_def)
  show ?thesis
  proof (cases "map_of (oh_overrides h) (header_key n)")
    case None
    show ?thesis
    proof (cases "header_key k = header_key n")
      case True
      then show ?thesis using d None header_get_all_key [of "oh_base h" n]
          header_get_all_key [of "oh_base h" k]
        unfolding oh_get_all_cases oh_append_def Let_def by (simp add: map_of_snoc del: map_of_append)
    next
      case False
      then show ?thesis using d None unfolding oh_get_all_cases oh_append_def Let_def
        by (simp add: map_of_snoc del: map_of_append split: option.splits)
    qed
  next
    case (Some vs)
    then show ?thesis using d unfolding oh_get_all_cases oh_append_def Let_def
      by (simp add: map_of_ov_modify split: option.splits)
  qed
qed

lemma oh_get_all_remove:
  assumes "oh_wf h"
  shows "oh_get_all (oh_remove n h) k =
     (if header_key k = header_key n then [] else oh_get_all h k)"
proof -
  have d: "distinct (map fst (oh_overrides h))" and base: "header_wf (oh_base h)"
    using assms by (simp_all add: oh_wf_def)
  have none: "header_get_all (oh_base h) m = []" if "\<not> header_contains (oh_base h) m" for m
    using that base by (simp add: header_contains_iff)
  show ?thesis
  proof (cases "header_key k = header_key n")
    case True
    then show ?thesis using d none [of "header_key n"] header_get_all_key [of "oh_base h" k]
      unfolding oh_get_all_cases oh_remove_def Let_def by (simp add: map_of_ov_remove)
  next
    case False
    then show ?thesis using d unfolding oh_get_all_cases oh_remove_def Let_def
      by (simp add: map_of_ov_remove split: option.splits)
  qed
qed

lemma oh_wf_new: "header_wf base \<Longrightarrow> oh_wf (oh_new base)"
  by (simp add: oh_wf_def oh_new_def)

lemma oh_wf_insert: "oh_wf h \<Longrightarrow> oh_wf (oh_insert n v h)"
  by (auto simp: oh_wf_def oh_insert_def Let_def map_of_eq_None_iff image_iff
      dest!: set_ov_modify)

lemma oh_wf_append: "oh_wf h \<Longrightarrow> oh_wf (oh_append n v h)"
  by (auto simp: oh_wf_def oh_append_def Let_def map_of_eq_None_iff image_iff
      dest!: set_ov_modify)

lemma oh_wf_remove:
  assumes "oh_wf h" shows "oh_wf (oh_remove n h)"
proof -
  have d: "distinct (map fst (oh_overrides h))" using assms by (simp add: oh_wf_def)
  have k: "header_key n \<notin> fst ` set (ov_remove (header_key n) (oh_overrides h))"
    by (rule ov_remove_notin [OF d])
  show ?thesis using assms k set_ov_remove [of "header_key n" "oh_overrides h"]
      distinct_ov_remove [OF d, of "header_key n"]
    unfolding oh_wf_def oh_remove_def Let_def by auto
qed

lemma oh_base_ops [simp]:
  "oh_base (oh_insert n v h) = oh_base h" "oh_base (oh_append n v h) = oh_base h"
  "oh_base (oh_remove n h) = oh_base h"
  by (simp_all add: oh_insert_def oh_append_def oh_remove_def Let_def)

section \<open>The HeaderOps trait\<close>

record 'h header_ops =
  ho_get_all :: "'h \<Rightarrow> string \<Rightarrow> string list"
  ho_insert :: "string \<Rightarrow> string \<Rightarrow> 'h \<Rightarrow> 'h"
  ho_append :: "string \<Rightarrow> string \<Rightarrow> 'h \<Rightarrow> 'h"
  ho_remove :: "string \<Rightarrow> 'h \<Rightarrow> 'h"

definition header_map_ops :: "header_map header_ops" where
  "header_map_ops = \<lparr>ho_get_all = header_get_all, ho_insert = header_insert,
     ho_append = header_append, ho_remove = header_remove\<rparr>"

definition outbound_ops :: "outbound_headers header_ops" where
  "outbound_ops = \<lparr>ho_get_all = oh_get_all, ho_insert = oh_insert,
     ho_append = oh_append, ho_remove = oh_remove\<rparr>"

text \<open>The abstract header state: what every name reads as.\<close>

type_synonym header_view = "string \<Rightarrow> string list"

definition view_ops :: "header_view header_ops" where
  "view_ops = \<lparr>ho_get_all = (\<lambda>w n. w n),
     ho_insert = (\<lambda>n v w k. if header_key k = header_key n then [v] else w k),
     ho_append = (\<lambda>n v w k. if header_key k = header_key n then w k @ [v] else w k),
     ho_remove = (\<lambda>n w k. if header_key k = header_key n then [] else w k)\<rparr>"

lemma ops_sel [simp]:
  "ho_get_all header_map_ops = header_get_all" "ho_insert header_map_ops = header_insert"
  "ho_append header_map_ops = header_append" "ho_remove header_map_ops = header_remove"
  "ho_get_all outbound_ops = oh_get_all" "ho_insert outbound_ops = oh_insert"
  "ho_append outbound_ops = oh_append" "ho_remove outbound_ops = oh_remove"
  by (simp_all add: header_map_ops_def outbound_ops_def)

lemma view_ops_sel:
  "ho_get_all view_ops w = w"
  "ho_insert view_ops n v w = (\<lambda>k. if header_key k = header_key n then [v] else w k)"
  "ho_append view_ops n v w = (\<lambda>k. if header_key k = header_key n then w k @ [v] else w k)"
  "ho_remove view_ops n w = (\<lambda>k. if header_key k = header_key n then [] else w k)"
  by (simp_all add: view_ops_def)

datatype header_op = HInsert string string | HAppend string string | HRemove string

definition run_op :: "'h header_ops \<Rightarrow> 'h \<Rightarrow> header_op \<Rightarrow> 'h" where
  "run_op ops h p = (case p of HInsert n v \<Rightarrow> ho_insert ops n v h
     | HAppend n v \<Rightarrow> ho_append ops n v h | HRemove n \<Rightarrow> ho_remove ops n h)"

locale header_contract =
  fixes ops :: "'h header_ops" and inv :: "'h \<Rightarrow> bool"
  assumes inv_insert: "inv h \<Longrightarrow> inv (ho_insert ops n v h)"
    and inv_append: "inv h \<Longrightarrow> inv (ho_append ops n v h)"
    and inv_remove: "inv h \<Longrightarrow> inv (ho_remove ops n h)"
    and get_insert: "inv h \<Longrightarrow>
      ho_get_all ops (ho_insert ops n v h) = ho_insert view_ops n v (ho_get_all ops h)"
    and get_append: "inv h \<Longrightarrow>
      ho_get_all ops (ho_append ops n v h) = ho_append view_ops n v (ho_get_all ops h)"
    and get_remove: "inv h \<Longrightarrow>
      ho_get_all ops (ho_remove ops n h) = ho_remove view_ops n (ho_get_all ops h)"
    and get_key: "inv h \<Longrightarrow> ho_get_all ops h (header_key n) = ho_get_all ops h n"
begin

lemma run_op_view:
  "inv h \<Longrightarrow> inv (run_op ops h p) \<and>
     ho_get_all ops (run_op ops h p) = run_op view_ops (ho_get_all ops h) p"
  by (cases p) (simp_all add: run_op_def inv_insert inv_append inv_remove get_insert get_append get_remove)

lemma run_ops_view:
  "inv h \<Longrightarrow> inv (foldl (run_op ops) h ps) \<and>
     ho_get_all ops (foldl (run_op ops) h ps) = foldl (run_op view_ops) (ho_get_all ops h) ps"
  by (induction ps arbitrary: h) (simp_all add: run_op_view)

lemma append_all_view:
  "inv h \<Longrightarrow> inv (foldl (\<lambda>h v. ho_append ops n v h) h vs) \<and>
     ho_get_all ops (foldl (\<lambda>h v. ho_append ops n v h) h vs) =
       (\<lambda>k. if header_key k = header_key n then ho_get_all ops h k @ vs else ho_get_all ops h k)"
proof (induction vs arbitrary: h)
  case (Cons v vs)
  then show ?case using inv_append [OF Cons.prems, of n v]
    by (auto simp: get_append [OF Cons.prems] view_ops_def fun_eq_iff)
qed (simp add: fun_eq_iff)

end

interpretation hmap: header_contract header_map_ops header_wf
  by unfold_locales
     (auto simp: view_ops_sel fun_eq_iff header_wf_insert header_wf_append
        header_wf_remove header_get_all_insert header_get_all_append header_get_all_remove)

interpretation overlay: header_contract outbound_ops oh_wf
  by unfold_locales
     (auto simp: view_ops_sel fun_eq_iff oh_wf_insert oh_wf_append
        oh_wf_remove oh_get_all_insert oh_get_all_append oh_get_all_remove)

section \<open>Reading the pairs of a map and of an overlay\<close>

definition values_for :: "string \<Rightarrow> (string \<times> string) list \<Rightarrow> string list" where
  "values_for n ps = map snd (filter (\<lambda>p. fst p = n) ps)"

lemma values_for_append: "values_for n (a @ b) = values_for n a @ values_for n b"
  by (simp add: values_for_def)

lemma values_for_push:
  "values_for n (push_name_value_pairs ps k vs) = values_for n ps @ (if k = n then vs else [])"
  by (auto simp: push_name_value_pairs_def values_for_def filter_map comp_def)

lemma values_for_fold:
  "distinct (map fst m) \<Longrightarrow>
   values_for n (foldl (\<lambda>ps (name, vs). push_name_value_pairs ps name vs) ps m) =
     values_for n ps @ (case map_of m n of None \<Rightarrow> [] | Some vs \<Rightarrow> vs)"
proof (induction m arbitrary: ps)
  case (Cons p m)
  have "map_of m (fst p) = None" using Cons.prems by (simp add: map_of_eq_None_iff)
  then show ?case using Cons by (cases p) (auto simp: values_for_push split: option.splits)
qed simp

lemma header_into_pairs_values:
  assumes "header_wf m" and "header_key n = n"
  shows "values_for n (header_into_pairs m) = header_get_all m n"
  using assms values_for_fold [of m n "[]"]
  by (simp add: header_into_pairs_def header_get_all_def header_wf_def hm_wf_def hm_get_def
      values_for_def [of n "[]"])

lemma oh_drain_values:
  assumes "distinct (map fst base)" and "distinct (map fst ov)" and "set removed \<inter> fst ` set ov = {}"
  shows "values_for n (oh_drain base removed ov ps) = values_for n ps @
    (case map_of ov n of Some vs \<Rightarrow> vs | None \<Rightarrow>
       if n \<in> set removed then [] else (case map_of base n of None \<Rightarrow> [] | Some vs \<Rightarrow> vs))"
  using assms
proof (induction base removed ov ps rule: oh_drain.induct)
  case (1 removed overrides pairs)
  then show ?case by (simp add: values_for_fold split: option.splits)
next
  case (2 name bv base removed ov ps)
  have fresh: "map_of base name = None" and dbase: "distinct (map fst base)"
    using "2.prems" by (simp_all add: map_of_eq_None_iff)
  show ?case
  proof (cases "name \<in> set removed")
    case True
    then show ?thesis using "2.IH"(1) [OF True dbase] "2.prems" fresh by (auto split: option.splits)
  next
    case False
    show ?thesis
    proof (cases "map_of ov name")
      case None
      then show ?thesis using "2.IH"(2) [OF False None dbase] "2.prems" fresh False
        by (auto simp: values_for_push split: option.splits)
    next
      case (Some vs)
      have "set removed \<inter> fst ` set (ov_remove name ov) = {}"
        using "2.prems"(3) set_ov_remove [of name ov] by fastforce
      then show ?thesis
        using "2.IH"(3) [OF False Some dbase distinct_ov_remove [OF "2.prems"(2)]] "2.prems" fresh False Some
        by (cases "n = name") (auto simp: values_for_push map_of_ov_remove
            simp del: map_of_eq_Some_iff split: option.splits)
    qed
  qed
qed

lemma oh_into_pairs_values:
  assumes "oh_wf h" and "header_key n = n"
  shows "values_for n (oh_into_pairs h) = oh_get_all h n"
  using assms oh_drain_values [of "oh_base h" "oh_overrides h" "oh_removed h" n "[]"]
  by (simp add: oh_wf_def header_wf_def hm_wf_def oh_into_pairs_def oh_get_all_cases
      header_get_all_def hm_get_def values_for_def [of n "[]"] split: option.splits)

lemma header_get_all_fold_append:
  "header_get_all (foldl (\<lambda>m w. header_append n w m) m ws) k =
     (if header_key k = header_key n then header_get_all m k @ ws else header_get_all m k)"
  by (induction ws arbitrary: m) (auto simp: header_get_all_append)

lemma materialize_removed:
  "header_wf m \<Longrightarrow>
   header_wf (foldl (\<lambda>m name. if header_contains m name then header_remove name m else m) m rs) \<and>
   header_get_all (foldl (\<lambda>m name. if header_contains m name then header_remove name m else m) m rs) k =
     (if \<exists>r \<in> set rs. header_key r = header_key k then [] else header_get_all m k)"
proof (induction rs arbitrary: m)
  case (Cons r rs)
  let ?m = "if header_contains m r then header_remove r m else m"
  have "header_wf ?m" using Cons.prems by (simp add: header_wf_remove)
  moreover have "header_get_all ?m k = (if header_key r = header_key k then [] else header_get_all m k)"
  proof -
    have "header_get_all m k = []" if "\<not> header_contains m r" "header_key r = header_key k"
      using that Cons.prems header_contains_iff [of m r] header_get_all_key [of m k]
        header_get_all_key [of m r] by simp
    then show ?thesis by (auto simp: header_get_all_remove)
  qed
  ultimately show ?case using Cons.IH [of ?m] by simp
qed simp

lemma header_get_all_materialize:
  assumes "oh_wf h" shows "header_get_all (oh_materialize h) k = oh_get_all h k"
proof -
  let ?f = "\<lambda>m (name, vs). case vs of [] \<Rightarrow> m
      | v # rest \<Rightarrow> foldl (\<lambda>m w. header_append name w m) (header_insert name v m) rest"
  have step: "header_get_all (foldl ?f m ov) k =
      (case map_of ov (header_key k) of Some vs \<Rightarrow> vs | None \<Rightarrow> header_get_all m k)"
    if "distinct (map fst ov)" "\<forall>(n, vs) \<in> set ov. header_key n = n \<and> vs \<noteq> []" for ov m
    using that
  proof (induction ov arbitrary: m)
    case (Cons p ov)
    obtain n v rest where p: "p = (n, v # rest)" and n: "header_key n = n"
      using Cons.prems(2) by (cases p; cases "snd p") auto
    have fresh: "map_of ov n = None" using Cons.prems(1) p by (simp add: map_of_eq_None_iff)
    have "header_get_all (foldl ?f m (p # ov)) k = (case map_of ov (header_key k) of Some vs \<Rightarrow> vs
        | None \<Rightarrow> header_get_all (foldl (\<lambda>m w. header_append n w m) (header_insert n v m) rest) k)"
      using Cons.IH Cons.prems p by simp
    then show ?case using fresh n p
      by (auto simp: header_get_all_fold_append header_get_all_insert split: option.splits)
  qed simp
  have "(\<exists>r \<in> set (oh_removed h). header_key r = header_key k) \<longleftrightarrow> header_key k \<in> set (oh_removed h)"
    using assms by (auto simp: oh_wf_def)
  then show ?thesis
    using assms materialize_removed [of "oh_base h" "oh_removed h" k]
    unfolding oh_materialize_def Let_def oh_get_all_cases
    by (subst step) (auto simp: oh_wf_def split: option.splits)
qed

text \<open>
  Property C18. The lazy overlay refines the clone-then-mutate map: after any sequence of
  inserts, appends and removes, every read, the materialised map, and for every lower-case name
  the values (in order) of the dialled pairs are those of the same sequence run on the base map.
\<close>

theorem overlay_refines_header_map:
  fixes ps :: "header_op list"
  assumes base: "header_wf base"
  defines "h \<equiv> foldl (run_op outbound_ops) (oh_new base) ps"
    and "m \<equiv> foldl (run_op header_map_ops) base ps"
  shows "oh_get_all h = header_get_all m \<and> oh_get h n = header_get m n \<and>
    oh_contains h n = header_contains m n \<and>
    header_get_all (oh_materialize h) = header_get_all m \<and>
    (\<forall>k. header_key k = k \<longrightarrow> values_for k (oh_into_pairs h) = values_for k (header_into_pairs m))"
proof -
  have h: "oh_wf h" "oh_get_all h = foldl (run_op view_ops) (header_get_all base) ps"
    using overlay.run_ops_view [OF oh_wf_new [OF base], of ps]
    by (simp_all add: h_def oh_get_all_new [abs_def])
  have m: "header_wf m" "header_get_all m = foldl (run_op view_ops) (header_get_all base) ps"
    using hmap.run_ops_view [OF base, of ps] by (simp_all add: m_def)
  have all: "oh_get_all h = header_get_all m" using h m by simp
  have "oh_get h n = (case oh_get_all h n of [] \<Rightarrow> None | v # _ \<Rightarrow> Some v)"
    by (simp add: oh_get_def oh_get_all_def Let_def header_get_first split: option.splits)
  moreover have "oh_contains h n \<longleftrightarrow> oh_get_all h n \<noteq> []"
    using h(1) header_contains_iff [of "oh_base h" "header_key n"]
    by (auto simp: oh_contains_def oh_get_all_cases Let_def oh_wf_def dest!: map_of_SomeD
        split: option.splits)
  moreover have "header_get_all (oh_materialize h) = oh_get_all h"
    using header_get_all_materialize [OF h(1)] by (simp add: fun_eq_iff)
  ultimately show ?thesis using all m(1) oh_into_pairs_values [OF h(1)] header_into_pairs_values [OF m(1)]
    by (simp add: header_get_first header_contains_iff)
qed

theorem overlay_refines_header_map_witness:
  "values_for ''host'' (oh_into_pairs (foldl (run_op outbound_ops) (oh_new [(''host'', [''a''])])
     [HRemove ''Host'', HAppend ''HOST'' ''b'', HAppend ''host'' ''c''])) = [''b'', ''c'']"
proof -
  let ?b = "[(''host'', [''a''])]"
  let ?ps = "[HRemove ''Host'', HAppend ''HOST'' ''b'', HAppend ''host'' ''c'']"
  have k: "header_key ''host'' = ''host''" by code_simp
  have wf: "header_wf ?b" by (auto simp: header_wf_def hm_wf_def hm_get_def k split: if_splits)
  have m: "values_for ''host'' (header_into_pairs (foldl (run_op header_map_ops) ?b ?ps)) = [''b'', ''c'']"
    by code_simp
  show ?thesis
    using overlay_refines_header_map [OF wf, of ?ps "''host''"] k m by (simp del: foldl_Cons)
qed

end
