(* ===== verification/Swrr.thy ===== *)
theory Swrr
  imports Prelude
begin

text \<open>
  Smooth weighted round-robin, \<open>hygress-core/src/swrr.rs\<close>. A candidate is an id with an
  \<open>i32\<close> weight; the state of a route group maps a candidate id to its running
  \<open>current_weight\<close>. One call of \<open>swrr_order\<close> is one selection round. The arithmetic is the
  wrapping \<open>i32\<close> arithmetic of a release build; the lemmas show that it never wraps while
  \<open>length cs * total\<close> stays below \<open>2 ^ 31\<close>, and that a full cycle is exactly fair.
\<close>

record swrr_candidate =
  cand_id :: string
  cand_weight :: int

type_synonym swrr_state = "(string, int) hash_map"

definition i32_sum :: "int list \<Rightarrow> int" where
  "i32_sum ws = foldl (\<lambda>a w. i32_wrap (a + w)) 0 ws"

definition current_weight :: "swrr_state \<Rightarrow> string \<Rightarrow> int" where
  "current_weight st k = (case hm_get st k of None \<Rightarrow> 0 | Some w \<Rightarrow> w)"

text \<open>Step 1: \<open>*entry(c.id).or_insert(0) += c.weight\<close>.\<close>

definition swrr_advance :: "swrr_state \<Rightarrow> swrr_candidate \<Rightarrow> swrr_state" where
  "swrr_advance st c =
     hm_insert (cand_id c) (i32_wrap (current_weight st (cand_id c) + cand_weight c)) st"

text \<open>Steps 2--3: the first index of maximal current weight.\<close>

definition swrr_pick :: "swrr_state \<Rightarrow> swrr_candidate list \<Rightarrow> index" where
  "swrr_pick st cs =
     foldl (\<lambda>p i. if current_weight st (cand_id (cs ! i)) > current_weight st (cand_id (cs ! p))
                  then i else p) 0 [1..<length cs]"

text \<open>Step 4: subtract the total from the picked entry.\<close>

definition swrr_charge :: "string \<Rightarrow> int \<Rightarrow> swrr_state \<Rightarrow> swrr_state" where
  "swrr_charge k tot st =
     (case hm_get st k of None \<Rightarrow> st | Some cw \<Rightarrow> hm_insert k (i32_wrap (cw - tot)) st)"

text \<open>Step 5: \<open>candidates[..=picked].rotate_right(1)\<close>.\<close>

definition rotate_to_front :: "nat \<Rightarrow> 'a list \<Rightarrow> 'a list" where
  "rotate_to_front p cs = cs ! p # take p cs @ drop (Suc p) cs"

definition swrr_order ::
  "swrr_candidate list \<Rightarrow> swrr_state \<Rightarrow> swrr_candidate list \<times> swrr_state" where
  "swrr_order cs st =
     (let total = i32_sum (map cand_weight cs) in
      if total \<le> 0 then (cs, st)
      else
        let st1 = foldl swrr_advance st cs;
            p = swrr_pick st1 cs
        in (rotate_to_front p cs, swrr_charge (cand_id (cs ! p)) total st1))"

section \<open>The picked candidate and the reordering\<close>

lemma swrr_pick_aux:
  fixes f :: "nat \<Rightarrow> int"
  assumes "p0 < n" and "n \<le> m" and "\<forall>j<n. f j \<le> f p0" and "\<forall>j<p0. f j < f p0"
  defines "p \<equiv> foldl (\<lambda>p i. if f i > f p then i else p) p0 [n..<m]"
  shows "p < m \<and> (\<forall>j<m. f j \<le> f p) \<and> (\<forall>j<p. f j < f p)"
  unfolding p_def using assms(1-4)
proof (induction "m - n" arbitrary: n p0)
  case 0
  then show ?case by simp
next
  case (Suc d)
  then have nm: "n < m" by simp
  let ?p1 = "if f n > f p0 then n else p0"
  have "\<forall>j<Suc n. f j \<le> f ?p1"
    using Suc.prems(3) by (fastforce simp: less_Suc_eq)
  moreover have "\<forall>j<?p1. f j < f ?p1"
    using Suc.prems(3,4) by (auto intro: le_less_trans)
  moreover have "?p1 < Suc n" using Suc.prems(1) by auto
  ultimately have "foldl (\<lambda>p i. if f i > f p then i else p) ?p1 [Suc n..<m] < m \<and>
      (\<forall>j<m. f j \<le> f (foldl (\<lambda>p i. if f i > f p then i else p) ?p1 [Suc n..<m])) \<and>
      (\<forall>j<foldl (\<lambda>p i. if f i > f p then i else p) ?p1 [Suc n..<m].
         f j < f (foldl (\<lambda>p i. if f i > f p then i else p) ?p1 [Suc n..<m]))"
    using Suc.hyps(1) [of "Suc n" ?p1] Suc.hyps(2) nm by simp
  then show ?case using nm by (simp add: upt_conv_Cons)
qed

lemma swrr_pick_max:
  assumes "cs \<noteq> []"
  shows "swrr_pick st cs < length cs"
    and "j < length cs \<Longrightarrow>
      current_weight st (cand_id (cs ! j)) \<le> current_weight st (cand_id (cs ! swrr_pick st cs))"
    and "j < swrr_pick st cs \<Longrightarrow>
      current_weight st (cand_id (cs ! j)) < current_weight st (cand_id (cs ! swrr_pick st cs))"
  using swrr_pick_aux [of 0 1 "length cs" "\<lambda>i. current_weight st (cand_id (cs ! i))"] assms
  by (auto simp: swrr_pick_def Suc_le_eq)

lemma rotate_to_front_perm:
  "p < length cs \<Longrightarrow> mset (rotate_to_front p cs) = mset cs"
proof -
  assume "p < length cs"
  then have "mset cs = mset (take p cs @ cs ! p # drop (Suc p) cs)" by (metis id_take_nth_drop)
  then show ?thesis by (simp add: rotate_to_front_def)
qed

lemma swrr_order_perm: "mset (fst (swrr_order cs st)) = mset cs"
proof (cases "cs = []")
  case False
  then show ?thesis
    by (auto simp: swrr_order_def Let_def rotate_to_front_perm swrr_pick_max(1))
qed (simp add: swrr_order_def i32_sum_def)

section \<open>One round without wrap-around\<close>

lemma current_weight_insert:
  "current_weight (hm_insert k v st) k' = (if k' = k then v else current_weight st k')"
  by (simp add: current_weight_def hm.get_insert)

lemma current_weight_advance:
  "current_weight (swrr_advance st c) k =
     (if k = cand_id c then i32_wrap (current_weight st k + cand_weight c) else current_weight st k)"
  by (auto simp: swrr_advance_def current_weight_insert)

lemma foldl_advance_other:
  "k \<notin> cand_id ` set cs \<Longrightarrow> current_weight (foldl swrr_advance st cs) k = current_weight st k"
  by (induction cs arbitrary: st) (auto simp: current_weight_advance)

lemma foldl_advance_same:
  "distinct (map cand_id cs) \<Longrightarrow> c \<in> set cs \<Longrightarrow>
   current_weight (foldl swrr_advance st cs) (cand_id c) =
     i32_wrap (current_weight st (cand_id c) + cand_weight c)"
proof (induction cs arbitrary: st)
  case Nil
  then show ?case by simp
next
  case (Cons a cs)
  show ?case
  proof (cases "c = a")
    case True
    then have "cand_id c \<notin> cand_id ` set cs" using Cons.prems by auto
    then show ?thesis using True by (simp add: foldl_advance_other current_weight_advance)
  next
    case False
    then have c: "c \<in> set cs" using Cons.prems by simp
    moreover have "cand_id a \<notin> cand_id ` set cs" using Cons.prems by simp
    ultimately have "cand_id c \<noteq> cand_id a" by (metis imageI)
    then show ?thesis using Cons.IH [of "swrr_advance st a"] Cons.prems c
      by (simp add: current_weight_advance)
  qed
qed

lemma foldl_advance_present:
  "c \<in> set cs \<or> hm_get st (cand_id c) \<noteq> None \<Longrightarrow>
   hm_get (foldl swrr_advance st cs) (cand_id c) \<noteq> None"
  by (induction cs arbitrary: st) (auto simp: swrr_advance_def hm.get_insert)

lemma i32_sum_exact:
  assumes "\<forall>w \<in> set ws. 0 \<le> w" and "sum_list ws < 2147483648"
  shows "i32_sum ws = sum_list ws"
proof -
  have "foldl (\<lambda>a w. i32_wrap (a + w)) a ws = a + sum_list ws"
    if "0 \<le> a" "a + sum_list ws < 2147483648" "\<forall>w \<in> set ws. 0 \<le> w" for a
    using that
  proof (induction ws arbitrary: a)
    case Nil
    then show ?case by simp
  next
    case (Cons w ws)
    have "0 \<le> sum_list ws" using Cons.prems by (simp add: sum_list_nonneg)
    then have "i32_wrap (a + w) = a + w" using Cons.prems by (intro i32_wrap_id) auto
    then show ?case using Cons.IH [of "a + w"] Cons.prems by simp
  qed
  then show ?thesis using assms by (simp add: i32_sum_def)
qed

text \<open>What a route group guarantees about its candidates and state between two rounds.\<close>

definition swrr_group_ok :: "swrr_candidate list \<Rightarrow> bool" where
  "swrr_group_ok cs \<longleftrightarrow> distinct (map cand_id cs) \<and> (\<forall>c \<in> set cs. 0 \<le> cand_weight c) \<and>
     0 < sum_list (map cand_weight cs) \<and>
     int (length cs) * sum_list (map cand_weight cs) < 2147483648"

definition swrr_balanced :: "swrr_candidate list \<Rightarrow> swrr_state \<Rightarrow> bool" where
  "swrr_balanced cs st \<longleftrightarrow> (\<Sum>c\<leftarrow>cs. current_weight st (cand_id c)) = 0 \<and>
     (\<forall>c \<in> set cs. - sum_list (map cand_weight cs) < current_weight st (cand_id c))"

lemma sum_list_member_le:
  fixes f :: "'a \<Rightarrow> int"
  assumes "c \<in> set cs" and "\<forall>x \<in> set cs. - b \<le> f x" and "0 \<le> b"
  shows "f c \<le> sum_list (map f cs) + (int (length cs) - 1) * b"
proof -
  obtain l r where cs: "cs = l @ c # r" using split_list [OF assms(1)] by blast
  have lower: "- (int (length xs) * b) \<le> sum_list (map f xs)" if "\<forall>x \<in> set xs. - b \<le> f x" for xs
    using that by (induction xs) (auto simp: algebra_simps)
  have "- (int (length l) * b) \<le> sum_list (map f l)" "- (int (length r) * b) \<le> sum_list (map f r)"
    using assms(2) cs by (auto intro!: lower)
  then show ?thesis by (simp add: cs algebra_simps)
qed

lemma swrr_weight_le_total:
  "swrr_group_ok cs \<Longrightarrow> c \<in> set cs \<Longrightarrow> cand_weight c \<le> sum_list (map cand_weight cs)"
  by (auto simp: swrr_group_ok_def intro!: member_le_sum_list)

lemma swrr_current_bounds:
  assumes ok: "swrr_group_ok cs" and bal: "swrr_balanced cs st" and c: "c \<in> set cs"
  defines "T \<equiv> sum_list (map cand_weight cs)"
  shows "- T < current_weight st (cand_id c)"
    and "current_weight st (cand_id c) + cand_weight c \<le> int (length cs) * T"
proof -
  show lo: "- T < current_weight st (cand_id c)" using bal c by (simp add: swrr_balanced_def T_def)
  have T: "0 < T" using ok by (simp add: swrr_group_ok_def T_def)
  have "current_weight st (cand_id c) \<le>
      (\<Sum>c\<leftarrow>cs. current_weight st (cand_id c)) + (int (length cs) - 1) * T"
    using bal c T by (intro sum_list_member_le) (auto simp: swrr_balanced_def T_def intro: less_imp_le)
  then have "current_weight st (cand_id c) \<le> (int (length cs) - 1) * T"
    using bal by (simp add: swrr_balanced_def)
  moreover have "cand_weight c \<le> T" using swrr_weight_le_total [OF ok c] by (simp add: T_def)
  ultimately show "current_weight st (cand_id c) + cand_weight c \<le> int (length cs) * T"
    by (simp add: algebra_simps)
qed


lemma swrr_total_bound:
  assumes ok: "swrr_group_ok cs" shows "sum_list (map cand_weight cs) < 2147483648"
proof -
  have pos: "0 < sum_list (map cand_weight cs)"
    and b: "int (length cs) * sum_list (map cand_weight cs) < 2147483648"
    using ok unfolding swrr_group_ok_def by blast+
  then have "cs \<noteq> []" by auto
  then have "1 \<le> int (length cs)" by (cases cs) auto
  then have "1 * sum_list (map cand_weight cs) \<le> int (length cs) * sum_list (map cand_weight cs)"
    using pos by (intro mult_right_mono) auto
  with b show ?thesis by linarith
qed

lemma swrr_total:
  "swrr_group_ok cs \<Longrightarrow> i32_sum (map cand_weight cs) = sum_list (map cand_weight cs)"
  using swrr_total_bound by (intro i32_sum_exact) (auto simp: swrr_group_ok_def)

lemma swrr_advanced_weight:
  assumes "swrr_group_ok cs" and "swrr_balanced cs st" and "c \<in> set cs"
  shows "current_weight (foldl swrr_advance st cs) (cand_id c) =
           current_weight st (cand_id c) + cand_weight c"
proof -
  have "0 \<le> cand_weight c" using assms by (simp add: swrr_group_ok_def)
  moreover have "- sum_list (map cand_weight cs) < current_weight st (cand_id c)"
    using swrr_current_bounds(1) [OF assms] .
  moreover have "sum_list (map cand_weight cs) < 2147483648"
    using swrr_total_bound [OF assms(1)] .
  moreover have "current_weight st (cand_id c) + cand_weight c < 2147483648"
    using assms(1) swrr_current_bounds(2) [OF assms] by (auto simp: swrr_group_ok_def)
  ultimately have "i32_wrap (current_weight st (cand_id c) + cand_weight c) =
      current_weight st (cand_id c) + cand_weight c"
    by (intro i32_wrap_id) auto
  then show ?thesis using assms by (simp add: foldl_advance_same swrr_group_ok_def)
qed

lemma sum_list_pos_ex: "0 < sum_list (map f cs) \<Longrightarrow> \<exists>c \<in> set cs. 0 < (f c :: int)"
  by (induction cs) force+

text \<open>
  One round: some candidate of positive advanced weight is selected, it pays the total, every
  other candidate keeps what it gained, entries of other routes are untouched, and the group
  is balanced again.
\<close>

lemma swrr_order_step:
  assumes ok: "swrr_group_ok cs" and bal: "swrr_balanced cs st"
  defines "T \<equiv> sum_list (map cand_weight cs)"
  obtains c where "c \<in> set cs" and "hd (fst (swrr_order cs st)) = c"
    and "0 < current_weight st (cand_id c) + cand_weight c"
    and "\<And>d. d \<in> set cs \<Longrightarrow> current_weight (snd (swrr_order cs st)) (cand_id d) =
           current_weight st (cand_id d) + cand_weight d - (if d = c then T else 0)"
    and "\<And>k. k \<notin> cand_id ` set cs \<Longrightarrow>
           current_weight (snd (swrr_order cs st)) k = current_weight st k"
proof -
  define st1 where "st1 = foldl swrr_advance st cs"
  define p where "p = swrr_pick st1 cs"
  define c where "c = cs ! p"
  have T: "0 < T" and tot: "i32_sum (map cand_weight cs) = T"
    using ok swrr_total [OF ok] by (auto simp: swrr_group_ok_def T_def)
  have ne: "cs \<noteq> []" using T by (auto simp: T_def)
  have p: "p < length cs" using swrr_pick_max(1) [OF ne] by (simp add: p_def)
  then have c: "c \<in> set cs" by (simp add: c_def)
  have adv: "current_weight st1 (cand_id d) = current_weight st (cand_id d) + cand_weight d"
    if "d \<in> set cs" for d
    using swrr_advanced_weight [OF ok bal that] by (simp add: st1_def)
  have max: "current_weight st1 (cand_id d) \<le> current_weight st1 (cand_id c)" if "d \<in> set cs" for d
    using swrr_pick_max(2) [OF ne, of _ st1] that by (auto simp: in_set_conv_nth p_def c_def)
  have pos: "0 < current_weight st (cand_id c) + cand_weight c"
  proof -
    have "(\<Sum>d\<leftarrow>cs. current_weight st (cand_id d) + cand_weight d) = T"
      using bal by (simp add: sum_list_addf swrr_balanced_def T_def)
    with T obtain d where "d \<in> set cs" "0 < current_weight st (cand_id d) + cand_weight d"
      using sum_list_pos_ex [of "\<lambda>d. current_weight st (cand_id d) + cand_weight d" cs] by auto
    then show ?thesis using max [of d] adv c by force
  qed
  have "hm_get st1 (cand_id c) \<noteq> None" unfolding st1_def using c by (intro foldl_advance_present) simp
  then obtain cw where cw: "hm_get st1 (cand_id c) = Some cw" by blast
  then have cwv: "cw = current_weight st (cand_id c) + cand_weight c"
    using adv [OF c] by (simp add: current_weight_def)
  have "i32_wrap (cw - T) = cw - T"
  proof (rule i32_wrap_id)
    have "T < 2147483648" using swrr_total_bound [OF ok] by (simp add: T_def)
    then show "- 2147483648 \<le> cw - T" using pos cwv by simp
    show "cw - T < 2147483648"
      using swrr_current_bounds(2) [OF ok bal c] ok T cwv by (simp add: T_def swrr_group_ok_def)
  qed
  then have snd: "snd (swrr_order cs st) = hm_insert (cand_id c) (cw - T) st1"
    using tot T cw by (simp add: swrr_order_def Let_def st1_def [symmetric] p_def [symmetric]
        c_def [symmetric] swrr_charge_def)
  have hd: "hd (fst (swrr_order cs st)) = c"
    using tot T by (simp add: swrr_order_def Let_def st1_def [symmetric] p_def [symmetric]
        rotate_to_front_def c_def)
  have inj: "d = c" if "d \<in> set cs" "cand_id d = cand_id c" for d
    using ok that c by (auto simp: swrr_group_ok_def distinct_map dest: inj_onD)
  have upd: "current_weight (snd (swrr_order cs st)) (cand_id d) =
      current_weight st (cand_id d) + cand_weight d - (if d = c then T else 0)"
    if "d \<in> set cs" for d
    using adv [OF that] inj [OF that] cwv by (auto simp: snd current_weight_insert)
  have other: "current_weight (snd (swrr_order cs st)) k = current_weight st k"
    if "k \<notin> cand_id ` set cs" for k
    using that c by (auto simp: snd current_weight_insert st1_def foldl_advance_other)
  show ?thesis using that [OF c hd pos upd other] by blast
qed

lemma swrr_order_balanced:
  assumes ok: "swrr_group_ok cs" and bal: "swrr_balanced cs st"
  shows "swrr_balanced cs (snd (swrr_order cs st))"
proof -
  obtain c where c: "c \<in> set cs" and pos: "0 < current_weight st (cand_id c) + cand_weight c"
    and upd: "\<And>d. d \<in> set cs \<Longrightarrow> current_weight (snd (swrr_order cs st)) (cand_id d) =
       current_weight st (cand_id d) + cand_weight d -
       (if d = c then sum_list (map cand_weight cs) else 0)"
    using swrr_order_step [OF ok bal] by metis
  let ?T = "sum_list (map cand_weight cs)"
  have "distinct cs" using ok by (auto simp: swrr_group_ok_def distinct_map)
  have "(\<Sum>d\<leftarrow>cs. current_weight (snd (swrr_order cs st)) (cand_id d)) =
      (\<Sum>d\<leftarrow>cs. current_weight st (cand_id d) + cand_weight d - (if d = c then ?T else 0))"
    by (rule arg_cong [of _ _ sum_list]) (simp add: upd cong: map_cong)
  also have "\<dots> = (\<Sum>d\<leftarrow>cs. current_weight st (cand_id d)) + ?T - (\<Sum>d\<leftarrow>cs. if d = c then ?T else 0)"
    by (simp add: sum_list_addf sum_list_subtractf)
  also have "(\<Sum>d\<leftarrow>cs. if d = c then ?T else 0) = ?T"
    using c \<open>distinct cs\<close> by (simp add: sum_list_distinct_conv_sum_set)
  also have "(\<Sum>d\<leftarrow>cs. current_weight st (cand_id d)) + ?T - ?T = 0"
    using bal by (simp add: swrr_balanced_def)
  finally have "(\<Sum>d\<leftarrow>cs. current_weight (snd (swrr_order cs st)) (cand_id d)) = 0" .
  moreover have "- ?T < current_weight (snd (swrr_order cs st)) (cand_id d)" if d: "d \<in> set cs" for d
  proof (cases "d = c")
    case True
    then show ?thesis using pos upd [OF d] by simp
  next
    case False
    then show ?thesis
      using upd [OF d] swrr_current_bounds(1) [OF ok bal d] ok d by (auto simp: swrr_group_ok_def)
  qed
  ultimately show ?thesis by (simp add: swrr_balanced_def)
qed

section \<open>Many rounds: fairness\<close>

text \<open>
  Successive requests of one route group. Each round may start from any ordering of the same
  candidates: the request path (\<open>order_route\<close>) starts from the fixed precomputed list, a caller
  that keeps the rotated list starts from the previous result.
\<close>

fun swrr_rounds :: "swrr_candidate list list \<Rightarrow> swrr_state \<Rightarrow> string list \<times> swrr_state" where
  "swrr_rounds [] st = ([], st)"
| "swrr_rounds (cs # css) st =
     (let r = swrr_order cs st; rest = swrr_rounds css (snd r)
      in (cand_id (hd (fst r)) # fst rest, snd rest))"

lemma sum_list_map_perm:
  fixes f :: "'a \<Rightarrow> int"
  assumes "mset xs = mset ys" shows "sum_list (map f xs) = sum_list (map f ys)"
proof -
  have "mset (map f xs) = mset (map f ys)" unfolding mset_map assms ..
  then have "sum_mset (mset (map f xs)) = sum_mset (mset (map f ys))" by (rule arg_cong)
  then show ?thesis unfolding sum_mset_sum_list .
qed

lemma swrr_group_ok_perm:
  assumes eq: "mset cs = mset cs'" shows "swrr_group_ok cs = swrr_group_ok cs'"
proof -
  have "mset (map cand_id cs) = mset (map cand_id cs')" unfolding mset_map eq ..
  then have "distinct (map cand_id cs) = distinct (map cand_id cs')"
    by (rule mset_eq_imp_distinct_iff)
  then show ?thesis
    unfolding swrr_group_ok_def sum_list_map_perm [OF eq] mset_eq_setD [OF eq]
      mset_eq_length [OF eq] by (rule arg_cong2 [where f = "(\<and>)"]) (rule refl)
qed

lemma swrr_balanced_perm:
  assumes eq: "mset cs = mset cs'" shows "swrr_balanced cs st = swrr_balanced cs' st"
  unfolding swrr_balanced_def sum_list_map_perm [OF eq] mset_eq_setD [OF eq] ..

lemma swrr_rounds_invariant:
  assumes "swrr_group_ok cs" and "swrr_balanced cs st" and "\<forall>c \<in> set css. mset c = mset cs"
  shows "swrr_balanced cs (snd (swrr_rounds css st)) \<and>
    (\<forall>c \<in> set cs. current_weight (snd (swrr_rounds css st)) (cand_id c) =
       current_weight st (cand_id c) + int (length css) * cand_weight c -
       int (count_list (fst (swrr_rounds css st)) (cand_id c)) * sum_list (map cand_weight cs))"
  using assms(2,3)
proof (induction css arbitrary: st)
  case Nil
  then show ?case by simp
next
  case (Cons c0 css)
  let ?T = "sum_list (map cand_weight cs)"
  have m: "mset c0 = mset cs" using Cons.prems by simp
  then have T: "sum_list (map cand_weight c0) = ?T" by (metis mset_map sum_mset_sum_list)
  have set: "set c0 = set cs" using m by (rule mset_eq_setD)
  have ok0: "swrr_group_ok c0" and bal0: "swrr_balanced c0 st"
    using assms(1) Cons.prems m swrr_group_ok_perm swrr_balanced_perm by blast+
  let ?st = "snd (swrr_order c0 st)"
  obtain c where c: "c \<in> set c0" and hd: "hd (fst (swrr_order c0 st)) = c"
    and upd: "\<And>d. d \<in> set c0 \<Longrightarrow> current_weight ?st (cand_id d) =
       current_weight st (cand_id d) + cand_weight d - (if d = c then ?T else 0)"
    using swrr_order_step [OF ok0 bal0] T by metis
  have "swrr_balanced cs ?st"
    using swrr_order_balanced [OF ok0 bal0] swrr_balanced_perm [OF m] by simp
  then have IH: "swrr_balanced cs (snd (swrr_rounds css ?st)) \<and>
    (\<forall>d \<in> set cs. current_weight (snd (swrr_rounds css ?st)) (cand_id d) =
       current_weight ?st (cand_id d) + int (length css) * cand_weight d -
       int (count_list (fst (swrr_rounds css ?st)) (cand_id d)) * ?T)"
    using Cons.IH [of ?st] Cons.prems by simp
  have inj: "d = c \<longleftrightarrow> cand_id d = cand_id c" if "d \<in> set cs" for d
    using assms(1) that c set by (auto simp: swrr_group_ok_def distinct_map dest: inj_onD)
  have "current_weight (snd (swrr_rounds (c0 # css) st)) (cand_id d) =
       current_weight st (cand_id d) + int (length (c0 # css)) * cand_weight d -
       int (count_list (fst (swrr_rounds (c0 # css) st)) (cand_id d)) * ?T" if d: "d \<in> set cs" for d
    using IH d upd [of d] inj [OF d] set hd by (auto simp: Let_def algebra_simps)
  with IH show ?case by (simp add: Let_def)
qed

lemma swrr_rounds_count:
  assumes ok: "swrr_group_ok cs" and css: "\<forall>c \<in> set css. mset c = mset cs"
  shows "(\<Sum>c\<leftarrow>cs. count_list (fst (swrr_rounds css st)) (cand_id c)) = length css"
  using css
proof (induction css arbitrary: st)
  case Nil
  then show ?case by (simp add: sum_list_0)
next
  case (Cons c0 css)
  let ?c = "hd (fst (swrr_order c0 st))"
  have m: "mset c0 = mset cs" using Cons.prems by simp
  have "mset (fst (swrr_order c0 st)) = mset cs" using m by (simp add: swrr_order_perm)
  moreover have "cs \<noteq> []" using ok by (auto simp: swrr_group_ok_def)
  ultimately have "?c \<in> set cs"
    by (metis hd_in_set mset.simps(1) mset_eq_setD mset_zero_iff)
  moreover have "distinct (map cand_id cs)" using ok by (simp add: swrr_group_ok_def)
  ultimately have one: "(\<Sum>c\<leftarrow>cs. if cand_id c = cand_id ?c then 1 else 0) = (1::nat)"
  proof (induction cs)
    case (Cons a cs)
    have "(\<Sum>c\<leftarrow>cs. if cand_id c = k then 1 else 0) = (0::nat)" if "k \<notin> cand_id ` set cs" for k
      using that by (induction cs) auto
    with Cons show ?case by (cases "?c = a") (auto simp: image_iff)
  qed simp
  have "(\<Sum>c\<leftarrow>cs. count_list (fst (swrr_rounds (c0 # css) st)) (cand_id c)) =
      (\<Sum>c\<leftarrow>cs. (if cand_id c = cand_id ?c then 1 else 0) +
          count_list (fst (swrr_rounds css (snd (swrr_order c0 st)))) (cand_id c))"
    by (rule arg_cong [of _ _ sum_list]) (auto simp: Let_def)
  also have "\<dots> = Suc (length css)"
    using Cons one by (simp add: sum_list_addf)
  finally show ?case by simp
qed

text \<open>No candidate is ever ahead of its share by a whole selection.\<close>

lemma swrr_rounds_smooth:
  assumes ok: "swrr_group_ok cs" and css: "\<forall>c \<in> set css. mset c = mset cs" and c: "c \<in> set cs"
    and bal: "swrr_balanced cs st" and zero: "current_weight st (cand_id c) = 0"
  shows "int (count_list (fst (swrr_rounds css st)) (cand_id c)) * sum_list (map cand_weight cs) <
    int (length css) * cand_weight c + sum_list (map cand_weight cs)"
proof -
  note inv = swrr_rounds_invariant [OF ok bal css]
  have "- sum_list (map cand_weight cs) < current_weight (snd (swrr_rounds css st)) (cand_id c)"
    using inv c unfolding swrr_balanced_def by blast
  moreover have "current_weight (snd (swrr_rounds css st)) (cand_id c) =
       current_weight st (cand_id c) + int (length css) * cand_weight c -
       int (count_list (fst (swrr_rounds css st)) (cand_id c)) * sum_list (map cand_weight cs)"
    using inv c by blast
  ultimately show ?thesis using zero by linarith
qed

lemma sum_list_eq_pointwise:
  fixes f g :: "'a \<Rightarrow> int"
  assumes "\<forall>x \<in> set xs. f x \<le> g x" and "sum_list (map f xs) = sum_list (map g xs)"
  shows "\<forall>x \<in> set xs. f x = g x"
  using assms
proof (induction xs)
  case Nil
  then show ?case by simp
next
  case (Cons a xs)
  have "sum_list (map f xs) \<le> sum_list (map g xs)"
    using Cons.prems(1) by (intro sum_list_mono) simp
  moreover have "f a \<le> g a" using Cons.prems(1) by simp
  moreover have "f a + sum_list (map f xs) = g a + sum_list (map g xs)" using Cons.prems(2) by simp
  ultimately have a: "f a = g a" and xs: "sum_list (map f xs) = sum_list (map g xs)" by linarith+
  have "\<forall>x \<in> set xs. f x \<le> g x" using Cons.prems(1) by (meson list.set_intros(2))
  then have "\<forall>x \<in> set xs. f x = g x" using Cons.IH xs by blast
  with a show ?case unfolding list.set by blast
qed

lemma swrr_zero_balanced:
  "swrr_group_ok cs \<Longrightarrow> \<forall>c \<in> set cs. current_weight st (cand_id c) = 0 \<Longrightarrow> swrr_balanced cs st"
proof -
  assume ok: "swrr_group_ok cs" and z: "\<forall>c \<in> set cs. current_weight st (cand_id c) = 0"
  have "(\<Sum>c\<leftarrow>cs. current_weight st (cand_id c)) = (\<Sum>c\<leftarrow>cs. 0)"
    using z by (intro arg_cong [of _ _ sum_list]) simp
  then show ?thesis using ok z by (simp add: swrr_balanced_def swrr_group_ok_def)
qed

lemma swrr_full_cycle:
  assumes ok: "swrr_group_ok cs" and css: "\<forall>c \<in> set css. mset c = mset cs"
    and zero: "\<forall>c \<in> set cs. current_weight st (cand_id c) = 0"
    and len: "int (length css) = k * sum_list (map cand_weight cs)" and c: "c \<in> set cs"
  shows "int (count_list (fst (swrr_rounds css st)) (cand_id c)) = k * cand_weight c"
proof -
  let ?T = "sum_list (map cand_weight cs)"
  let ?n = "\<lambda>c. int (count_list (fst (swrr_rounds css st)) (cand_id c))"
  have T: "0 < ?T" using ok by (simp add: swrr_group_ok_def)
  have le: "\<forall>d \<in> set cs. ?n d \<le> k * cand_weight d"
  proof
    fix d assume d: "d \<in> set cs"
    have "?n d * ?T < k * ?T * cand_weight d + ?T"
      using swrr_rounds_smooth [OF ok css d swrr_zero_balanced [OF ok zero]] zero d len by simp
    then have "?n d * ?T < (k * cand_weight d + 1) * ?T" by (simp add: algebra_simps)
    then show "?n d \<le> k * cand_weight d" using T by (simp add: mult_less_cancel_right)
  qed
  have "(\<Sum>d\<leftarrow>cs. ?n d) = int (length css)"
    using arg_cong [OF swrr_rounds_count [OF ok css, of st], of int]
    by (simp add: sum_list_of_nat [symmetric] comp_def)
  also have "\<dots> = (\<Sum>d\<leftarrow>cs. k * cand_weight d)" using len by (simp add: sum_list_const_mult)
  finally show ?thesis using sum_list_eq_pointwise [OF le] c by blast
qed

text \<open>
  Property C16. Exact fairness: over \<open>k\<close> full cycles of \<open>T\<close> (the total weight) rounds that start
  from a zero state, whatever order each round's candidate list has, a candidate of weight
  \<open>w\<close> is selected exactly \<open>k * w\<close> times.
\<close>

theorem swrr_cycle_fair:
  assumes ok: "swrr_group_ok cs" and css: "\<forall>c \<in> set css. mset c = mset cs"
    and zero: "\<forall>c \<in> set cs. current_weight st (cand_id c) = 0"
    and len: "int (length css) = k * sum_list (map cand_weight cs)" and c: "c \<in> set cs"
  shows "int (count_list (fst (swrr_rounds css st)) (cand_id c)) = k * cand_weight c"
  using swrr_full_cycle [OF assms] .

theorem swrr_cycle_fair_witness:
  "count_list (fst (swrr_rounds (replicate 3
     [\<lparr>cand_id = ''a'', cand_weight = 1\<rparr>, \<lparr>cand_id = ''b'', cand_weight = 2\<rparr>]) [])) ''b'' = 2"
proof -
  let ?cs = "[\<lparr>cand_id = ''a'', cand_weight = 1\<rparr>, \<lparr>cand_id = ''b'', cand_weight = 2\<rparr>]"
  have "int (count_list (fst (swrr_rounds (replicate 3 ?cs) []))
      (cand_id \<lparr>cand_id = ''b'', cand_weight = 2\<rparr>)) = 1 * cand_weight \<lparr>cand_id = ''b'', cand_weight = 2\<rparr>"
    by (rule swrr_cycle_fair [of ?cs])
       (simp_all add: swrr_group_ok_def current_weight_def hm_get_def)
  then show ?thesis by simp
qed

text \<open>
  One selection round returns the candidates with exactly one of them moved to the
  front, the failover tail in its configured order: the moved one is the first candidate of
  maximal weight after every candidate has gained its own. With no positive total the list and
  the state are returned as they are.
\<close>

theorem swrr_order_selects:
  "if i32_sum (map cand_weight cs) \<le> 0 then swrr_order cs st = (cs, st)
   else \<exists>l c r. cs = l @ c # r \<and> fst (swrr_order cs st) = c # l @ r \<and>
     (\<forall>d \<in> set r. current_weight (foldl swrr_advance st cs) (cand_id d)
        \<le> current_weight (foldl swrr_advance st cs) (cand_id c)) \<and>
     (\<forall>d \<in> set l. current_weight (foldl swrr_advance st cs) (cand_id d)
        < current_weight (foldl swrr_advance st cs) (cand_id c))"
proof (cases "i32_sum (map cand_weight cs) \<le> 0")
  case True
  then show ?thesis by (simp add: swrr_order_def)
next
  case False
  then have ne: "cs \<noteq> []" by (auto simp: i32_sum_def)
  define st1 where "st1 = foldl swrr_advance st cs"
  define p where "p = swrr_pick st1 cs"
  have p: "p < length cs" using swrr_pick_max(1) [OF ne] by (simp add: p_def)
  have "fst (swrr_order cs st) = cs ! p # take p cs @ drop (Suc p) cs"
    using False by (simp add: swrr_order_def Let_def rotate_to_front_def p_def st1_def)
  moreover have "\<forall>d \<in> set (drop (Suc p) cs).
      current_weight st1 (cand_id d) \<le> current_weight st1 (cand_id (cs ! p))"
    using swrr_pick_max(2) [OF ne, of _ st1] by (auto simp: in_set_conv_nth p_def)
  moreover have "\<forall>d \<in> set (take p cs).
      current_weight st1 (cand_id d) < current_weight st1 (cand_id (cs ! p))"
    using swrr_pick_max(3) [OF ne, of _ st1] by (auto simp: in_set_conv_nth p_def)
  ultimately show ?thesis
    using False id_take_nth_drop [OF p] unfolding st1_def [symmetric] by auto
qed

theorem swrr_order_selects_witness:
  "\<exists>l c r. [\<lparr>cand_id = ''a'', cand_weight = 1\<rparr>, \<lparr>cand_id = ''b'', cand_weight = 2\<rparr>] = l @ c # r \<and>
     fst (swrr_order [\<lparr>cand_id = ''a'', cand_weight = 1\<rparr>, \<lparr>cand_id = ''b'', cand_weight = 2\<rparr>] [])
       = c # l @ r"
proof -
  let ?cs = "[\<lparr>cand_id = ''a'', cand_weight = 1\<rparr>, \<lparr>cand_id = ''b'', cand_weight = 2\<rparr>]"
  have "\<not> i32_sum (map cand_weight ?cs) \<le> 0" by (simp add: i32_sum_def i32_wrap_def)
  then show ?thesis using swrr_order_selects [of ?cs "[]"] by (simp only: if_False) blast
qed

end
