(* ===== verification/Route_Table.thy ===== *)
theory Route_Table
  imports Config Headers Swrr "HOL-Library.Word"
begin

unbundle bit_operations_syntax

text \<open>
  The runtime route index, \<open>RouteTable\<close> of \<open>hygress-core/src/config.rs\<close>, and the matcher of
  \<open>hygress-core/src/matcher.rs\<close>: the compiled full-match predicates with their literal anchors,
  the two separate key indexes, the mirror, and the per-route selection data (group key,
  candidates, destination index). The regular-expression engine is a parameter.
\<close>

record 're path_engine =
  re_build :: "string \<Rightarrow> bool \<Rightarrow> string + 're"
  re_is_match :: "'re \<Rightarrow> string \<Rightarrow> bool"
  re_captures :: "'re \<Rightarrow> string \<Rightarrow> string option list option"

section \<open>Literal anchors\<close>

definition is_regex_metachar :: "char \<Rightarrow> bool" where
  "is_regex_metachar c \<longleftrightarrow> c \<in> set ''$.*+?()[]{}|'' \<or> c = CHR 0x5C"

text \<open>\<open>str::replace(p, "")\<close> for a non-empty pattern, and its iteration to a fixpoint.\<close>

fun delete_all :: "nat \<Rightarrow> string \<Rightarrow> string \<Rightarrow> string" where
  "delete_all skip p [] = []"
| "delete_all (Suc skip) p (c # cs) = delete_all skip p cs"
| "delete_all 0 p (c # cs) =
     (if starts_with p (c # cs) then delete_all (length p - 1) p cs else c # delete_all 0 p cs)"

lemma length_delete_all: "length (delete_all n p s) \<le> length s"
  by (induction n p s rule: delete_all.induct) auto

lemma delete_all_shrinks: "delete_all 0 p s \<noteq> s \<Longrightarrow> length (delete_all 0 p s) < length s"
proof (induction s)
  case (Cons c cs)
  then show ?case using length_delete_all [of "length p - 1" p cs] by (auto split: if_splits)
qed simp

function strip_groups_loop :: "string \<Rightarrow> string" where
  "strip_groups_loop s =
     (let next = delete_all 0 ''()'' s in if next = s then next else strip_groups_loop next)"
  by pat_completeness auto
termination by (relation "measure length") (auto intro: delete_all_shrinks)

declare strip_groups_loop.simps [simp del]

definition strip_empty_groups :: "string \<Rightarrow> string" where
  "strip_empty_groups pattern = strip_groups_loop (delete_all 0 ''(?:)'' pattern)"

definition literal_anchor_len :: "string \<Rightarrow> nat" where
  "literal_anchor_len pattern =
     length (takeWhile (\<lambda>c. \<not> is_regex_metachar c) (strip_empty_groups pattern))"

definition full_match_pattern :: "string \<Rightarrow> string" where
  "full_match_pattern pattern = ''^(?:'' @ pattern @ '')$''"

section \<open>Route groups\<close>

text \<open>FNV-1a over the sorted, deduplicated service ids, and its 16-digit hexadecimal form.\<close>

definition fnv_step :: "64 word \<Rightarrow> char \<Rightarrow> 64 word" where
  "fnv_step h b = (h XOR of_nat (of_char b)) * 0x100000001B3"

definition fnv_id :: "64 word \<Rightarrow> string \<Rightarrow> 64 word" where
  "fnv_id h s = (foldl fnv_step h s XOR 0x2d) * 0x100000001B3"

fun hex_digits :: "nat \<Rightarrow> nat \<Rightarrow> string" where
  "hex_digits 0 n = []"
| "hex_digits (Suc k) n =
     hex_digits k (n div 16) @ [(let d = n mod 16 in if d < 10 then char_of (48 + d) else char_of (87 + d))]"

definition group_digest :: "string list \<Rightarrow> string" where
  "group_digest ids =
     hex_digits 16 (unat (foldl fnv_id 0xcbf29ce484222325 (sort (remdups ids))))"

definition group_key :: "string \<Rightarrow> string list \<Rightarrow> string \<times> string" where
  "group_key route_key services = (route_key, group_digest services)"

lemma sort_remdups_set: "set xs = set ys \<Longrightarrow> sort (remdups xs) = sort (remdups ys)"
  by (metis sorted_list_of_set_sort_remdups)

lemma group_key_set: "set xs = set ys \<Longrightarrow> group_key k xs = group_key k ys"
  by (simp add: group_key_def group_digest_def sort_remdups_set [of xs ys])

section \<open>The table\<close>

record 're route_table =
  rt_routes :: "route_rule list"
  rt_by_main_key :: "(string, nat list) hash_map"
  rt_by_fallback_key :: "(string, nat list) hash_map"
  rt_regexes :: "'re list list"
  rt_anchors :: "nat list list"
  rt_mirror_index :: "nat option"
  rt_swrr_group_keys :: "(string \<times> string) list"
  rt_swrr_candidates :: "swrr_candidate list list"
  rt_destination_index :: "(string, nat) hash_map list"
  rt_registry_index :: "(string, string + pre_resolved) hash_map"

definition index_push :: "string \<Rightarrow> nat \<Rightarrow> (string, nat list) hash_map \<Rightarrow> (string, nat list) hash_map" where
  "index_push k r m = hm_insert k ((case hm_get m k of None \<Rightarrow> [] | Some is \<Rightarrow> is) @ [r]) m"

definition key_index :: "route_kind \<Rightarrow> route_rule list \<Rightarrow> (string, nat list) hash_map" where
  "key_index kind routes =
     foldl (\<lambda>m (r, route). if rr_key route \<noteq> [] \<and> rr_kind route = kind
                           then index_push (rr_key route) r m else m) [] (enumerate 0 routes)"

definition first_mirror :: "route_rule list \<Rightarrow> nat option" where
  "first_mirror routes =
     foldl (\<lambda>mi (r, route). if rr_kind route = Mirror \<and> mi = None then Some r else mi) None
       (enumerate 0 routes)"

fun compile_predicates :: "'re path_engine \<Rightarrow> string \<Rightarrow> path_pred list \<Rightarrow> error + ('re \<times> nat) list" where
  "compile_predicates rx key [] = Inr []"
| "compile_predicates rx key (p # ps) =
     (case re_build rx (full_match_pattern (pp_regex p)) (pp_ignore_case p) of
        Inl e \<Rightarrow> Inl (Parse (''route '' @ quoted key @ '': invalid path regex '' @ quoted (pp_regex p) @
                   '': '' @ e))
      | Inr re \<Rightarrow>
          (case compile_predicates rx key ps of Inl e \<Rightarrow> Inl e
           | Inr rest \<Rightarrow> Inr ((re, literal_anchor_len (pp_regex p)) # rest)))"

definition route_candidates :: "route_rule \<Rightarrow> swrr_candidate list" where
  "route_candidates route =
     map (\<lambda>d. \<lparr>cand_id = dest_service d, cand_weight = i32_wrap (int (dest_weight d))\<rparr>)
       (rr_destinations route)"

definition route_destination_index :: "route_rule \<Rightarrow> (string, nat) hash_map" where
  "route_destination_index route =
     foldl (\<lambda>m (i, d). hm_insert (dest_service d) i m) [] (enumerate 0 (rr_destinations route))"

definition route_group_key :: "route_rule \<Rightarrow> string \<times> string" where
  "route_group_key route = group_key (rr_key route) (map dest_service (rr_destinations route))"

definition table_rebuild :: "'re path_engine \<Rightarrow> config_data \<Rightarrow> error + 're route_table" where
  "table_rebuild rx data =
     (let routes = cd_routes data in
      case collect_results (map (\<lambda>r. compile_predicates rx (rr_key r) (rr_path_predicates r)) routes) of
        Inl e \<Rightarrow> Inl e
      | Inr compiled \<Rightarrow>
          Inr \<lparr>rt_routes = routes,
               rt_by_main_key = key_index Main routes,
               rt_by_fallback_key = key_index Fallback routes,
               rt_regexes = map (map fst) compiled,
               rt_anchors = map (map snd) compiled,
               rt_mirror_index = first_mirror routes,
               rt_swrr_group_keys = map route_group_key routes,
               rt_swrr_candidates = map route_candidates routes,
               rt_destination_index = map route_destination_index routes,
               rt_registry_index = precompute_registries (cd_registries data) (cd_proxies data)\<rparr>)"

datatype match_kind = HeaderExact | FallbackExact | MirrorMatch

record route_match =
  rm_index :: nat
  rm_matched_by :: match_kind
  rm_predicate :: "nat option"

text \<open>The predicate loop of \<open>best_predicate\<close>: strictly longer anchors replace the best.\<close>

fun best_loop :: "('re \<Rightarrow> bool) \<Rightarrow> nat \<Rightarrow> (nat \<times> nat) option \<Rightarrow> ('re \<times> nat) list \<Rightarrow> (nat \<times> nat) option" where
  "best_loop matched i best [] = best"
| "best_loop matched i best ((re, anchor) # ps) =
     best_loop matched (Suc i)
       (if matched re \<and> (case best of None \<Rightarrow> True | Some (ba, _) \<Rightarrow> anchor > ba)
        then Some (anchor, i) else best) ps"

definition best_predicate :: "'re path_engine \<Rightarrow> 're route_table \<Rightarrow> nat \<Rightarrow> string \<Rightarrow> nat option" where
  "best_predicate rx t r path =
     (let is_mirror = (rr_kind (rt_routes t ! r) = Mirror) in
      map_option snd
        (best_loop (\<lambda>re. is_mirror \<or> re_is_match rx re path) 0 None
           (zip (rt_regexes t ! r) (rt_anchors t ! r))))"

text \<open>\<open>max_by_key\<close> returns the last maximum.\<close>

definition max_by_anchor :: "nat list \<Rightarrow> nat" where
  "max_by_anchor as = foldl (\<lambda>p i. if as ! i \<ge> as ! p then i else p) 0 [0..<length as]"

definition mirror_match :: "'re route_table \<Rightarrow> route_match option" where
  "mirror_match t =
     map_option (\<lambda>m. \<lparr>rm_index = m, rm_matched_by = MirrorMatch,
        rm_predicate = (if rt_regexes t ! m = [] then None else Some (max_by_anchor (rt_anchors t ! m)))\<rparr>)
       (rt_mirror_index t)"

fun try_routes :: "'re path_engine \<Rightarrow> 're route_table \<Rightarrow> match_kind \<Rightarrow> string \<Rightarrow> nat list \<Rightarrow> route_match option" where
  "try_routes rx t mk path [] = None"
| "try_routes rx t mk path (r # rs) =
     (case best_predicate rx t r path of
        Some pred \<Rightarrow> Some \<lparr>rm_index = r, rm_matched_by = mk, rm_predicate = Some pred\<rparr>
      | None \<Rightarrow> try_routes rx t mk path rs)"

definition find_keyed ::
  "'re path_engine \<Rightarrow> 're route_table \<Rightarrow> (string, nat list) hash_map \<Rightarrow> match_kind \<Rightarrow> string option \<Rightarrow> string
     \<Rightarrow> route_match option" where
  "find_keyed rx t index mk key path =
     (case (case key of None \<Rightarrow> None
            | Some k \<Rightarrow> (case hm_get index k of None \<Rightarrow> None | Some is \<Rightarrow> try_routes rx t mk path is)) of
        Some m \<Rightarrow> Some m
      | None \<Rightarrow> mirror_match t)"

definition find_match :: "'re path_engine \<Rightarrow> 're route_table \<Rightarrow> string option \<Rightarrow> string \<Rightarrow> route_match option" where
  "find_match rx t key path = find_keyed rx t (rt_by_main_key t) HeaderExact key path"

definition find_match_fallback ::
  "'re path_engine \<Rightarrow> 're route_table \<Rightarrow> string option \<Rightarrow> string \<Rightarrow> route_match option" where
  "find_match_fallback rx t key path = find_keyed rx t (rt_by_fallback_key t) FallbackExact key path"

definition destination_for_service :: "'re route_table \<Rightarrow> nat \<Rightarrow> string \<Rightarrow> destination option" where
  "destination_for_service t index service =
     map_option (\<lambda>i. rr_destinations (rt_routes t ! index) ! i)
       (hm_get (rt_destination_index t ! index) service)"

definition capture_groups_for ::
  "'re path_engine \<Rightarrow> 're route_table \<Rightarrow> nat \<Rightarrow> nat \<Rightarrow> string \<Rightarrow> string list" where
  "capture_groups_for rx t route_index predicate_index path =
     (case Option.bind (get_at (rt_regexes t) route_index) (\<lambda>rs. get_at rs predicate_index) of
        None \<Rightarrow> []
      | Some re \<Rightarrow>
          (case re_captures rx re path of
             None \<Rightarrow> []
           | Some gs \<Rightarrow> map (\<lambda>g. case g of None \<Rightarrow> [] | Some s \<Rightarrow> s) gs))"

definition llm_model_header :: string where
  "llm_model_header = ''x-higress-llm-model''"

definition fallback_from_header :: string where
  "fallback_from_header = ''x-higress-fallback-from''"

definition match_route :: "'re path_engine \<Rightarrow> 're route_table \<Rightarrow> header_map \<Rightarrow> string \<Rightarrow> route_match option" where
  "match_route rx t headers path = find_match rx t (header_get headers llm_model_header) path"

definition match_fallback_route ::
  "'re path_engine \<Rightarrow> 're route_table \<Rightarrow> header_map \<Rightarrow> string \<Rightarrow> route_match option" where
  "match_fallback_route rx t headers path =
     find_match_fallback rx t (header_get headers fallback_from_header) path"

section \<open>What a match means\<close>

definition pred_matches :: "'re path_engine \<Rightarrow> path_pred \<Rightarrow> string \<Rightarrow> bool" where
  "pred_matches rx p path =
     (case re_build rx (full_match_pattern (pp_regex p)) (pp_ignore_case p) of
        Inr re \<Rightarrow> re_is_match rx re path | Inl _ \<Rightarrow> False)"

text \<open>The first index of maximal anchor among those that match.\<close>

definition is_best :: "(nat \<Rightarrow> bool) \<Rightarrow> (nat \<Rightarrow> nat) \<Rightarrow> nat \<Rightarrow> nat \<Rightarrow> bool" where
  "is_best ok anchor n i \<longleftrightarrow> i < n \<and> ok i \<and> (\<forall>j<n. ok j \<longrightarrow> anchor j \<le> anchor i) \<and>
     (\<forall>j<i. ok j \<longrightarrow> anchor j < anchor i)"

definition chosen_predicate :: "'re path_engine \<Rightarrow> route_rule \<Rightarrow> string \<Rightarrow> nat \<Rightarrow> bool" where
  "chosen_predicate rx route path i =
     is_best (\<lambda>j. pred_matches rx (rr_path_predicates route ! j) path)
       (\<lambda>j. literal_anchor_len (pp_regex (rr_path_predicates route ! j)))
       (length (rr_path_predicates route)) i"

definition keyed_match :: "'re path_engine \<Rightarrow> route_kind \<Rightarrow> string option \<Rightarrow> string \<Rightarrow> route_rule \<Rightarrow> bool" where
  "keyed_match rx kind key path route \<longleftrightarrow> rr_kind route = kind \<and> rr_key route \<noteq> [] \<and>
     key = Some (rr_key route) \<and> list_ex (\<lambda>p. pred_matches rx p path) (rr_path_predicates route)"

text \<open>
  A mirror ignores the path, and so its predicates: of all of them the one with the longest anchor is
  reported, the last such, where a match of a key takes the first.
\<close>

definition mirror_predicate :: "route_rule \<Rightarrow> nat option \<Rightarrow> bool" where
  "mirror_predicate route p =
     (let n = length (rr_path_predicates route);
          anchor = (\<lambda>j. literal_anchor_len (pp_regex (rr_path_predicates route ! j)))
      in case p of
           None \<Rightarrow> n = 0
         | Some i \<Rightarrow> i < n \<and> (\<forall>j<n. anchor j \<le> anchor i \<and> (i < j \<longrightarrow> anchor j < anchor i)))"

text \<open>The meaning of a lookup in one key space.\<close>

definition match_correct ::
  "'re path_engine \<Rightarrow> route_kind \<Rightarrow> match_kind \<Rightarrow> route_rule list \<Rightarrow> string option \<Rightarrow> string
     \<Rightarrow> route_match option \<Rightarrow> bool" where
  "match_correct rx kind mk routes key path result =
     (case find (\<lambda>r. keyed_match rx kind key path (routes ! r)) [0..<length routes] of
        Some r \<Rightarrow> (\<exists>p. result = Some \<lparr>rm_index = r, rm_matched_by = mk, rm_predicate = Some p\<rparr> \<and>
                      chosen_predicate rx (routes ! r) path p)
      | None \<Rightarrow>
          (case find (\<lambda>r. rr_kind (routes ! r) = Mirror) [0..<length routes] of
             Some r \<Rightarrow> (\<exists>p. result = Some \<lparr>rm_index = r, rm_matched_by = MirrorMatch, rm_predicate = p\<rparr> \<and>
                   mirror_predicate (routes ! r) p)
           | None \<Rightarrow> result = None))"

definition best_of :: "('re \<Rightarrow> bool) \<Rightarrow> ('re \<times> nat) list \<Rightarrow> (nat \<times> nat) option \<Rightarrow> bool" where
  "best_of m qs b = (case b of None \<Rightarrow> \<forall>q \<in> set qs. \<not> m (fst q)
     | Some (a, i) \<Rightarrow> i < length qs \<and> a = snd (qs ! i) \<and>
         is_best (\<lambda>j. m (fst (qs ! j))) (\<lambda>j. snd (qs ! j)) (length qs) i)"

lemma best_of_snoc:
  assumes "best_of m qs b"
  shows "best_of m (qs @ [(re, anchor)])
    (if m re \<and> (case b of None \<Rightarrow> True | Some (ba, _) \<Rightarrow> anchor > ba) then Some (anchor, length qs) else b)"
proof (cases b)
  case None
  have "\<not> m (fst (qs ! j))" if "j < length qs" for j
    using assms None that by (simp add: best_of_def)
  then show ?thesis using None assms
    by (auto simp: best_of_def is_best_def nth_append less_Suc_eq)
next
  case (Some p)
  obtain a i where b: "b = Some (a, i)" using Some by (cases p) auto
  have i: "i < length qs" "a = snd (qs ! i)" "m (fst (qs ! i))"
    and max: "\<And>j. j < length qs \<Longrightarrow> m (fst (qs ! j)) \<Longrightarrow> snd (qs ! j) \<le> a"
    and fst: "\<And>j. j < i \<Longrightarrow> m (fst (qs ! j)) \<Longrightarrow> snd (qs ! j) < a"
    using assms b by (auto simp: best_of_def is_best_def)
  show ?thesis
  proof (cases "m re \<and> anchor > a")
    case True
    then show ?thesis using b max
      by (auto simp: best_of_def is_best_def nth_append less_Suc_eq intro: le_less_trans less_imp_le)
  next
    case False
    then show ?thesis using b i max fst
      by (auto simp: best_of_def is_best_def nth_append less_Suc_eq)
  qed
qed

lemma best_loop_best: "best_of m qs b \<Longrightarrow> best_of m (qs @ ps) (best_loop m (length qs) b ps)"
proof (induction ps arbitrary: qs b)
  case (Cons p ps)
  obtain re a where p: "p = (re, a)" by (cases p) auto
  show ?case using Cons.IH [OF best_of_snoc [OF Cons.prems, of re a]] by (simp add: p)
qed simp

lemma compile_predicates_Inr:
  "compile_predicates rx key ps = Inr cs \<Longrightarrow> length cs = length ps \<and>
   (\<forall>i<length ps. re_build rx (full_match_pattern (pp_regex (ps ! i))) (pp_ignore_case (ps ! i)) = Inr (fst (cs ! i)) \<and>
      snd (cs ! i) = literal_anchor_len (pp_regex (ps ! i)))"
proof (induction ps arbitrary: cs)
  case (Cons p ps)
  obtain re rest where re: "re_build rx (full_match_pattern (pp_regex p)) (pp_ignore_case p) = Inr re"
    and rest: "compile_predicates rx key ps = Inr rest"
    and cs: "cs = (re, literal_anchor_len (pp_regex p)) # rest"
    using Cons.prems by (auto split: sum.splits)
  show ?case using Cons.IH [OF rest] re cs by (auto simp: nth_Cons split: nat.splits)
qed simp

lemma collect_results_Inr_iff:
  "collect_results rs = Inr xs \<longleftrightarrow> rs = map Inr xs"
proof
  show "collect_results rs = Inr xs \<Longrightarrow> rs = map Inr xs"
    by (induction rs arbitrary: xs rule: collect_results.induct) (auto split: sum.splits)
  show "rs = map Inr xs \<Longrightarrow> collect_results rs = Inr xs"
    by (induction xs arbitrary: rs) auto
qed

text \<open>Everything the lemmas below need to know about a rebuilt table.\<close>

definition table_for :: "'re path_engine \<Rightarrow> config_data \<Rightarrow> 're route_table \<Rightarrow> bool" where
  "table_for rx data t \<longleftrightarrow> rt_routes t = cd_routes data \<and>
     rt_by_main_key t = key_index Main (cd_routes data) \<and>
     rt_by_fallback_key t = key_index Fallback (cd_routes data) \<and>
     rt_mirror_index t = first_mirror (cd_routes data) \<and>
     (\<forall>r<length (cd_routes data). \<exists>cs. compile_predicates rx (rr_key (cd_routes data ! r))
          (rr_path_predicates (cd_routes data ! r)) = Inr cs \<and>
        rt_regexes t ! r = map fst cs \<and> rt_anchors t ! r = map snd cs) \<and>
     rt_swrr_group_keys t = map route_group_key (cd_routes data) \<and>
     rt_swrr_candidates t = map route_candidates (cd_routes data) \<and>
     rt_destination_index t = map route_destination_index (cd_routes data) \<and>
     rt_registry_index t = precompute_registries (cd_registries data) (cd_proxies data)"

lemma table_rebuild_for:
  assumes "table_rebuild rx data = Inr t" shows "table_for rx data t"
proof -
  let ?f = "\<lambda>r. compile_predicates rx (rr_key r) (rr_path_predicates r)"
  obtain compiled where c: "collect_results (map ?f (cd_routes data)) = Inr compiled"
    and t: "rt_regexes t = map (map fst) compiled" "rt_anchors t = map (map snd) compiled"
    and rest: "rt_routes t = cd_routes data" "rt_by_main_key t = key_index Main (cd_routes data)"
      "rt_by_fallback_key t = key_index Fallback (cd_routes data)"
      "rt_mirror_index t = first_mirror (cd_routes data)"
      "rt_swrr_group_keys t = map route_group_key (cd_routes data)"
      "rt_swrr_candidates t = map route_candidates (cd_routes data)"
      "rt_destination_index t = map route_destination_index (cd_routes data)"
      "rt_registry_index t = precompute_registries (cd_registries data) (cd_proxies data)"
    using assms by (auto simp: table_rebuild_def Let_def split: sum.splits)
  have m: "map ?f (cd_routes data) = map Inr compiled" using c by (simp add: collect_results_Inr_iff)
  then have len: "length compiled = length (cd_routes data)" by (metis length_map)
  have "\<exists>cs. ?f (cd_routes data ! r) = Inr cs \<and> rt_regexes t ! r = map fst cs \<and> rt_anchors t ! r = map snd cs"
    if "r < length (cd_routes data)" for r
  proof -
    have "map ?f (cd_routes data) ! r = map Inr compiled ! r" by (simp only: m)
    then show ?thesis using that len t by simp
  qed
  then show ?thesis using rest by (simp add: table_for_def)
qed

lemma table_for_compiled:
  assumes "table_for rx data t" "r < length (cd_routes data)"
  obtains cs where "compile_predicates rx (rr_key (cd_routes data ! r))
      (rr_path_predicates (cd_routes data ! r)) = Inr cs"
    "rt_regexes t ! r = map fst cs" "rt_anchors t ! r = map snd cs"
  using assms unfolding table_for_def by blast

definition index_get :: "(string, nat list) hash_map \<Rightarrow> string \<Rightarrow> nat list" where
  "index_get m k = (case hm_get m k of None \<Rightarrow> [] | Some is \<Rightarrow> is)"

lemma index_get_push:
  "index_get (index_push k r m) k' = index_get m k' @ (if k' = k then [r] else [])"
  by (simp add: index_get_def index_push_def hm.get_insert)

lemma index_get_step:
  "index_get (if c then index_push r i m else m) k =
     index_get m k @ (if c \<and> k = r then [i] else [])"
  by (simp add: index_get_push)

lemma index_get_fold:
  "index_get (foldl (\<lambda>m (r, route). if rr_key route \<noteq> [] \<and> rr_kind route = kind
        then index_push (rr_key route) r m else m) m xs) k =
   index_get m k @ map fst (filter (\<lambda>(r, route). rr_kind route = kind \<and> rr_key route = k \<and> k \<noteq> []) xs)"
  by (induction xs arbitrary: m) (auto simp: index_get_step index_get_push split: if_splits)

lemma filter_enumerate:
  "map fst (filter (\<lambda>(r, route). P route) (enumerate 0 routes)) =
     filter (\<lambda>r. P (routes ! r)) [0..<length routes]"
proof (induction routes rule: rev_induct)
  case (snoc x xs)
  have "filter (\<lambda>r. P ((xs @ [x]) ! r)) [0..<length xs] = filter (\<lambda>r. P (xs ! r)) [0..<length xs]"
    by (intro filter_cong) (auto simp: nth_append)
  then show ?case using snoc by (simp add: enumerate_append_eq)
qed (simp add: enumerate_eq_zip)

lemma key_index_get:
  "(case hm_get (key_index kind routes) k of None \<Rightarrow> [] | Some is \<Rightarrow> is) =
     filter (\<lambda>r. rr_kind (routes ! r) = kind \<and> rr_key (routes ! r) = k \<and> k \<noteq> []) [0..<length routes]"
proof -
  have "index_get [] k = []" by (simp add: index_get_def hm.get_empty)
  then show ?thesis
    using index_get_fold [of kind "[]" "enumerate 0 routes" k]
      filter_enumerate [of "\<lambda>route. rr_kind route = kind \<and> rr_key route = k \<and> k \<noteq> []" routes]
    by (simp add: key_index_def index_get_def)
qed

lemma find_append: "find P (xs @ ys) = (case find P xs of None \<Rightarrow> find P ys | Some x \<Rightarrow> Some x)"
  by (induction xs) auto

lemma first_mirror_find:
  "first_mirror routes = find (\<lambda>r. rr_kind (routes ! r) = Mirror) [0..<length routes]"
proof (induction routes rule: rev_induct)
  case (snoc x xs)
  have "find (\<lambda>r. rr_kind ((xs @ [x]) ! r) = Mirror) [0..<length xs] =
      find (\<lambda>r. rr_kind (xs ! r) = Mirror) [0..<length xs]"
    by (intro find_cong) (auto simp: nth_append)
  then show ?case using snoc
    by (auto simp: first_mirror_def enumerate_append_eq find_append split: option.splits)
qed (simp add: first_mirror_def enumerate_eq_zip)

lemma best_predicate_correct:
  assumes t: "table_for rx data t" and r: "r < length (cd_routes data)"
    and nm: "rr_kind (cd_routes data ! r) \<noteq> Mirror"
  shows "case best_predicate rx t r path of
      Some p \<Rightarrow> chosen_predicate rx (cd_routes data ! r) path p
    | None \<Rightarrow> \<not> list_ex (\<lambda>p. pred_matches rx p path) (rr_path_predicates (cd_routes data ! r))"
proof -
  let ?ps = "rr_path_predicates (cd_routes data ! r)" and ?m = "\<lambda>re. re_is_match rx re path"
  obtain cs where cs: "compile_predicates rx (rr_key (cd_routes data ! r)) ?ps = Inr cs"
    and ra: "rt_regexes t ! r = map fst cs" "rt_anchors t ! r = map snd cs"
    using table_for_compiled [OF t r] .
  note comp = compile_predicates_Inr [OF cs]
  have zip: "zip (rt_regexes t ! r) (rt_anchors t ! r) = cs" by (simp add: ra zip_map_fst_snd)
  have kind: "rr_kind (rt_routes t ! r) \<noteq> Mirror" using t nm by (simp add: table_for_def)
  have b: "best_of ?m cs (best_loop ?m 0 None cs)"
    using best_loop_best [of ?m "[]" None cs] by (simp add: best_of_def)
  have bp: "best_predicate rx t r path = map_option snd (best_loop ?m 0 None cs)"
    using kind by (simp add: best_predicate_def zip)
  have m: "?m (fst (cs ! j)) = pred_matches rx (?ps ! j) path"
    "snd (cs ! j) = literal_anchor_len (pp_regex (?ps ! j))" if "j < length ?ps" for j
    using comp that by (auto simp: pred_matches_def)
  show ?thesis
  proof (cases "best_loop ?m 0 None cs")
    case None
    then have "\<forall>j<length ?ps. \<not> ?m (fst (cs ! j))" using b comp by (simp add: best_of_def)
    then show ?thesis using None m by (simp add: bp list_ex_length)
  next
    case (Some ai)
    then show ?thesis using b comp m
      by (auto simp: bp best_of_def chosen_predicate_def is_best_def split: prod.splits)
  qed
qed

lemma try_routes_find:
  assumes t: "table_for rx data t"
    and rs: "\<forall>r \<in> set rs. r < length (cd_routes data) \<and> rr_kind (cd_routes data ! r) \<noteq> Mirror"
  shows "case find (\<lambda>r. list_ex (\<lambda>p. pred_matches rx p path) (rr_path_predicates (cd_routes data ! r))) rs of
      Some r \<Rightarrow> (\<exists>p. try_routes rx t mk path rs =
          Some \<lparr>rm_index = r, rm_matched_by = mk, rm_predicate = Some p\<rparr> \<and>
          chosen_predicate rx (cd_routes data ! r) path p)
    | None \<Rightarrow> try_routes rx t mk path rs = None"
  using rs
proof (induction rs)
  case (Cons r rs)
  have bc: "case best_predicate rx t r path of
      Some p \<Rightarrow> chosen_predicate rx (cd_routes data ! r) path p
    | None \<Rightarrow> \<not> list_ex (\<lambda>p. pred_matches rx p path) (rr_path_predicates (cd_routes data ! r))"
    using best_predicate_correct [OF t] Cons.prems by simp
  show ?case
  proof (cases "best_predicate rx t r path")
    case None
    then show ?thesis using bc Cons by (simp split: option.splits)
  next
    case (Some p)
    then have "chosen_predicate rx (cd_routes data ! r) path p" using bc by simp
    moreover from this have "list_ex (\<lambda>p. pred_matches rx p path) (rr_path_predicates (cd_routes data ! r))"
      by (auto simp: chosen_predicate_def is_best_def list_ex_length)
    ultimately show ?thesis using Some by simp
  qed
qed simp

lemma find_filter: "find P (filter Q xs) = find (\<lambda>x. Q x \<and> P x) xs"
  by (induction xs) auto

lemma max_by_anchor_last:
  assumes "as \<noteq> []"
  shows "max_by_anchor as < length as" and "j < length as \<Longrightarrow> as ! j \<le> as ! max_by_anchor as"
    and "max_by_anchor as < j \<Longrightarrow> j < length as \<Longrightarrow> as ! j < as ! max_by_anchor as"
proof -
  have "let i = foldl (\<lambda>p i. if as ! i \<ge> as ! p then i else p) 0 [0..<n] in
      i < n \<and> (\<forall>j<n. as ! j \<le> as ! i \<and> (i < j \<longrightarrow> as ! j < as ! i))" if "0 < n" for n
    using that
  proof (induction n)
    case (Suc n)
    then show ?case by (cases "n = 0") (auto simp: Let_def less_Suc_eq intro: le_less_trans)
  qed simp
  from this [of "length as"] assms
  show "max_by_anchor as < length as" "j < length as \<Longrightarrow> as ! j \<le> as ! max_by_anchor as"
    "max_by_anchor as < j \<Longrightarrow> j < length as \<Longrightarrow> as ! j < as ! max_by_anchor as"
    by (simp_all add: max_by_anchor_def Let_def)
qed

text \<open>The tried routes of a key, and the mirror, against a scan of the routes.\<close>

definition tried_routes ::
  "'re path_engine \<Rightarrow> 're route_table \<Rightarrow> route_kind \<Rightarrow> route_rule list \<Rightarrow> match_kind \<Rightarrow> string option \<Rightarrow> string \<Rightarrow> route_match option" where
  "tried_routes rx t kind routes mk key path = (case key of None \<Rightarrow> None | Some k \<Rightarrow>
     (case hm_get (key_index kind routes) k of None \<Rightarrow> None | Some is \<Rightarrow> try_routes rx t mk path is))"

lemma tried_routes_correct:
  assumes t: "table_for rx data t" and kind: "kind \<noteq> Mirror"
  shows "case find (\<lambda>r. keyed_match rx kind key path (cd_routes data ! r)) [0..<length (cd_routes data)] of
      Some r \<Rightarrow> (\<exists>p. tried_routes rx t kind (cd_routes data) mk key path =
          Some \<lparr>rm_index = r, rm_matched_by = mk, rm_predicate = Some p\<rparr> \<and> chosen_predicate rx (cd_routes data ! r) path p)
    | None \<Rightarrow> tried_routes rx t kind (cd_routes data) mk key path = None"
proof (cases key)
  case None
  then have "find (\<lambda>r. keyed_match rx kind key path (cd_routes data ! r)) [0..<length (cd_routes data)] = None"
    by (simp add: keyed_match_def find_None_iff)
  then show ?thesis using None by (simp add: tried_routes_def)
next
  case (Some k)
  let ?routes = "cd_routes data"
  let ?P = "\<lambda>r. list_ex (\<lambda>p. pred_matches rx p path) (rr_path_predicates (?routes ! r))"
  let ?is = "filter (\<lambda>r. rr_kind (?routes ! r) = kind \<and> rr_key (?routes ! r) = k \<and> k \<noteq> []) [0..<length ?routes]"
  have tr: "tried_routes rx t kind ?routes mk key path = try_routes rx t mk path ?is"
    using key_index_get [of kind ?routes k] Some by (auto simp: tried_routes_def split: option.splits)
  have "(\<lambda>r. keyed_match rx kind key path (?routes ! r)) =
      (\<lambda>r. (rr_kind (?routes ! r) = kind \<and> rr_key (?routes ! r) = k \<and> k \<noteq> []) \<and> ?P r)"
    using Some by (auto simp: keyed_match_def fun_eq_iff)
  then have fi: "find (\<lambda>r. keyed_match rx kind key path (?routes ! r)) [0..<length ?routes] = find ?P ?is"
    by (simp add: find_filter)
  show ?thesis unfolding tr fi
    by (rule try_routes_find [OF t, where rs = ?is and path = path and mk = mk]) (use kind in auto)
qed

lemma mirror_match_correct:
  assumes t: "table_for rx data t"
  shows "case find (\<lambda>r. rr_kind (cd_routes data ! r) = Mirror) [0..<length (cd_routes data)] of
      None \<Rightarrow> mirror_match t = None
    | Some m \<Rightarrow> \<exists>p. mirror_match t = Some \<lparr>rm_index = m, rm_matched_by = MirrorMatch, rm_predicate = p\<rparr> \<and>
        mirror_predicate (cd_routes data ! m) p"
proof -
  let ?routes = "cd_routes data"
  have mirror: "mirror_match t = (case find (\<lambda>r. rr_kind (?routes ! r) = Mirror) [0..<length ?routes] of
      None \<Rightarrow> None | Some m \<Rightarrow> Some \<lparr>rm_index = m, rm_matched_by = MirrorMatch,
        rm_predicate = (if rt_regexes t ! m = [] then None else Some (max_by_anchor (rt_anchors t ! m)))\<rparr>)"
    using t by (simp add: mirror_match_def table_for_def first_mirror_find split: option.splits)
  have pred: "mirror_predicate (?routes ! m) (if rt_regexes t ! m = [] then None else Some (max_by_anchor (rt_anchors t ! m)))"
    if m: "m < length ?routes" for m
  proof -
    obtain cs where cs: "compile_predicates rx (rr_key (?routes ! m)) (rr_path_predicates (?routes ! m)) = Inr cs"
      and ra: "rt_regexes t ! m = map fst cs" "rt_anchors t ! m = map snd cs"
      by (rule table_for_compiled [OF t m])
    then show ?thesis
      using compile_predicates_Inr [OF cs] max_by_anchor_last [of "map snd cs"]
      by (auto simp: mirror_predicate_def Let_def)
  qed
  show ?thesis
  proof (cases "find (\<lambda>r. rr_kind (?routes ! r) = Mirror) [0..<length ?routes]")
    case (Some m)
    then have "m < length ?routes" by (auto simp: find_Some_iff)
    then show ?thesis using pred [of m] mirror Some by auto
  qed (simp add: mirror)
qed

lemma find_keyed_correct:
  assumes t: "table_for rx data t" and kind: "kind \<noteq> Mirror"
  shows "match_correct rx kind mk (cd_routes data) key path
    (find_keyed rx t (key_index kind (cd_routes data)) mk key path)"
proof -
  let ?routes = "cd_routes data"
  note tried = tried_routes_correct [OF t kind, where key = key and path = path and mk = mk]
  have eq: "find_keyed rx t (key_index kind ?routes) mk key path =
      (case tried_routes rx t kind ?routes mk key path of Some m \<Rightarrow> Some m | None \<Rightarrow> mirror_match t)"
    by (simp add: find_keyed_def tried_routes_def)
  show ?thesis
  proof (cases "find (\<lambda>r. keyed_match rx kind key path (?routes ! r)) [0..<length ?routes]")
    case None
    then show ?thesis using tried mirror_match_correct [OF t]
      by (auto simp: eq match_correct_def split: option.splits)
  next
    case (Some r)
    then show ?thesis using tried by (auto simp: eq match_correct_def)
  qed
qed

section \<open>The lookups of a rebuilt table\<close>


text \<open>An engine that accepts every pattern and matches every absolute path.\<close>

definition slash_engine :: "string path_engine" where
  "slash_engine = \<lparr>re_build = (\<lambda>p i. Inr p), re_is_match = (\<lambda>re path. starts_with ''/'' path),
     re_captures = (\<lambda>re path. if starts_with ''/'' path then Some [Some (drop 1 path)] else None)\<rparr>"

lemma sample_table:
  "\<exists>t. table_rebuild slash_engine sample_config = Inr t"
  by (simp add: table_rebuild_def sample_config_def sample_route_def slash_engine_def Let_def)


end
