(* ===== verification/Shared_Config.thy ===== *)
theory Shared_Config
  imports Last_Known_Good Route_Table
begin

text \<open>
  The shared runtime holder, \<open>SharedConfig\<close> of \<open>hygress-core/src/config.rs\<close>: the current snapshot
  (data, compiled table and router settings, swapped as one), the SWRR states of the route groups,
  the reject and skip counters; and the selection of a request's destinations on it,
  \<open>hygress-gateway/src/pipeline/swrr_select.rs\<close>. The lock-free cell is a state that each
  operation returns updated: a store is one step, a selection holds its entry for its whole round.
\<close>

section \<open>Snapshots\<close>

record 're snapshot =
  sn_data :: config_data
  sn_table :: "'re route_table"
  sn_router :: model_router_config

definition snapshot_build :: "config_data \<Rightarrow> 're route_table \<Rightarrow> 're snapshot" where
  "snapshot_build data table =
     \<lparr>sn_data = data, sn_table = table, sn_router = router_from_settings (cd_model_router data)\<rparr>"

definition snapshot_registries :: "'re snapshot \<Rightarrow> (string, string + pre_resolved) hash_map" where
  "snapshot_registries s = rt_registry_index (sn_table s)"

definition valid_group_keys :: "config_data \<Rightarrow> (string \<times> string) list" where
  "valid_group_keys data =
     map (\<lambda>r. group_key (rr_key r) (map dest_service (rr_destinations r))) (cd_routes data)"

section \<open>The holder\<close>

record 're shared_config =
  sc_snapshot :: "'re snapshot"
  sc_swrr_states :: "(string \<times> string, swrr_state) hash_map"
  sc_reject_total :: "64 word"
  sc_skipped_total :: "64 word"

definition structural_error :: "error \<Rightarrow> validation_error" where
  "structural_error e = ''structural: '' @ error_to_string e"

definition shared_new :: "'re path_engine \<Rightarrow> config_data \<Rightarrow> validation_error list + 're shared_config" where
  "shared_new rx data =
     (let (accepted, issues) = sanitize data in
      case table_rebuild rx accepted of
        Inl e \<Rightarrow> Inl (issues @ [structural_error e])
      | Inr table \<Rightarrow>
          Inr \<lparr>sc_snapshot = snapshot_build accepted table, sc_swrr_states = [],
               sc_reject_total = 0, sc_skipped_total = of_nat (length issues)\<rparr>)"

definition shared_store ::
  "'re path_engine \<Rightarrow> config_data \<Rightarrow> 're shared_config
     \<Rightarrow> (validation_error list + nat) \<times> 're shared_config" where
  "shared_store rx data sc =
     (let (accepted, issues) = sanitize data; dropped = length issues in
      case table_rebuild rx accepted of
        Inl e \<Rightarrow> (Inl (issues @ [structural_error e]), sc\<lparr>sc_reject_total := sc_reject_total sc + 1\<rparr>)
      | Inr table \<Rightarrow>
          (let valid = valid_group_keys accepted;
               sc1 = sc\<lparr>sc_swrr_states := hm_retain (\<lambda>k _. k \<in> set valid) (sc_swrr_states sc)\<rparr>;
               sc2 = sc1\<lparr>sc_snapshot := snapshot_build accepted table\<rparr>;
               sc3 = (if dropped > 0 then sc2\<lparr>sc_skipped_total := sc_skipped_total sc2 + of_nat dropped\<rparr>
                      else sc2)
           in (Inr dropped, sc3)))"

definition shared_load :: "'re shared_config \<Rightarrow> config_data" where
  "shared_load sc = sn_data (sc_snapshot sc)"

definition shared_route_table :: "'re shared_config \<Rightarrow> 're route_table" where
  "shared_route_table sc = sn_table (sc_snapshot sc)"

text \<open>\<open>swrr_group_state_ref\<close> and the entry of \<open>swrr_group_state\<close> after \<open>or_default\<close>.\<close>

definition swrr_group_state_ref :: "'re shared_config \<Rightarrow> string \<Rightarrow> string list \<Rightarrow> swrr_state option" where
  "swrr_group_state_ref sc route_key services = hm_get (sc_swrr_states sc) (group_key route_key services)"

definition group_state_or_default :: "'re shared_config \<Rightarrow> string \<times> string \<Rightarrow> swrr_state" where
  "group_state_or_default sc k = (case hm_get (sc_swrr_states sc) k of None \<Rightarrow> [] | Some st \<Rightarrow> st)"

definition put_group_state :: "string \<times> string \<Rightarrow> swrr_state \<Rightarrow> 're shared_config \<Rightarrow> 're shared_config" where
  "put_group_state k st sc = sc\<lparr>sc_swrr_states := hm_insert k st (sc_swrr_states sc)\<rparr>"

section \<open>Selection\<close>

text \<open>\<open>order\<close>: everything rebuilt from the route.\<close>

definition order :: "route_rule \<Rightarrow> 're shared_config \<Rightarrow> destination list \<times> 're shared_config" where
  "order route sc =
     (if rr_destinations route = [] then ([], sc)
      else
        let services = map dest_service (rr_destinations route);
            candidates = map (\<lambda>d. \<lparr>cand_id = dest_service d, cand_weight = i32_wrap (int (dest_weight d))\<rparr>)
                           (rr_destinations route);
            k = group_key (rr_key route) services;
            (candidates', st) = swrr_order candidates (group_state_or_default sc k)
        in (List.map_filter (\<lambda>c. find (\<lambda>d. dest_service d = cand_id c) (rr_destinations route)) candidates',
            put_group_state k st sc))"

text \<open>\<open>order_route\<close>: the request path, on the table's precomputed data.\<close>

definition order_route ::
  "'re route_table \<Rightarrow> nat \<Rightarrow> 're shared_config \<Rightarrow> destination list \<times> 're shared_config" where
  "order_route table index sc =
     (let route = rt_routes table ! index in
      if rr_destinations route = [] then ([], sc)
      else if length (rr_destinations route) = 1 then ([rr_destinations route ! 0], sc)
      else
        let candidates = rt_swrr_candidates table ! index;
            k = rt_swrr_group_keys table ! index;
            (candidates', sc') =
              (case hm_get (sc_swrr_states sc) k of
                 Some st \<Rightarrow> (let (cs, st') = swrr_order candidates st in (cs, put_group_state k st' sc))
               | None \<Rightarrow> (let (cs, st') = swrr_order candidates [] in (cs, put_group_state k st' sc)))
        in (List.map_filter (\<lambda>c. destination_for_service table index (cand_id c)) candidates', sc'))"


section \<open>The last accepted snapshot stays in use\<close>

definition store_attempt :: "'re path_engine \<Rightarrow> config_data \<Rightarrow> 're shared_config \<Rightarrow> bool \<times> 're shared_config" where
  "store_attempt rx data sc = (\<not> isl (fst (shared_store rx data sc)), snd (shared_store rx data sc))"

definition store_outcome :: "'re path_engine \<Rightarrow> config_data \<Rightarrow> config_data option" where
  "store_outcome rx data =
     (case table_rebuild rx (fst (sanitize data)) of Inl _ \<Rightarrow> None | Inr _ \<Rightarrow> Some (fst (sanitize data)))"

interpretation shared_lkg: last_known_good "store_attempt rx" shared_load "\<lambda>data _. store_outcome rx data"
  for rx :: "'re path_engine"
  by unfold_locales
    (auto simp: store_attempt_def store_outcome_def shared_store_def shared_load_def snapshot_build_def Let_def
       split_beta split: sum.splits)

section \<open>A concrete snapshot\<close>

text \<open>A route that splits its requests evenly over two services, and the mirror.\<close>

definition split_route :: route_rule where
  "split_route = sample_route ''qwen'' Main
     [destination_with_percent 50 ''a.static:80'', destination_with_percent 50 ''b.static:80''] None"

definition gateway_route :: route_rule where
  "gateway_route = sample_route ''gpustack'' Mirror [destination_new ''gw.dns:80''] None"

definition split_config :: config_data where
  "split_config = sample_config\<lparr>cd_routes := [split_route, gateway_route]\<rparr>"

lemma split_config_ok: "config_ok split_config"
proof -
  have "route_ok split_route" using sample_services
    by (simp add: split_route_def sample_route_def route_ok_def is_weighted_def dest_service_ref_def
        destination_with_percent_def dest_weight_def auth_scope_for_kind_def default_scope_root_def)
  moreover have "route_ok gateway_route"
    unfolding gateway_route_def using sample_services by (intro sample_route_ok(2)) simp_all
  moreover have "length (filter (\<lambda>r. rr_kind r = Mirror) [split_route, gateway_route]) \<le> 1"
    "distinct (map (\<lambda>r. (rr_kind r, rr_key r)) [split_route, gateway_route])"
    "rr_fallback split_route = None" "rr_fallback gateway_route = None"
    by (simp_all add: split_route_def gateway_route_def sample_route_def)
  ultimately show ?thesis
    by (simp add: config_ok_def routes_ok_def split_config_def sample_config_def)
qed

lemma split_new:
  "\<exists>sc. shared_new slash_engine split_config = Inr sc \<and> shared_load sc = split_config \<and>
     table_rebuild slash_engine split_config = Inr (shared_route_table sc)"
proof -
  have "\<exists>t. table_rebuild slash_engine split_config = Inr t"
    by (simp add: table_rebuild_def split_config_def split_route_def gateway_route_def sample_route_def
        slash_engine_def Let_def)
  then show ?thesis
    by (auto simp: shared_new_def sanitize_keeps [OF split_config_ok] snapshot_build_def shared_load_def
        shared_route_table_def)
qed

lemma split_routes:
  "cd_routes split_config = [split_route, gateway_route]"
  "rr_destinations split_route = [destination_with_percent 50 ''a.static:80'', destination_with_percent 50 ''b.static:80'']"
  "rr_destinations gateway_route = [destination_new ''gw.dns:80'']"
  "rr_key split_route = ''qwen''" "rr_key gateway_route = ''gpustack''"
  by (simp_all add: split_config_def split_route_def gateway_route_def sample_route_def)

section \<open>The request path agrees with the plain selection\<close>

lemma find_index: "map_option ((!) xs) (find (\<lambda>i. P (xs ! i)) [0..<length xs]) = find P xs"
proof (induction xs)
  case (Cons x xs)
  have "find (\<lambda>i. P ((x # xs) ! i)) (map Suc ns) = map_option Suc (find (\<lambda>i. P (xs ! i)) ns)" for ns
    by (induction ns) auto
  then have "find (\<lambda>i. P ((x # xs) ! i)) [0..<length (x # xs)] =
      (if P x then Some 0 else map_option Suc (find (\<lambda>i. P (xs ! i)) [0..<length xs]))"
    by (simp add: upt_conv_Cons map_Suc_upt [symmetric] del: upt_Suc)
  then show ?case using Cons by (simp add: option.map_comp comp_def)
qed simp

lemma destination_index_get:
  "distinct (map dest_service (rr_destinations route)) \<Longrightarrow>
   hm_get (route_destination_index route) k =
     find (\<lambda>i. dest_service (rr_destinations route ! i) = k) [0..<length (rr_destinations route)]"
proof -
  have "distinct (map dest_service ds) \<Longrightarrow>
      hm_get (foldl (\<lambda>m (i, d). hm_insert (dest_service d) i m) [] (enumerate 0 ds)) k =
      find (\<lambda>i. dest_service (ds ! i) = k) [0..<length ds]" for ds
  proof (induction ds rule: rev_induct)
    case (snoc d ds)
    have c: "find (\<lambda>i. dest_service ((ds @ [d]) ! i) = k) [0..<length ds] =
        find (\<lambda>i. dest_service (ds ! i) = k) [0..<length ds]"
      by (intro find_cong) (auto simp: nth_append)
    have "find (\<lambda>i. dest_service (ds ! i) = k) [0..<length ds] = None" if "k = dest_service d"
      using snoc.prems that by (auto simp: find_None_iff image_iff dest: nth_mem) (metis nth_mem)
    then show ?case using snoc c
      by (auto simp: enumerate_append_eq hm.get_insert find_append split: option.splits)
  qed (simp add: enumerate_eq_zip hm.get_empty)
  then show "distinct (map dest_service (rr_destinations route)) \<Longrightarrow> ?thesis"
    by (simp add: route_destination_index_def)
qed

lemma destination_for_service_find:
  assumes "table_for rx data t" "i < length (cd_routes data)"
    and "distinct (map dest_service (rr_destinations (cd_routes data ! i)))"
  shows "destination_for_service t i k = find (\<lambda>d. dest_service d = k) (rr_destinations (cd_routes data ! i))"
proof -
  have t: "rt_routes t = cd_routes data" "rt_destination_index t ! i = route_destination_index (cd_routes data ! i)"
    using assms by (simp_all add: table_for_def)
  show ?thesis
    using find_index [of "rr_destinations (cd_routes data ! i)" "\<lambda>d. dest_service d = k"]
    by (simp add: destination_for_service_def t destination_index_get [OF assms(3)] comp_def)
qed

text \<open>Mapping reordered candidates back to destinations loses and adds nothing.\<close>

definition to_destinations :: "destination list \<Rightarrow> swrr_candidate list \<Rightarrow> destination list" where
  "to_destinations ds cs = List.map_filter (\<lambda>c. find (\<lambda>d. dest_service d = cand_id c) ds) cs"

lemma find_service:
  "distinct (map dest_service ds) \<Longrightarrow> d \<in> set ds \<Longrightarrow> find (\<lambda>x. dest_service x = dest_service d) ds = Some d"
proof (induction ds)
  case (Cons a ds)
  then show ?case by (cases "a = d") (auto simp: image_iff)
qed simp

lemma map_filter_total: "\<forall>x \<in> set xs. f x \<noteq> None \<Longrightarrow> List.map_filter f xs = map (\<lambda>x. the (f x)) xs"
  by (induction xs) (auto simp: List.map_filter_def)

lemma to_destinations_map:
  assumes d: "distinct (map dest_service (rr_destinations route))"
    and m: "mset cs = mset (route_candidates route)"
  shows "map dest_service (to_destinations (rr_destinations route) cs) = map cand_id cs \<and>
    mset (to_destinations (rr_destinations route) cs) = mset (rr_destinations route)"
proof -
  let ?ds = "rr_destinations route" and ?f = "\<lambda>c. find (\<lambda>d. dest_service d = cand_id c) (rr_destinations route)"
  have f: "\<exists>d \<in> set ?ds. ?f c = Some d \<and> dest_service d = cand_id c" if "c \<in> set cs" for c
  proof -
    have "c \<in> set (route_candidates route)" using that mset_eq_setD [OF m] by simp
    then obtain x where x: "x \<in> set ?ds" "cand_id c = dest_service x" by (auto simp: route_candidates_def)
    have "?f c = Some x" unfolding x(2) using find_service [OF d x(1)] .
    then show ?thesis by (intro bexI [OF _ x(1)] conjI x(2) [symmetric])
  qed
  have "\<forall>c \<in> set cs. ?f c \<noteq> None"
  proof
    fix c assume "c \<in> set cs"
    from f [OF this] show "?f c \<noteq> None" by (elim bexE conjE) (simp only: option.distinct not_False_eq_True)
  qed
  then have td: "to_destinations ?ds cs = map (\<lambda>c. the (?f c)) cs"
    unfolding to_destinations_def by (rule map_filter_total)
  have "mset (map (\<lambda>c. the (?f c)) cs) = mset (map (\<lambda>c. the (?f c)) (route_candidates route))"
    unfolding mset_map m ..
  also have "map (\<lambda>c. the (?f c)) (route_candidates route) = ?ds"
    unfolding route_candidates_def map_map by (rule map_idI) (simp add: find_service [OF d])
  finally have "mset (to_destinations ?ds cs) = mset ?ds" by (simp add: td)
  moreover have "map dest_service (to_destinations ?ds cs) = map cand_id cs"
    unfolding td map_map
  proof (rule map_cong [OF refl])
    fix c assume "c \<in> set cs"
    from f [OF this] obtain d where "?f c = Some d" "dest_service d = cand_id c" by (elim bexE conjE)
    then show "(dest_service \<circ> (\<lambda>c. the (?f c))) c = cand_id c" by simp
  qed
  ultimately show ?thesis by blast
qed

lemma order_candidates:
  "order route sc =
     (if rr_destinations route = [] then ([], sc)
      else let r = swrr_order (route_candidates route) (group_state_or_default sc (route_group_key route))
           in (to_destinations (rr_destinations route) (fst r),
               put_group_state (route_group_key route) (snd r) sc))"
  by (simp add: order_def Let_def split_beta to_destinations_def route_candidates_def route_group_key_def)

lemma order_route_candidates:
  assumes "table_for rx data t" and i: "i < length (cd_routes data)"
    and d: "distinct (map dest_service (rr_destinations (cd_routes data ! i)))"
  defines "route \<equiv> cd_routes data ! i"
  shows "order_route t i sc =
     (if length (rr_destinations route) = 1 then ([rr_destinations route ! 0], sc) else order route sc)"
proof -
  have t: "rt_routes t ! i = route" "rt_swrr_candidates t ! i = route_candidates route"
    "rt_swrr_group_keys t ! i = route_group_key route"
    using assms by (simp_all add: table_for_def)
  have f: "(\<lambda>c. destination_for_service t i (cand_id c)) =
      (\<lambda>c. find (\<lambda>d. dest_service d = cand_id c) (rr_destinations route))"
    using destination_for_service_find [OF assms(1) i d] by (simp add: route_def)
  then show ?thesis
    by (simp add: order_route_def order_candidates t f Let_def split_beta group_state_or_default_def
        to_destinations_def split: option.splits)
qed

lemma order_single:
  assumes "rr_destinations route = [d]"
  shows "fst (order route sc) = [d]"
proof -
  let ?cs = "fst (swrr_order (route_candidates route) (group_state_or_default sc (route_group_key route)))"
  have "mset ?cs = mset (route_candidates route)" by (rule swrr_order_perm)
  then have "mset (to_destinations [d] ?cs) = mset [d]"
    using to_destinations_map [of route ?cs] assms by simp
  then show ?thesis by (simp add: order_candidates Let_def assms)
qed

text \<open>
  The request path's selection on the precomputed group key, candidates and
  destination index returns what the plain selection rebuilds from the route, and leaves the same
  state behind unless the route has a single destination, when it touches no state at all; the
  result is a permutation of the route's destinations, so the failover walk visits each once.
\<close>

theorem order_route_agrees:
  assumes "table_rebuild rx data = Inr t" and "i < length (cd_routes data)"
    and "distinct (map dest_service (rr_destinations (cd_routes data ! i)))"
  shows "fst (order_route t i sc) = fst (order (cd_routes data ! i) sc) \<and>
    snd (order_route t i sc) =
      (if length (rr_destinations (cd_routes data ! i)) = 1 then sc else snd (order (cd_routes data ! i) sc)) \<and>
    mset (fst (order_route t i sc)) = mset (rr_destinations (cd_routes data ! i))"
proof -
  let ?route = "cd_routes data ! i"
  note o = order_route_candidates [OF table_rebuild_for [OF assms(1)] assms(2,3), of sc]
  show ?thesis
  proof (cases "length (rr_destinations ?route) = 1")
    case True
    then obtain d where "rr_destinations ?route = [d]" by (auto simp: length_Suc_conv)
    then show ?thesis using o order_single [of ?route d sc] by simp
  next
    case False
    have "mset (fst (order ?route sc)) = mset (rr_destinations ?route)"
      using to_destinations_map [OF assms(3) swrr_order_perm]
      by (simp add: order_candidates Let_def)
    then show ?thesis using o False by simp
  qed
qed


theorem order_route_agrees_witness:
  "\<exists>t. table_rebuild slash_engine split_config = Inr t \<and>
     (\<forall>sc. fst (order_route t 0 sc) = fst (order split_route sc))"
proof -
  obtain t where t: "table_rebuild slash_engine split_config = Inr t" using split_new by blast
  have "distinct (map dest_service (rr_destinations (cd_routes split_config ! 0)))"
    by (simp add: split_routes destination_with_percent_def)
  then have "fst (order_route t 0 sc) = fst (order (cd_routes split_config ! 0) sc)" for sc :: "string shared_config"
    using order_route_agrees [OF t, of 0 sc] by (simp add: split_routes)
  then show ?thesis using t by (auto simp: split_routes)
qed

section \<open>Fair selection on a shared holder\<close>

text \<open>A run of requests on one snapshot: the route each one matched, and the service selected.\<close>

fun serve :: "'re route_table \<Rightarrow> nat list \<Rightarrow> 're shared_config \<Rightarrow> (nat \<times> string) list \<times> 're shared_config" where
  "serve t [] sc = ([], sc)"
| "serve t (i # is) sc =
     (let (ds, sc1) = order_route t i sc; (served, sc2) = serve t is sc1
      in ((i, dest_service (hd ds)) # served, sc2))"

lemma group_state_put:
  "group_state_or_default (put_group_state k st sc) k' = (if k' = k then st else group_state_or_default sc k')"
  by (simp add: group_state_or_default_def put_group_state_def hm.get_insert)

definition routes_distinct :: "config_data \<Rightarrow> bool" where
  "routes_distinct data \<longleftrightarrow> (\<forall>r \<in> set (cd_routes data). distinct (map dest_service (rr_destinations r)))"

lemma order_route_selected:
  fixes sc :: "'re shared_config"
  assumes t: "table_for rx data t" and i: "i < length (cd_routes data)"
    and d: "distinct (map dest_service (rr_destinations (cd_routes data ! i)))"
    and n: "1 < length (rr_destinations (cd_routes data ! i))"
  defines "k \<equiv> route_group_key (cd_routes data ! i)"
  defines "r \<equiv> swrr_order (route_candidates (cd_routes data ! i)) (group_state_or_default sc k)"
  shows "dest_service (hd (fst (order_route t i sc))) = cand_id (hd (fst r)) \<and>
    snd (order_route t i sc) = put_group_state k (snd r) sc"
proof -
  let ?ds = "rr_destinations (cd_routes data ! i)"
  have ne: "?ds \<noteq> []" "length ?ds \<noteq> 1" using n by auto
  have o: "order_route t i sc = (to_destinations ?ds (fst r), put_group_state k (snd r) sc)"
    unfolding order_route_candidates [OF t i d] order_candidates r_def k_def Let_def using ne by simp
  have p: "mset (fst r) = mset (route_candidates (cd_routes data ! i))"
    unfolding r_def by (rule swrr_order_perm)
  have m: "map dest_service (to_destinations ?ds (fst r)) = map cand_id (fst r)"
    using to_destinations_map [OF d p] by blast
  have "length (fst r) = length ?ds"
    using mset_eq_length [OF p] by (simp add: route_candidates_def)
  then have "fst r \<noteq> []" using ne by auto
  then have "dest_service (hd (to_destinations ?ds (fst r))) = cand_id (hd (fst r))"
    using m by (metis hd_map list.map_disc_iff)
  then show ?thesis by (simp add: o)
qed

lemma order_route_other:
  assumes t: "table_for rx data t" and i: "i < length (cd_routes data)"
    and d: "distinct (map dest_service (rr_destinations (cd_routes data ! i)))"
    and k: "route_group_key (cd_routes data ! i) \<noteq> k"
  shows "group_state_or_default (snd (order_route t i sc)) k = group_state_or_default sc k"
  unfolding order_route_candidates [OF t i d] order_candidates Let_def
  using k by (simp add: group_state_put)

lemma serve_rounds:
  assumes t: "table_for rx data t" and d: "routes_distinct data"
    and r: "r < length (cd_routes data)" "1 < length (rr_destinations (cd_routes data ! r))"
  defines "k \<equiv> route_group_key (cd_routes data ! r)"
  assumes reqs: "\<forall>j \<in> set is. j < length (cd_routes data) \<and> (route_group_key (cd_routes data ! j) = k \<longrightarrow> j = r)"
  shows "map snd (filter (\<lambda>(j, _). j = r) (fst (serve t is sc))) =
    fst (swrr_rounds (replicate (count_list is r) (route_candidates (cd_routes data ! r)))
           (group_state_or_default sc k))"
  using reqs
proof (induction "is" arbitrary: sc)
  case (Cons i "is")
  have i: "i < length (cd_routes data)" and ik: "i \<noteq> r \<Longrightarrow> route_group_key (cd_routes data ! i) \<noteq> k"
    and rest: "\<forall>j \<in> set is. j < length (cd_routes data) \<and> (route_group_key (cd_routes data ! j) = k \<longrightarrow> j = r)"
    using Cons.prems by auto
  have di: "distinct (map dest_service (rr_destinations (cd_routes data ! i)))"
    using d i by (simp add: routes_distinct_def)
  note IH = Cons.IH [OF rest, of "snd (order_route t i sc)"]
  have s: "fst (serve t (i # is) sc) =
      (i, dest_service (hd (fst (order_route t i sc)))) # fst (serve t is (snd (order_route t i sc)))"
    by (simp add: Let_def split_beta)
  show ?case
  proof (cases "i = r")
    case True
    note o = order_route_selected [OF t r(1) di [unfolded True] r(2), of sc, folded k_def]
    have n: "count_list (i # is) r = Suc (count_list is r)" using True by simp
    show ?thesis unfolding s n
      using IH o True by (simp add: Let_def group_state_put)
  next
    case False
    then show ?thesis unfolding s
      using IH order_route_other [OF t i di ik] by simp
  qed
qed simp

lemma serve_indices: "map fst (fst (serve t is sc)) = is"
  by (induction "is" arbitrary: sc) (simp_all add: Let_def split_beta)

lemma sum_list_int: "sum_list (map (int \<circ> f) xs) = int (sum_list (map f xs))"
  by (induction xs) auto

lemma sum_list_le_bound: "(\<And>x. x \<in> set xs \<Longrightarrow> f x \<le> (b::nat)) \<Longrightarrow> sum_list (map f xs) \<le> length xs * b"
proof (induction xs)
  case (Cons x xs)
  have "f x \<le> b" "sum_list (map f xs) \<le> length xs * b" using Cons by simp_all
  then show ?case by simp
qed simp

text \<open>Accepted routes give the scheduler a well-formed group.\<close>

lemma route_weights_bound:
  assumes "route_ok route" and n: "length (rr_destinations route) \<le> 4634"
  shows "int (length (rr_destinations route)) * int (sum_list (map dest_weight (rr_destinations route))) < 2147483648"
proof -
  let ?n = "length (rr_destinations route)" and ?s = "sum_list (map dest_weight (rr_destinations route))"
  have "?s \<le> ?n * 100"
  proof (rule sum_list_le_bound)
    fix d assume "d \<in> set (rr_destinations route)"
    then show "dest_weight d \<le> 100" using assms(1)
      by (cases "dest_percent d") (simp_all add: route_ok_def dest_weight_def)
  qed
  then have "?s \<le> 463400" using n by linarith
  then have "?n * ?s \<le> 4634 * 463400" using n by (rule mult_le_mono [rotated])
  then have "int (?n * ?s) < 2147483648" by linarith
  then show ?thesis by simp
qed

lemma route_weights_pos:
  assumes "route_ok route" shows "0 < sum_list (map dest_weight (rr_destinations route))"
proof (cases "is_weighted route")
  case True
  then show ?thesis using assms by (simp add: route_ok_def)
next
  case False
  obtain d ds where ds: "rr_destinations route = d # ds"
    using assms by (cases "rr_destinations route") (auto simp: route_ok_def)
  then have "dest_percent d = None" using False by (simp add: is_weighted_def)
  then show ?thesis by (simp add: ds dest_weight_def)
qed

lemma route_candidate_weights:
  assumes "route_ok route"
  shows "map cand_weight (route_candidates route) = map (int \<circ> dest_weight) (rr_destinations route)"
proof -
  have "i32_wrap (int (dest_weight d)) = int (dest_weight d)" if "d \<in> set (rr_destinations route)" for d
  proof (rule i32_wrap_id)
    have "dest_weight d \<le> 100" using assms that
      by (cases "dest_percent d") (simp_all add: route_ok_def dest_weight_def)
    then show "- 2147483648 \<le> int (dest_weight d)" "int (dest_weight d) < 2147483648" by linarith+
  qed
  then show ?thesis by (simp add: route_candidates_def)
qed

lemma route_candidates_group_ok:
  assumes ok: "route_ok route" and d: "distinct (map dest_service (rr_destinations route))"
    and n: "length (rr_destinations route) \<le> 4634"
  shows "swrr_group_ok (route_candidates route)"
proof -
  note w = route_candidate_weights [OF ok]
  have sum: "sum_list (map cand_weight (route_candidates route)) =
      int (sum_list (map dest_weight (rr_destinations route)))"
    unfolding w by (rule sum_list_int)
  have len: "length (route_candidates route) = length (rr_destinations route)"
    by (simp add: route_candidates_def)
  have "\<forall>x \<in> set (map cand_weight (route_candidates route)). 0 \<le> x" unfolding w by simp
  moreover have "distinct (map cand_id (route_candidates route))"
    using d by (simp add: route_candidates_def comp_def)
  ultimately show ?thesis
    using route_weights_bound [OF ok n] route_weights_pos [OF ok]
    unfolding swrr_group_ok_def sum len by simp
qed

lemma count_list_tagged:
  "count_list xs (r, x) = count_list (map snd (filter (\<lambda>(j, _). j = r) xs)) x"
  by (induction xs) auto

lemma serve_single:
  assumes t: "table_for rx data t" and r: "r < length (cd_routes data)"
    and d: "rr_destinations (cd_routes data ! r) = [d]"
  shows "count_list (fst (serve t is sc)) (r, dest_service d) = count_list is r"
proof (induction "is" arbitrary: sc)
  case (Cons i "is")
  have "order_route t r sc = ([d], sc)"
    using order_route_candidates [OF t r, of sc] d by simp
  then show ?case using Cons.IH by (simp add: Let_def split_beta)
qed simp

lemma serve_fair:
  assumes t: "table_for rx data t" and ok: "route_ok (cd_routes data ! r)"
    and r: "r < length (cd_routes data)" "length (rr_destinations (cd_routes data ! r)) \<le> 4634"
    and dist: "routes_distinct data"
    and reqs: "\<forall>j \<in> set is. j < length (cd_routes data) \<and>
      (route_group_key (cd_routes data ! j) = route_group_key (cd_routes data ! r) \<longrightarrow> j = r)"
    and fresh: "sc_swrr_states sc = []"
    and cycles: "count_list is r = k * sum_list (map dest_weight (rr_destinations (cd_routes data ! r)))"
    and d: "d \<in> set (rr_destinations (cd_routes data ! r))"
  shows "count_list (fst (serve t is sc)) (r, dest_service d) = k * dest_weight d"
proof (cases "1 < length (rr_destinations (cd_routes data ! r))")
  case True
  define route where "route = cd_routes data ! r"
  let ?cs = "route_candidates route"
  let ?c = "\<lparr>cand_id = dest_service d, cand_weight = i32_wrap (int (dest_weight d))\<rparr>"
  have dd: "distinct (map dest_service (rr_destinations route))"
    using dist r by (simp add: routes_distinct_def route_def)
  have group: "swrr_group_ok ?cs" using route_candidates_group_ok ok dd r(2) by (simp add: route_def)
  have w: "map cand_weight ?cs = map (int \<circ> dest_weight) (rr_destinations route)"
    using route_candidate_weights ok by (simp add: route_def)
  have c: "?c \<in> set ?cs" using d by (simp add: route_candidates_def route_def)
  have cw: "cand_weight ?c = int (dest_weight d)" using d w by (simp add: route_candidates_def route_def)
  have sum: "sum_list (map cand_weight ?cs) = int (sum_list (map dest_weight (rr_destinations route)))"
    unfolding w by (rule sum_list_int)
  have "group_state_or_default sc (route_group_key route) = []"
    by (simp add: fresh group_state_or_default_def hm.get_empty)
  then have rounds: "map snd (filter (\<lambda>(j, _). j = r) (fst (serve t is sc))) =
      fst (swrr_rounds (replicate (count_list is r) ?cs) [])"
    using serve_rounds [OF t dist r(1) True reqs, of sc] by (simp add: route_def)
  have len: "int (length (replicate (count_list is r) ?cs)) = int k * sum_list (map cand_weight ?cs)"
    unfolding sum using cycles by (simp add: route_def)
  have "int (count_list (fst (swrr_rounds (replicate (count_list is r) ?cs) [])) (cand_id ?c)) =
      int k * cand_weight ?c"
    by (rule swrr_full_cycle [OF group _ _ len c]) (simp_all add: current_weight_def hm.get_empty)
  then have "int (count_list (fst (serve t is sc)) (r, dest_service d)) = int (k * dest_weight d)"
    unfolding count_list_tagged rounds cw by simp
  then show ?thesis unfolding of_nat_eq_iff .
next
  case False
  then have "rr_destinations (cd_routes data ! r) = [d]"
    using d by (cases "rr_destinations (cd_routes data ! r)") auto
  then show ?thesis using serve_single [OF t r(1), of d "is" sc] cycles by simp
qed

text \<open>
  Weighted selection is exactly fair on the live holder. Take a holder just built from
  a snapshot, a route of it with distinct destinations whose group key no other requested route
  shares, and any interleaving of requests over the routes. If the route's own requests fill
  \<open>k\<close> cycles of its total weight, each destination was the selected one in exactly \<open>k\<close> times its
  weight of them.
\<close>

theorem shared_selection_fair:
  assumes new: "shared_new rx data = Inr sc"
    and accepted: "routes = cd_routes (shared_load sc)"
    and r: "r < length routes" "length (rr_destinations (routes ! r)) \<le> 4634"
    and distinct: "routes_distinct (shared_load sc)"
    and reqs: "\<forall>j \<in> set is. j < length routes \<and>
      (route_group_key (routes ! j) = route_group_key (routes ! r) \<longrightarrow> j = r)"
    and cycles: "count_list is r = k * sum_list (map dest_weight (rr_destinations (routes ! r)))"
    and d: "d \<in> set (rr_destinations (routes ! r))"
  shows "count_list (fst (serve (shared_route_table sc) is sc)) (r, dest_service d) = k * dest_weight d"
proof -
  obtain t where t: "table_rebuild rx (fst (sanitize data)) = Inr t"
    and sc: "shared_load sc = fst (sanitize data)" "shared_route_table sc = t" "sc_swrr_states sc = []"
    using new by (auto simp: shared_new_def snapshot_build_def shared_load_def shared_route_table_def
        split: prod.splits sum.splits)
  have "routes_ok routes" using sanitized_routes_ok [of data] by (simp add: accepted sc sanitize_fst)
  then have ok: "route_ok (routes ! r)" using r by (simp add: routes_ok_def)
  show ?thesis
    unfolding sc(2)
    using serve_fair [OF table_rebuild_for [OF t]] ok r distinct reqs cycles d sc(3)
    unfolding accepted sc(1) by blast
qed

lemma count_replicate_block:
  "count_list (concat (replicate n [0, 1, 0])) (0::nat) = 2 * n"
  by (induction n) simp_all

theorem shared_selection_fair_witness:
  "\<exists>sc. shared_new slash_engine split_config = Inr sc \<and>
     count_list (fst (serve (shared_route_table sc) (concat (replicate 50 [0, 1, 0])) sc)) (0, ''a.static:80'') = 50"
proof -
  obtain sc where sc: "shared_new slash_engine split_config = Inr sc" "shared_load sc = split_config"
    using split_new by blast
  let ?is = "concat (replicate 50 [0, 1, 0 :: nat])"
  have "count_list (fst (serve (shared_route_table sc) ?is sc))
      (0, dest_service (destination_with_percent 50 ''a.static:80'')) =
      1 * dest_weight (destination_with_percent 50 ''a.static:80'')"
  proof (rule shared_selection_fair [OF sc(1) refl])
    show "routes_distinct (shared_load sc)"
      by (simp add: routes_distinct_def sc(2) split_routes destination_with_percent_def)
    show "\<forall>j \<in> set ?is. j < length (cd_routes (shared_load sc)) \<and>
        (route_group_key (cd_routes (shared_load sc) ! j) = route_group_key (cd_routes (shared_load sc) ! 0) \<longrightarrow> j = 0)"
      by (auto simp: sc(2) split_routes route_group_key_def group_key_def)
    show "count_list ?is 0 = 1 * sum_list (map dest_weight (rr_destinations (cd_routes (shared_load sc) ! 0)))"
      unfolding count_replicate_block
      by (simp add: sc(2) split_routes destination_with_percent_def dest_weight_def)
  qed (simp_all add: sc(2) split_routes)
  then show ?thesis using sc by (auto simp: destination_with_percent_def dest_weight_def)
qed

section \<open>Storing a snapshot\<close>

text \<open>
  A store either rejects the snapshot as a whole, when the sanitised data has a path
  predicate that does not compile, and then changes nothing but the reject counter; or installs
  the sanitised data with the table and router settings built from it, keeps exactly the SWRR
  states of the route groups that still exist, and counts the validation issues it returns.
\<close>

theorem shared_store_spec:
  assumes "hm_wf (sc_swrr_states sc)"
  shows "case table_rebuild rx (fst (sanitize data)) of
      Inl e \<Rightarrow> fst (shared_store rx data sc) = Inl (snd (sanitize data) @ [structural_error e]) \<and>
        snd (shared_store rx data sc) = sc\<lparr>sc_reject_total := sc_reject_total sc + 1\<rparr>
    | Inr t \<Rightarrow> fst (shared_store rx data sc) = Inr (length (snd (sanitize data))) \<and>
        (let sc' = snd (shared_store rx data sc) in
         sc_snapshot sc' = snapshot_build (fst (sanitize data)) t \<and>
         sc_reject_total sc' = sc_reject_total sc \<and>
         sc_skipped_total sc' = sc_skipped_total sc + of_nat (length (snd (sanitize data))) \<and>
         (\<forall>k. hm_get (sc_swrr_states sc') k =
            (if k \<in> route_group_key ` set (cd_routes (fst (sanitize data)))
             then hm_get (sc_swrr_states sc) k else None)))"
proof -
  have k: "set (valid_group_keys (fst (sanitize data))) = route_group_key ` set (cd_routes (fst (sanitize data)))"
    by (simp add: valid_group_keys_def route_group_key_def)
  show ?thesis
    using assms
    by (auto simp: shared_store_def Let_def split_beta hm.get_retain k split: sum.splits option.splits)
qed

theorem shared_store_spec_witness:
  "\<exists>sc. shared_new slash_engine split_config = Inr sc \<and>
     fst (shared_store slash_engine split_config sc) = Inr 0"
proof -
  obtain sc where sc: "shared_new slash_engine split_config = Inr sc"
    and t: "table_rebuild slash_engine split_config = Inr (shared_route_table sc)"
    using split_new by blast
  have "hm_wf (sc_swrr_states sc)"
    using sc by (auto simp: shared_new_def hm.wf_empty split: prod.splits sum.splits)
  from shared_store_spec [OF this, of slash_engine split_config] show ?thesis
    using sc t by (auto simp: sanitize_keeps [OF split_config_ok])
qed

section \<open>Every reachable holder\<close>

text \<open>
  What the workers do to the holder: stores, and selections on any table, the current one or one
  that an older request still holds.
\<close>

inductive shared_step :: "'re path_engine \<Rightarrow> 're shared_config \<Rightarrow> 're shared_config \<Rightarrow> bool"
  for rx where
  store: "shared_step rx sc (snd (shared_store rx data sc))"
| select: "shared_step rx sc (snd (order_route t i sc))"

inductive shared_reachable :: "'re path_engine \<Rightarrow> 're shared_config \<Rightarrow> bool" for rx where
  new: "shared_new rx data = Inr sc \<Longrightarrow> shared_reachable rx sc"
| step: "shared_reachable rx sc \<Longrightarrow> shared_step rx sc sc' \<Longrightarrow> shared_reachable rx sc'"

inductive_cases shared_step_cases: "shared_step rx sc sc'"

definition shared_ok :: "'re path_engine \<Rightarrow> 're shared_config \<Rightarrow> bool" where
  "shared_ok rx sc \<longleftrightarrow> config_ok (shared_load sc) \<and>
     table_rebuild rx (shared_load sc) = Inr (shared_route_table sc) \<and>
     sn_router (sc_snapshot sc) = router_from_settings (cd_model_router (shared_load sc)) \<and>
     hm_wf (sc_swrr_states sc)"

lemma sanitize_config_ok: "config_ok (fst (sanitize data))"
  using sanitized_routes_ok [of data] by (auto simp: config_ok_def sanitize_fst)

lemma shared_new_ok: "shared_new rx data = Inr sc \<Longrightarrow> shared_ok rx sc"
  using sanitize_config_ok [of data]
  by (auto simp: shared_new_def shared_ok_def shared_load_def shared_route_table_def snapshot_build_def
      hm.wf_empty split: prod.splits sum.splits)

lemma shared_store_ok: "shared_ok rx sc \<Longrightarrow> shared_ok rx (snd (shared_store rx data sc))"
  using sanitize_config_ok [of data]
  by (auto simp: shared_store_def shared_ok_def shared_load_def shared_route_table_def snapshot_build_def
      Let_def hm.wf_retain split: prod.splits sum.splits)

lemma order_route_frame:
  "sc_snapshot (snd (order_route t i sc)) = sc_snapshot sc \<and>
   (hm_wf (sc_swrr_states sc) \<longrightarrow> hm_wf (sc_swrr_states (snd (order_route t i sc))))"
  by (auto simp: order_route_def Let_def split_beta put_group_state_def hm.wf_insert split: option.splits)

lemma order_route_ok: "shared_ok rx sc \<Longrightarrow> shared_ok rx (snd (order_route t i sc))"
  using order_route_frame [of t i sc] by (simp add: shared_ok_def shared_load_def shared_route_table_def)

lemma shared_reachable_ok: "shared_reachable rx sc \<Longrightarrow> shared_ok rx sc"
  by (induction rule: shared_reachable.induct)
     (auto simp: shared_new_ok shared_store_ok order_route_ok elim!: shared_step_cases)

text \<open>
  Property C25. Whatever sequence of stores, accepted or rejected, and selections the workers run,
  every read sees one consistent, valid snapshot: validated data, the table compiled from exactly
  that data, and the router settings derived from it. In particular every mirror lookup, key lookup
  and destination index of the table speaks of the data read with it.
\<close>

theorem shared_snapshot_consistent:
  assumes "shared_reachable rx sc"
  shows "config_ok (shared_load sc) \<and>
    table_rebuild rx (shared_load sc) = Inr (shared_route_table sc) \<and>
    snapshot_registries (sc_snapshot sc) =
      precompute_registries (cd_registries (shared_load sc)) (cd_proxies (shared_load sc)) \<and>
    sn_router (sc_snapshot sc) = router_from_settings (cd_model_router (shared_load sc))"
proof -
  have ok: "shared_ok rx sc" using assms by (rule shared_reachable_ok)
  then have "table_for rx (shared_load sc) (shared_route_table sc)"
    by (intro table_rebuild_for) (simp add: shared_ok_def)
  then show ?thesis using ok
    by (simp add: shared_ok_def table_for_def snapshot_registries_def shared_route_table_def)
qed

theorem shared_snapshot_consistent_witness:
  "\<exists>sc. shared_reachable slash_engine sc \<and> config_ok (shared_load sc) \<and>
     shared_load sc = split_config"
proof -
  obtain sc where sc: "shared_new slash_engine split_config = Inr sc" "shared_load sc = split_config"
    using split_new by blast
  have "shared_reachable slash_engine sc" using sc(1) by (rule shared_reachable.new)
  from shared_snapshot_consistent [OF this] this sc(2) show ?thesis by blast
qed

end
