(* ===== verification/Transformer.thy ===== *)
theory Transformer
  imports Headers
begin

text \<open>
  The ordered header rules of \<open>hygress-core/src/transform.rs\<close>: one rule engine, generic over the
  \<open>HeaderOps\<close> dictionary, with the gateway's inbound and outbound rule sets. The engine is shown
  to act on every implementation as it acts on the abstract view, so the two rule sets are
  characterised once.
\<close>

datatype transform_op = Remove | Rename | Dedupe | Backup | Skip

datatype retain_mode = RetainFirst | RetainLast

record transform_rule =
  tr_op :: transform_op
  tr_source :: string
  tr_dest :: "string option"
  tr_mode :: "retain_mode option"

definition rule_remove :: "string \<Rightarrow> transform_rule" where
  "rule_remove s = \<lparr>tr_op = Remove, tr_source = s, tr_dest = None, tr_mode = None\<rparr>"

definition rule_rename :: "string \<Rightarrow> string \<Rightarrow> transform_rule" where
  "rule_rename s d = \<lparr>tr_op = Rename, tr_source = s, tr_dest = Some d, tr_mode = None\<rparr>"

definition rule_dedupe :: "string \<Rightarrow> retain_mode \<Rightarrow> transform_rule" where
  "rule_dedupe s m = \<lparr>tr_op = Dedupe, tr_source = s, tr_dest = None, tr_mode = Some m\<rparr>"

definition rule_backup :: "string \<Rightarrow> string \<Rightarrow> transform_rule" where
  "rule_backup s d = \<lparr>tr_op = Backup, tr_source = s, tr_dest = Some d, tr_mode = None\<rparr>"

definition rule_skip :: "string \<Rightarrow> transform_rule" where
  "rule_skip s = \<lparr>tr_op = Skip, tr_source = s, tr_dest = None, tr_mode = None\<rparr>"

definition inbound_rules :: "transform_rule list" where
  "inbound_rules =
     [rule_remove ''x-gpustack-auth-token'',
      rule_remove ''x-gpustack-model-instance'',
      rule_remove ''x-gpustack-original-path'',
      rule_rename ''x-gpustack-model'' ''x-higress-llm-model'',
      rule_rename ''x-gpustack-fallback-path'' '':path'',
      rule_dedupe ''x-gpustack-model'' RetainFirst,
      rule_dedupe ''x-higress-llm-model'' RetainFirst,
      rule_dedupe '':path'' RetainLast,
      rule_backup '':path'' ''x-gpustack-original-path'',
      rule_remove ''x-gpustack-fallback-path'']"

definition outbound_rules :: "transform_rule list" where
  "outbound_rules =
     [rule_dedupe ''x-gpustack-model-instance'' RetainFirst,
      rule_dedupe ''x-gpustack-route-name'' RetainFirst,
      rule_skip ''x-gpustack-model-instance'',
      rule_skip ''x-gpustack-route-name'']"

definition append_all :: "'h header_ops \<Rightarrow> string \<Rightarrow> string list \<Rightarrow> 'h \<Rightarrow> 'h" where
  "append_all ops dest vs h = foldl (\<lambda>h v. ho_append ops dest v h) h vs"

definition apply_rule :: "'h header_ops \<Rightarrow> transform_rule \<Rightarrow> 'h \<Rightarrow> 'h" where
  "apply_rule ops r h =
     (case tr_op r of
        Remove \<Rightarrow> ho_remove ops (tr_source r) h
      | Rename \<Rightarrow>
          (case tr_dest r of
             Some dest \<Rightarrow>
               ho_remove ops (tr_source r) (append_all ops dest (ho_get_all ops h (tr_source r)) h)
           | None \<Rightarrow> h)
      | Dedupe \<Rightarrow>
          (let vs = ho_get_all ops h (tr_source r) in
           if length vs > 1 then
             (case (case (case tr_mode r of Some m \<Rightarrow> m | None \<Rightarrow> RetainFirst) of
                      RetainFirst \<Rightarrow> (case vs of [] \<Rightarrow> None | v # _ \<Rightarrow> Some v)
                    | RetainLast \<Rightarrow> (if vs = [] then None else Some (last vs))) of
                Some v \<Rightarrow> ho_insert ops (tr_source r) v h
              | None \<Rightarrow> ho_remove ops (tr_source r) h)
           else h)
      | Backup \<Rightarrow>
          (case tr_dest r of
             Some dest \<Rightarrow> append_all ops dest (ho_get_all ops h (tr_source r)) h
           | None \<Rightarrow> h)
      | Skip \<Rightarrow> h)"

definition transformer_apply :: "'h header_ops \<Rightarrow> transform_rule list \<Rightarrow> 'h \<Rightarrow> 'h" where
  "transformer_apply ops rules h = foldl (\<lambda>h r. apply_rule ops r h) h rules"

section \<open>The engine on the abstract view\<close>

lemma append_all_view_ops:
  "append_all view_ops dest vs w =
     (\<lambda>k. if header_key k = header_key dest then w k @ vs else w k)"
  unfolding append_all_def by (induction vs arbitrary: w) (auto simp: view_ops_sel fun_eq_iff)

context header_contract begin

lemma append_all_contract:
  "inv h \<Longrightarrow> inv (append_all ops n vs h) \<and>
     ho_get_all ops (append_all ops n vs h) = append_all view_ops n vs (ho_get_all ops h)"
  using append_all_view [of h n vs] unfolding append_all_view_ops by (simp add: append_all_def)

lemma apply_rule_view:
  "inv h \<Longrightarrow> inv (apply_rule ops r h) \<and>
     ho_get_all ops (apply_rule ops r h) = apply_rule view_ops r (ho_get_all ops h)"
  by (cases "tr_op r")
     (auto simp: apply_rule_def Let_def view_ops_sel(1) append_all_contract get_insert get_remove
        inv_insert inv_remove split: option.splits retain_mode.splits list.splits)

lemma transformer_view:
  "inv h \<Longrightarrow> inv (transformer_apply ops rules h) \<and>
     ho_get_all ops (transformer_apply ops rules h) = transformer_apply view_ops rules (ho_get_all ops h)"
  unfolding transformer_apply_def by (induction rules arbitrary: h) (simp_all add: apply_rule_view)

end

text \<open>
  The rule engine cannot tell the two header representations apart: run on the
  overlay and on the map it stands for, any rule list gives headers that read the same.
\<close>

theorem transformer_overlay_agrees:
  assumes "oh_wf h" and "header_wf m" and "oh_get_all h = header_get_all m"
  shows "oh_get_all (transformer_apply outbound_ops rules h) =
    header_get_all (transformer_apply header_map_ops rules m)"
  using overlay.transformer_view [OF assms(1), of rules] hmap.transformer_view [OF assms(2), of rules]
    assms(3) by simp

theorem transformer_overlay_agrees_witness:
  "oh_get_all (transformer_apply outbound_ops inbound_rules (oh_new [])) =
    header_get_all (transformer_apply header_map_ops inbound_rules [])"
  by (rule transformer_overlay_agrees)
     (simp_all add: oh_wf_new header_wf_empty fun_eq_iff)

section \<open>The inbound and outbound rule sets\<close>

lemma header_literals:
  "header_key ''x-gpustack-auth-token'' = ''x-gpustack-auth-token''"
  "header_key ''x-gpustack-model-instance'' = ''x-gpustack-model-instance''"
  "header_key ''x-gpustack-original-path'' = ''x-gpustack-original-path''"
  "header_key ''x-gpustack-model'' = ''x-gpustack-model''"
  "header_key ''x-higress-llm-model'' = ''x-higress-llm-model''"
  "header_key ''x-gpustack-fallback-path'' = ''x-gpustack-fallback-path''"
  "header_key '':path'' = '':path''"
  "header_key ''x-gpustack-route-name'' = ''x-gpustack-route-name''"
  by code_simp+

definition keep_first :: "string list \<Rightarrow> string list" where
  "keep_first vs = take 1 vs"

definition keep_last :: "string list \<Rightarrow> string list" where
  "keep_last vs = (if vs = [] then [] else [last vs])"

lemma view_rules:
  "apply_rule view_ops (rule_remove s) w = (\<lambda>k. if header_key k = header_key s then [] else w k)"
  "apply_rule view_ops (rule_skip s) w = w"
  "apply_rule view_ops (rule_rename s d) w = (\<lambda>k. if header_key k = header_key s then []
     else if header_key k = header_key d then w k @ w s else w k)"
  "apply_rule view_ops (rule_backup s d) w =
     (\<lambda>k. if header_key k = header_key d then w k @ w s else w k)"
  by (simp_all add: apply_rule_def rule_remove_def rule_skip_def rule_rename_def rule_backup_def
      append_all_view_ops fun_eq_iff view_ops_sel)

lemma view_dedupe:
  assumes "\<And>k. w (header_key k) = w k"
  shows "apply_rule view_ops (rule_dedupe s RetainFirst) w =
      (\<lambda>k. if header_key k = header_key s then keep_first (w k) else w k)"
    and "apply_rule view_ops (rule_dedupe s RetainLast) w =
      (\<lambda>k. if header_key k = header_key s then keep_last (w k) else w k)"
proof -
  have eq: "w k = w s" if "header_key k = header_key s" for k
    using assms [of k] assms [of s] that by simp
  have short: "length (w s) \<le> 1 \<Longrightarrow> w s = [] \<or> (\<exists>v. w s = [v])" by (cases "w s") auto
  show "apply_rule view_ops (rule_dedupe s RetainFirst) w =
      (\<lambda>k. if header_key k = header_key s then keep_first (w k) else w k)"
    using eq short by (cases "w s")
      (auto simp: apply_rule_def rule_dedupe_def view_ops_sel Let_def keep_first_def fun_eq_iff)
  show "apply_rule view_ops (rule_dedupe s RetainLast) w =
      (\<lambda>k. if header_key k = header_key s then keep_last (w k) else w k)"
    using eq short by (cases "w s")
      (auto simp: apply_rule_def rule_dedupe_def view_ops_sel Let_def keep_last_def fun_eq_iff)
qed

lemma transformer_apply_Cons:
  "transformer_apply ops [] h = h"
  "transformer_apply ops (r # rs) h = transformer_apply ops rs (apply_rule ops r h)"
  by (simp_all add: transformer_apply_def)

text \<open>The view after the inbound rules, rule by rule.\<close>

lemma inbound_view:
  assumes w: "\<And>k. w (header_key k) = w k"
  shows "transformer_apply view_ops inbound_rules w k =
    (if header_key k \<in> {''x-gpustack-auth-token'', ''x-gpustack-model-instance'',
        ''x-gpustack-model'', ''x-gpustack-fallback-path''} then []
     else if header_key k = ''x-higress-llm-model'' then
       keep_first (w ''x-higress-llm-model'' @ w ''x-gpustack-model'')
     else if header_key k \<in> {'':path'', ''x-gpustack-original-path''} then
       keep_last (w '':path'' @ w ''x-gpustack-fallback-path'')
     else w k)"
proof -
  define w1 where "w1 = (\<lambda>k. if header_key k \<in> {''x-gpustack-auth-token'',
      ''x-gpustack-model-instance'', ''x-gpustack-original-path''} then [] else w k)"
  define w2 where "w2 = (\<lambda>k. if header_key k = ''x-gpustack-model'' then []
      else if header_key k = ''x-higress-llm-model'' then w1 k @ w1 ''x-gpustack-model'' else w1 k)"
  define w3 where "w3 = (\<lambda>k. if header_key k = ''x-gpustack-fallback-path'' then []
      else if header_key k = '':path'' then w2 k @ w2 ''x-gpustack-fallback-path'' else w2 k)"
  define w4 where "w4 = (\<lambda>k. if header_key k = ''x-higress-llm-model'' then keep_first (w3 k) else w3 k)"
  define w5 where "w5 = (\<lambda>k. if header_key k = '':path'' then keep_last (w4 k) else w4 k)"
  note key = header_literals header_key_idem
  have c1: "w1 (header_key k) = w1 k" for k by (simp add: w1_def w)
  have c2: "w2 (header_key k) = w2 k" for k unfolding w2_def header_key_idem c1 ..
  have c3: "w3 (header_key k) = w3 k" for k unfolding w3_def header_key_idem c2 ..
  have c4: "w4 (header_key k) = w4 k" for k unfolding w4_def header_key_idem c3 ..
  have r1: "apply_rule view_ops (rule_remove ''x-gpustack-original-path'')
      (apply_rule view_ops (rule_remove ''x-gpustack-model-instance'')
        (apply_rule view_ops (rule_remove ''x-gpustack-auth-token'') w)) = w1"
    unfolding view_rules key w1_def by (auto simp: fun_eq_iff)
  have r2: "apply_rule view_ops (rule_rename ''x-gpustack-model'' ''x-higress-llm-model'') w1 = w2"
    unfolding view_rules key w2_def ..
  have r3: "apply_rule view_ops (rule_rename ''x-gpustack-fallback-path'' '':path'') w2 = w3"
    unfolding view_rules key w3_def ..
  have d0: "w3 k = []" if "header_key k = ''x-gpustack-model''" for k
    using that by (simp add: w3_def w2_def)
  have r4: "apply_rule view_ops (rule_dedupe ''x-gpustack-model'' RetainFirst) w3 = w3"
    unfolding view_dedupe(1) [of w3, OF c3] key using d0 by (auto simp: keep_first_def fun_eq_iff)
  have r5: "apply_rule view_ops (rule_dedupe ''x-higress-llm-model'' RetainFirst) w3 = w4"
    unfolding view_dedupe(1) [of w3, OF c3] key w4_def ..
  have r6: "apply_rule view_ops (rule_dedupe '':path'' RetainLast) w4 = w5"
    unfolding view_dedupe(2) [of w4, OF c4] key w5_def ..
  have res: "transformer_apply view_ops inbound_rules w k =
      (if header_key k = ''x-gpustack-fallback-path'' then []
       else if header_key k = ''x-gpustack-original-path'' then w5 k @ w5 '':path'' else w5 k)"
    unfolding inbound_rules_def transformer_apply_Cons
    unfolding r1 r2 r3 r4 r5 r6
    unfolding view_rules key ..
  have w5: "w5 k = (if header_key k \<in> {''x-gpustack-auth-token'', ''x-gpustack-model-instance'',
        ''x-gpustack-original-path'', ''x-gpustack-model'', ''x-gpustack-fallback-path''} then []
     else if header_key k = ''x-higress-llm-model'' then keep_first (w k @ w ''x-gpustack-model'')
     else if header_key k = '':path'' then keep_last (w k @ w ''x-gpustack-fallback-path'')
     else w k)" for k
    by (auto simp: w5_def w4_def w3_def w2_def w1_def key keep_first_def)
  have "w k = w ''x-higress-llm-model''" if "header_key k = ''x-higress-llm-model''"
    using w [of k] that by simp
  moreover have "w k = w '':path''" if "header_key k = '':path''"
    using w [of k] that by simp
  ultimately show ?thesis unfolding res w5 key by auto
qed

text \<open>
  Property C19. After the inbound rules, whatever a client sent: the auth-token, model-instance,
  legacy model and fallback-path headers are gone, the model header has at most one value (an
  existing one wins over the legacy header), \<open>:path\<close> has at most one value, the last of the request's
  \<open>:path\<close> and \<open>x-gpustack-fallback-path\<close> values, and \<open>x-gpustack-original-path\<close> is exactly that value; every
  other header is untouched. So a header \<open>x-gpustack-original-path\<close> of the client is never seen, but the
  value can be the client's: a fallback path it sends becomes the path and is copied there, which the
  module documentation rules out (\<open>inbound_fallback_path_reaches_original\<close>).
\<close>

theorem transformer_inbound:
  assumes "header_wf m"
  shows "header_get_all (transformer_apply header_map_ops inbound_rules m) k =
    (if header_key k \<in> {''x-gpustack-auth-token'', ''x-gpustack-model-instance'',
        ''x-gpustack-model'', ''x-gpustack-fallback-path''} then []
     else if header_key k = ''x-higress-llm-model'' then
       keep_first (header_get_all m ''x-higress-llm-model'' @ header_get_all m ''x-gpustack-model'')
     else if header_key k \<in> {'':path'', ''x-gpustack-original-path''} then
       keep_last (header_get_all m '':path'' @ header_get_all m ''x-gpustack-fallback-path'')
     else header_get_all m k)"
  using hmap.transformer_view [OF assms, of inbound_rules] inbound_view [of "header_get_all m" k]
  by simp

theorem transformer_inbound_witness:
  "header_get_all (transformer_apply header_map_ops inbound_rules
     [('':path'', [''/v1/chat'']), (''x-gpustack-original-path'', [''/admin''])])
   ''x-gpustack-original-path'' = [''/v1/chat'']"
proof -
  let ?m = "[('':path'', [''/v1/chat'']), (''x-gpustack-original-path'', [''/admin''])]"
  have "header_wf ?m"
    by (auto simp: header_wf_def hm_wf_def hm_get_def header_literals split: if_splits)
  then show ?thesis
    using transformer_inbound [of ?m "''x-gpustack-original-path''"]
    by (simp add: header_literals header_get_all_def hm_get_def keep_last_def)
qed

text \<open>
  A client value can still reach \<open>x-gpustack-original-path\<close> through the fallback-path header,
  which the rules rename to \<open>:path\<close> before the backstop copies it.
\<close>

lemma inbound_fallback_path_reaches_original:
  "header_get_all (transformer_apply header_map_ops inbound_rules
     [('':path'', [''/v1/chat'']), (''x-gpustack-fallback-path'', [''/admin''])])
   ''x-gpustack-original-path'' = [''/admin'']"
proof -
  let ?m = "[('':path'', [''/v1/chat'']), (''x-gpustack-fallback-path'', [''/admin''])]"
  have wf: "header_wf ?m"
    by (auto simp: header_wf_def hm_wf_def hm_get_def header_literals split: if_splits)
  have "header_get_all (transformer_apply header_map_ops inbound_rules ?m) ''x-gpustack-original-path'' =
      transformer_apply view_ops inbound_rules (header_get_all ?m) ''x-gpustack-original-path''"
    using hmap.transformer_view [OF wf, of inbound_rules] by simp
  then show ?thesis
    using inbound_view [of "header_get_all ?m" "''x-gpustack-original-path''"]
    by (simp add: header_literals header_get_all_def hm_get_def keep_last_def)
qed

lemma outbound_view:
  assumes "\<And>k. w (header_key k) = w k"
  shows "transformer_apply view_ops outbound_rules w k =
    (if header_key k \<in> {''x-gpustack-model-instance'', ''x-gpustack-route-name''} then keep_first (w k) else w k)"
proof -
  let ?w1 = "\<lambda>k. if header_key k = header_key ''x-gpustack-model-instance'' then keep_first (w k) else w k"
  have c: "?w1 (header_key k) = ?w1 k" for k unfolding header_key_idem assms ..
  have "transformer_apply view_ops outbound_rules w k =
      (if header_key k = header_key ''x-gpustack-route-name'' then keep_first (?w1 k) else ?w1 k)"
    unfolding outbound_rules_def transformer_apply_Cons view_rules
      view_dedupe(1) [of w, OF assms] view_dedupe(1) [of ?w1, OF c] ..
  then show ?thesis by (simp add: header_literals)
qed

lemma outbound_overlay:
  "oh_wf h \<Longrightarrow> oh_wf (transformer_apply outbound_ops outbound_rules h) \<and>
   oh_get_all (transformer_apply outbound_ops outbound_rules h) k =
    (if header_key k \<in> {''x-gpustack-model-instance'', ''x-gpustack-route-name''}
     then keep_first (oh_get_all h k) else oh_get_all h k)"
  using overlay.transformer_view [of h outbound_rules] outbound_view [of "oh_get_all h" k] by simp

lemma inbound_map:
  "header_wf m \<Longrightarrow> header_wf (transformer_apply header_map_ops inbound_rules m) \<and>
   header_get_all (transformer_apply header_map_ops inbound_rules m) k =
    transformer_apply view_ops inbound_rules (header_get_all m) k"
  using hmap.transformer_view [of m inbound_rules] by simp

text \<open>
  The outbound rules never strip the instance and route-name headers: each keeps
  exactly its first value, and no other header changes.
\<close>

theorem transformer_outbound:
  "oh_wf h \<Longrightarrow> oh_get_all (transformer_apply outbound_ops outbound_rules h) k =
    (if header_key k \<in> {''x-gpustack-model-instance'', ''x-gpustack-route-name''}
     then keep_first (oh_get_all h k) else oh_get_all h k)"
  using outbound_overlay by blast

theorem transformer_outbound_witness:
  "oh_get_all (transformer_apply outbound_ops outbound_rules
     (oh_new [(''x-gpustack-route-name'', [''r1'', ''r2''])])) ''x-gpustack-route-name'' = [''r1'']"
proof -
  let ?m = "[(''x-gpustack-route-name'', [''r1'', ''r2''])]"
  have "header_wf ?m"
    by (auto simp: header_wf_def hm_wf_def hm_get_def header_literals split: if_splits)
  from transformer_outbound [OF oh_wf_new [OF this], of "''x-gpustack-route-name''"] show ?thesis
    by (simp add: header_literals header_get_all_def hm_get_def keep_first_def)
qed

end
