(* ===== verification/Quota.thy ===== *)
theory Quota
  imports Prelude
begin

text \<open>
  Token quotas: \<open>hygress-core/src/quota.rs\<close> (the engine) and \<open>hygress-gateway/src/quota.rs\<close>
  (the reservation guard). The engine is a map from \<open>(consumer, model)\<close> to a fixed-window
  counter; every operation takes the clock reading it works at. The guard is a record whose
  \<open>settle\<close> and \<open>drop\<close> return the updated engine. The last sections run engine and guards as a
  step relation and relate it to a ledger that only knows committed and outstanding tokens.
\<close>

section \<open>The engine\<close>

record limit_window_spec =
  window_secs :: nat
  soft_limit :: "nat option"
  hard_limit :: "nat option"

datatype quota_decision = Allowed | SoftExceed | HardDeny

record window_counter =
  wc_window :: nat
  wc_used :: nat
  wc_est :: nat
  wc_last_used :: nat

type_synonym quota_key = "string \<times> string"
type_synonym quota_engine = "(quota_key, window_counter) hash_map"

definition window_idx :: "nat \<Rightarrow> limit_window_spec \<Rightarrow> nat" where
  "window_idx now spec =
     (let window_ms = sat_mul (window_secs spec) 1000
      in if window_ms = 0 then 0 else now div window_ms)"

definition fresh_counter :: "nat \<Rightarrow> nat \<Rightarrow> nat \<Rightarrow> window_counter" where
  "fresh_counter widx used now = \<lparr>wc_window = widx, wc_used = used, wc_est = 0, wc_last_used = now\<rparr>"

definition quota_reserve ::
  "nat \<Rightarrow> quota_key \<Rightarrow> limit_window_spec \<Rightarrow> nat \<Rightarrow> quota_engine \<Rightarrow> quota_decision \<times> quota_engine" where
  "quota_reserve now key spec est eng =
     (let widx = window_idx now spec;
          entry = (case hm_get eng key of None \<Rightarrow> fresh_counter widx 0 now | Some c \<Rightarrow> c);
          entry = (if wc_window entry \<noteq> widx then fresh_counter widx 0 now else entry);
          entry = entry\<lparr>wc_last_used := now\<rparr>;
          projected = sat_add (wc_used entry) est;
          deny = (case hard_limit spec of None \<Rightarrow> False | Some h \<Rightarrow> projected > h);
          decision = (if deny then HardDeny
                      else if (case soft_limit spec of None \<Rightarrow> False | Some s \<Rightarrow> projected \<ge> s)
                      then SoftExceed else Allowed);
          entry = (if deny then entry
                   else entry\<lparr>wc_used := sat_add (wc_used entry) est,
                              wc_est := sat_add (wc_est entry) est\<rparr>)
      in (decision, hm_insert key entry eng))"

definition quota_commit ::
  "nat \<Rightarrow> quota_key \<Rightarrow> limit_window_spec \<Rightarrow> nat \<Rightarrow> nat \<Rightarrow> quota_engine \<Rightarrow> quota_engine" where
  "quota_commit now key spec est actual eng =
     (let widx = window_idx now spec in
      case hm_get eng key of
        Some c \<Rightarrow>
          hm_insert key
            ((if wc_window c = widx then
                let subtract = min est (wc_est c)
                in c\<lparr>wc_used := sat_add (wc_used c - subtract) actual, wc_est := wc_est c - subtract\<rparr>
              else c\<lparr>wc_window := widx, wc_used := actual, wc_est := 0\<rparr>)\<lparr>wc_last_used := now\<rparr>) eng
      | None \<Rightarrow> hm_insert key (fresh_counter widx actual now) eng)"

definition quota_release ::
  "nat \<Rightarrow> nat \<Rightarrow> quota_key \<Rightarrow> nat \<Rightarrow> nat \<Rightarrow> quota_engine \<Rightarrow> nat \<times> quota_engine" where
  "quota_release now widx key est actual eng =
     (est - actual,
      (case hm_get eng key of
         None \<Rightarrow> eng
       | Some c \<Rightarrow>
           (let c = c\<lparr>wc_last_used := now\<rparr> in
            hm_insert key
              (if wc_window c = widx
               then c\<lparr>wc_used := wc_used c - est, wc_est := wc_est c - est\<rparr> else c) eng)))"

definition quota_gc_stale :: "nat \<Rightarrow> quota_engine \<Rightarrow> nat \<times> quota_engine" where
  "quota_gc_stale current eng =
     (let kept = hm_retain (\<lambda>_ c. wc_window c \<ge> current) eng in (length eng - length kept, kept))"

definition quota_evict_idle :: "nat \<Rightarrow> nat \<Rightarrow> quota_engine \<Rightarrow> nat \<times> quota_engine" where
  "quota_evict_idle now idle_ms eng =
     (let cutoff = now - idle_ms;
          kept = hm_retain (\<lambda>_ c. wc_last_used c \<ge> cutoff) eng in (length eng - length kept, kept))"

definition quota_usage :: "quota_key \<Rightarrow> quota_engine \<Rightarrow> nat option" where
  "quota_usage key eng = map_option wc_used (hm_get eng key)"

section \<open>The reservation guard\<close>

record quota_reservation =
  res_key :: quota_key
  res_spec :: limit_window_spec
  res_widx :: nat
  res_est :: nat
  res_settled :: bool

definition reservation_new ::
  "quota_key \<Rightarrow> limit_window_spec \<Rightarrow> nat \<Rightarrow> nat \<Rightarrow> quota_reservation" where
  "reservation_new key spec now est =
     (let window_ms = sat_mul (window_secs spec) 1000
      in \<lparr>res_key = key, res_spec = spec,
          res_widx = (if window_ms = 0 then 0 else now div window_ms),
          res_est = est, res_settled = False\<rparr>)"

definition reservation_settle ::
  "nat \<Rightarrow> nat option \<Rightarrow> quota_reservation \<Rightarrow> quota_engine \<Rightarrow> quota_reservation \<times> quota_engine" where
  "reservation_settle now actual r eng =
     (if res_settled r then (r, eng)
      else (r\<lparr>res_settled := True\<rparr>,
            (case actual of
               Some n \<Rightarrow> quota_commit now (res_key r) (res_spec r) (res_est r) n eng
             | None \<Rightarrow> snd (quota_release now (res_widx r) (res_key r) (res_est r) 0 eng))))"

definition reservation_drop :: "nat \<Rightarrow> quota_reservation \<Rightarrow> quota_engine \<Rightarrow> quota_engine" where
  "reservation_drop now r eng =
     (if res_settled r then eng
      else snd (quota_release now (res_widx r) (res_key r) (res_est r) 0 eng))"

lemma reservation_new_widx: "res_widx (reservation_new key spec now est) = window_idx now spec"
  by (simp add: reservation_new_def window_idx_def Let_def)

lemma reservation_new_sel [simp]:
  "res_key (reservation_new key spec now est) = key"
  "res_spec (reservation_new key spec now est) = spec"
  "res_est (reservation_new key spec now est) = est"
  "res_settled (reservation_new key spec now est) = False"
  by (simp_all add: reservation_new_def Let_def)

section \<open>What a counter means in the present window\<close>

text \<open>The tokens held against a key in the window of \<open>now\<close>: a counter of another window counts 0.\<close>

definition held_used :: "nat \<Rightarrow> limit_window_spec \<Rightarrow> quota_key \<Rightarrow> quota_engine \<Rightarrow> nat" where
  "held_used now spec key eng =
     (case hm_get eng key of None \<Rightarrow> 0
      | Some c \<Rightarrow> if wc_window c = window_idx now spec then wc_used c else 0)"

definition held_est :: "nat \<Rightarrow> limit_window_spec \<Rightarrow> quota_key \<Rightarrow> quota_engine \<Rightarrow> nat" where
  "held_est now spec key eng =
     (case hm_get eng key of None \<Rightarrow> 0
      | Some c \<Rightarrow> if wc_window c = window_idx now spec then wc_est c else 0)"

definition quota_denies :: "limit_window_spec \<Rightarrow> nat \<Rightarrow> bool" where
  "quota_denies spec projected \<longleftrightarrow> (\<exists>h. hard_limit spec = Some h \<and> projected > h)"

lemma quota_denies_case:
  "(case hard_limit spec of None \<Rightarrow> False | Some h \<Rightarrow> projected > h) = quota_denies spec projected"
  by (simp add: quota_denies_def split: option.splits)

lemma reserve_decision:
  "fst (quota_reserve now key spec est eng) =
     (let projected = sat_add (held_used now spec key eng) est in
      if quota_denies spec projected then HardDeny
      else if (\<exists>s. soft_limit spec = Some s \<and> s \<le> projected) then SoftExceed else Allowed)"
  by (auto simp: quota_reserve_def held_used_def quota_denies_case Let_def fresh_counter_def
      split: option.splits)

lemma reserve_get:
  "hm_get (snd (quota_reserve now key spec est eng)) k =
     (if k = key then
        Some (let u = held_used now spec key eng; e = held_est now spec key eng;
                  deny = quota_denies spec (sat_add u est)
              in \<lparr>wc_window = window_idx now spec, wc_used = (if deny then u else sat_add u est),
                  wc_est = (if deny then e else sat_add e est), wc_last_used = now\<rparr>)
      else hm_get eng k)"
  by (auto simp: quota_reserve_def held_used_def held_est_def quota_denies_case Let_def
      fresh_counter_def hm.get_insert split: option.splits)

lemma commit_get:
  "hm_get (quota_commit now key spec est actual eng) k =
     (if k = key then
        Some (let u = held_used now spec key eng; e = held_est now spec key eng; s = min est e
              in \<lparr>wc_window = window_idx now spec,
                  wc_used = (if e = 0 \<and> u = 0 then (case hm_get eng key of None \<Rightarrow> actual | Some c \<Rightarrow>
                      if wc_window c = window_idx now spec then sat_add 0 actual else actual)
                    else sat_add (u - s) actual),
                  wc_est = e - s, wc_last_used = now\<rparr>)
      else hm_get eng k)"
  by (cases "hm_get eng key")
     (auto simp: quota_commit_def held_used_def held_est_def Let_def fresh_counter_def hm.get_insert)

lemma release_get:
  "hm_get (snd (quota_release now widx key est actual eng)) k =
     (if k = key then
        (case hm_get eng key of None \<Rightarrow> None
         | Some c \<Rightarrow> Some (if wc_window c = widx
             then c\<lparr>wc_used := wc_used c - est, wc_est := wc_est c - est, wc_last_used := now\<rparr>
             else c\<lparr>wc_last_used := now\<rparr>))
      else hm_get eng k)"
  by (auto simp: quota_release_def Let_def hm.get_insert split: option.splits)

text \<open>
  The decision of \<open>reserve\<close> and what it records: the projected total decides, a
  hard denial leaves the window's total unchanged, an admission adds the estimate, and no other
  key is touched.
\<close>

theorem quota_reserve_functional:
  "fst (quota_reserve now key spec est eng) =
     (let projected = sat_add (held_used now spec key eng) est in
      if quota_denies spec projected then HardDeny
      else if (\<exists>s. soft_limit spec = Some s \<and> s \<le> projected) then SoftExceed else Allowed)
   \<and> held_used now spec key (snd (quota_reserve now key spec est eng)) =
       (if fst (quota_reserve now key spec est eng) = HardDeny then held_used now spec key eng
        else sat_add (held_used now spec key eng) est)
   \<and> hm_get (snd (quota_reserve now key spec est eng)) =
       (hm_get eng)(key := hm_get (snd (quota_reserve now key spec est eng)) key)"
  by (simp add: reserve_decision held_used_def [of now spec key "snd _"] reserve_get Let_def
      fun_eq_iff)

text \<open>
  Settlement is idempotent: a second \<open>settle\<close> (with any arguments) and the final
  drop change neither the guard nor the engine.
\<close>

theorem reservation_settle_once:
  "reservation_settle now' actual' (fst (reservation_settle now actual r eng))
      (snd (reservation_settle now actual r eng)) = reservation_settle now actual r eng
   \<and> reservation_drop now' (fst (reservation_settle now actual r eng))
      (snd (reservation_settle now actual r eng)) = snd (reservation_settle now actual r eng)"
  by (simp add: reservation_settle_def reservation_drop_def)

section \<open>Engine and guards as a state machine\<close>

text \<open>
  The requests of one process: the engine, the live (unsettled) guards, the last clock reading
  and, as a ghost, what has been committed. \<open>spec_of\<close> is the budget configured for a key. The
  \<open>commit\<close> step is taken in the reservation's own window, or in a window in which nothing is in
  flight for the key; \<open>commit_steals_reservation\<close> below shows why. Idle eviction is taken with an
  idle time of at least one window; \<open>idle_eviction_resets_budget\<close> shows why. Totals stay below
  the \<open>u64\<close> bound.
\<close>

record quota_sys =
  qs_engine :: quota_engine
  qs_live :: "quota_reservation list"
  qs_clock :: nat
  qs_done :: "(quota_key \<times> nat \<times> nat) list"

definition live_sum :: "quota_key \<Rightarrow> nat \<Rightarrow> quota_reservation list \<Rightarrow> nat" where
  "live_sum k w rs = (\<Sum>r\<leftarrow>rs. if res_key r = k \<and> res_widx r = w then res_est r else 0)"

definition done_sum :: "quota_key \<Rightarrow> nat \<Rightarrow> (quota_key \<times> nat \<times> nat) list \<Rightarrow> nat" where
  "done_sum k w ds = (\<Sum>(k', w', n)\<leftarrow>ds. if k' = k \<and> w' = w then n else 0)"

lemma live_sum_simps [simp]:
  "live_sum k w [] = 0"
  "live_sum k w (r # rs) = (if res_key r = k \<and> res_widx r = w then res_est r else 0) + live_sum k w rs"
  "live_sum k w (xs @ ys) = live_sum k w xs + live_sum k w ys"
  by (simp_all add: live_sum_def)

lemma done_sum_simps [simp]:
  "done_sum k w [] = 0"
  "done_sum k w ((k', w', n) # ds) = (if k' = k \<and> w' = w then n else 0) + done_sum k w ds"
  by (simp_all add: done_sum_def)

inductive quota_step :: "(quota_key \<Rightarrow> limit_window_spec) \<Rightarrow> quota_sys \<Rightarrow> quota_sys \<Rightarrow> bool"
  for spec_of where
  admit: "\<lbrakk>qs_clock s \<le> now; held_used now (spec_of k) k (qs_engine s) + est \<le> u64_max;
     quota_reserve now k (spec_of k) est (qs_engine s) = (d, eng); d \<noteq> HardDeny\<rbrakk> \<Longrightarrow>
   quota_step spec_of s
     (s\<lparr>qs_engine := eng, qs_clock := now,
        qs_live := reservation_new k (spec_of k) now est # qs_live s\<rparr>)"
| deny: "\<lbrakk>qs_clock s \<le> now; quota_reserve now k (spec_of k) est (qs_engine s) = (HardDeny, eng)\<rbrakk> \<Longrightarrow>
   quota_step spec_of s (s\<lparr>qs_engine := eng, qs_clock := now\<rparr>)"
| commit: "\<lbrakk>qs_clock s \<le> now; qs_live s = l @ r # q;
     res_widx r = window_idx now (res_spec r) \<or> held_est now (res_spec r) (res_key r) (qs_engine s) = 0;
     held_used now (res_spec r) (res_key r) (qs_engine s) + actual \<le> u64_max;
     reservation_settle now (Some actual) r (qs_engine s) = (r', eng)\<rbrakk> \<Longrightarrow>
   quota_step spec_of s
     (s\<lparr>qs_engine := eng, qs_clock := now, qs_live := l @ q,
        qs_done := (res_key r, window_idx now (res_spec r), actual) # qs_done s\<rparr>)"
| abort: "\<lbrakk>qs_clock s \<le> now; qs_live s = l @ r # q;
     reservation_settle now None r (qs_engine s) = (r', eng)\<rbrakk> \<Longrightarrow>
   quota_step spec_of s (s\<lparr>qs_engine := eng, qs_clock := now, qs_live := l @ q\<rparr>)"
| dropped: "\<lbrakk>qs_clock s \<le> now; qs_live s = l @ r # q\<rbrakk> \<Longrightarrow>
   quota_step spec_of s
     (s\<lparr>qs_engine := reservation_drop now r (qs_engine s), qs_clock := now, qs_live := l @ q\<rparr>)"
| evict: "\<lbrakk>qs_clock s \<le> now;
     \<And>k. 0 < sat_mul (window_secs (spec_of k)) 1000 \<and> sat_mul (window_secs (spec_of k)) 1000 \<le> idle_ms\<rbrakk> \<Longrightarrow>
   quota_step spec_of s
     (s\<lparr>qs_engine := snd (quota_evict_idle now idle_ms (qs_engine s)), qs_clock := now\<rparr>)"
| gc: "\<lbrakk>qs_clock s \<le> now; \<And>k. current \<le> window_idx now (spec_of k)\<rbrakk> \<Longrightarrow>
   quota_step spec_of s
     (s\<lparr>qs_engine := snd (quota_gc_stale current (qs_engine s)), qs_clock := now\<rparr>)"

definition quota_init :: quota_sys where
  "quota_init = \<lparr>qs_engine = [], qs_live = [], qs_clock = 0, qs_done = []\<rparr>"

text \<open>The invariant, for a clock reading \<open>t\<close>, in four parts.\<close>

definition live_ok ::
  "(quota_key \<Rightarrow> limit_window_spec) \<Rightarrow> nat \<Rightarrow> quota_reservation \<Rightarrow> bool" where
  "live_ok spec_of t r \<longleftrightarrow> \<not> res_settled r \<and> res_spec r = spec_of (res_key r) \<and>
     res_widx r \<le> window_idx t (spec_of (res_key r))"

definition done_ok ::
  "(quota_key \<Rightarrow> limit_window_spec) \<Rightarrow> nat \<Rightarrow> quota_key \<times> nat \<times> nat \<Rightarrow> bool" where
  "done_ok spec_of t d \<longleftrightarrow> fst (snd d) \<le> window_idx t (spec_of (fst d))"

definition counter_ok :: "limit_window_spec \<Rightarrow> nat \<Rightarrow> window_counter option \<Rightarrow> bool" where
  "counter_ok spec t oc \<longleftrightarrow>
     (\<forall>c. oc = Some c \<longrightarrow> wc_last_used c \<le> t \<and> wc_window c \<le> window_idx (wc_last_used c) spec)"

definition ledger_exact :: "limit_window_spec \<Rightarrow> nat \<Rightarrow> quota_engine \<Rightarrow> quota_reservation list \<Rightarrow>
    (quota_key \<times> nat \<times> nat) list \<Rightarrow> quota_key \<Rightarrow> bool" where
  "ledger_exact spec t eng live done k \<longleftrightarrow>
     held_est t spec k eng = live_sum k (window_idx t spec) live \<and>
     held_used t spec k eng =
       live_sum k (window_idx t spec) live + done_sum k (window_idx t spec) done"

definition quota_inv :: "(quota_key \<Rightarrow> limit_window_spec) \<Rightarrow> quota_sys \<Rightarrow> bool" where
  "quota_inv spec_of s \<longleftrightarrow> hm_wf (qs_engine s) \<and>
     (\<forall>r \<in> set (qs_live s). live_ok spec_of (qs_clock s) r) \<and>
     (\<forall>d \<in> set (qs_done s). done_ok spec_of (qs_clock s) d) \<and>
     (\<forall>k. counter_ok (spec_of k) (qs_clock s) (hm_get (qs_engine s) k) \<and>
          ledger_exact (spec_of k) (qs_clock s) (qs_engine s) (qs_live s) (qs_done s) k)"

lemma window_idx_mono: "a \<le> b \<Longrightarrow> window_idx a spec \<le> window_idx b spec"
  by (simp add: window_idx_def Let_def div_le_mono)

lemma live_sum_0: "\<forall>r \<in> set rs. res_key r = k \<longrightarrow> res_widx r < w \<Longrightarrow> live_sum k w rs = 0"
  by (induction rs) auto

lemma done_sum_0: "\<forall>(k', w', n) \<in> set ds. k' = k \<longrightarrow> w' < w \<Longrightarrow> done_sum k w ds = 0"
  by (induction ds) auto

lemma counter_ok_mono: "counter_ok spec t oc \<Longrightarrow> t \<le> t' \<Longrightarrow> counter_ok spec t' oc"
  by (auto simp: counter_ok_def)

lemma counter_ok_window:
  "counter_ok spec t (Some c) \<Longrightarrow> wc_window c \<le> window_idx t spec"
  using window_idx_mono [of "wc_last_used c" t spec] by (auto simp: counter_ok_def)

text \<open>Time passing alone keeps the invariant: a later window starts empty.\<close>

lemma ledger_exact_tick:
  assumes "ledger_exact spec t eng live done k" and "t \<le> t'" and "counter_ok spec t (hm_get eng k)"
    and "\<forall>r \<in> set live. res_key r = k \<longrightarrow> res_widx r \<le> window_idx t spec"
    and "\<forall>d \<in> set done. fst d = k \<longrightarrow> fst (snd d) \<le> window_idx t spec"
  shows "ledger_exact spec t' eng live done k"
proof (cases "window_idx t' spec = window_idx t spec")
  case True
  show ?thesis using assms(1) unfolding ledger_exact_def held_est_def held_used_def True .
next
  case False
  then have lt: "window_idx t spec < window_idx t' spec"
    using window_idx_mono [OF assms(2), of spec] by simp
  have "live_sum k (window_idx t' spec) live = 0"
    using assms(4) lt by (intro live_sum_0) auto
  moreover have "done_sum k (window_idx t' spec) done = 0"
    using assms(5) lt by (intro done_sum_0) auto
  moreover have "wc_window c < window_idx t' spec" if "hm_get eng k = Some c" for c
    using counter_ok_window [of spec t c] assms(3) lt that by simp
  ultimately show ?thesis
    by (auto simp: ledger_exact_def held_est_def held_used_def split: option.splits)
qed

lemma quota_inv_tick:
  assumes inv: "quota_inv spec_of s" and now: "qs_clock s \<le> now"
  shows "quota_inv spec_of (s\<lparr>qs_clock := now\<rparr>)"
proof -
  have mono: "window_idx (qs_clock s) (spec_of k) \<le> window_idx now (spec_of k)" for k
    using now by (rule window_idx_mono)
  have "ledger_exact (spec_of k) now (qs_engine s) (qs_live s) (qs_done s) k" for k
  proof (rule ledger_exact_tick [OF _ now])
    show "ledger_exact (spec_of k) (qs_clock s) (qs_engine s) (qs_live s) (qs_done s) k"
      and "counter_ok (spec_of k) (qs_clock s) (hm_get (qs_engine s) k)"
      using inv unfolding quota_inv_def by blast+
    show "\<forall>r \<in> set (qs_live s). res_key r = k \<longrightarrow> res_widx r \<le> window_idx (qs_clock s) (spec_of k)"
      using inv by (auto simp: quota_inv_def live_ok_def)
    show "\<forall>d \<in> set (qs_done s). fst d = k \<longrightarrow> fst (snd d) \<le> window_idx (qs_clock s) (spec_of k)"
      using inv by (force simp: quota_inv_def done_ok_def)
  qed
  moreover have "live_ok spec_of now r" if "live_ok spec_of (qs_clock s) r" for r
    using that mono [of "res_key r"] by (auto simp: live_ok_def)
  moreover have "done_ok spec_of now d" if "done_ok spec_of (qs_clock s) d" for d
    using that mono [of "fst d"] by (auto simp: done_ok_def)
  moreover have "counter_ok (spec_of k) now (hm_get (qs_engine s) k)" for k
    using inv counter_ok_mono [OF _ now] unfolding quota_inv_def by blast
  ultimately show ?thesis using inv unfolding quota_inv_def by simp
qed

text \<open>Each operation at the clock reading of the state, on the key it touches.\<close>

lemma ledger_exact_other:
  assumes "ledger_exact spec t eng live done k" and "hm_get eng' k = hm_get eng k"
    and "\<And>w. live_sum k w live' = live_sum k w live" and "\<And>w. done_sum k w done' = done_sum k w done"
  shows "ledger_exact spec t eng' live' done' k"
  using assms by (simp add: ledger_exact_def held_est_def held_used_def)

lemma ledger_reserve:
  assumes "ledger_exact spec t eng live done k" and "held_used t spec k eng + est \<le> u64_max"
    and "fst (quota_reserve t k spec est eng) \<noteq> HardDeny"
  shows "ledger_exact spec t (snd (quota_reserve t k spec est eng))
    (reservation_new k spec t est # live) done k"
proof -
  have "\<not> quota_denies spec (sat_add (held_used t spec k eng) est)"
    using assms(3) by (auto simp: reserve_decision Let_def)
  then show ?thesis using assms(1,2)
    by (simp add: ledger_exact_def held_est_def [of t spec k "snd _"]
        held_used_def [of t spec k "snd _"] reserve_get Let_def sat_add_def reservation_new_widx)
qed

lemma ledger_deny:
  assumes "ledger_exact spec t eng live done k" and "fst (quota_reserve t k spec est eng) = HardDeny"
  shows "ledger_exact spec t (snd (quota_reserve t k spec est eng)) live done k"
proof -
  have "quota_denies spec (sat_add (held_used t spec k eng) est)"
    using assms(2) by (auto simp: reserve_decision Let_def split: if_splits)
  then show ?thesis using assms(1)
    by (simp add: ledger_exact_def held_est_def [of t spec k "snd _"]
        held_used_def [of t spec k "snd _"] reserve_get Let_def)
qed

lemma ledger_commit:
  assumes ex: "ledger_exact spec t eng live done (res_key r)" and live: "live = l @ r # q"
    and win: "res_widx r = window_idx t spec \<or> held_est t spec (res_key r) eng = 0"
    and ov: "held_used t spec (res_key r) eng + actual \<le> u64_max"
  shows "ledger_exact spec t (quota_commit t (res_key r) spec (res_est r) actual eng) (l @ q)
    ((res_key r, window_idx t spec, actual) # done) (res_key r)"
proof -
  let ?k = "res_key r" and ?w = "window_idx t spec"
  let ?e = "held_est t spec ?k eng" and ?u = "held_used t spec ?k eng"
  let ?s = "min (res_est r) ?e"
  have e: "?e = live_sum ?k ?w live" and u: "?u = live_sum ?k ?w live + done_sum ?k ?w done"
    using ex by (simp_all add: ledger_exact_def)
  have s: "?s = (if res_widx r = ?w then res_est r else 0)"
    and rest: "live_sum ?k ?w (l @ q) = ?e - ?s" and le: "?s \<le> ?e" "?e \<le> ?u"
    using e u live win by (auto split: if_splits)
  have act: "sat_add (?u - ?s) actual = ?u - ?s + actual" "sat_add 0 actual = actual"
    using ov by (simp_all add: sat_add_def)
  have "held_est t spec ?k (quota_commit t ?k spec (res_est r) actual eng) = ?e - ?s"
    by (simp add: held_est_def [of t spec ?k "quota_commit _ _ _ _ _ _"] commit_get Let_def)
  moreover have "held_used t spec ?k (quota_commit t ?k spec (res_est r) actual eng) = ?u - ?s + actual"
    using act by (auto simp: held_used_def [of t spec ?k "quota_commit _ _ _ _ _ _"] commit_get
        Let_def split: option.splits)
  moreover have "?u - ?s + actual = live_sum ?k ?w (l @ q) + (actual + done_sum ?k ?w done)"
    using rest le e u by linarith
  ultimately show ?thesis unfolding ledger_exact_def using rest by simp
qed

lemma ledger_release:
  assumes ex: "ledger_exact spec t eng live done (res_key r)" and live: "live = l @ r # q"
  shows "ledger_exact spec t (snd (quota_release t (res_widx r) (res_key r) (res_est r) 0 eng))
    (l @ q) done (res_key r)"
proof (cases "hm_get eng (res_key r)")
  case None
  then show ?thesis using ex live
    by (auto simp: ledger_exact_def held_est_def held_used_def release_get split: if_splits)
next
  case (Some c)
  then show ?thesis using ex live
    by (auto simp: ledger_exact_def held_est_def held_used_def release_get split: if_splits)
qed

text \<open>Removing a counter of a past window loses nothing.\<close>

lemma ledger_exact_retain:
  assumes "hm_wf eng" and "ledger_exact spec t eng live done k"
    and "\<And>c. hm_get eng k = Some c \<Longrightarrow> \<not> P k c \<Longrightarrow> wc_window c \<noteq> window_idx t spec"
  shows "ledger_exact spec t (hm_retain P eng) live done k"
  using assms by (auto simp: ledger_exact_def held_est_def held_used_def hm.get_retain
      split: option.splits if_splits)

lemma evict_past_window:
  assumes "counter_ok spec t (Some c)" and "wc_last_used c < t - idle_ms"
    and "0 < sat_mul (window_secs spec) 1000" and "sat_mul (window_secs spec) 1000 \<le> idle_ms"
  shows "wc_window c < window_idx t spec"
proof -
  let ?W = "sat_mul (window_secs spec) 1000"
  have "wc_last_used c + ?W \<le> t" using assms(2,4) by linarith
  then have "(wc_last_used c + ?W) div ?W \<le> t div ?W" by (rule div_le_mono)
  moreover have "(wc_last_used c + ?W) div ?W = Suc (wc_last_used c div ?W)"
    using assms(3) div_add_self2 [of ?W "wc_last_used c"] by linarith
  ultimately have "Suc (wc_last_used c div ?W) \<le> t div ?W" by linarith
  moreover have "wc_window c \<le> wc_last_used c div ?W"
    using assms(1,3) by (simp add: counter_ok_def window_idx_def)
  ultimately show ?thesis using assms(3) by (simp add: window_idx_def)
qed

lemma counter_ok_retain:
  "hm_wf eng \<Longrightarrow> counter_ok spec t (hm_get eng k) \<Longrightarrow> counter_ok spec t (hm_get (hm_retain P eng) k)"
  by (auto simp: counter_ok_def hm.get_retain split: option.splits if_splits)

lemma counter_ok_reserve:
  "counter_ok spec t (hm_get (snd (quota_reserve t key spec est eng)) key)"
  by (simp add: counter_ok_def reserve_get Let_def)

lemma counter_ok_commit: "counter_ok spec t (hm_get (quota_commit t key spec est n eng) key)"
  by (simp add: counter_ok_def commit_get Let_def)

lemma counter_ok_release:
  assumes "counter_ok spec t (hm_get eng key)"
  shows "counter_ok spec t (hm_get (snd (quota_release t w key est n eng)) key)"
proof (cases "hm_get eng key")
  case None
  then show ?thesis by (simp add: counter_ok_def release_get)
next
  case (Some c)
  then show ?thesis using counter_ok_window [of spec t c] assms
    by (simp add: counter_ok_def release_get)
qed

lemma quota_inv_at:
  "quota_inv spec_of s \<Longrightarrow> counter_ok (spec_of k) (qs_clock s) (hm_get (qs_engine s) k)"
  "quota_inv spec_of s \<Longrightarrow>
   ledger_exact (spec_of k) (qs_clock s) (qs_engine s) (qs_live s) (qs_done s) k"
  "quota_inv spec_of s \<Longrightarrow> hm_wf (qs_engine s)"
  "quota_inv spec_of s \<Longrightarrow> r \<in> set (qs_live s) \<Longrightarrow> live_ok spec_of (qs_clock s) r"
  "quota_inv spec_of s \<Longrightarrow> d \<in> set (qs_done s) \<Longrightarrow> done_ok spec_of (qs_clock s) d"
  unfolding quota_inv_def by blast+

lemma wf_ops:
  "hm_wf eng \<Longrightarrow> hm_wf (snd (quota_reserve t key spec est eng))"
  "hm_wf eng \<Longrightarrow> hm_wf (quota_commit t key spec est n eng)"
  "hm_wf eng \<Longrightarrow> hm_wf (snd (quota_release t w key est n eng))"
  by (auto simp: quota_reserve_def quota_commit_def quota_release_def Let_def hm.wf_insert
      split: option.splits)

lemma quota_inv_intro:
  assumes inv: "quota_inv spec_of (s\<lparr>qs_clock := t\<rparr>)" and wf: "hm_wf eng"
    and live: "\<forall>r \<in> set live. live_ok spec_of t r" and dn: "\<forall>d \<in> set done. done_ok spec_of t d"
    and key: "counter_ok (spec_of key) t (hm_get eng key)" "ledger_exact (spec_of key) t eng live done key"
    and other: "\<And>k. k \<noteq> key \<Longrightarrow> hm_get eng k = hm_get (qs_engine s) k"
      "\<And>k w. k \<noteq> key \<Longrightarrow> live_sum k w live = live_sum k w (qs_live s)"
      "\<And>k w. k \<noteq> key \<Longrightarrow> done_sum k w done = done_sum k w (qs_done s)"
  shows "quota_inv spec_of (s\<lparr>qs_engine := eng, qs_clock := t, qs_live := live, qs_done := done\<rparr>)"
proof -
  have "counter_ok (spec_of k) t (hm_get eng k) \<and> ledger_exact (spec_of k) t eng live done k" for k
  proof (cases "k = key")
    case True
    then show ?thesis using key by simp
  next
    case False
    have ok: "counter_ok (spec_of k) t (hm_get (qs_engine s) k)"
      and ex: "ledger_exact (spec_of k) t (qs_engine s) (qs_live s) (qs_done s) k"
      using quota_inv_at(1,2) [OF inv, of k] by simp_all
    show ?thesis using ok ledger_exact_other [OF ex other [OF False]] other(1) [OF False] by simp
  qed
  then show ?thesis using wf live dn unfolding quota_inv_def by simp
qed

lemma quota_release_preserves:
  assumes inv: "quota_inv spec_of (s\<lparr>qs_clock := t\<rparr>)" and live: "qs_live s = l @ r # q"
  shows "quota_inv spec_of (s\<lparr>
    qs_engine := snd (quota_release t (res_widx r) (res_key r) (res_est r) 0 (qs_engine s)),
    qs_clock := t, qs_live := l @ q\<rparr>)" (is "quota_inv _ (s\<lparr>qs_engine := ?eng, qs_clock := _, qs_live := _\<rparr>)")
proof -
  have "quota_inv spec_of (s\<lparr>qs_engine := ?eng, qs_clock := t, qs_live := l @ q, qs_done := qs_done s\<rparr>)"
  proof (rule quota_inv_intro [OF inv, where key = "res_key r"])
    show "hm_wf ?eng" using quota_inv_at(3) [OF inv] by (simp add: wf_ops)
    show "\<forall>r \<in> set (l @ q). live_ok spec_of t r" using quota_inv_at(4) [OF inv] live by simp
    show "\<forall>d \<in> set (qs_done s). done_ok spec_of t d" using quota_inv_at(5) [OF inv] by simp
    show "counter_ok (spec_of (res_key r)) t (hm_get ?eng (res_key r))"
      using quota_inv_at(1) [OF inv, of "res_key r"] by (simp add: counter_ok_release)
    show "ledger_exact (spec_of (res_key r)) t ?eng (l @ q) (qs_done s) (res_key r)"
      using quota_inv_at(2) [OF inv, of "res_key r"] live by (intro ledger_release) simp_all
  qed (use live in \<open>auto simp: release_get\<close>)
  then show ?thesis by simp
qed

lemma quota_retain_preserves:
  assumes inv: "quota_inv spec_of (s\<lparr>qs_clock := t\<rparr>)"
    and past: "\<And>k c. counter_ok (spec_of k) t (Some c) \<Longrightarrow> \<not> P k c \<Longrightarrow>
      wc_window c < window_idx t (spec_of k)"
  shows "quota_inv spec_of (s\<lparr>qs_engine := hm_retain P (qs_engine s), qs_clock := t\<rparr>)"
proof -
  have wf: "hm_wf (qs_engine s)" using quota_inv_at(3) [OF inv] by simp
  have "counter_ok (spec_of k) t (hm_get (hm_retain P (qs_engine s)) k)" for k
    using quota_inv_at(1) [OF inv, of k] by (simp add: counter_ok_retain wf)
  moreover have "ledger_exact (spec_of k) t (hm_retain P (qs_engine s)) (qs_live s) (qs_done s) k" for k
  proof (rule ledger_exact_retain [OF wf])
    show "ledger_exact (spec_of k) t (qs_engine s) (qs_live s) (qs_done s) k"
      using quota_inv_at(2) [OF inv, of k] by simp
    show "wc_window c \<noteq> window_idx t (spec_of k)"
      if "hm_get (qs_engine s) k = Some c" "\<not> P k c" for c
      using past [of k c] quota_inv_at(1) [OF inv, of k] that by simp
  qed
  ultimately show ?thesis
    using quota_inv_at(4,5) [OF inv] wf unfolding quota_inv_def by (simp add: hm.wf_retain)
qed

text \<open>One lemma per operation; a step moves the clock on and applies one of them.\<close>

lemma quota_admit_preserves:
  assumes inv0: "quota_inv spec_of s" and now: "qs_clock s \<le> now"
    and room: "held_used now (spec_of k) k (qs_engine s) + est \<le> u64_max"
    and res: "quota_reserve now k (spec_of k) est (qs_engine s) = (d, eng)" "d \<noteq> HardDeny"
  shows "quota_inv spec_of (s\<lparr>qs_engine := eng, qs_clock := now,
    qs_live := reservation_new k (spec_of k) now est # qs_live s\<rparr>)"
proof -
  let ?r = "reservation_new k (spec_of k) now est"
  note inv = quota_inv_tick [OF inv0 now]
  have eng: "eng = snd (quota_reserve now k (spec_of k) est (qs_engine s))"
    and d: "fst (quota_reserve now k (spec_of k) est (qs_engine s)) \<noteq> HardDeny"
    using res by simp_all
  have "quota_inv spec_of (s\<lparr>qs_engine := eng, qs_clock := now, qs_live := ?r # qs_live s, qs_done := qs_done s\<rparr>)"
  proof (rule quota_inv_intro [OF inv, where key = k])
    show "hm_wf eng" unfolding eng using quota_inv_at(3) [OF inv0] by (rule wf_ops)
    show "\<forall>r \<in> set (?r # qs_live s). live_ok spec_of now r"
      using quota_inv_at(4) [OF inv] by (auto simp: live_ok_def reservation_new_widx)
    show "\<forall>d \<in> set (qs_done s). done_ok spec_of now d" using quota_inv_at(5) [OF inv] by simp
    show "counter_ok (spec_of k) now (hm_get eng k)" unfolding eng by (rule counter_ok_reserve)
    show "ledger_exact (spec_of k) now eng (?r # qs_live s) (qs_done s) k"
      unfolding eng using quota_inv_at(2) [OF inv, of k] room d by (intro ledger_reserve) simp_all
  qed (simp_all add: eng reserve_get)
  then show ?thesis by simp
qed

lemma quota_deny_preserves:
  assumes inv0: "quota_inv spec_of s" and now: "qs_clock s \<le> now"
    and res: "quota_reserve now k (spec_of k) est (qs_engine s) = (HardDeny, eng)"
  shows "quota_inv spec_of (s\<lparr>qs_engine := eng, qs_clock := now\<rparr>)"
proof -
  note inv = quota_inv_tick [OF inv0 now]
  have eng: "eng = snd (quota_reserve now k (spec_of k) est (qs_engine s))"
    and d: "fst (quota_reserve now k (spec_of k) est (qs_engine s)) = HardDeny"
    using res by simp_all
  have "quota_inv spec_of (s\<lparr>qs_engine := eng, qs_clock := now, qs_live := qs_live s, qs_done := qs_done s\<rparr>)"
  proof (rule quota_inv_intro [OF inv, where key = k])
    show "hm_wf eng" unfolding eng using quota_inv_at(3) [OF inv0] by (rule wf_ops)
    show "\<forall>r \<in> set (qs_live s). live_ok spec_of now r" using quota_inv_at(4) [OF inv] by simp
    show "\<forall>d \<in> set (qs_done s). done_ok spec_of now d" using quota_inv_at(5) [OF inv] by simp
    show "counter_ok (spec_of k) now (hm_get eng k)" unfolding eng by (rule counter_ok_reserve)
    show "ledger_exact (spec_of k) now eng (qs_live s) (qs_done s) k"
      unfolding eng using quota_inv_at(2) [OF inv, of k] d by (intro ledger_deny) simp_all
  qed (simp_all add: eng reserve_get)
  then show ?thesis by simp
qed

lemma quota_commit_preserves:
  assumes inv0: "quota_inv spec_of s" and now: "qs_clock s \<le> now" and live: "qs_live s = l @ r # q"
    and window: "res_widx r = window_idx now (res_spec r) \<or> held_est now (res_spec r) (res_key r) (qs_engine s) = 0"
    and room: "held_used now (res_spec r) (res_key r) (qs_engine s) + actual \<le> u64_max"
    and settle: "reservation_settle now (Some actual) r (qs_engine s) = (r', eng)"
  shows "quota_inv spec_of (s\<lparr>qs_engine := eng, qs_clock := now, qs_live := l @ q,
    qs_done := (res_key r, window_idx now (res_spec r), actual) # qs_done s\<rparr>)"
proof -
  let ?done = "(res_key r, window_idx now (spec_of (res_key r)), actual) # qs_done s"
  note inv = quota_inv_tick [OF inv0 now]
  have r: "\<not> res_settled r" "res_spec r = spec_of (res_key r)"
    using quota_inv_at(4) [OF inv0, of r] live by (simp_all add: live_ok_def)
  have eng: "eng = quota_commit now (res_key r) (spec_of (res_key r)) (res_est r) actual (qs_engine s)"
    using settle r by (simp add: reservation_settle_def)
  have "quota_inv spec_of (s\<lparr>qs_engine := eng, qs_clock := now, qs_live := l @ q, qs_done := ?done\<rparr>)"
  proof (rule quota_inv_intro [OF inv, where key = "res_key r"])
    show "hm_wf eng" unfolding eng using quota_inv_at(3) [OF inv0] by (rule wf_ops)
    show "\<forall>r \<in> set (l @ q). live_ok spec_of now r" using quota_inv_at(4) [OF inv] live by simp
    show "\<forall>d \<in> set ?done. done_ok spec_of now d" using quota_inv_at(5) [OF inv] by (auto simp: done_ok_def)
    show "counter_ok (spec_of (res_key r)) now (hm_get eng (res_key r))"
      unfolding eng by (rule counter_ok_commit)
    show "ledger_exact (spec_of (res_key r)) now eng (l @ q) ?done (res_key r)"
      unfolding eng using quota_inv_at(2) [OF inv, of "res_key r"] live window room r
      by (intro ledger_commit) simp_all
  qed (use live in \<open>auto simp: eng commit_get\<close>)
  then show ?thesis using r by simp
qed

lemma quota_step_preserves:
  assumes step: "quota_step spec_of s s'" and inv0: "quota_inv spec_of s"
  shows "quota_inv spec_of s'"
  using step
proof cases
  case (admit now k est d eng)
  show ?thesis unfolding admit(1) by (rule quota_admit_preserves [OF inv0 admit(2-5)])
next
  case (deny now k est eng)
  show ?thesis unfolding deny(1) by (rule quota_deny_preserves [OF inv0 deny(2,3)])
next
  case (commit now l r q actual r' eng)
  show ?thesis unfolding commit(1) by (rule quota_commit_preserves [OF inv0 commit(2-6)])
next
  case (abort now l r q r' eng)
  note inv = quota_inv_tick [OF inv0 abort(2)]
  have r: "\<not> res_settled r" using quota_inv_at(4) [OF inv0, of r] abort(3) by (simp add: live_ok_def)
  have eng: "eng = snd (quota_release now (res_widx r) (res_key r) (res_est r) 0 (qs_engine s))"
    using abort(4) r by (simp add: reservation_settle_def)
  show ?thesis using quota_release_preserves [OF inv abort(3)] abort(1) by (simp add: eng)
next
  case (dropped now l r q)
  note inv = quota_inv_tick [OF inv0 dropped(2)]
  have "\<not> res_settled r" using quota_inv_at(4) [OF inv0, of r] dropped(3) by (simp add: live_ok_def)
  then show ?thesis using quota_release_preserves [OF inv dropped(3)] dropped(1)
    by (simp add: reservation_drop_def)
next
  case (evict now idle_ms)
  note inv = quota_inv_tick [OF inv0 evict(2)]
  show ?thesis unfolding evict(1) quota_evict_idle_def Let_def snd_conv
  proof (rule quota_retain_preserves [OF inv])
    show "wc_window c < window_idx now (spec_of k)"
      if "counter_ok (spec_of k) now (Some c)" "\<not> now - idle_ms \<le> wc_last_used c" for k c
      using evict_past_window [OF that(1) _ evict(3) [THEN conjunct1] evict(3) [THEN conjunct2]] that(2)
      by (simp add: not_le)
  qed
next
  case (gc now current)
  note inv = quota_inv_tick [OF inv0 gc(2)]
  show ?thesis unfolding gc(1) quota_gc_stale_def Let_def snd_conv
    using gc(3) by (intro quota_retain_preserves [OF inv]) (auto simp: not_le intro: less_le_trans)
qed

text \<open>The specification of the engine: a ledger of committed and outstanding tokens per window.\<close>

lemma quota_inv_init: "quota_inv spec_of quota_init"
  by (simp add: quota_inv_def quota_init_def hm.wf_empty counter_ok_def ledger_exact_def
      held_est_def held_used_def hm.get_empty)

lemma quota_reachable_inv: "(quota_step spec_of)\<^sup>*\<^sup>* quota_init s \<Longrightarrow> quota_inv spec_of s"
  by (induction rule: rtranclp_induct) (auto intro: quota_inv_init quota_step_preserves)

section \<open>Without the restrictions\<close>

text \<open>
  The same process with no restriction on its steps: a reservation may be committed in any later
  window, whatever else is in flight there, idle eviction and the collection of stale counters may use
  any bound, and the totals saturate.
\<close>

inductive quota_any_step :: "(quota_key \<Rightarrow> limit_window_spec) \<Rightarrow> quota_sys \<Rightarrow> quota_sys \<Rightarrow> bool"
  for spec_of where
  any_reserve: "\<lbrakk>qs_clock s \<le> now; quota_reserve now k (spec_of k) est (qs_engine s) = (d, eng)\<rbrakk> \<Longrightarrow>
   quota_any_step spec_of s
     (s\<lparr>qs_engine := eng, qs_clock := now,
        qs_live := (if d = HardDeny then qs_live s else reservation_new k (spec_of k) now est # qs_live s)\<rparr>)"
| any_settle: "\<lbrakk>qs_clock s \<le> now; qs_live s = l @ r # q; reservation_settle now actual r (qs_engine s) = (r', eng)\<rbrakk> \<Longrightarrow>
   quota_any_step spec_of s
     (s\<lparr>qs_engine := eng, qs_clock := now, qs_live := l @ q,
        qs_done := (case actual of Some n \<Rightarrow> (res_key r, window_idx now (res_spec r), n) # qs_done s | None \<Rightarrow> qs_done s)\<rparr>)"
| any_drop: "\<lbrakk>qs_clock s \<le> now; qs_live s = l @ r # q\<rbrakk> \<Longrightarrow>
   quota_any_step spec_of s
     (s\<lparr>qs_engine := reservation_drop now r (qs_engine s), qs_clock := now, qs_live := l @ q\<rparr>)"
| any_evict: "qs_clock s \<le> now \<Longrightarrow>
   quota_any_step spec_of s
     (s\<lparr>qs_engine := snd (quota_evict_idle now idle_ms (qs_engine s)), qs_clock := now\<rparr>)"
| any_gc: "qs_clock s \<le> now \<Longrightarrow>
   quota_any_step spec_of s
     (s\<lparr>qs_engine := snd (quota_gc_stale current (qs_engine s)), qs_clock := now\<rparr>)"

definition ledger_bounded :: "limit_window_spec \<Rightarrow> nat \<Rightarrow> quota_engine \<Rightarrow> quota_reservation list \<Rightarrow>
    (quota_key \<times> nat \<times> nat) list \<Rightarrow> quota_key \<Rightarrow> bool" where
  "ledger_bounded spec t eng live done k \<longleftrightarrow>
     held_est t spec k eng \<le> live_sum k (window_idx t spec) live \<and>
     held_used t spec k eng \<le> held_est t spec k eng + done_sum k (window_idx t spec) done"

definition any_inv :: "(quota_key \<Rightarrow> limit_window_spec) \<Rightarrow> quota_sys \<Rightarrow> bool" where
  "any_inv spec_of s \<longleftrightarrow> hm_wf (qs_engine s) \<and>
     (\<forall>r \<in> set (qs_live s). \<not> res_settled r \<and> res_spec r = spec_of (res_key r)) \<and>
     (\<forall>k. counter_ok (spec_of k) (qs_clock s) (hm_get (qs_engine s) k) \<and>
          ledger_bounded (spec_of k) (qs_clock s) (qs_engine s) (qs_live s) (qs_done s) k)"

lemma any_inv_at:
  "any_inv spec_of s \<Longrightarrow> counter_ok (spec_of k) (qs_clock s) (hm_get (qs_engine s) k)"
  "any_inv spec_of s \<Longrightarrow> ledger_bounded (spec_of k) (qs_clock s) (qs_engine s) (qs_live s) (qs_done s) k"
  "any_inv spec_of s \<Longrightarrow> hm_wf (qs_engine s)"
  "any_inv spec_of s \<Longrightarrow> r \<in> set (qs_live s) \<Longrightarrow> \<not> res_settled r \<and> res_spec r = spec_of (res_key r)"
  unfolding any_inv_def by blast+

lemma any_inv_tick:
  assumes inv: "any_inv spec_of s" and now: "qs_clock s \<le> now"
  shows "any_inv spec_of (s\<lparr>qs_clock := now\<rparr>)"
proof -
  have "ledger_bounded (spec_of k) now (qs_engine s) (qs_live s) (qs_done s) k" for k
  proof (cases "window_idx now (spec_of k) = window_idx (qs_clock s) (spec_of k)")
    case True
    show ?thesis using any_inv_at(2) [OF inv, of k]
      unfolding ledger_bounded_def held_est_def held_used_def True .
  next
    case False
    then have lt: "window_idx (qs_clock s) (spec_of k) < window_idx now (spec_of k)"
      using window_idx_mono [OF now, of "spec_of k"] by simp
    have "wc_window c < window_idx now (spec_of k)" if "hm_get (qs_engine s) k = Some c" for c
      using any_inv_at(1) [OF inv, of k] counter_ok_window [of "spec_of k" "qs_clock s" c] that lt by simp
    then show ?thesis by (auto simp: ledger_bounded_def held_est_def held_used_def split: option.splits)
  qed
  moreover have "counter_ok (spec_of k) now (hm_get (qs_engine s) k)" for k
    using any_inv_at(1) [OF inv] counter_ok_mono [OF _ now] by blast
  ultimately show ?thesis using any_inv_at(3,4) [OF inv] unfolding any_inv_def by simp
qed

lemma any_inv_intro:
  assumes inv: "any_inv spec_of (s\<lparr>qs_clock := t\<rparr>)" and wf: "hm_wf eng"
    and live: "\<forall>r \<in> set live. \<not> res_settled r \<and> res_spec r = spec_of (res_key r)"
    and key: "counter_ok (spec_of key) t (hm_get eng key)" "ledger_bounded (spec_of key) t eng live done key"
    and other: "\<And>k. k \<noteq> key \<Longrightarrow> hm_get eng k = hm_get (qs_engine s) k"
      "\<And>k w. k \<noteq> key \<Longrightarrow> live_sum k w live = live_sum k w (qs_live s)"
      "\<And>k w. k \<noteq> key \<Longrightarrow> done_sum k w done = done_sum k w (qs_done s)"
  shows "any_inv spec_of (s\<lparr>qs_engine := eng, qs_clock := t, qs_live := live, qs_done := done\<rparr>)"
proof -
  have "counter_ok (spec_of k) t (hm_get eng k) \<and> ledger_bounded (spec_of k) t eng live done k" for k
    using key any_inv_at(1,2) [OF inv, of k] other [of k]
    by (cases "k = key") (simp_all add: ledger_bounded_def held_est_def held_used_def)
  then show ?thesis using wf live unfolding any_inv_def by simp
qed

lemma bounded_reserve:
  assumes "ledger_bounded spec t eng live done k"
  shows "ledger_bounded spec t (snd (quota_reserve t k spec est eng))
    (if fst (quota_reserve t k spec est eng) = HardDeny then live else reservation_new k spec t est # live) done k"
  using assms
  by (auto simp: ledger_bounded_def held_est_def [of t spec k "snd _"] held_used_def [of t spec k "snd _"] reserve_get
      reserve_decision Let_def sat_add_def reservation_new_widx)

lemma bounded_commit:
  assumes "ledger_bounded spec t eng live done (res_key r)" and live: "live = l @ r # q"
  shows "ledger_bounded spec t (quota_commit t (res_key r) spec (res_est r) actual eng) (l @ q)
    ((res_key r, window_idx t spec, actual) # done) (res_key r)"
proof -
  let ?k = "res_key r" and ?w = "window_idx t spec"
  let ?e = "held_est t spec ?k eng" and ?u = "held_used t spec ?k eng"
  let ?s = "min (res_est r) ?e"
  have "held_est t spec ?k (quota_commit t ?k spec (res_est r) actual eng) = ?e - ?s"
    by (simp add: held_est_def [of t spec ?k "quota_commit _ _ _ _ _ _"] commit_get Let_def)
  moreover have "held_used t spec ?k (quota_commit t ?k spec (res_est r) actual eng) \<le> ?u - ?s + actual"
    by (auto simp: held_used_def [of t spec ?k "quota_commit _ _ _ _ _ _"] commit_get Let_def sat_add_def
        split: option.splits)
  moreover have "?e \<le> live_sum ?k ?w live" "?u \<le> ?e + done_sum ?k ?w done" using assms(1) by (simp_all add: ledger_bounded_def)
  ultimately show ?thesis unfolding ledger_bounded_def using live by (auto split: if_splits)
qed

lemma bounded_release:
  assumes "ledger_bounded spec t eng live done (res_key r)" and live: "live = l @ r # q"
  shows "ledger_bounded spec t (snd (quota_release t (res_widx r) (res_key r) (res_est r) 0 eng)) (l @ q) done (res_key r)"
  using assms
  by (cases "hm_get eng (res_key r)")
    (auto simp: ledger_bounded_def held_est_def held_used_def release_get split: if_splits)

lemma any_inv_release:
  assumes inv: "any_inv spec_of (s\<lparr>qs_clock := t\<rparr>)" and live: "qs_live s = l @ r # q"
  shows "any_inv spec_of (s\<lparr>qs_engine := snd (quota_release t (res_widx r) (res_key r) (res_est r) 0 (qs_engine s)),
    qs_clock := t, qs_live := l @ q\<rparr>)" (is "any_inv _ (s\<lparr>qs_engine := ?eng, qs_clock := _, qs_live := _\<rparr>)")
proof -
  have "any_inv spec_of (s\<lparr>qs_engine := ?eng, qs_clock := t, qs_live := l @ q, qs_done := qs_done s\<rparr>)"
  proof (rule any_inv_intro [OF inv, where key = "res_key r"])
    show "ledger_bounded (spec_of (res_key r)) t ?eng (l @ q) (qs_done s) (res_key r)"
      using any_inv_at(2) [OF inv, of "res_key r"] live by (intro bounded_release) simp_all
    show "counter_ok (spec_of (res_key r)) t (hm_get ?eng (res_key r))"
      using any_inv_at(1) [OF inv, of "res_key r"] by (simp add: counter_ok_release)
    show "\<forall>r \<in> set (l @ q). \<not> res_settled r \<and> res_spec r = spec_of (res_key r)"
      using any_inv_at(4) [OF inv] live by simp
    show "hm_wf ?eng" using any_inv_at(3) [OF inv] by (simp add: wf_ops)
  qed (use live in \<open>auto simp: release_get\<close>)
  then show ?thesis by simp
qed

lemma any_inv_commit:
  assumes inv: "any_inv spec_of (s\<lparr>qs_clock := t\<rparr>)" and live: "qs_live s = l @ r # q"
  shows "any_inv spec_of (s\<lparr>qs_engine := quota_commit t (res_key r) (res_spec r) (res_est r) n (qs_engine s),
    qs_clock := t, qs_live := l @ q, qs_done := (res_key r, window_idx t (res_spec r), n) # qs_done s\<rparr>)"
proof (rule any_inv_intro [OF inv, where key = "res_key r"])
  have spec: "res_spec r = spec_of (res_key r)" using any_inv_at(4) [OF inv, of r] live by simp
  show "ledger_bounded (spec_of (res_key r)) t (quota_commit t (res_key r) (res_spec r) (res_est r) n (qs_engine s)) (l @ q)
      ((res_key r, window_idx t (res_spec r), n) # qs_done s) (res_key r)"
    unfolding spec using any_inv_at(2) [OF inv, of "res_key r"] live by (intro bounded_commit) simp_all
  show "counter_ok (spec_of (res_key r)) t
      (hm_get (quota_commit t (res_key r) (res_spec r) (res_est r) n (qs_engine s)) (res_key r))"
    unfolding spec by (rule counter_ok_commit)
  show "\<forall>r \<in> set (l @ q). \<not> res_settled r \<and> res_spec r = spec_of (res_key r)"
    using any_inv_at(4) [OF inv] live by simp
  show "hm_wf (quota_commit t (res_key r) (res_spec r) (res_est r) n (qs_engine s))"
    using any_inv_at(3) [OF inv] by (simp add: wf_ops)
qed (use live in \<open>auto simp: commit_get\<close>)

lemma any_inv_retain:
  assumes "any_inv spec_of (s\<lparr>qs_clock := t\<rparr>)"
  shows "any_inv spec_of (s\<lparr>qs_engine := hm_retain P (qs_engine s), qs_clock := t\<rparr>)"
proof -
  have wf: "hm_wf (qs_engine s)" using any_inv_at(3) [OF assms] by simp
  have "ledger_bounded (spec_of k) t (hm_retain P (qs_engine s)) (qs_live s) (qs_done s) k" for k
  proof -
    have "ledger_bounded (spec_of k) t (qs_engine s) (qs_live s) (qs_done s) k" using any_inv_at(2) [OF assms, of k] by simp
    then show ?thesis
      by (auto simp: ledger_bounded_def held_est_def held_used_def hm.get_retain [OF wf] split: option.splits)
  qed
  moreover have "counter_ok (spec_of k) t (hm_get (hm_retain P (qs_engine s)) k)" for k
    using any_inv_at(1) [OF assms, of k] by (simp add: counter_ok_retain wf)
  ultimately show ?thesis using any_inv_at(4) [OF assms] wf unfolding any_inv_def by (simp add: hm.wf_retain)
qed

lemma quota_any_step_preserves:
  assumes step: "quota_any_step spec_of s s'" and inv: "any_inv spec_of s"
  shows "any_inv spec_of s'"
  using step
proof cases
  case (any_reserve now k est d eng)
  let ?live = "if d = HardDeny then qs_live s else reservation_new k (spec_of k) now est # qs_live s"
  note now = any_inv_tick [OF inv any_reserve(2)]
  have eng: "eng = snd (quota_reserve now k (spec_of k) est (qs_engine s))"
    and d: "d = fst (quota_reserve now k (spec_of k) est (qs_engine s))" using any_reserve(3) by simp_all
  have "any_inv spec_of (s\<lparr>qs_engine := eng, qs_clock := now, qs_live := ?live, qs_done := qs_done s\<rparr>)"
  proof (rule any_inv_intro [OF now, where key = k])
    show "ledger_bounded (spec_of k) now eng ?live (qs_done s) k"
      unfolding eng d using any_inv_at(2) [OF now, of k] by (intro bounded_reserve) simp
    show "\<forall>r \<in> set ?live. \<not> res_settled r \<and> res_spec r = spec_of (res_key r)"
      using any_inv_at(4) [OF inv] by simp
    show "hm_wf eng" unfolding eng using any_inv_at(3) [OF inv] by (rule wf_ops)
    show "counter_ok (spec_of k) now (hm_get eng k)" unfolding eng by (rule counter_ok_reserve)
  qed (simp_all add: eng reserve_get)
  then show ?thesis using any_reserve(1) by simp
next
  case (any_settle now l r q actual r' eng)
  note now = any_inv_tick [OF inv any_settle(2)]
  have r: "\<not> res_settled r" using any_inv_at(4) [OF inv, of r] any_settle(3) by simp
  show ?thesis
  proof (cases actual)
    case None
    then show ?thesis using any_inv_release [OF now any_settle(3)] any_settle(1,4) r by (auto simp: reservation_settle_def)
  next
    case (Some n)
    then show ?thesis using any_inv_commit [OF now any_settle(3)] any_settle(1,4) r by (auto simp: reservation_settle_def)
  qed
next
  case (any_drop now l r q)
  have "\<not> res_settled r" using any_inv_at(4) [OF inv, of r] any_drop(3) by simp
  then show ?thesis using any_inv_release [OF any_inv_tick [OF inv any_drop(2)] any_drop(3)] any_drop(1)
    by (simp add: reservation_drop_def)
next
  case (any_evict now idle_ms)
  then show ?thesis using any_inv_retain [OF any_inv_tick [OF inv any_evict(2)]]
    by (simp add: quota_evict_idle_def Let_def)
next
  case (any_gc now current)
  then show ?thesis using any_inv_retain [OF any_inv_tick [OF inv any_gc(2)]]
    by (simp add: quota_gc_stale_def Let_def)
qed

lemma quota_any_reachable_inv: "(quota_any_step spec_of)\<^sup>*\<^sup>* quota_init s \<Longrightarrow> any_inv spec_of s"
proof (induction rule: rtranclp_induct)
  case base
  show ?case by (simp add: any_inv_def quota_init_def hm.wf_empty counter_ok_def ledger_bounded_def held_est_def held_used_def hm.get_empty)
qed (blast intro: quota_any_step_preserves)

text \<open>
  Property C17. The engine against the ledger of what was committed in the present window and of the
  estimates in flight. However the requests, the settlements, the idle evictions and the collections
  interleave, with one budget per key, a key is never held against more than the ledger says. It is held
  against exactly the ledger, and its in-flight part is exactly the estimates, so that nothing of them is left
  once every guard has settled, along the restricted steps: a reservation is committed in its own window or when
  nothing else of its key is in flight in the present one, idle eviction waits at least a window, and no total overflows.
  The gateway does not keep to the restrictions: its eviction waits five minutes whatever the window,
  and a late commit takes another reservation's estimate (the last section of this theory).
\<close>

theorem quota_ledger_exact:
  assumes "(quota_any_step spec_of)\<^sup>*\<^sup>* quota_init s"
  defines "w \<equiv> \<lambda>k. window_idx (qs_clock s) (spec_of k)"
  shows "held_est (qs_clock s) (spec_of k) k (qs_engine s) \<le> live_sum k (w k) (qs_live s)
    \<and> held_used (qs_clock s) (spec_of k) k (qs_engine s) \<le> live_sum k (w k) (qs_live s) + done_sum k (w k) (qs_done s)
    \<and> ((quota_step spec_of)\<^sup>*\<^sup>* quota_init s \<longrightarrow>
         held_used (qs_clock s) (spec_of k) k (qs_engine s) =
           live_sum k (w k) (qs_live s) + done_sum k (w k) (qs_done s)
         \<and> held_est (qs_clock s) (spec_of k) k (qs_engine s) = live_sum k (w k) (qs_live s))"
proof -
  have "ledger_bounded (spec_of k) (qs_clock s) (qs_engine s) (qs_live s) (qs_done s) k"
    using quota_any_reachable_inv [OF assms(1)] by (rule any_inv_at)
  then show ?thesis
    using quota_inv_at(2) [OF quota_reachable_inv, of spec_of s k]
    by (auto simp: ledger_bounded_def ledger_exact_def w_def)
qed

lemma quota_step_any: "quota_step spec_of s s' \<Longrightarrow> quota_any_step spec_of s s'"
proof (induction rule: quota_step.induct)
  case (admit s now k est d eng)
  then show ?case using any_reserve [of s now k spec_of est d eng] by simp
next
  case (deny s now k est eng)
  then show ?case using any_reserve [of s now k spec_of est HardDeny eng] by simp
next
  case (commit s now l r q actual r' eng)
  then show ?case using any_settle [of s now l r q "Some actual" r' eng] by simp
next
  case (abort s now l r q r' eng)
  then show ?case using any_settle [of s now l r q None r' eng] by simp
qed (auto intro: any_drop any_evict any_gc)

text \<open>A budget of 100 tokens a minute, and its key.\<close>

definition minute_spec :: limit_window_spec where
  "minute_spec = \<lparr>window_secs = 60, soft_limit = None, hard_limit = Some 100\<rparr>"

lemma minute_window: "window_idx now minute_spec = now div 60000"
  by (simp add: window_idx_def minute_spec_def sat_mul_def u64_max_def)

lemma minute_limits [simp]: "hard_limit minute_spec = Some 100" "soft_limit minute_spec = None"
  by (simp_all add: minute_spec_def)

text \<open>Two requests are admitted, the first reports 25 tokens instead of its estimate, the idle eviction passes.\<close>

definition minute_run :: "quota_sys list" where
  "minute_run =
     (let k = (''u'', ''m'');
          r1 = reservation_new k minute_spec 5 40;
          r2 = reservation_new k minute_spec 1000 30;
          e1 = snd (quota_reserve 5 k minute_spec 40 []);
          e2 = snd (quota_reserve 1000 k minute_spec 30 e1);
          e3 = quota_commit 2000 k minute_spec 40 25 e2
      in [\<lparr>qs_engine = e1, qs_live = [r1], qs_clock = 5, qs_done = []\<rparr>,
          \<lparr>qs_engine = e2, qs_live = [r2, r1], qs_clock = 1000, qs_done = []\<rparr>,
          \<lparr>qs_engine = e3, qs_live = [r2], qs_clock = 2000, qs_done = [(k, 0, 25)]\<rparr>,
          \<lparr>qs_engine = snd (quota_evict_idle 3000 300000 e3), qs_live = [r2], qs_clock = 3000, qs_done = [(k, 0, 25)]\<rparr>])"

lemma minute_steps:
  "quota_step (\<lambda>_. minute_spec) quota_init (minute_run ! 0)"
  "quota_step (\<lambda>_. minute_spec) (minute_run ! 0) (minute_run ! 1)"
  "quota_step (\<lambda>_. minute_spec) (minute_run ! 1) (minute_run ! 2)"
  "quota_step (\<lambda>_. minute_spec) (minute_run ! 2) (minute_run ! 3)"
proof -
  let ?k = "(''u'', ''m'')" and ?S = "\<lambda>_ :: quota_key. minute_spec"
  let ?e1 = "snd (quota_reserve 5 ?k minute_spec 40 [])"
  let ?e2 = "snd (quota_reserve 1000 ?k minute_spec 30 ?e1)"
  let ?r1 = "reservation_new ?k minute_spec 5 40"
  have n: "hm_get ([] :: quota_engine) k = None" for k by (simp add: hm_get_def)
  have h1: "held_used 1000 minute_spec ?k ?e1 = 40" "held_used 2000 minute_spec ?k ?e2 = 70"
    by (simp_all add: held_used_def reserve_get minute_window n Let_def quota_denies_def sat_add_def u64_max_def)
  have d: "fst (quota_reserve 5 ?k minute_spec 40 []) = Allowed" "fst (quota_reserve 1000 ?k minute_spec 30 ?e1) = Allowed"
    using h1(1) by (simp_all add: reserve_decision held_used_def [of 5] n Let_def quota_denies_def sat_add_def u64_max_def)
  show "quota_step ?S quota_init (minute_run ! 0)"
    using quota_step.admit [of quota_init 5 ?S ?k 40 Allowed ?e1] d(1)
    by (simp add: minute_run_def quota_init_def Let_def held_used_def n u64_max_def prod_eq_iff)
  show "quota_step ?S (minute_run ! 0) (minute_run ! 1)"
    using quota_step.admit [of "minute_run ! 0" 1000 ?S ?k 30 Allowed ?e2] d(2) h1(1)
    by (simp add: minute_run_def Let_def u64_max_def prod_eq_iff)
  show "quota_step ?S (minute_run ! 1) (minute_run ! 2)"
    using quota_step.commit [of "minute_run ! 1" 2000 "[reservation_new ?k minute_spec 1000 30]" ?r1 "[]" 25] h1(2)
    by (simp add: minute_run_def Let_def u64_max_def reservation_settle_def reservation_new_widx minute_window)
  show "quota_step ?S (minute_run ! 2) (minute_run ! 3)"
    using quota_step.evict [of "minute_run ! 2" 3000 ?S 300000]
    by (simp add: minute_run_def Let_def minute_spec_def sat_mul_def u64_max_def)
qed

theorem quota_ledger_exact_witness:
  "held_used 3000 minute_spec (''u'', ''m'') (qs_engine (minute_run ! 3)) = 55 \<and>
   held_est 3000 minute_spec (''u'', ''m'') (qs_engine (minute_run ! 3)) = 30"
proof -
  let ?k = "(''u'', ''m'')" and ?S = "\<lambda>_ :: quota_key. minute_spec" and ?s = "minute_run ! 3"
  have run: "(quota_step ?S)\<^sup>*\<^sup>* quota_init ?s"
    using minute_steps by (meson converse_rtranclp_into_rtranclp rtranclp.rtrancl_refl)
  then have "(quota_any_step ?S)\<^sup>*\<^sup>* quota_init ?s"
    by (rule rtranclp_mono [THEN predicate2D, rotated]) (auto intro: quota_step_any)
  from quota_ledger_exact [OF this, of ?k] run
  have "held_used (qs_clock ?s) minute_spec ?k (qs_engine ?s) =
      live_sum ?k (window_idx (qs_clock ?s) minute_spec) (qs_live ?s) + done_sum ?k (window_idx (qs_clock ?s) minute_spec) (qs_done ?s)"
    "held_est (qs_clock ?s) minute_spec ?k (qs_engine ?s) = live_sum ?k (window_idx (qs_clock ?s) minute_spec) (qs_live ?s)"
    by simp_all
  then show ?thesis by (simp add: minute_run_def Let_def minute_window reservation_new_widx)
qed

text \<open>
  Idle eviction is transparent for a key whose window is not longer than the idle
  time: what the key holds in the present window is unchanged.
\<close>

theorem quota_evict_transparent:
  assumes "hm_wf eng" and "counter_ok spec t (hm_get eng k)"
    and "0 < sat_mul (window_secs spec) 1000" and "sat_mul (window_secs spec) 1000 \<le> idle_ms"
  shows "held_used t spec k (snd (quota_evict_idle t idle_ms eng)) = held_used t spec k eng"
proof (cases "hm_get eng k")
  case None
  then show ?thesis using assms(1)
    by (simp add: quota_evict_idle_def Let_def held_used_def hm.get_retain)
next
  case (Some c)
  then have "wc_window c < window_idx t spec" if "wc_last_used c < t - idle_ms"
    using evict_past_window [OF _ that assms(3,4)] assms(2) by simp
  then show ?thesis using assms(1) Some
    by (auto simp: quota_evict_idle_def Let_def held_used_def hm.get_retain)
qed

theorem quota_evict_transparent_witness:
  "held_used 90000 \<lparr>window_secs = 60, soft_limit = None, hard_limit = None\<rparr> (''u'', ''m'')
     (snd (quota_evict_idle 90000 60000 [((''u'', ''m''), fresh_counter 1 7 80000)])) = 7"
proof -
  let ?sp = "\<lparr>window_secs = 60, soft_limit = None, hard_limit = None\<rparr>"
  let ?e = "[((''u'', ''m''), fresh_counter 1 7 80000)]"
  have "held_used 90000 ?sp (''u'', ''m'') (snd (quota_evict_idle 90000 60000 ?e)) =
      held_used 90000 ?sp (''u'', ''m'') ?e"
    by (rule quota_evict_transparent)
       (simp_all add: hm_wf_def counter_ok_def hm_get_def fresh_counter_def window_idx_def sat_mul_def
          u64_max_def)
  then show ?thesis
    by (simp add: held_used_def hm_get_def fresh_counter_def window_idx_def sat_mul_def u64_max_def)
qed

section \<open>Two runs that the doc comments do not describe\<close>

text \<open>A day-long budget of 100 tokens.\<close>

definition day_spec :: limit_window_spec where
  "day_spec = \<lparr>window_secs = 86400, soft_limit = None, hard_limit = Some 100\<rparr>"

text \<open>
  The gateway evicts counters idle for five minutes, whatever their window: a consumer that has
  spent its daily budget and pauses for five minutes starts again from zero on the same day.
\<close>

lemma idle_eviction_resets_budget:
  "let k = (''u'', ''m'');
       e1 = quota_commit 1000 k day_spec 100 100 (snd (quota_reserve 0 k day_spec 100 []));
       e2 = snd (quota_evict_idle 400000 300000 e1)
   in fst (quota_reserve 400000 k day_spec 100 e1) = HardDeny \<and>
      fst (quota_reserve 400000 k day_spec 100 e2) = Allowed"
proof -
  let ?k = "(''u'', ''m'')"
  let ?e0 = "snd (quota_reserve 0 ?k day_spec 100 [])"
  let ?e1 = "quota_commit 1000 ?k day_spec 100 100 ?e0"
  have wf: "hm_wf ?e1" by (intro wf_ops) (rule hm.wf_empty)
  have u0: "held_used 0 day_spec ?k [] = 0" "held_est 0 day_spec ?k [] = 0"
    by (simp_all add: held_used_def held_est_def hm.get_empty)
  have W: "window_idx t day_spec = t div 86400000" for t
    by (simp add: window_idx_def day_spec_def sat_mul_def u64_max_def)
  have h: "hard_limit day_spec = Some 100" by (simp add: day_spec_def)
  have c0: "hm_get ?e0 ?k = Some \<lparr>wc_window = 0, wc_used = 100, wc_est = 100, wc_last_used = 0\<rparr>"
    by (simp add: reserve_get u0 W Let_def quota_denies_def h sat_add_def u64_max_def)
  have c1: "hm_get ?e1 ?k = Some \<lparr>wc_window = 0, wc_used = 100, wc_est = 0, wc_last_used = 1000\<rparr>"
    by (simp add: commit_get held_used_def held_est_def c0 W Let_def sat_add_def u64_max_def)
  have "hm_get (snd (quota_evict_idle 400000 300000 ?e1)) ?k = None"
    by (simp add: quota_evict_idle_def Let_def hm.get_retain wf c1)
  then show ?thesis
    by (simp add: Let_def reserve_decision held_used_def c1 W quota_denies_def h sat_add_def
        u64_max_def) (simp add: day_spec_def)
qed

text \<open>
  A commit in a later window takes its estimate from whatever is in flight there: the second
  request's reservation is gone although it has not settled.
\<close>

lemma commit_steals_reservation:
  "let k = (''u'', ''m''); sp = \<lparr>window_secs = 2, soft_limit = None, hard_limit = None\<rparr>;
       e1 = snd (quota_reserve 0 k sp 10 []);
       e2 = snd (quota_reserve 2500 k sp 10 e1);
       e3 = quota_commit 2600 k sp 10 0 e2
   in held_est 2600 sp k e2 = 10 \<and> held_est 2600 sp k e3 = 0"
proof -
  let ?k = "(''u'', ''m'')" and ?sp = "\<lparr>window_secs = 2, soft_limit = None, hard_limit = None\<rparr>"
  let ?e1 = "snd (quota_reserve 0 ?k ?sp 10 [])"
  let ?e2 = "snd (quota_reserve 2500 ?k ?sp 10 ?e1)"
  have W: "window_idx t ?sp = t div 2000" for t
    by (simp add: window_idx_def sat_mul_def u64_max_def)
  have "held_used 0 ?sp ?k [] = 0" "held_est 0 ?sp ?k [] = 0"
    by (simp_all add: held_used_def held_est_def hm.get_empty)
  then have c1: "hm_get ?e1 ?k = Some \<lparr>wc_window = 0, wc_used = 10, wc_est = 10, wc_last_used = 0\<rparr>"
    by (simp add: reserve_get W Let_def quota_denies_def sat_add_def u64_max_def)
  have c2: "hm_get ?e2 ?k = Some \<lparr>wc_window = 1, wc_used = 10, wc_est = 10, wc_last_used = 2500\<rparr>"
    by (simp add: reserve_get held_used_def held_est_def c1 W Let_def quota_denies_def sat_add_def
        u64_max_def)
  then show ?thesis by (simp add: Let_def held_est_def commit_get W)
qed

end
