(* ===== verification/Policy.thy ===== *)
theory Policy
  imports Complex_Main Quota
begin

text \<open>
  The policy configuration, \<open>hygress-core/src/policy.rs\<close>: the types of the policy file with their
  defaults, the selection of a route section by ingress name, and the glob matcher. The matcher
  is the source's two-index loop with one backtrack point, as a partial function whose result
  \<open>None\<close> would mean that the loop does not end; it is shown to end and to agree with the
  recursive meaning of a glob.

  The source compares \<open>char\<close>s; the elements of a \<^typ>\<open>string\<close> here stand for them. A rate
  (\<open>f64\<close>) is the rational number it denotes.
\<close>

record token_bucket_spec =
  tb_rps :: rat
  tb_burst :: nat

record limits_spec =
  ls_ip :: "token_bucket_spec option"
  ls_consumer :: "token_bucket_spec option"

record quota_spec =
  by_model_tokens :: "limit_window_spec option"

datatype guardrail_fail_mode = FailClosed | FailOpen

datatype guard_action = Block

record static_rule_spec =
  sr_rule_name :: string
  sr_regex :: string
  sr_action :: guard_action

datatype llm_guard_mode = LlmSync | LlmAsync

datatype llm_on_error = LlmReject | LlmAllow

record llm_guard_spec =
  lg_mode :: llm_guard_mode
  lg_timeout_ms :: nat
  lg_max_rps :: nat
  lg_cache_ttl_secs :: nat
  lg_on_error :: llm_on_error

definition llm_guard_default :: llm_guard_spec where
  "llm_guard_default = \<lparr>lg_mode = LlmSync, lg_timeout_ms = 3000, lg_max_rps = 5,
     lg_cache_ttl_secs = 300, lg_on_error = LlmReject\<rparr>"

record guardrail_spec =
  gs_fail_mode :: guardrail_fail_mode
  gs_static_rules :: "static_rule_spec list"
  gs_llm :: "llm_guard_spec option"

definition guardrail_default :: guardrail_spec where
  "guardrail_default = \<lparr>gs_fail_mode = FailClosed, gs_static_rules = [], gs_llm = None\<rparr>"

record global_policy =
  gp_limits :: "limits_spec option"
  gp_quota :: "quota_spec option"
  gp_guardrail :: "guardrail_spec option"

record route_policy_actions =
  override_route :: "string option"
  pin_provider_svc_pattern :: "string option"
  header_add :: "(string \<times> string) list"
  header_del :: "string list"
  action_timeout_ms :: "nat option"
  action_retries :: "nat option"

record route_policy_spec =
  name_glob :: string
  rs_limits :: "limits_spec option"
  rs_quota :: "quota_spec option"
  rs_policy :: "route_policy_actions option"
  rs_guardrail :: "guardrail_spec option"

record policy_config =
  pc_version :: nat
  pc_global :: global_policy
  pc_routes :: "route_policy_spec list"

definition policy_default :: policy_config where
  "policy_default = \<lparr>pc_version = 1,
     pc_global = \<lparr>gp_limits = None, gp_quota = None, gp_guardrail = None\<rparr>, pc_routes = []\<rparr>"

section \<open>The glob matcher\<close>

text \<open>The \<open>while\<close> loop; the backtrack point \<open>usize::MAX\<close> is \<^const>\<open>None\<close>.\<close>

partial_function (option) glob_loop ::
  "string \<Rightarrow> string \<Rightarrow> nat \<Rightarrow> nat \<Rightarrow> nat option \<Rightarrow> nat \<Rightarrow> nat option option" where
  "glob_loop p s px si star_pi star_si =
     (if si < length s then
        if px < length p \<and> (p ! px = CHR ''*'' \<or> p ! px = s ! si) then
          if p ! px = CHR ''*'' then glob_loop p s (px + 1) si (Some px) si
          else glob_loop p s (px + 1) (si + 1) star_pi star_si
        else (case star_pi of
                Some sp \<Rightarrow> glob_loop p s (sp + 1) (star_si + 1) (Some sp) (star_si + 1)
              | None \<Rightarrow> Some None)
      else Some (Some px))"

declare glob_loop.simps [code]

definition glob_tail :: "string \<Rightarrow> nat \<Rightarrow> bool" where
  "glob_tail p px \<longleftrightarrow> dropWhile (\<lambda>c. c = CHR ''*'') (drop px p) = []"

definition glob_match :: "string \<Rightarrow> string \<Rightarrow> bool" where
  "glob_match p s =
     (case glob_loop p s 0 0 None 0 of Some (Some px) \<Rightarrow> glob_tail p px | _ \<Rightarrow> False)"

text \<open>The meaning of a glob.\<close>

fun glob_spec :: "string \<Rightarrow> string \<Rightarrow> bool" where
  "glob_spec [] s = (s = [])"
| "glob_spec (c # p) s =
     (if c = CHR ''*'' then list_ex (\<lambda>k. glob_spec p (drop k s)) [0..<Suc (length s)]
      else (case s of [] \<Rightarrow> False | x # xs \<Rightarrow> c = x \<and> glob_spec p xs))"

lemma glob_spec_star:
  "glob_spec (CHR ''*'' # p) s \<longleftrightarrow> (\<exists>k \<le> length s. glob_spec p (drop k s))"
  by (auto simp: list_ex_iff less_Suc_eq_le Bex_def simp del: upt_Suc)

lemma glob_spec_star_drop:
  "glob_spec (CHR ''*'' # p) (drop k s) \<Longrightarrow> j \<le> k \<Longrightarrow> glob_spec (CHR ''*'' # p) (drop j s)"
  unfolding glob_spec_star
proof -
  assume "\<exists>m \<le> length (drop k s). glob_spec p (drop m (drop k s))" and j: "j \<le> k"
  then obtain m where m: "m \<le> length s - k" "glob_spec p (drop (m + k) s)" by auto
  show "\<exists>i \<le> length (drop j s). glob_spec p (drop i (drop j s))"
  proof (cases "k \<le> length s")
    case True
    then have "m + k - j \<le> length (drop j s) \<and> glob_spec p (drop (m + k - j) (drop j s))"
      using m j by simp
    then show ?thesis by blast
  next
    case False
    then show ?thesis using m j by (intro exI [of _ "length s - j"]) auto
  qed
qed

lemma glob_spec_literal:
  "CHR ''*'' \<notin> set l \<Longrightarrow> glob_spec (l @ p) s \<longleftrightarrow> (\<exists>r. s = l @ r \<and> glob_spec p r)"
proof (induction l arbitrary: s)
  case (Cons c l)
  then show ?case by (cases s) auto
qed simp

lemma glob_tail_spec: "glob_tail p px \<longleftrightarrow> glob_spec (drop px p) []"
proof -
  have "dropWhile (\<lambda>c. c = CHR ''*'') q = [] \<longleftrightarrow> glob_spec q []" for q
    by (induction q) auto
  then show ?thesis by (simp add: glob_tail_def)
qed

text \<open>
  The loop invariant: before the first star the rest decides; after it, the literal segment
  between the star and the current position has been read from the star's current start.
\<close>

definition glob_inv :: "string \<Rightarrow> string \<Rightarrow> nat \<Rightarrow> nat \<Rightarrow> nat option \<Rightarrow> nat \<Rightarrow> bool" where
  "glob_inv p s px si star_pi star_si \<longleftrightarrow> px \<le> length p \<and> si \<le> length s \<and>
     (case star_pi of None \<Rightarrow> True
      | Some sp \<Rightarrow> sp < px \<and> star_si \<le> si \<and>
          (\<exists>l. CHR ''*'' \<notin> set l \<and> drop (Suc sp) p = l @ drop px p \<and> drop star_si s = l @ drop si s))"

definition glob_goal :: "string \<Rightarrow> string \<Rightarrow> nat \<Rightarrow> nat \<Rightarrow> nat option \<Rightarrow> nat \<Rightarrow> bool" where
  "glob_goal p s px si star_pi star_si =
     (case star_pi of None \<Rightarrow> glob_spec (drop px p) (drop si s)
      | Some sp \<Rightarrow> glob_spec (CHR ''*'' # drop (Suc sp) p) (drop star_si s))"

definition glob_rank :: "string \<Rightarrow> string \<Rightarrow> nat \<Rightarrow> nat option \<Rightarrow> nat \<Rightarrow> nat \<times> nat \<times> nat" where
  "glob_rank p s px star_pi star_si =
     (case star_pi of None \<Rightarrow> Suc (length p) | Some sp \<Rightarrow> length p - sp,
      length s - star_si, length p - px)"

lemma glob_star_case:
  assumes inv: "glob_inv p s px si star star_si" and si: "si < length s"
    and px: "px < length p" "p ! px = CHR ''*''"
  shows "glob_goal p s (px + 1) si (Some px) si = glob_goal p s px si star star_si"
proof -
  have dp: "drop px p = CHR ''*'' # drop (Suc px) p" using px by (metis Cons_nth_drop_Suc)
  show ?thesis
  proof (cases star)
    case None
    then show ?thesis by (simp add: glob_goal_def dp del: glob_spec.simps)
  next
    case (Some sp)
    obtain l where l: "CHR ''*'' \<notin> set l" "drop (Suc sp) p = l @ drop px p"
      and ls: "drop star_si s = l @ drop si s"
      using inv Some by (auto simp: glob_inv_def)
    have le: "star_si \<le> si" using inv Some by (simp add: glob_inv_def)
    have len: "length l = si - star_si"
      using arg_cong [OF ls, of length] si le by simp
    have "glob_spec (CHR ''*'' # l @ drop px p) (drop star_si s)
        \<longleftrightarrow> glob_spec (CHR ''*'' # drop (Suc px) p) (drop si s)"
    proof
      assume "glob_spec (CHR ''*'' # drop (Suc px) p) (drop si s)"
      then have "glob_spec (l @ drop px p) (drop star_si s)"
        unfolding glob_spec_literal [OF l(1)] ls dp by blast
      then show "glob_spec (CHR ''*'' # l @ drop px p) (drop star_si s)"
        unfolding glob_spec_star by (intro exI [of _ 0]) simp
    next
      assume "glob_spec (CHR ''*'' # l @ drop px p) (drop star_si s)"
      then obtain k r where k: "drop k (drop star_si s) = l @ r"
        and r: "glob_spec (CHR ''*'' # drop (Suc px) p) r"
        unfolding glob_spec_star glob_spec_literal [OF l(1)] dp by auto
      have "r = drop (length l) (drop k (drop star_si s))" using k by simp
      then have "r = drop (length l + k + star_si) s" by (simp add: ac_simps)
      moreover have "si \<le> length l + k + star_si" using len le by simp
      ultimately show "glob_spec (CHR ''*'' # drop (Suc px) p) (drop si s)"
        using r glob_spec_star_drop by blast
    qed
    then show ?thesis using Some l(2) by (simp add: glob_goal_def del: glob_spec.simps)
  qed
qed

lemma glob_back_case:
  assumes inv: "glob_inv p s px si (Some sp) star_si" and si: "si < length s"
    and mis: "\<not> (px < length p \<and> (p ! px = CHR ''*'' \<or> p ! px = s ! si))"
  shows "glob_goal p s (sp + 1) (star_si + 1) (Some sp) (star_si + 1) =
    glob_goal p s px si (Some sp) star_si"
proof -
  obtain l where l: "CHR ''*'' \<notin> set l" "drop (Suc sp) p = l @ drop px p"
    and ls: "drop star_si s = l @ drop si s" and le: "star_si \<le> si"
    using inv by (auto simp: glob_inv_def)
  have no: "\<not> glob_spec (drop px p) (drop si s)"
  proof (cases "px < length p")
    case True
    then have "drop px p = p ! px # drop (Suc px) p" by (metis Cons_nth_drop_Suc)
    moreover have "drop si s = s ! si # drop (Suc si) s" using si by (metis Cons_nth_drop_Suc)
    ultimately show ?thesis using mis True by simp
  qed (use si in auto)
  have not0: "\<not> glob_spec (l @ drop px p) (drop star_si s)"
    unfolding glob_spec_literal [OF l(1)] ls using no by simp
  have "(\<exists>k \<le> length (drop star_si s). glob_spec (l @ drop px p) (drop k (drop star_si s))) \<longleftrightarrow>
      (\<exists>k \<le> length (drop (Suc star_si) s). glob_spec (l @ drop px p) (drop k (drop (Suc star_si) s)))"
    (is "?L \<longleftrightarrow> ?R")
  proof
    assume ?L
    then obtain k where k: "k \<le> length (drop star_si s)"
      "glob_spec (l @ drop px p) (drop k (drop star_si s))" by blast
    with not0 obtain j where j: "k = Suc j" by (cases k) auto
    then have "j \<le> length (drop (Suc star_si) s) \<and>
        glob_spec (l @ drop px p) (drop j (drop (Suc star_si) s))" using k by simp
    then show ?R by blast
  next
    assume ?R
    then obtain k where "k \<le> length (drop (Suc star_si) s)"
      "glob_spec (l @ drop px p) (drop k (drop (Suc star_si) s))" by blast
    then have "Suc k \<le> length (drop star_si s) \<and>
        glob_spec (l @ drop px p) (drop (Suc k) (drop star_si s))" using si le by simp
    then show ?L by blast
  qed
  then show ?thesis by (simp add: glob_goal_def glob_spec_star l(2) del: glob_spec.simps)
qed

lemma glob_end_case:
  assumes inv: "glob_inv p s px si star star_si" and si: "\<not> si < length s"
  shows "glob_tail p px = glob_goal p s px si star star_si"
proof (cases star)
  case None
  then show ?thesis using inv si by (simp add: glob_goal_def glob_tail_spec glob_inv_def)
next
  case (Some sp)
  obtain l where l: "CHR ''*'' \<notin> set l" "drop (Suc sp) p = l @ drop px p"
    and ls: "drop star_si s = l" using inv si Some by (auto simp: glob_inv_def)
  have "glob_spec (l @ drop px p) (drop k l) \<longleftrightarrow> k = 0 \<and> glob_spec (drop px p) []" if "k \<le> length l" for k
  proof -
    have "k = 0" if "drop k l = l @ r" for r
      using arg_cong [OF that, of length] \<open>k \<le> length l\<close> by simp
    then show ?thesis unfolding glob_spec_literal [OF l(1)] by auto
  qed
  then show ?thesis using Some
    by (auto simp: glob_goal_def glob_spec_star ls l(2) glob_tail_spec simp del: glob_spec.simps)
qed

text \<open>A literal match steps both positions.\<close>

lemma glob_literal_case:
  assumes inv: "glob_inv p s px si star star_si" and hit: "px < length p" and si: "si < length s"
    and eq: "p ! px = s ! si" and lit: "p ! px \<noteq> CHR ''*''"
  shows "glob_inv p s (px + 1) (si + 1) star star_si"
    and "glob_goal p s (px + 1) (si + 1) star star_si = glob_goal p s px si star star_si"
proof -
  have dp: "drop px p = p ! px # drop (Suc px) p" "drop si s = s ! si # drop (Suc si) s"
    using hit si by (simp_all add: Cons_nth_drop_Suc)
  show "glob_inv p s (px + 1) (si + 1) star star_si"
  proof (cases star)
    case None
    then show ?thesis using hit si by (simp add: glob_inv_def)
  next
    case (Some sp)
    obtain l where l: "CHR ''*'' \<notin> set l" "drop (Suc sp) p = l @ drop px p"
      "drop star_si s = l @ drop si s" using inv Some by (auto simp: glob_inv_def)
    then have "CHR ''*'' \<notin> set (l @ [p ! px]) \<and> drop (Suc sp) p = (l @ [p ! px]) @ drop (Suc px) p \<and>
        drop star_si s = (l @ [p ! px]) @ drop (Suc si) s" using dp eq lit by simp
    then have ex: "\<exists>l. CHR ''*'' \<notin> set l \<and> drop (Suc sp) p = l @ drop (px + 1) p \<and>
        drop star_si s = l @ drop (si + 1) s" unfolding Suc_eq_plus1 [symmetric] by blast
    then show ?thesis using inv hit si Some unfolding glob_inv_def by simp
  qed
  show "glob_goal p s (px + 1) (si + 1) star star_si = glob_goal p s px si star star_si"
    using dp eq lit by (simp add: glob_goal_def split: option.splits)
qed

lemma glob_miss_case:
  assumes "si < length s" and "\<not> (px < length p \<and> (p ! px = CHR ''*'' \<or> p ! px = s ! si))"
  shows "\<not> glob_spec (drop px p) (drop si s)"
proof (cases "px < length p")
  case True
  then have "drop px p = p ! px # drop (Suc px) p" by (metis Cons_nth_drop_Suc)
  moreover have "drop si s = s ! si # drop (Suc si) s" using assms(1) by (metis Cons_nth_drop_Suc)
  ultimately show ?thesis using assms(2) True by simp
qed (use assms(1) in auto)

lemma glob_loop_correct:
  "glob_inv p s px si star star_si \<Longrightarrow>
   \<exists>r. glob_loop p s px si star star_si = Some r \<and>
     (case r of None \<Rightarrow> False | Some px' \<Rightarrow> glob_tail p px') = glob_goal p s px si star star_si"
proof (induction "glob_rank p s px star star_si" arbitrary: px si star star_si
    rule: wf_induct_rule [OF wf_lex_prod [OF wf_less_than wf_lex_prod [OF wf_less_than wf_less_than]]])
  case (1 px star star_si si)
  note inv = "1.prems"
  show ?case
  proof (cases "si < length s")
    case False
    then show ?thesis using glob_end_case [OF inv False] by (subst glob_loop.simps) simp
  next
    case si: True
    show ?thesis
    proof (cases "px < length p \<and> (p ! px = CHR ''*'' \<or> p ! px = s ! si)")
      case hit: True
      show ?thesis
      proof (cases "p ! px = CHR ''*''")
        case True
        have "glob_inv p s (px + 1) si (Some px) si" using inv hit
          by (auto simp: glob_inv_def)
        moreover have "(glob_rank p s (px + 1) (Some px) si, glob_rank p s px star star_si)
            \<in> less_than <*lex*> less_than <*lex*> less_than"
          using inv hit by (auto simp: glob_rank_def glob_inv_def split: option.splits)
        ultimately show ?thesis
          using "1.hyps" [of "px + 1" "Some px" si si] glob_star_case [OF inv si _ True] hit si True
          by (subst glob_loop.simps) simp
      next
        case False
        note lit = glob_literal_case [OF inv hit [THEN conjunct1] si _ False]
        have eq: "p ! px = s ! si" using hit False by simp
        have "(glob_rank p s (px + 1) star star_si, glob_rank p s px star star_si)
            \<in> less_than <*lex*> less_than <*lex*> less_than"
          using hit by (auto simp: glob_rank_def)
        then show ?thesis
          using "1.hyps" [of "px + 1" star star_si "si + 1"] lit [OF eq] hit si False
          by (subst glob_loop.simps) simp
      qed
    next
      case miss: False
      show ?thesis
      proof (cases star)
        case None
        have "\<not> glob_spec (drop px p) (drop si s)" by (rule glob_miss_case [OF si miss])
        then show ?thesis using si miss None
          by (subst glob_loop.simps) (auto simp: glob_goal_def simp del: glob_spec.simps)
      next
        case (Some sp)
        have le: "star_si \<le> si" "sp < length p" using inv Some by (auto simp: glob_inv_def)
        have "glob_inv p s (sp + 1) (star_si + 1) (Some sp) (star_si + 1)"
          using le si by (auto simp: glob_inv_def)
        moreover have "(glob_rank p s (sp + 1) (Some sp) (star_si + 1), glob_rank p s px star star_si)
            \<in> less_than <*lex*> less_than <*lex*> less_than"
          using le si Some by (auto simp: glob_rank_def)
        ultimately show ?thesis
          using "1.hyps" [of "sp + 1" "Some sp" "star_si + 1" "star_si + 1"]
            glob_back_case [OF inv [unfolded Some] si miss] si miss Some
          by (subst glob_loop.simps) auto
      qed
    qed
  qed
qed

text \<open>
  Property C20. The glob loop always ends, and its answer is the meaning of the glob: \<open>*\<close> stands
  for any sequence, every other character for itself, although only the last star is ever
  backtracked.
\<close>

theorem glob_match_correct:
  "glob_loop p s 0 0 None 0 \<noteq> None \<and> glob_match p s = glob_spec p s"
proof -
  have "glob_inv p s 0 0 None 0" by (simp add: glob_inv_def)
  from glob_loop_correct [OF this] show ?thesis
    by (auto simp: glob_match_def glob_goal_def split: option.splits)
qed

section \<open>Selecting the route section\<close>

definition for_ingress :: "policy_config \<Rightarrow> string \<Rightarrow> route_policy_spec option" where
  "for_ingress cfg bare =
     foldl (\<lambda>hit r. if glob_match (name_glob r) bare then Some r else hit) None (pc_routes cfg)"

lemma for_ingress_last:
  "foldl (\<lambda>hit r. if P r then Some r else hit) h rs =
     (case find P (rev rs) of None \<Rightarrow> h | Some r \<Rightarrow> Some r)"
  by (induction rs rule: rev_induct) (auto split: option.splits)

end
