(* ===== verification/Utf8.thy ===== *)
theory Utf8
  imports Prelude
begin

text \<open>
  \<open>String::from_utf8_lossy\<close> of the standard library, over byte strings: well-formed UTF-8 is
  kept, every maximal prefix of an ill-formed sequence becomes one U+FFFD. Used where the source
  scans or parses raw network bytes as text.
\<close>

definition byte_of :: "char \<Rightarrow> nat" where
  "byte_of c = of_char c"

definition is_cont :: "char \<Rightarrow> bool" where
  "is_cont c \<longleftrightarrow> 0x80 \<le> byte_of c \<and> byte_of c \<le> 0xBF"

definition second_ok :: "nat \<Rightarrow> char \<Rightarrow> bool" where
  "second_ok b c \<longleftrightarrow>
     (let n = byte_of c in
      if b = 0xE0 then 0xA0 \<le> n \<and> n \<le> 0xBF
      else if b = 0xED then 0x80 \<le> n \<and> n \<le> 0x9F
      else if b = 0xF0 then 0x90 \<le> n \<and> n \<le> 0xBF
      else if b = 0xF4 then 0x80 \<le> n \<and> n \<le> 0x8F
      else 0x80 \<le> n \<and> n \<le> 0xBF)"

definition utf8_width :: "nat \<Rightarrow> nat" where
  "utf8_width b = (if b < 0x80 then 1 else if 0xC2 \<le> b \<and> b \<le> 0xDF then 2
     else if 0xE0 \<le> b \<and> b \<le> 0xEF then 3 else if 0xF0 \<le> b \<and> b \<le> 0xF4 then 4 else 0)"

text \<open>The length of the sequence at the head of \<open>c # cs\<close>, and whether it is well formed.\<close>

definition utf8_head :: "char \<Rightarrow> string \<Rightarrow> nat \<times> bool" where
  "utf8_head c cs =
     (let b = byte_of c; w = utf8_width b;
          ok = (\<lambda>i. i < length cs \<and> (if i = 0 then second_ok b (cs ! 0) else is_cont (cs ! i)))
      in if w = 0 then (1, False)
         else if w = 1 then (1, True)
         else if \<not> ok 0 then (1, False)
         else if w = 2 then (2, True)
         else if \<not> ok 1 then (2, False)
         else if w = 3 then (3, True)
         else if \<not> ok 2 then (3, False)
         else (4, True))"

definition replacement :: string where
  "replacement = [CHR 0xEF, CHR 0xBF, CHR 0xBD]"

function utf8_lossy :: "string \<Rightarrow> string" where
  "utf8_lossy [] = []"
| "utf8_lossy (c # cs) =
     (case utf8_head c cs of (n, valid) \<Rightarrow>
        (if valid then c # take (n - 1) cs else replacement) @ utf8_lossy (drop (n - 1) cs))"
  by pat_completeness auto
termination by (relation "measure length") auto

definition is_ascii :: "char \<Rightarrow> bool" where
  "is_ascii c \<longleftrightarrow> byte_of c < 0x80"

lemma ascii_not_cont: "is_ascii c \<Longrightarrow> \<not> is_cont c \<and> \<not> second_ok b c"
  by (auto simp: is_ascii_def is_cont_def second_ok_def Let_def)

lemma utf8_head_ascii: "is_ascii c \<Longrightarrow> utf8_head c cs = (1, True)"
  by (simp add: utf8_head_def is_ascii_def utf8_width_def Let_def)

text \<open>An ASCII byte never belongs to a longer sequence: decoding splits before it.\<close>

lemma utf8_head_append:
  assumes "is_ascii d"
  shows "utf8_head c (cs @ d # r) = utf8_head c cs"
proof -
  note nc = ascii_not_cont [OF assms]
  consider "cs = []" | x where "cs = [x]" | x y where "cs = [x, y]"
    | x y z q where "cs = x # y # z # q"
    by (metis list.exhaust)
  then show ?thesis by cases (auto simp: utf8_head_def Let_def nc)
qed

lemma utf8_head_length: "fst (utf8_head c cs) - 1 \<le> length cs"
proof -
  consider "cs = []" | x where "cs = [x]" | x y where "cs = [x, y]"
    | x y z q where "cs = x # y # z # q"
    by (metis list.exhaust)
  then show ?thesis by cases (auto simp: utf8_head_def Let_def)
qed

lemma utf8_lossy_ascii_split:
  assumes "is_ascii d"
  shows "utf8_lossy (a @ d # b) = utf8_lossy a @ d # utf8_lossy b"
proof (induction a rule: utf8_lossy.induct)
  case 1
  show ?case by (simp add: utf8_head_ascii [OF assms])
next
  case (2 c cs)
  obtain n v where h: "utf8_head c cs = (n, v)" by (cases "utf8_head c cs") auto
  have le: "n - 1 \<le> length cs" using utf8_head_length [of c cs] h by simp
  show ?case
    using "2.IH" [OF h [symmetric]] h le
    by (simp add: utf8_head_append [OF assms])
qed

lemma utf8_lossy_ascii: "\<forall>c \<in> set w. is_ascii c \<Longrightarrow> utf8_lossy w = w"
  by (induction w) (auto simp: utf8_head_ascii)

lemma utf8_lossy_ascii_word:
  "w \<noteq> [] \<Longrightarrow> \<forall>c \<in> set w. is_ascii c \<Longrightarrow> utf8_lossy (a @ w @ b) = utf8_lossy a @ w @ utf8_lossy b"
proof (induction w arbitrary: a)
  case (Cons c w)
  show ?case
  proof (cases "w = []")
    case True
    then show ?thesis using Cons.prems utf8_lossy_ascii_split [of c a b] by simp
  next
    case False
    have "utf8_lossy ((a @ [c]) @ w @ b) = utf8_lossy (a @ [c]) @ w @ utf8_lossy b"
      by (rule Cons.IH) (use Cons.prems False in auto)
    moreover have "utf8_lossy (a @ [c]) = utf8_lossy a @ [c]"
      using Cons.prems utf8_lossy_ascii_split [of c a "[]"] by simp
    ultimately show ?thesis by simp
  qed
qed simp

end
