(* ===== verification/Guardrail.thy ===== *)
theory Guardrail
  imports Policy Utf8
begin

text \<open>
  The static guardrail, \<open>hygress-core/src/guardrail.rs\<close>: compiled rule sets and the cross-chunk
  scanner with its bounded tail. The regular-expression engine is a parameter: \<open>rx_compile\<close> gives
  a compiled expression or an error message, \<open>rx_is_match\<close> searches a text.
\<close>

record 'r regex_engine =
  rx_compile :: "string \<Rightarrow> string + 'r"
  rx_is_match :: "'r \<Rightarrow> string \<Rightarrow> bool"

record guard_decision =
  gd_hit_name :: string
  gd_action :: guard_action

type_synonym 'r static_rule_set = "(string \<times> 'r \<times> guard_action) list"

fun rule_set_new :: "'r regex_engine \<Rightarrow> static_rule_spec list \<Rightarrow> error + 'r static_rule_set" where
  "rule_set_new rx [] = Inr []"
| "rule_set_new rx (r # rs) =
     (case rx_compile rx (sr_regex r) of
        Inl e \<Rightarrow> Inl (Parse (''guardrail rule '' @ quoted (sr_rule_name r) @ '': invalid regex '' @
                   quoted (sr_regex r) @ '': '' @ e))
      | Inr re \<Rightarrow>
          (case rule_set_new rx rs of Inl e \<Rightarrow> Inl e
           | Inr compiled \<Rightarrow> Inr ((sr_rule_name r, re, sr_action r) # compiled)))"

fun rule_set_evaluate :: "'r regex_engine \<Rightarrow> 'r static_rule_set \<Rightarrow> string \<Rightarrow> guard_decision option" where
  "rule_set_evaluate rx [] text = None"
| "rule_set_evaluate rx ((name, re, action) # rules) text =
     (if rx_is_match rx re text then Some \<lparr>gd_hit_name = name, gd_action = action\<rparr>
      else rule_set_evaluate rx rules text)"

record 'r chunk_scanner =
  cs_buffer :: bytes
  cs_rules :: "'r static_rule_set"
  cs_max_tail :: nat

definition scanner_new :: "'r static_rule_set \<Rightarrow> nat \<Rightarrow> 'r chunk_scanner" where
  "scanner_new rules max_tail = \<lparr>cs_buffer = [], cs_rules = rules, cs_max_tail = max_tail\<rparr>"

definition evaluate_buffer :: "'r regex_engine \<Rightarrow> 'r chunk_scanner \<Rightarrow> guard_decision option" where
  "evaluate_buffer rx sc = rule_set_evaluate rx (cs_rules sc) (utf8_lossy (cs_buffer sc))"

definition scanner_feed ::
  "'r regex_engine \<Rightarrow> bytes \<Rightarrow> 'r chunk_scanner \<Rightarrow> guard_decision option \<times> 'r chunk_scanner" where
  "scanner_feed rx chunk sc =
     (let buffer = cs_buffer sc @ chunk;
          buffer = (if length buffer > cs_max_tail sc
                    then drop (length buffer - cs_max_tail sc) buffer else buffer);
          sc = sc\<lparr>cs_buffer := buffer\<rparr>
      in (evaluate_buffer rx sc, sc))"

definition scanner_finish ::
  "'r regex_engine \<Rightarrow> 'r chunk_scanner \<Rightarrow> guard_decision option \<times> 'r chunk_scanner" where
  "scanner_finish rx sc = (evaluate_buffer rx sc, sc\<lparr>cs_buffer := []\<rparr>)"

text \<open>A response: its chunks in order, with the decision after each.\<close>

fun scanner_feeds ::
  "'r regex_engine \<Rightarrow> bytes list \<Rightarrow> 'r chunk_scanner \<Rightarrow> guard_decision option list \<times> 'r chunk_scanner" where
  "scanner_feeds rx [] sc = ([], sc)"
| "scanner_feeds rx (c # cs) sc =
     (let (d, sc1) = scanner_feed rx c sc; (ds, sc2) = scanner_feeds rx cs sc1 in (d # ds, sc2))"

definition last_n :: "nat \<Rightarrow> 'a list \<Rightarrow> 'a list" where
  "last_n n xs = drop (length xs - n) xs"

lemma last_n_last_n: "last_n n (last_n n xs @ ys) = last_n n (xs @ ys)"
  by (cases "length xs \<le> n") (auto simp: last_n_def add.commute)

lemma length_last_n: "length (last_n n xs) \<le> n"
  by (simp add: last_n_def)

lemma scanner_feed_buffer:
  "snd (scanner_feed rx c sc) = sc\<lparr>cs_buffer := last_n (cs_max_tail sc) (cs_buffer sc @ c)\<rparr>"
  "fst (scanner_feed rx c sc) =
     rule_set_evaluate rx (cs_rules sc) (utf8_lossy (last_n (cs_max_tail sc) (cs_buffer sc @ c)))"
  by (simp_all add: scanner_feed_def Let_def last_n_def evaluate_buffer_def)

lemma scanner_feeds_results:
  assumes "cs_buffer sc = last_n (cs_max_tail sc) pre"
  shows "fst (scanner_feeds rx chunks sc) =
     map (\<lambda>i. rule_set_evaluate rx (cs_rules sc)
            (utf8_lossy (last_n (cs_max_tail sc) (pre @ concat (take (Suc i) chunks)))))
       [0..<length chunks]
   \<and> snd (scanner_feeds rx chunks sc) =
       sc\<lparr>cs_buffer := last_n (cs_max_tail sc) (pre @ concat chunks)\<rparr>"
  using assms
proof (induction chunks arbitrary: sc pre)
  case Nil
  then show ?case by simp
next
  case (Cons c chunks)
  let ?sc = "sc\<lparr>cs_buffer := last_n (cs_max_tail sc) (pre @ c)\<rparr>"
  have sc1: "snd (scanner_feed rx c sc) = ?sc"
    and d: "fst (scanner_feed rx c sc) =
      rule_set_evaluate rx (cs_rules sc) (utf8_lossy (last_n (cs_max_tail sc) (pre @ c)))"
    using Cons.prems by (simp_all add: scanner_feed_buffer last_n_last_n)
  have ind: "[0..<length (c # chunks)] = 0 # map Suc [0..<length chunks]"
    by (simp only: list.size add_Suc_right add_0_right upt_conv_Cons map_Suc_upt zero_less_Suc)
  have "fst (scanner_feeds rx chunks ?sc) =
      map (\<lambda>i. rule_set_evaluate rx (cs_rules sc)
            (utf8_lossy (last_n (cs_max_tail sc) ((pre @ c) @ concat (take (Suc i) chunks)))))
        [0..<length chunks]
    \<and> snd (scanner_feeds rx chunks ?sc) =
        ?sc\<lparr>cs_buffer := last_n (cs_max_tail sc) ((pre @ c) @ concat chunks)\<rparr>"
    using Cons.IH [of ?sc "pre @ c"] by simp
  then show ?case unfolding ind
    by (simp add: Let_def split_beta sc1 d del: upt_Suc)
qed

text \<open>
  The scanner's memory is bounded and exact: after any chunks its buffer is the last
  \<open>max_tail\<close> bytes of the stream, independent of how the stream was cut, and the decision after a
  chunk is the rule set's verdict on exactly that tail.
\<close>

theorem scanner_buffer_is_tail:
  "fst (scanner_feeds rx chunks (scanner_new rules n)) =
     map (\<lambda>i. rule_set_evaluate rx rules (utf8_lossy (last_n n (concat (take (Suc i) chunks)))))
       [0..<length chunks]
   \<and> cs_buffer (snd (scanner_feeds rx chunks (scanner_new rules n))) = last_n n (concat chunks)
   \<and> length (cs_buffer (snd (scanner_feeds rx chunks (scanner_new rules n)))) \<le> n"
  using scanner_feeds_results [of "scanner_new rules n" "[]" rx chunks]
  by (simp add: scanner_new_def last_n_def)

lemma evaluate_Some_iff:
  "rule_set_evaluate rx rules t \<noteq> None \<longleftrightarrow> (\<exists>(name, re, a) \<in> set rules. rx_is_match rx re t)"
  by (induction rx rules t rule: rule_set_evaluate.induct) auto

lemma contains_str_infix: "contains_str w s \<longleftrightarrow> (\<exists>l r. s = l @ w @ r)"
  unfolding contains_str_def using find_str_None_iff by auto

lemma concat_take_position:
  "e < length (concat chunks) \<Longrightarrow>
   \<exists>i < length chunks. length (concat (take i chunks)) \<le> e \<and> e < length (concat (take (Suc i) chunks))"
proof (induction chunks arbitrary: e)
  case (Cons c cs)
  show ?case
  proof (cases "e < length c")
    case True
    then show ?thesis by (intro exI [of _ 0]) simp
  next
    case False
    then have "e - length c < length (concat cs)" using Cons.prems by simp
    then obtain i where "i < length cs" "length (concat (take i cs)) \<le> e - length c"
      "e - length c < length (concat (take (Suc i) cs))"
      using Cons.IH [of "e - length c"] by blast
    then show ?thesis using False by (intro exI [of _ "Suc i"]) auto
  qed
qed simp

text \<open>
  Property C21. No match is missed across chunk boundaries: an ASCII word \<open>w\<close> that occurs anywhere
  in the stream, and that some rule recognises in every text containing it, is reported by some
  chunk, provided every chunk leaves room for the word in the tail (\<open>length c + length w \<le>
  max_tail + 1\<close>).
\<close>

theorem scanner_no_missed_match:
  assumes w: "w \<noteq> []" "\<forall>c \<in> set w. is_ascii c" and occ: "contains_str w (concat chunks)"
    and rule: "(name, re, a) \<in> set rules" "\<And>t. contains_str w t \<Longrightarrow> rx_is_match rx re t"
    and size: "\<forall>c \<in> set chunks. length c + length w \<le> n + 1"
  shows "\<exists>d \<in> set (fst (scanner_feeds rx chunks (scanner_new rules n))). d \<noteq> None"
proof -
  obtain l r where lr: "concat chunks = l @ w @ r" using occ contains_str_infix by auto
  let ?e = "length l + length w - 1"
  have "?e < length (concat chunks)" using w(1) by (cases w) (simp_all add: lr)
  then obtain i where i: "i < length chunks" and lo: "length (concat (take i chunks)) \<le> ?e"
    and hi: "?e < length (concat (take (Suc i) chunks))"
    using concat_take_position by blast
  let ?s = "concat (take (Suc i) chunks)"
  obtain q where q: "concat chunks = ?s @ q"
    by (metis append_take_drop_id concat_append)
  have len: "length l + length w \<le> length ?s" using hi w(1) by (cases w) auto
  have s: "?s = l @ w @ take (length ?s - length l - length w) r"
    using arg_cong [OF q [unfolded lr], of "take (length ?s)"] len by simp
  let ?k = "length ?s - n"
  have "length (concat (take (Suc i) chunks)) = length (concat (take i chunks)) + length (chunks ! i)"
    using i by (simp add: take_Suc_conv_app_nth)
  moreover have "length (chunks ! i) + length w \<le> n + 1" using size i by simp
  ultimately have k: "?k \<le> length l" using lo w(1) by (cases w) auto
  let ?r = "take (length ?s - length l - length w) r"
  have "last_n n ?s = drop ?k (l @ w @ ?r)" unfolding last_n_def using s by simp
  then have "last_n n ?s = drop ?k l @ w @ ?r" using k by simp
  then have "contains_str w (utf8_lossy (last_n n ?s))"
    using utf8_lossy_ascii_word [OF w] contains_str_infix by auto
  then have hit: "rule_set_evaluate rx rules (utf8_lossy (last_n n ?s)) \<noteq> None"
    unfolding evaluate_Some_iff using rule by auto
  have "fst (scanner_feeds rx chunks (scanner_new rules n)) =
      map (\<lambda>i. rule_set_evaluate rx rules (utf8_lossy (last_n n (concat (take (Suc i) chunks)))))
        [0..<length chunks]"
    using scanner_feeds_results [of "scanner_new rules n" "[]" rx chunks]
    by (simp add: scanner_new_def last_n_def)
  then show ?thesis using hit i by auto
qed

text \<open>An engine whose expressions are literal words.\<close>

definition word_engine :: "string regex_engine" where
  "word_engine = \<lparr>rx_compile = Inr, rx_is_match = contains_str\<rparr>"

theorem scanner_no_missed_match_witness:
  "\<exists>d \<in> set (fst (scanner_feeds word_engine [''xxba'', ''dyy''] (scanner_new [(''r'', ''bad'', Block)] 6))).
     d \<noteq> None"
proof (rule scanner_no_missed_match [of "''bad''"])
  show "contains_str ''bad'' (concat [''xxba'', ''dyy''])" by code_simp
  show "\<forall>c \<in> set ''bad''. is_ascii c" by (simp add: is_ascii_def byte_of_def)
  show "(''r'', ''bad'', Block) \<in> set [(''r'', ''bad'', Block)]" by simp
qed (simp_all add: word_engine_def)

text \<open>
  Without that room a match is lost: the tail is cut before it is evaluated, so a word at the
  start of one large chunk is dropped unseen.
\<close>

lemma scanner_large_chunk_missed:
  "fst (scanner_feed word_engine ''bad-tail-tail'' (scanner_new [(''r'', ''bad'', Block)] 8)) = None"
  by code_simp

end
