(* ===== verification/Policy_Merge.thy ===== *)
theory Policy_Merge
  imports Last_Known_Good Guardrail
begin

text \<open>
  The gateway's policy merge, \<open>hygress-gateway/src/policy_loader.rs\<close>: a route section over the
  global defaults, the entry that also holds the compiled static rules, the table precomputed per
  load, and the reload of the policy handle. The table is compared with the direct merge.
\<close>

record merged_policy =
  mp_limits :: "limits_spec option"
  mp_quota :: "quota_spec option"
  mp_guardrail :: "guardrail_spec option"
  mp_actions :: "route_policy_actions option"

definition bare_ingress_name :: "string \<Rightarrow> string" where
  "bare_ingress_name ingress = last_segment CHR ''/'' ingress"

definition merge_limits :: "limits_spec option \<Rightarrow> limits_spec option \<Rightarrow> limits_spec option" where
  "merge_limits global route =
     (case (global, route) of
        (None, None) \<Rightarrow> None
      | (Some g, None) \<Rightarrow> Some g
      | (None, Some r) \<Rightarrow> Some r
      | (Some g, Some r) \<Rightarrow>
          Some \<lparr>ls_ip = or_else (ls_ip r) (ls_ip g), ls_consumer = or_else (ls_consumer r) (ls_consumer g)\<rparr>)"

definition merge_quota :: "quota_spec option \<Rightarrow> quota_spec option \<Rightarrow> quota_spec option" where
  "merge_quota global route =
     map_option (\<lambda>b. \<lparr>by_model_tokens = Some b\<rparr>)
       (or_else (Option.bind route by_model_tokens) (Option.bind global by_model_tokens))"

definition merge_guardrail :: "guardrail_spec option \<Rightarrow> guardrail_spec option \<Rightarrow> guardrail_spec option" where
  "merge_guardrail global route =
     (case (global, route) of
        (None, None) \<Rightarrow> None
      | (Some g, None) \<Rightarrow> Some g
      | (None, Some r) \<Rightarrow> Some r
      | (Some g, Some r) \<Rightarrow>
          Some \<lparr>gs_fail_mode = gs_fail_mode r, gs_static_rules = gs_static_rules g @ gs_static_rules r,
               gs_llm = or_else (gs_llm r) (gs_llm g)\<rparr>)"

definition merge_spec :: "global_policy \<Rightarrow> route_policy_spec option \<Rightarrow> merged_policy" where
  "merge_spec g route =
     (case route of
        Some r \<Rightarrow> \<lparr>mp_limits = merge_limits (gp_limits g) (rs_limits r),
                   mp_quota = merge_quota (gp_quota g) (rs_quota r),
                   mp_guardrail = merge_guardrail (gp_guardrail g) (rs_guardrail r),
                   mp_actions = rs_policy r\<rparr>
      | None \<Rightarrow> \<lparr>mp_limits = gp_limits g, mp_quota = gp_quota g, mp_guardrail = gp_guardrail g,
                 mp_actions = None\<rparr>)"

definition merge_policy :: "policy_config \<Rightarrow> string \<Rightarrow> merged_policy" where
  "merge_policy cfg bare = merge_spec (pc_global cfg) (for_ingress cfg bare)"

record 'r merged_entry =
  me_policy :: merged_policy
  me_static_set :: "'r static_rule_set option"

definition merged_compile :: "'r regex_engine \<Rightarrow> merged_policy \<Rightarrow> 'r merged_entry" where
  "merged_compile rx policy =
     \<lparr>me_policy = policy,
      me_static_set = Option.bind (mp_guardrail policy) (\<lambda>g.
        if gs_static_rules g = [] then None
        else (case rule_set_new rx (gs_static_rules g) of Inr rules \<Rightarrow> Some rules | Inl _ \<Rightarrow> None))\<rparr>"

record 'r merged_table =
  mt_global :: "'r merged_entry"
  mt_by_glob :: "(string, 'r merged_entry) hash_map"

definition merged_build :: "'r regex_engine \<Rightarrow> policy_config \<Rightarrow> 'r merged_table" where
  "merged_build rx cfg =
     \<lparr>mt_global = merged_compile rx (merge_spec (pc_global cfg) None),
      mt_by_glob = foldl (\<lambda>m spec. hm_insert (name_glob spec)
          (merged_compile rx (merge_spec (pc_global cfg) (Some spec))) m) [] (pc_routes cfg)\<rparr>"

definition merged_for_ingress :: "'r merged_table \<Rightarrow> policy_config \<Rightarrow> string \<Rightarrow> 'r merged_entry" where
  "merged_for_ingress tbl cfg bare =
     (case for_ingress cfg bare of
        Some spec \<Rightarrow>
          (case hm_get (mt_by_glob tbl) (name_glob spec) of Some e \<Rightarrow> e | None \<Rightarrow> mt_global tbl)
      | None \<Rightarrow> mt_global tbl)"

lemma for_ingress_find:
  "for_ingress cfg bare = find (\<lambda>r. glob_match (name_glob r) bare) (rev (pc_routes cfg))"
  unfolding for_ingress_def
  using for_ingress_last [of "\<lambda>r. glob_match (name_glob r) bare" None "pc_routes cfg"]
  by (simp split: option.splits)

lemma foldl_insert_get:
  "hm_get (foldl (\<lambda>m spec. hm_insert (key spec) (val spec) m) m specs) k =
     (case find (\<lambda>spec. key spec = k) (rev specs) of Some spec \<Rightarrow> Some (val spec) | None \<Rightarrow> hm_get m k)"
  by (induction specs rule: rev_induct) (auto simp: hm.get_insert split: option.splits)

lemma find_same_key:
  assumes "find (\<lambda>r. P (key r)) xs = Some r"
  shows "find (\<lambda>r'. key r' = key r) xs = Some r"
  using assms
proof (induction xs)
  case (Cons x xs)
  show ?case
  proof (cases "P (key x)")
    case False
    then have "find (\<lambda>r. P (key r)) xs = Some r" using Cons.prems by simp
    moreover from this have "P (key r)" by (auto simp: find_Some_iff)
    ultimately show ?thesis using Cons.IH False by auto
  qed (use Cons.prems in simp)
qed simp

lemma merged_table_direct:
  "merged_for_ingress (merged_build rx cfg) cfg bare = merged_compile rx (merge_policy cfg bare)"
proof (cases "for_ingress cfg bare")
  case None
  then show ?thesis by (simp add: merged_for_ingress_def merged_build_def merge_policy_def)
next
  case (Some spec)
  then have "find (\<lambda>r. name_glob r = name_glob spec) (rev (pc_routes cfg)) = Some spec"
    unfolding for_ingress_find
    using find_same_key [where P = "\<lambda>g. glob_match g bare" and key = name_glob] by blast
  then show ?thesis using Some
    by (simp add: merged_for_ingress_def merged_build_def merge_policy_def foldl_insert_get)
qed

lemma merge_quota_tokens:
  "Option.bind (merge_quota g r) by_model_tokens =
     or_else (Option.bind r by_model_tokens) (Option.bind g by_model_tokens)"
  unfolding merge_quota_def
  by (cases "or_else (Option.bind r by_model_tokens) (Option.bind g by_model_tokens)") simp_all

text \<open>
  What the merge of a matched section guarantees, dimension by dimension: the route's
  limit or budget where it has one and the global one otherwise, the global static rules before
  the route's (none is ever dropped), the route's fail mode, and actions from the route only.
\<close>

theorem merge_spec_dimensions:
  "let m = merge_spec g (Some r) in
     Option.bind (mp_limits m) ls_ip =
       or_else (Option.bind (rs_limits r) ls_ip) (Option.bind (gp_limits g) ls_ip)
   \<and> Option.bind (mp_limits m) ls_consumer =
       or_else (Option.bind (rs_limits r) ls_consumer) (Option.bind (gp_limits g) ls_consumer)
   \<and> Option.bind (mp_quota m) by_model_tokens =
       or_else (Option.bind (rs_quota r) by_model_tokens) (Option.bind (gp_quota g) by_model_tokens)
   \<and> (case mp_guardrail m of None \<Rightarrow> [] | Some x \<Rightarrow> gs_static_rules x) =
       (case gp_guardrail g of None \<Rightarrow> [] | Some x \<Rightarrow> gs_static_rules x) @
       (case rs_guardrail r of None \<Rightarrow> [] | Some x \<Rightarrow> gs_static_rules x)
   \<and> map_option gs_fail_mode (mp_guardrail m) =
       or_else (map_option gs_fail_mode (rs_guardrail r)) (map_option gs_fail_mode (gp_guardrail g))
   \<and> mp_actions m = rs_policy r"
  unfolding Let_def merge_spec_def option.case merged_policy.select_convs merge_quota_tokens
  by (auto simp: merge_limits_def merge_guardrail_def or_else_def split: option.splits)

section \<open>The policy handle\<close>

text \<open>
  What one attempt sees of the policy file: whether it is a file, what reading it gives, and its
  modification time. The three are separate system calls, so they need not agree. The YAML
  deserialiser is the parameter \<open>parse_yaml\<close>.
\<close>

datatype read_result = ReadNotFound | ReadFailed string | ReadBytes bytes

record file_view =
  fv_is_file :: bool
  fv_read :: read_result
  fv_mtime :: "nat option"

definition load_policy ::
  "(bytes \<Rightarrow> string + policy_config) \<Rightarrow> string \<Rightarrow> read_result \<Rightarrow> string + policy_config" where
  "load_policy parse_yaml path rd =
     (case rd of
        ReadNotFound \<Rightarrow> Inr policy_default
      | ReadFailed e \<Rightarrow> Inl (''read '' @ path @ '': '' @ e)
      | ReadBytes b \<Rightarrow>
          if list_all is_ascii_whitespace b then Inr policy_default
          else (case parse_yaml b of
                  Inr cfg \<Rightarrow> Inr cfg | Inl e \<Rightarrow> Inl (''parse '' @ path @ '': '' @ e)))"

record 'r policy_runtime =
  pr_config :: policy_config
  pr_merged :: "'r merged_table"

definition runtime_of :: "'r regex_engine \<Rightarrow> policy_config \<Rightarrow> 'r policy_runtime" where
  "runtime_of rx cfg = \<lparr>pr_config = cfg, pr_merged = merged_build rx cfg\<rparr>"

record 'r policy_handle =
  ph_state :: "'r policy_runtime"
  ph_path :: string
  ph_last_mtime :: "nat option"
  ph_loaded_once :: bool

definition policy_handle_new ::
  "'r regex_engine \<Rightarrow> (bytes \<Rightarrow> string + policy_config) \<Rightarrow> string \<Rightarrow> file_view \<Rightarrow> 'r policy_handle" where
  "policy_handle_new rx parse_yaml path fv =
     (case load_policy parse_yaml path (fv_read fv) of
        Inr c \<Rightarrow> \<lparr>ph_state = runtime_of rx c, ph_path = path, ph_last_mtime = fv_mtime fv,
                  ph_loaded_once = fv_is_file fv\<rparr>
      | Inl _ \<Rightarrow> \<lparr>ph_state = runtime_of rx policy_default, ph_path = path,
                  ph_last_mtime = fv_mtime fv, ph_loaded_once = False\<rparr>)"

definition merged_for :: "'r policy_handle \<Rightarrow> string \<Rightarrow> 'r merged_entry" where
  "merged_for h bare = merged_for_ingress (pr_merged (ph_state h)) (pr_config (ph_state h)) bare"

definition policy_reload ::
  "'r regex_engine \<Rightarrow> (bytes \<Rightarrow> string + policy_config) \<Rightarrow> file_view \<Rightarrow> 'r policy_handle
     \<Rightarrow> bool \<times> 'r policy_handle" where
  "policy_reload rx parse_yaml fv h =
     (if \<not> fv_is_file fv then (False, h)
      else (case load_policy parse_yaml (ph_path h) (fv_read fv) of
              Inr c \<Rightarrow> (True, h\<lparr>ph_state := runtime_of rx c, ph_last_mtime := fv_mtime fv,
                              ph_loaded_once := True\<rparr>)
            | Inl _ \<Rightarrow> (False, h)))"

definition policy_poll ::
  "'r regex_engine \<Rightarrow> (bytes \<Rightarrow> string + policy_config) \<Rightarrow> nat option \<Rightarrow> file_view \<Rightarrow> 'r policy_handle
     \<Rightarrow> bool \<times> 'r policy_handle" where
  "policy_poll rx parse_yaml mtime fv h =
     (case mtime of
        None \<Rightarrow> (False, h)
      | Some mt \<Rightarrow> if ph_last_mtime h = Some mt then (False, h) else policy_reload rx parse_yaml fv h)"

text \<open>The life of a handle: built once, then reloaded and polled with whatever the file shows.\<close>

inductive policy_reachable ::
  "'r regex_engine \<Rightarrow> (bytes \<Rightarrow> string + policy_config) \<Rightarrow> 'r policy_handle \<Rightarrow> bool"
  for rx parse_yaml where
  built: "policy_reachable rx parse_yaml (policy_handle_new rx parse_yaml path fv)"
| reloaded: "policy_reachable rx parse_yaml h \<Longrightarrow>
    policy_reachable rx parse_yaml (snd (policy_reload rx parse_yaml fv h))"
| polled: "policy_reachable rx parse_yaml h \<Longrightarrow>
    policy_reachable rx parse_yaml (snd (policy_poll rx parse_yaml mt fv h))"

lemma policy_reload_state:
  "ph_state (snd (policy_reload rx parse_yaml fv h)) \<in> insert (ph_state h) (range (runtime_of rx))"
  by (auto simp: policy_reload_def split: sum.splits)

lemma policy_reachable_consistent:
  "policy_reachable rx parse_yaml h \<Longrightarrow> ph_state h \<in> range (runtime_of rx)"
proof (induction rule: policy_reachable.induct)
  case (built path fv)
  then show ?case by (auto simp: policy_handle_new_def split: sum.splits)
next
  case (reloaded h fv)
  then show ?case using policy_reload_state [of rx parse_yaml fv h] by auto
next
  case (polled h mt fv)
  then show ?case using policy_reload_state [of rx parse_yaml fv h]
    by (auto simp: policy_poll_def split: option.splits)
qed

text \<open>
  Property C22. In every reachable state of the policy handle the config and its table belong
  together, so a request sees the direct merge of the policy in force; an attempt that reports
  failure leaves that policy in force.
\<close>

theorem policy_handle_consistent:
  assumes "policy_reachable rx parse_yaml h"
  shows "merged_for h bare = merged_compile rx (merge_policy (pr_config (ph_state h)) bare)
    \<and> (fst (policy_reload rx parse_yaml fv h) \<or> snd (policy_reload rx parse_yaml fv h) = h)
    \<and> (fst (policy_poll rx parse_yaml mt fv h) \<or> snd (policy_poll rx parse_yaml mt fv h) = h)"
proof -
  obtain cfg where cfg: "ph_state h = runtime_of rx cfg"
    using policy_reachable_consistent [OF assms] by auto
  have "merged_for_ingress (merged_build rx cfg) cfg bare = merged_compile rx (merge_policy cfg bare)"
    by (rule merged_table_direct)
  then have "merged_for h bare = merged_compile rx (merge_policy (pr_config (ph_state h)) bare)"
    by (simp add: merged_for_def cfg runtime_of_def)
  moreover have "fst (policy_reload rx parse_yaml fv h) \<or> snd (policy_reload rx parse_yaml fv h) = h"
    by (auto simp: policy_reload_def split: sum.splits)
  ultimately show ?thesis by (auto simp: policy_poll_def split: option.splits)
qed

theorem policy_handle_consistent_witness:
  "merged_for (policy_handle_new word_engine (\<lambda>_. Inl ''bad yaml'') ''/p''
     \<lparr>fv_is_file = True, fv_read = ReadBytes ''x'', fv_mtime = Some 1\<rparr>) ''a''
   = merged_compile word_engine (merge_policy policy_default ''a'')"
proof -
  let ?fv = "\<lparr>fv_is_file = True, fv_read = ReadBytes ''x'', fv_mtime = Some 1\<rparr>"
  let ?h = "policy_handle_new word_engine (\<lambda>_. Inl ''bad yaml'') ''/p'' ?fv"
  have "policy_reachable word_engine (\<lambda>_. Inl ''bad yaml'') ?h" by (rule policy_reachable.built)
  from policy_handle_consistent [OF this]
  have "merged_for ?h ''a'' = merged_compile word_engine (merge_policy (pr_config (ph_state ?h)) ''a'')"
    by blast
  moreover have "pr_config (ph_state ?h) = policy_default"
    by (simp add: policy_handle_new_def load_policy_def runtime_of_def is_ascii_whitespace_def)
  ultimately show ?thesis by simp
qed

text \<open>The handle keeps its last good policy: what a reload installs, when it installs something.\<close>

definition reload_outcome ::
  "'r regex_engine \<Rightarrow> (bytes \<Rightarrow> string + policy_config) \<Rightarrow> string \<Rightarrow> file_view \<Rightarrow> 'r policy_runtime option" where
  "reload_outcome rx parse_yaml path fv =
     (if \<not> fv_is_file fv then None
      else case load_policy parse_yaml path (fv_read fv) of Inl _ \<Rightarrow> None | Inr c \<Rightarrow> Some (runtime_of rx c))"

interpretation policy_lkg: last_known_good "policy_reload rx parse_yaml" ph_state
  "\<lambda>fv h. reload_outcome rx parse_yaml (ph_path h) fv" for rx :: "'r regex_engine" and parse_yaml
  by unfold_locales (auto simp: policy_reload_def reload_outcome_def split: sum.splits)

lemma policy_in_force_origin:
  fixes h :: "'r policy_handle"
  shows "ph_state (policy_lkg.attempts rx parse_yaml fvs h) = ph_state h \<or>
    (\<exists>fv \<in> set fvs. reload_outcome rx parse_yaml (ph_path h) fv = Some (ph_state (policy_lkg.attempts rx parse_yaml fvs h)))"
  by (rule policy_lkg.in_use_origin)

text \<open>
  The two file observations of a reload can disagree: a file that disappears between the
  existence test and the read reports success and installs the all-pass default.
\<close>

lemma reload_race_installs_default:
  "policy_reload rx parse_yaml \<lparr>fv_is_file = True, fv_read = ReadNotFound, fv_mtime = mt\<rparr> h =
     (True, h\<lparr>ph_state := runtime_of rx policy_default, ph_last_mtime := mt, ph_loaded_once := True\<rparr>)"
  by (simp add: policy_reload_def load_policy_def)

end
