(* ===== verification/Json_Scan.thy ===== *)
theory Json_Scan
  imports Utf8
begin

text \<open>
  The bounded top-level JSON scanner of \<open>hygress-gateway/src/body.rs\<close>: the string, number and
  value tokens, the member loop with its visitor, and the string encoder. Positions are byte
  offsets into the body; \<open>Err(())\<close> and an absent \<open>Option\<close> are \<open>None\<close>. A Rust \<open>char\<close> is its code
  point, a \<open>String\<close> its UTF-8 bytes. Masks and shifts of the code are written as \<open>mod\<close>,
  \<open>div\<close> and products.
\<close>

section \<open>Characters\<close>

definition char_from_u32 :: "nat \<Rightarrow> nat option" where
  "char_from_u32 cp = (if cp < 0x110000 \<and> \<not> (0xD800 \<le> cp \<and> cp \<le> 0xDFFF) then Some cp else None)"

definition utf8_encode :: "nat \<Rightarrow> bytes" where
  "utf8_encode cp =
     (if cp < 0x80 then [char_of cp]
      else if cp < 0x800 then [char_of (0xC0 + cp div 64), char_of (0x80 + cp mod 64)]
      else if cp < 0x10000 then
        [char_of (0xE0 + cp div 4096), char_of (0x80 + cp div 64 mod 64), char_of (0x80 + cp mod 64)]
      else
        [char_of (0xF0 + cp div 262144), char_of (0x80 + cp div 4096 mod 64),
         char_of (0x80 + cp div 64 mod 64), char_of (0x80 + cp mod 64)])"

definition byte_at :: "bytes \<Rightarrow> nat \<Rightarrow> nat option" where
  "byte_at b i = map_option byte_of (get_at b i)"

definition cont_bits :: "nat \<Rightarrow> bool" where
  "cont_bits c \<longleftrightarrow> c div 64 = 2"

definition decode_utf8 :: "bytes \<Rightarrow> nat \<Rightarrow> (nat \<times> nat) option" where
  "decode_utf8 b i =
     Option.bind (byte_at b i) (\<lambda>c0.
       if c0 < 0xE0 then
         Option.bind (byte_at b (i + 1)) (\<lambda>c1.
           if c0 < 0xC2 \<or> \<not> cont_bits c1 then None
           else map_option (\<lambda>ch. (ch, 2)) (char_from_u32 (c0 mod 32 * 64 + c1 mod 64)))
       else if c0 < 0xF0 then
         Option.bind (byte_at b (i + 1)) (\<lambda>c1.
         Option.bind (byte_at b (i + 2)) (\<lambda>c2.
           if (c0 = 0xE0 \<and> c1 < 0xA0) \<or> (c0 = 0xED \<and> c1 \<ge> 0xA0) \<or> \<not> cont_bits c1 \<or> \<not> cont_bits c2
           then None
           else map_option (\<lambda>ch. (ch, 3))
                  (char_from_u32 (c0 mod 16 * 4096 + c1 mod 64 * 64 + c2 mod 64))))
       else if c0 < 0xF5 then
         Option.bind (byte_at b (i + 1)) (\<lambda>c1.
         Option.bind (byte_at b (i + 2)) (\<lambda>c2.
         Option.bind (byte_at b (i + 3)) (\<lambda>c3.
           if (c0 = 0xF0 \<and> c1 < 0x90) \<or> (c0 = 0xF4 \<and> c1 \<ge> 0x90) \<or>
              \<not> cont_bits c1 \<or> \<not> cont_bits c2 \<or> \<not> cont_bits c3
           then None
           else map_option (\<lambda>ch. (ch, 4))
                  (char_from_u32 (c0 mod 8 * 262144 + c1 mod 64 * 4096 + c2 mod 64 * 64 + c3 mod 64)))))
       else None)"

definition hex_digit :: "char \<Rightarrow> nat option" where
  "hex_digit d =
     (let n = byte_of d in
      if 48 \<le> n \<and> n \<le> 57 then Some (n - 48)
      else if 97 \<le> n \<and> n \<le> 102 then Some (n - 97 + 10)
      else if 65 \<le> n \<and> n \<le> 70 then Some (n - 65 + 10)
      else None)"

fun hex_value :: "nat \<Rightarrow> string \<Rightarrow> nat option" where
  "hex_value v [] = Some v"
| "hex_value v (d # ds) = Option.bind (hex_digit d) (\<lambda>h. hex_value (v * 16 + h) ds)"

definition parse_hex4 :: "bytes \<Rightarrow> nat \<Rightarrow> nat option" where
  "parse_hex4 b from = Option.bind (get_range b from (from + 4)) (hex_value 0)"

section \<open>Whitespace, strings, numbers\<close>

definition json_ws :: "char \<Rightarrow> bool" where
  "json_ws c \<longleftrightarrow> c = CHR '' '' \<or> c = CHR 0x09 \<or> c = CHR 0x0D \<or> c = CHR 0x0A"

function skip_ws :: "bytes \<Rightarrow> nat \<Rightarrow> nat" where
  "skip_ws b i = (if i < length b \<and> json_ws (b ! i) then skip_ws b (i + 1) else i)"
  by pat_completeness auto
termination by (relation "measure (\<lambda>(b, i). length b - i)") auto

declare skip_ws.simps [simp del]

definition simple_escape :: "char \<Rightarrow> nat option" where
  "simple_escape e =
     (if e = CHR 0x22 then Some 0x22 else if e = CHR 0x5C then Some 0x5C
      else if e = CHR ''/'' then Some 0x2F else if e = CHR ''b'' then Some 0x08
      else if e = CHR ''f'' then Some 0x0C else if e = CHR ''n'' then Some 0x0A
      else if e = CHR ''r'' then Some 0x0D else if e = CHR ''t'' then Some 0x09 else None)"

definition unicode_escape :: "bytes \<Rightarrow> nat \<Rightarrow> (nat \<times> nat option) option" where
  "unicode_escape b i =
     Option.bind (parse_hex4 b (i + 2)) (\<lambda>cp.
       if 0xD800 \<le> cp \<and> cp \<le> 0xDBFF then
         if get_at b (i + 6) \<noteq> Some (CHR 0x5C) \<or> get_at b (i + 7) \<noteq> Some (CHR ''u'') then None
         else
           Option.bind (parse_hex4 b (i + 8)) (\<lambda>low.
             if \<not> (0xDC00 \<le> low \<and> low \<le> 0xDFFF) then None
             else map_option (\<lambda>ch. (i + 12, Some ch))
                    (char_from_u32 (0x10000 + (cp - 0xD800) * 1024 + (low - 0xDC00))))
       else if 0xDC00 \<le> cp \<and> cp \<le> 0xDFFF then None
       else map_option (\<lambda>ch. (i + 6, Some ch)) (char_from_u32 cp))"

definition json_string_char :: "bytes \<Rightarrow> nat \<Rightarrow> (nat \<times> nat option) option" where
  "json_string_char b i =
     Option.bind (get_at b i) (\<lambda>c.
       if c = CHR 0x22 then Some (i + 1, None)
       else if c = CHR 0x5C then
         Option.bind (get_at b (i + 1)) (\<lambda>esc.
           if esc = CHR ''u'' then unicode_escape b i
           else map_option (\<lambda>ch. (i + 2, Some ch)) (simple_escape esc))
       else if byte_of c < 0x20 then None
       else if byte_of c < 0x80 then Some (i + 1, Some (byte_of c))
       else map_option (\<lambda>(ch, len). (i + len, Some ch)) (decode_utf8 b i))"

lemma decode_utf8_progress: "decode_utf8 b i = Some (ch, n) \<Longrightarrow> 0 < n"
  by (auto simp: decode_utf8_def bind_eq_Some_conv split: if_splits)

lemma json_string_char_progress:
  "json_string_char b i = Some (j, ch) \<Longrightarrow> i < j \<and> i < length b"
  by (auto simp: json_string_char_def unicode_escape_def bind_eq_Some_conv get_at_Some_iff
      dest: decode_utf8_progress split: if_splits)

function parse_string_loop :: "bytes \<Rightarrow> nat \<Rightarrow> string \<Rightarrow> (string \<times> nat) option" where
  "parse_string_loop b i out =
     (case json_string_char b i of
        None \<Rightarrow> None
      | Some (j, Some ch) \<Rightarrow> parse_string_loop b j (out @ utf8_encode ch)
      | Some (j, None) \<Rightarrow> Some (out, j))"
  by pat_completeness auto
termination
  by (relation "measure (\<lambda>(b, i, out). length b - i)") (auto dest!: json_string_char_progress)

declare parse_string_loop.simps [simp del]

definition parse_json_string :: "bytes \<Rightarrow> nat \<Rightarrow> (string \<times> nat) option" where
  "parse_json_string b from =
     (if get_at b from \<noteq> Some (CHR 0x22) then None else parse_string_loop b (from + 1) [])"

function skip_string_loop :: "bytes \<Rightarrow> nat \<Rightarrow> nat option" where
  "skip_string_loop b i =
     (case json_string_char b i of
        None \<Rightarrow> None
      | Some (j, Some ch) \<Rightarrow> skip_string_loop b j
      | Some (j, None) \<Rightarrow> Some j)"
  by pat_completeness auto
termination
  by (relation "measure (\<lambda>(b, i). length b - i)") (auto dest!: json_string_char_progress)

declare skip_string_loop.simps [simp del]

definition skip_json_string :: "bytes \<Rightarrow> nat \<Rightarrow> nat option" where
  "skip_json_string b from =
     (if get_at b from \<noteq> Some (CHR 0x22) then None else skip_string_loop b (from + 1))"

definition digit_at :: "bytes \<Rightarrow> nat \<Rightarrow> bool" where
  "digit_at b p = (case get_at b p of Some c \<Rightarrow> is_ascii_digit c | None \<Rightarrow> False)"

function skip_digits :: "bytes \<Rightarrow> nat \<Rightarrow> nat" where
  "skip_digits b p = (if digit_at b p then skip_digits b (p + 1) else p)"
  by pat_completeness auto
termination
  by (relation "measure (\<lambda>(b, i). length b - i)") (auto simp: digit_at_def get_at_def split: if_splits)

declare skip_digits.simps [simp del]

text \<open>The three parts of a number: integer, fraction, exponent.\<close>

definition skip_integer :: "bytes \<Rightarrow> nat \<Rightarrow> nat option" where
  "skip_integer b p =
     Option.bind (get_at b p) (\<lambda>c.
       if c = CHR ''0'' then (if digit_at b (p + 1) then None else Some (p + 1))
       else if is_ascii_digit c then Some (skip_digits b p)
       else None)"

definition skip_fraction :: "bytes \<Rightarrow> nat \<Rightarrow> nat option" where
  "skip_fraction b p =
     (if get_at b p = Some (CHR ''.'') then
        (if \<not> digit_at b (p + 1) then None else Some (skip_digits b (p + 1)))
      else Some p)"

definition skip_exponent :: "bytes \<Rightarrow> nat \<Rightarrow> nat option" where
  "skip_exponent b p =
     (if get_at b p = Some (CHR ''e'') \<or> get_at b p = Some (CHR ''E'') then
        (let q = (if get_at b (p + 1) = Some (CHR ''+'') \<or> get_at b (p + 1) = Some (CHR ''-'')
                  then p + 2 else p + 1)
         in if \<not> digit_at b q then None else Some (skip_digits b q))
      else Some p)"

definition skip_json_number :: "bytes \<Rightarrow> nat \<Rightarrow> nat option" where
  "skip_json_number b i =
     (let p = (if get_at b i = Some (CHR ''-'') then i + 1 else i) in
      Option.bind (skip_integer b p) (\<lambda>p1.
      Option.bind (skip_fraction b p1) (\<lambda>p2.
      Option.bind (skip_exponent b p2) (\<lambda>p3. if p3 = i then None else Some p3))))"

section \<open>Values\<close>

definition max_json_depth :: nat where
  "max_json_depth = 128"

text \<open>
  \<open>skip_json_value\<close>: \<open>Value\<close> is the function itself, \<open>Members\<close> the body of its object loop at
  the position \<open>q\<close> of a key, \<open>Elements\<close> the body of its array loop.
\<close>

datatype skip_mode = Value | Members | Elements

lemma skip_ws_ge: "i \<le> skip_ws b i"
  by (induction b i rule: skip_ws.induct) (subst skip_ws.simps, auto)

lemma skip_string_loop_progress: "skip_string_loop b i = Some j \<Longrightarrow> i < j \<and> i < length b"
proof (induction b i rule: skip_string_loop.induct)
  case (1 b i)
  then show ?case using json_string_char_progress [of b i]
    by (subst (asm) skip_string_loop.simps) (fastforce split: option.splits)
qed

lemma skip_json_string_progress: "skip_json_string b i = Some j \<Longrightarrow> i < j \<and> i < length b"
  using skip_string_loop_progress [of b "i + 1" j]
  by (auto simp: skip_json_string_def split: if_splits)

function skip_json :: "skip_mode \<Rightarrow> bytes \<Rightarrow> nat \<Rightarrow> nat \<Rightarrow> nat option" where
  "skip_json Value b i depth =
     (if depth > max_json_depth then None
      else let p = skip_ws b i in
        case get_at b p of
          None \<Rightarrow> None
        | Some c \<Rightarrow>
            if c = CHR 0x22 then skip_json_string b p
            else if c = CHR ''{'' then
              (let q = skip_ws b (p + 1) in
               if get_at b q = Some (CHR ''}'') then Some (q + 1) else skip_json Members b q depth)
            else if c = CHR ''['' then
              (let q = skip_ws b (p + 1) in
               if get_at b q = Some (CHR '']'') then Some (q + 1) else skip_json Elements b q depth)
            else if c = CHR ''t'' \<and> get_range b p (p + 4) = Some ''true'' then Some (p + 4)
            else if c = CHR ''f'' \<and> get_range b p (p + 5) = Some ''false'' then Some (p + 5)
            else if c = CHR ''n'' \<and> get_range b p (p + 4) = Some ''null'' then Some (p + 4)
            else if is_ascii_digit c \<or> c = CHR ''-'' then skip_json_number b p
            else None)"
| "skip_json Members b q depth =
     (case skip_json_string b q of
        None \<Rightarrow> None
      | Some after_key \<Rightarrow>
          let q1 = skip_ws b after_key in
          if get_at b q1 \<noteq> Some (CHR '':'') then None
          else
            case skip_json Value b (skip_ws b (q1 + 1)) (depth + 1) of
              None \<Rightarrow> None
            | Some q2 \<Rightarrow>
                let q3 = skip_ws b q2 in
                if get_at b q3 = Some (CHR '','') then skip_json Members b (skip_ws b (q3 + 1)) depth
                else if get_at b q3 = Some (CHR ''}'') then Some (q3 + 1)
                else None)"
| "skip_json Elements b q depth =
     (case skip_json Value b q (depth + 1) of
        None \<Rightarrow> None
      | Some q2 \<Rightarrow>
          let q3 = skip_ws b q2 in
          if get_at b q3 = Some (CHR '','') then skip_json Elements b (skip_ws b (q3 + 1)) depth
          else if get_at b q3 = Some (CHR '']'') then Some (q3 + 1)
          else None)"
  by pat_completeness auto

lemma skip_digits_ge: "p \<le> skip_digits b p"
  by (induction b p rule: skip_digits.induct) (subst skip_digits.simps, auto)

lemma skip_integer_progress: "skip_integer b p = Some j \<Longrightarrow> p < j"
  using skip_digits_ge [of "p + 1" b]
  by (auto simp: skip_integer_def bind_eq_Some_conv skip_digits.simps [of b p] digit_at_def split: if_splits)

lemma skip_json_number_progress:
  assumes "skip_json_number b i = Some j" shows "i < j"
proof -
  define p where "p = (if get_at b i = Some CHR ''-'' then i + 1 else i)"
  obtain p1 p2 where n: "skip_integer b p = Some p1" "skip_fraction b p1 = Some p2"
    "skip_exponent b p2 = Some j"
    using assms unfolding skip_json_number_def p_def [symmetric] Let_def
    by (auto simp: bind_eq_Some_conv split: if_splits)
  have "i \<le> p" by (simp add: p_def)
  moreover have "p < p1" using n(1) by (rule skip_integer_progress)
  moreover have "p1 \<le> p2" using n(2) skip_digits_ge [of "p1 + 1" b]
    by (auto simp: skip_fraction_def split: if_splits)
  moreover have "p2 \<le> j" using n(3) skip_digits_ge [of "p2 + 1" b] skip_digits_ge [of "p2 + 2" b]
    by (auto simp: skip_exponent_def Let_def split: if_splits)
  ultimately show ?thesis by simp
qed

text \<open>
  One successful step of each mode, with the recursive calls as a parameter \<open>f\<close>: the inversion
  that the progress, locality and shift lemmas share.
\<close>

definition value_step :: "(skip_mode \<Rightarrow> nat \<Rightarrow> nat \<Rightarrow> nat option) \<Rightarrow> bytes \<Rightarrow> nat \<Rightarrow> nat \<Rightarrow> nat \<Rightarrow> bool" where
  "value_step f b p depth j \<longleftrightarrow> depth \<le> max_json_depth \<and> (\<exists>c. get_at b p = Some c \<and>
     (c = CHR 0x22 \<and> skip_json_string b p = Some j \<or>
      c = CHR ''{'' \<and> (let q = skip_ws b (p + 1) in
         if get_at b q = Some (CHR ''}'') then j = q + 1 else f Members q depth = Some j) \<or>
      c = CHR ''['' \<and> (let q = skip_ws b (p + 1) in
         if get_at b q = Some (CHR '']'') then j = q + 1 else f Elements q depth = Some j) \<or>
      c = CHR ''t'' \<and> get_range b p (p + 4) = Some ''true'' \<and> j = p + 4 \<or>
      c = CHR ''f'' \<and> get_range b p (p + 5) = Some ''false'' \<and> j = p + 5 \<or>
      c = CHR ''n'' \<and> get_range b p (p + 4) = Some ''null'' \<and> j = p + 4 \<or>
      (is_ascii_digit c \<or> c = CHR ''-'') \<and> skip_json_number b p = Some j))"

lemma digit_not_token: "is_ascii_digit c \<Longrightarrow>
   c \<noteq> CHR 0x22 \<and> c \<noteq> CHR ''{'' \<and> c \<noteq> CHR ''['' \<and> c \<noteq> CHR ''t'' \<and> c \<noteq> CHR ''f'' \<and> c \<noteq> CHR ''n''"
  by (auto simp: is_ascii_digit_def)

definition value_body :: "(skip_mode \<Rightarrow> nat \<Rightarrow> nat \<Rightarrow> nat option) \<Rightarrow> bytes \<Rightarrow> nat \<Rightarrow> nat \<Rightarrow> nat option" where
  "value_body f b p depth =
     (if depth > max_json_depth then None
      else case get_at b p of
          None \<Rightarrow> None
        | Some c \<Rightarrow>
            if c = CHR 0x22 then skip_json_string b p
            else if c = CHR ''{'' then
              (let q = skip_ws b (p + 1) in
               if get_at b q = Some (CHR ''}'') then Some (q + 1) else f Members q depth)
            else if c = CHR ''['' then
              (let q = skip_ws b (p + 1) in
               if get_at b q = Some (CHR '']'') then Some (q + 1) else f Elements q depth)
            else if c = CHR ''t'' \<and> get_range b p (p + 4) = Some ''true'' then Some (p + 4)
            else if c = CHR ''f'' \<and> get_range b p (p + 5) = Some ''false'' then Some (p + 5)
            else if c = CHR ''n'' \<and> get_range b p (p + 4) = Some ''null'' then Some (p + 4)
            else if is_ascii_digit c \<or> c = CHR ''-'' then skip_json_number b p
            else None)"

lemma value_body_step: "value_body f b p depth = Some j \<longleftrightarrow> value_step f b p depth j"
proof (cases "depth \<le> max_json_depth")
  case True
  show ?thesis
  proof (cases "get_at b p")
    case (Some c)
    consider "c = CHR 0x22" | "c = CHR ''{''" | "c = CHR ''[''" | "c = CHR ''t''" | "c = CHR ''f''"
      | "c = CHR ''n''" | "is_ascii_digit c" | "c = CHR ''-''"
      | "c \<noteq> CHR 0x22" "c \<noteq> CHR ''{''" "c \<noteq> CHR ''[''" "c \<noteq> CHR ''t''" "c \<noteq> CHR ''f''" "c \<noteq> CHR ''n''"
        "\<not> is_ascii_digit c" "c \<noteq> CHR ''-''"
      by blast
    then show ?thesis
      by cases (use Some True digit_not_token in
        \<open>auto simp: value_body_def value_step_def Let_def\<close>)
  qed (simp add: value_body_def value_step_def)
qed (simp add: value_body_def value_step_def)

definition loop_step ::
  "(skip_mode \<Rightarrow> nat \<Rightarrow> nat \<Rightarrow> nat option) \<Rightarrow> skip_mode \<Rightarrow> char \<Rightarrow> bytes \<Rightarrow> nat \<Rightarrow> nat \<Rightarrow> nat \<Rightarrow> bool" where
  "loop_step f m close b v depth j \<longleftrightarrow> (\<exists>q2. f Value v (depth + 1) = Some q2 \<and>
     (get_at b (skip_ws b q2) = Some (CHR '','') \<and> f m (skip_ws b (skip_ws b q2 + 1)) depth = Some j \<or>
      get_at b (skip_ws b q2) = Some close \<and> j = skip_ws b q2 + 1))"

lemma skip_json_Value_dom:
  "skip_json_dom (Value, b, i, depth) \<Longrightarrow> skip_json Value b i depth = Some j \<longleftrightarrow>
     value_step (\<lambda>m. skip_json m b) b (skip_ws b i) depth j"
  unfolding value_body_step [symmetric] by (simp only: skip_json.psimps(1) value_body_def Let_def)

lemma skip_json_Members_dom:
  "skip_json_dom (Members, b, q, depth) \<Longrightarrow> skip_json Members b q depth = Some j \<longleftrightarrow>
     (\<exists>k. skip_json_string b q = Some k \<and> get_at b (skip_ws b k) = Some (CHR '':'') \<and>
       loop_step (\<lambda>m. skip_json m b) Members (CHR ''}'') b (skip_ws b (skip_ws b k + 1)) depth j)"
  by (auto simp: skip_json.psimps(2) loop_step_def Let_def split: option.splits)

lemma skip_json_Elements_dom:
  "skip_json_dom (Elements, b, q, depth) \<Longrightarrow> skip_json Elements b q depth = Some j \<longleftrightarrow>
     loop_step (\<lambda>m. skip_json m b) Elements (CHR '']'') b q depth j"
  by (auto simp: skip_json.psimps(3) loop_step_def Let_def split: option.splits)

lemma loop_step_progress:
  assumes "loop_step f m close b v depth j"
    and "\<And>q2. f Value v (depth + 1) = Some q2 \<Longrightarrow> v < q2"
    and "\<And>q2. f Value v (depth + 1) = Some q2 \<Longrightarrow> get_at b (skip_ws b q2) = Some (CHR '','') \<Longrightarrow>
       f m (skip_ws b (skip_ws b q2 + 1)) depth = Some j \<Longrightarrow> skip_ws b (skip_ws b q2 + 1) < j"
  shows "v < j"
proof -
  obtain q2 where q2: "f Value v (depth + 1) = Some q2" using assms(1) by (auto simp: loop_step_def)
  have "v < q2" "q2 \<le> skip_ws b q2" "skip_ws b q2 + 1 \<le> skip_ws b (skip_ws b q2 + 1)"
    using assms(2) [OF q2] by (simp_all only: skip_ws_ge)
  then show ?thesis using assms(1) assms(3) [OF q2] by (auto simp: loop_step_def q2 [simplified])
qed

lemma value_step_progress:
  assumes "value_step f b p depth j"
    and "depth \<le> max_json_depth \<Longrightarrow> get_at b p = Some (CHR ''{'') \<Longrightarrow> get_at b (skip_ws b (p + 1)) \<noteq> Some (CHR ''}'') \<Longrightarrow>
       f Members (skip_ws b (p + 1)) depth = Some j \<Longrightarrow> skip_ws b (p + 1) < j"
    and "depth \<le> max_json_depth \<Longrightarrow> get_at b p = Some (CHR ''['') \<Longrightarrow> get_at b (skip_ws b (p + 1)) \<noteq> Some (CHR '']'') \<Longrightarrow>
       f Elements (skip_ws b (p + 1)) depth = Some j \<Longrightarrow> skip_ws b (p + 1) < j"
  shows "p < j"
  using assms skip_ws_ge [of "p + 1" b] skip_json_string_progress [of b p j] skip_json_number_progress [of b p j]
  by (auto simp: value_step_def Let_def split: if_splits)

lemma skip_json_progress_dom:
  "skip_json_dom (m, b, i, depth) \<Longrightarrow> skip_json m b i depth = Some j \<Longrightarrow> i < j"
proof (induction m b i depth arbitrary: j rule: skip_json.pinduct)
  case (1 b i depth)
  have "skip_ws b i < j"
    using "1.prems" unfolding skip_json_Value_dom [OF "1.hyps"]
    by (rule value_step_progress) (rule "1.IH" [OF _ refl _ _ _ refl], auto)+
  then show ?case using skip_ws_ge [of i b] by simp
next
  case (2 b q depth)
  obtain k where k: "skip_json_string b q = Some k" "get_at b (skip_ws b k) = Some (CHR '':'')"
    and l: "loop_step (\<lambda>m. skip_json m b) Members (CHR ''}'') b (skip_ws b (skip_ws b k + 1)) depth j"
    using "2.prems" unfolding skip_json_Members_dom [OF "2.hyps"] by blast
  from l have "skip_ws b (skip_ws b k + 1) < j"
    by (rule loop_step_progress) (use "2.IH" k in auto)
  moreover have "q < k" "k \<le> skip_ws b k" "skip_ws b k + 1 \<le> skip_ws b (skip_ws b k + 1)"
    using skip_json_string_progress [OF k(1)] by (simp_all only: skip_ws_ge)
  ultimately show ?case by simp
next
  case (3 b q depth)
  from "3.prems" show ?case unfolding skip_json_Elements_dom [OF "3.hyps"]
    by (rule loop_step_progress) (use "3.IH" in auto)
qed

definition mode_rank :: "skip_mode \<Rightarrow> nat" where
  "mode_rank m = (if m = Elements then 1 else 0)"

lemma ws_shrink:
  assumes "get_at b (skip_ws b k) = Some c" and "i \<le> k"
  shows "length b - skip_ws b (Suc (skip_ws b k)) < length b - i"
proof -
  have "skip_ws b k < length b" using assms(1) by (simp add: get_at_Some_iff)
  moreover have "k \<le> skip_ws b k" "Suc (skip_ws b k) \<le> skip_ws b (Suc (skip_ws b k))"
    by (rule skip_ws_ge)+
  ultimately show ?thesis using assms(2) by simp
qed

lemma member_shrink:
  assumes "skip_json_string b q = Some k" and "skip_ws b (Suc (skip_ws b k)) < v"
    and "get_at b (skip_ws b v) = Some c"
  shows "length b - skip_ws b (Suc (skip_ws b v)) < length b - q"
proof (rule ws_shrink [OF assms(3)])
  have "q < k" using skip_json_string_progress [OF assms(1)] by simp
  moreover have "k \<le> skip_ws b k" "skip_ws b k \<le> skip_ws b (Suc (skip_ws b k))"
    by (simp_all add: skip_ws_ge Suc_leD)
  ultimately show "q \<le> v" using assms(2) by simp
qed

lemma skip_json_total: "skip_json_dom x"
proof -
  have "All skip_json_dom"
  proof (rule "skip_json.termination"
      [of "measures [\<lambda>(m, b, i, depth). length b - i, \<lambda>(m, b, i, depth). mode_rank m]"], goal_cases)
    case 1
    show ?case by simp
  qed (auto simp: mode_rank_def ws_shrink less_imp_le member_shrink
    dest!: skip_json_progress_dom dest: skip_json_string_progress)
  then show ?thesis by blast
qed

termination skip_json using skip_json_total by blast

declare skip_json.simps [simp del]

lemmas skip_json_Value = skip_json_Value_dom [OF skip_json_total]
lemmas skip_json_Members = skip_json_Members_dom [OF skip_json_total]
lemmas skip_json_Elements = skip_json_Elements_dom [OF skip_json_total]
lemmas skip_json_progress = skip_json_progress_dom [OF skip_json_total]


section \<open>Locality: a token depends on its own bytes\<close>

text \<open>Positions are relative to the text that follows them.\<close>

lemma get_range_shift: "get_range (p @ b) (length p + i) (length p + j) = get_range b i j"
  by (simp add: get_range_def)

lemma byte_at_shift: "byte_at (p @ b) (length p + i) = byte_at b i"
  by (simp add: byte_at_def get_at_append_right)

lemmas shift_at = get_at_append_right get_range_shift byte_at_shift

lemma skip_ws_shift: "skip_ws (p @ b) (length p + i) = length p + skip_ws b i"
proof (induction b i rule: skip_ws.induct)
  case (1 b i)
  then show ?case
    by (subst skip_ws.simps, subst (2) skip_ws.simps) (simp add: nth_append)
qed

lemma decode_utf8_shift: "decode_utf8 (p @ b) (length p + i) = decode_utf8 b i"
  by (simp only: decode_utf8_def add.assoc shift_at)

lemma parse_hex4_shift: "parse_hex4 (p @ b) (length p + i) = parse_hex4 b i"
  by (simp only: parse_hex4_def add.assoc shift_at)

lemma json_string_char_shift:
  "json_string_char (p @ b) (length p + i) =
     map_option (\<lambda>(j, ch). (length p + j, ch)) (json_string_char b i)"
proof -
  have u: "unicode_escape (p @ b) (length p + i) =
      map_option (\<lambda>(j, ch). (length p + j, ch)) (unicode_escape b i)"
    unfolding unicode_escape_def add.assoc shift_at parse_hex4_shift
    by (simp add: option.map_comp comp_def map_option_bind split: Option.bind_split)
  show ?thesis
    unfolding json_string_char_def add.assoc shift_at u decode_utf8_shift
    by (auto simp: option.map_comp comp_def case_prod_unfold split: Option.bind_split)
qed

lemma parse_string_loop_shift:
  "parse_string_loop (p @ b) (length p + i) out = map_option (\<lambda>(s, j). (s, length p + j)) (parse_string_loop b i out)"
proof (induction b i out rule: parse_string_loop.induct)
  case (1 b i out)
  show ?case
    by (subst parse_string_loop.simps, subst (2) parse_string_loop.simps)
       (use "1.IH" in \<open>auto simp: json_string_char_shift split: option.splits\<close>)
qed

lemma parse_json_string_shift:
  "parse_json_string (p @ b) (length p + i) = map_option (\<lambda>(s, j). (s, length p + j)) (parse_json_string b i)"
  by (simp only: parse_json_string_def add.assoc shift_at parse_string_loop_shift) simp

text \<open>Skipping a string is parsing it without the text.\<close>

lemma skip_string_loop_parse: "skip_string_loop b i = map_option snd (parse_string_loop b i out)"
proof (induction b i out rule: parse_string_loop.induct)
  case (1 b i out)
  show ?case
    by (subst skip_string_loop.simps, subst parse_string_loop.simps)
       (use "1.IH" in \<open>auto split: option.splits\<close>)
qed

lemma skip_json_string_parse: "skip_json_string b i = map_option snd (parse_json_string b i)"
  by (simp add: skip_json_string_def parse_json_string_def skip_string_loop_parse [of _ _ "[]"])

lemma skip_json_string_shift:
  "skip_json_string (p @ b) (length p + i) = map_option ((+) (length p)) (skip_json_string b i)"
  by (simp add: skip_json_string_parse parse_json_string_shift option.map_comp comp_def split_beta)

lemma digit_at_shift: "digit_at (p @ b) (length p + i) = digit_at b i"
  by (simp add: digit_at_def get_at_append_right)

lemma skip_digits_shift: "skip_digits (p @ b) (length p + i) = length p + skip_digits b i"
proof (induction b i rule: skip_digits.induct)
  case (1 b i)
  then show ?case
    by (subst skip_digits.simps, subst (2) skip_digits.simps) (simp add: digit_at_shift)
qed

lemma skip_json_number_shift:
  "skip_json_number (p @ b) (length p + i) = map_option ((+) (length p)) (skip_json_number b i)"
proof -
  have 1: "skip_integer (p @ b) (length p + i) = map_option ((+) (length p)) (skip_integer b i)" for i
    unfolding skip_integer_def add.assoc shift_at digit_at_shift skip_digits_shift
    by (auto split: Option.bind_split)
  have 2: "skip_fraction (p @ b) (length p + i) = map_option ((+) (length p)) (skip_fraction b i)" for i
    unfolding skip_fraction_def add.assoc shift_at digit_at_shift skip_digits_shift by simp
  have 3: "skip_exponent (p @ b) (length p + i) = map_option ((+) (length p)) (skip_exponent b i)" for i
    unfolding skip_exponent_def add.assoc shift_at if_distrib [of "(+) (length p)", symmetric]
    by (simp add: Let_def digit_at_shift skip_digits_shift add.assoc [symmetric])
  have r: "Option.bind (skip_integer (p @ b) (length p + x)) (\<lambda>p1.
        Option.bind (skip_fraction (p @ b) p1) (\<lambda>p2.
        Option.bind (skip_exponent (p @ b) p2) (\<lambda>p3. if p3 = length p + i then None else Some p3))) =
      map_option ((+) (length p)) (Option.bind (skip_integer b x) (\<lambda>p1.
        Option.bind (skip_fraction b p1) (\<lambda>p2.
        Option.bind (skip_exponent b p2) (\<lambda>p3. if p3 = i then None else Some p3))))" for x
  proof (cases "skip_integer b x")
    case (Some p1)
    show ?thesis
    proof (cases "skip_fraction b p1")
      case (Some p2)
      then show ?thesis using \<open>skip_integer b x = Some p1\<close>
        by (cases "skip_exponent b p2") (simp_all add: 1 2 3)
    qed (simp add: Some 1 2)
  qed (simp add: 1)
  show ?thesis
    unfolding skip_json_number_def Let_def shift_at using r [of i] r [of "i + 1"]
    by (simp add: add.assoc [symmetric])
qed

lemma value_body_shift:
  assumes "\<And>q. depth \<le> max_json_depth \<Longrightarrow> get_at b p = Some (CHR ''{'') \<Longrightarrow> skip_ws b (p + 1) = q \<Longrightarrow>
      get_at b q \<noteq> Some (CHR ''}'') \<Longrightarrow>
      f' Members (length x + q) depth = map_option ((+) (length x)) (f Members q depth)"
    and "\<And>q. depth \<le> max_json_depth \<Longrightarrow> get_at b p = Some (CHR ''['') \<Longrightarrow> skip_ws b (p + 1) = q \<Longrightarrow>
      get_at b q \<noteq> Some (CHR '']'') \<Longrightarrow>
      f' Elements (length x + q) depth = map_option ((+) (length x)) (f Elements q depth)"
  shows "value_body f' (x @ b) (length x + p) depth = map_option ((+) (length x)) (value_body f b p depth)"
proof (cases "depth \<le> max_json_depth \<and> get_at b p \<noteq> None")
  case False
  then show ?thesis by (auto simp: value_body_def get_at_append_right)
next
  case True
  then obtain c where c: "get_at b p = Some c" by auto
  let ?q = "skip_ws b (p + 1)"
  consider "c = CHR ''{''" "get_at b ?q \<noteq> Some (CHR ''}'')" | "c = CHR ''[''" "get_at b ?q \<noteq> Some (CHR '']'')"
    | "c = CHR ''{''" "get_at b ?q = Some (CHR ''}'')" | "c = CHR ''[''" "get_at b ?q = Some (CHR '']'')"
    | "c \<noteq> CHR ''{''" "c \<noteq> CHR ''[''"
    by blast
  then show ?thesis
    unfolding value_body_def add.assoc shift_at skip_ws_shift skip_json_string_shift skip_json_number_shift Let_def
    by cases (use True c assms(1) [OF _ _ refl] assms(2) [OF _ _ refl] in simp_all)
qed

lemma skip_json_Value_eq:
  "skip_json Value b i depth = value_body (\<lambda>m. skip_json m b) b (skip_ws b i) depth"
  by (subst skip_json.simps(1)) (simp only: value_body_def Let_def)

definition loop_body ::
  "(skip_mode \<Rightarrow> nat \<Rightarrow> nat \<Rightarrow> nat option) \<Rightarrow> skip_mode \<Rightarrow> char \<Rightarrow> bytes \<Rightarrow> nat \<Rightarrow> nat \<Rightarrow> nat option" where
  "loop_body f m close b v depth =
     (case f Value v (depth + 1) of
        None \<Rightarrow> None
      | Some q2 \<Rightarrow>
          let q3 = skip_ws b q2 in
          if get_at b q3 = Some (CHR '','') then f m (skip_ws b (q3 + 1)) depth
          else if get_at b q3 = Some close then Some (q3 + 1)
          else None)"

lemma skip_json_Members_eq:
  "skip_json Members b q depth =
     (case skip_json_string b q of None \<Rightarrow> None
      | Some k \<Rightarrow> if get_at b (skip_ws b k) \<noteq> Some (CHR '':'') then None
          else loop_body (\<lambda>m. skip_json m b) Members (CHR ''}'') b (skip_ws b (skip_ws b k + 1)) depth)"
  by (subst skip_json.simps(2)) (simp only: loop_body_def Let_def)

lemma skip_json_Elements_eq:
  "skip_json Elements b q depth = loop_body (\<lambda>m. skip_json m b) Elements (CHR '']'') b q depth"
  by (subst skip_json.simps(3)) (simp only: loop_body_def Let_def)

lemma loop_body_shift:
  assumes "f' Value (length x + v) (depth + 1) = map_option ((+) (length x)) (f Value v (depth + 1))"
    and "\<And>q2. f Value v (depth + 1) = Some q2 \<Longrightarrow> get_at b (skip_ws b q2) = Some (CHR '','') \<Longrightarrow>
      f' m (length x + skip_ws b (skip_ws b q2 + 1)) depth =
        map_option ((+) (length x)) (f m (skip_ws b (skip_ws b q2 + 1)) depth)"
  shows "loop_body f' m close (x @ b) (length x + v) depth =
      map_option ((+) (length x)) (loop_body f m close b v depth)"
proof (cases "f Value v (depth + 1)")
  case None
  then show ?thesis using assms(1) by (simp add: loop_body_def)
next
  case (Some q2)
  then show ?thesis
    using assms(1) assms(2) [OF Some] unfolding loop_body_def
    by (simp only: option.case option.map skip_ws_shift add.assoc shift_at Let_def) simp
qed

lemma skip_json_shift:
  "skip_json m (p @ b) (length p + i) depth = map_option ((+) (length p)) (skip_json m b i depth)"
proof (induction m b i depth rule: skip_json.induct)
  case (1 b i depth)
  show ?case unfolding skip_json_Value_eq skip_ws_shift
    by (rule value_body_shift) (rule "1.IH" [OF _ refl], auto)+
next
  case (2 b q depth)
  show ?case
  proof (cases "skip_json_string b q")
    case (Some k)
    let ?v = "skip_ws b (skip_ws b k + 1)"
    show ?thesis
    proof (cases "get_at b (skip_ws b k) = Some (CHR '':'')")
      case True
      have "loop_body (\<lambda>m. skip_json m (p @ b)) Members (CHR ''}'') (p @ b) (length p + ?v) depth =
          map_option ((+) (length p)) (loop_body (\<lambda>m. skip_json m b) Members (CHR ''}'') b ?v depth)"
        by (rule loop_body_shift) (use "2.IH" Some True in auto)
      then show ?thesis
        unfolding skip_json_Members_eq skip_json_string_shift Some option.case option.map
          skip_ws_shift add.assoc shift_at using True by simp
    next
      case False
      then show ?thesis
        unfolding skip_json_Members_eq skip_json_string_shift Some option.case option.map
          skip_ws_shift add.assoc shift_at by simp
    qed
  qed (simp add: skip_json_Members_eq skip_json_string_shift)
next
  case (3 b q depth)
  show ?case unfolding skip_json_Elements_eq
    by (rule loop_body_shift) (use "3.IH" in auto)
qed


text \<open>A token that ends at \<open>j\<close> was decided by the bytes up to \<open>j\<close>.\<close>

definition same_upto :: "nat \<Rightarrow> bytes \<Rightarrow> bytes \<Rightarrow> bool" where
  "same_upto n b b' \<longleftrightarrow> (\<forall>k<n. get_at b' k = get_at b k)"

lemma same_upto_mono: "same_upto n b b' \<Longrightarrow> m \<le> n \<Longrightarrow> same_upto m b b'"
  by (simp add: same_upto_def)

lemma same_upto_at: "same_upto n b b' \<Longrightarrow> k < n \<Longrightarrow> get_at b' k = get_at b k"
  by (simp add: same_upto_def)

lemma get_range_local:
  assumes r: "get_range b i j = Some r" and "i < j" and s: "same_upto j b b'"
  shows "get_range b' i j = Some r"
proof -
  have j: "j \<le> length b" and rt: "r = take (j - i) (drop i b)"
    using r by (auto simp: get_range_def split: if_splits)
  have "get_at b' k = Some (b ! k)" if "k < j" for k
    using same_upto_at [OF s that] that j by (simp add: get_at_def)
  then have at: "k < length b' \<and> b' ! k = b ! k" if "k < j" for k
    using that by (simp add: get_at_Some_iff)
  have j': "j \<le> length b'" using at [of "j - 1"] \<open>i < j\<close> by linarith
  have "take (j - i) (drop i b') = r"
    unfolding rt using j j' at by (intro nth_equalityI) auto
  then show ?thesis using j' \<open>i < j\<close> by (simp add: get_range_def)
qed

lemma skip_ws_at: "skip_ws b i = (case get_at b i of None \<Rightarrow> i | Some c \<Rightarrow> if json_ws c then skip_ws b (i + 1) else i)"
  by (subst skip_ws.simps) (simp add: get_at_def)

lemma skip_ws_local: "same_upto (Suc (skip_ws b i)) b b' \<Longrightarrow> skip_ws b' i = skip_ws b i"
proof (induction b i rule: skip_ws.induct)
  case (1 b i)
  have at: "get_at b' i = get_at b i"
    using same_upto_at [OF "1.prems"] skip_ws_ge [of i b] by simp
  show ?case
  proof (cases "i < length b \<and> json_ws (b ! i)")
    case True
    then have "skip_ws b i = skip_ws b (i + 1)" by (simp add: skip_ws_at [of b i] get_at_def)
    moreover from this have "skip_ws b' (i + 1) = skip_ws b (i + 1)"
      using "1.IH" True "1.prems" by simp
    moreover have "skip_ws b' i = skip_ws b' (i + 1)"
      using True at by (simp add: skip_ws_at [of b' i] get_at_def)
    ultimately show ?thesis by simp
  next
    case False
    then show ?thesis using at
      by (simp add: skip_ws_at [of b i] skip_ws_at [of b' i]) (auto simp: get_at_def)
  qed
qed

lemma parse_hex4_local: "parse_hex4 b i = Some v \<Longrightarrow> same_upto (i + 4) b b' \<Longrightarrow> parse_hex4 b' i = Some v"
  by (auto simp: parse_hex4_def bind_eq_Some_conv dest: get_range_local)

lemma decode_utf8_local:
  assumes d: "decode_utf8 b i = Some (ch, n)" and s: "same_upto (i + n) b b'"
  shows "decode_utf8 b' i = Some (ch, n)"
proof -
  have at: "byte_at b' k = byte_at b k" if "k < i + n" for k
    using same_upto_at [OF s that] by (simp add: byte_at_def)
  obtain c0 where c0: "byte_at b i = Some c0" using d by (auto simp: decode_utf8_def bind_eq_Some_conv)
  consider "n = 2" "c0 < 0xE0" | "n = 3" "\<not> c0 < 0xE0" "c0 < 0xF0"
    | "n = 4" "\<not> c0 < 0xE0" "\<not> c0 < 0xF0" "c0 < 0xF5"
    using d c0 by (auto simp: decode_utf8_def bind_eq_Some_conv split: if_splits)
  then show ?thesis
    by cases (use d c0 at in \<open>simp_all add: decode_utf8_def\<close>)
qed

lemma json_string_char_local:
  assumes c: "json_string_char b i = Some (j, ch)" and s: "same_upto j b b'"
  shows "json_string_char b' i = Some (j, ch)"
proof -
  have ij: "i < j" using json_string_char_progress [OF c] by simp
  have at: "get_at b' k = get_at b k" if "k < j" for k using same_upto_at [OF s that] .
  have u: "unicode_escape b' i = Some (j, ch)" if e: "unicode_escape b i = Some (j, ch)"
  proof -
    have j: "i + 6 \<le> j" using e by (auto simp: unicode_escape_def bind_eq_Some_conv split: if_splits)
    obtain cp where cp: "parse_hex4 b (i + 2) = Some cp" using e by (auto simp: unicode_escape_def bind_eq_Some_conv)
    have cp': "parse_hex4 b' (i + 2) = Some cp"
      using cp by (rule parse_hex4_local) (use same_upto_mono [OF s] j in simp)
    show ?thesis
    proof (cases "0xD800 \<le> cp \<and> cp \<le> 0xDBFF")
      case True
      then have j12: "j = i + 12" using e cp by (auto simp: unicode_escape_def bind_eq_Some_conv split: if_splits)
      obtain low where low: "parse_hex4 b (i + 8) = Some low"
        using e cp True by (auto simp: unicode_escape_def bind_eq_Some_conv split: if_splits)
      have low': "parse_hex4 b' (i + 8) = Some low"
        using low by (rule parse_hex4_local) (use s j12 in \<open>simp add: add.commute\<close>)
      have "get_at b' (i + 6) = get_at b (i + 6)" "get_at b' (i + 7) = get_at b (i + 7)"
        by (rule at, simp add: j12)+
      then have "unicode_escape b' i = unicode_escape b i"
        by (simp only: unicode_escape_def cp cp' low low')
      then show ?thesis using e by simp
    next
      case False
      have "unicode_escape b' i = unicode_escape b i"
        by (simp only: unicode_escape_def cp cp' Option.bind.bind_lunit if_not_P [OF False])
      then show ?thesis using e by simp
    qed
  qed
  obtain c0 where c0: "get_at b i = Some c0" using c by (auto simp: json_string_char_def bind_eq_Some_conv)
  have c0': "get_at b' i = Some c0" using at [OF ij] c0 by simp
  show ?thesis
  proof (cases "c0 = CHR 0x5C")
    case True
    then have "i + 1 < j" using c c0
      by (auto simp: json_string_char_def unicode_escape_def bind_eq_Some_conv split: if_splits)
    then have "get_at b' (i + 1) = get_at b (i + 1)" by (rule at)
    then show ?thesis using c c0 c0' True u
      by (auto simp: json_string_char_def bind_eq_Some_conv split: if_splits)
  next
    case False
    then show ?thesis using c c0 c0' s
      by (auto simp: json_string_char_def split: if_splits dest: decode_utf8_local)
  qed
qed

lemma parse_string_loop_ge: "parse_string_loop b i out = Some (s, j) \<Longrightarrow> i < j"
  using skip_string_loop_progress [of b i j] by (simp add: skip_string_loop_parse [of b i out])

lemma parse_string_loop_local:
  "parse_string_loop b i out = Some (s, j) \<Longrightarrow> same_upto j b b' \<Longrightarrow> parse_string_loop b' i out = Some (s, j)"
proof (induction b i out rule: parse_string_loop.induct)
  case (1 b i out)
  obtain k ch where c: "json_string_char b i = Some (k, ch)"
    using "1.prems"(1) by (subst (asm) parse_string_loop.simps) (auto split: option.splits)
  have kj: "k \<le> j"
    using "1.prems"(1) c parse_string_loop_ge [of b k]
    by (subst (asm) parse_string_loop.simps) (fastforce split: option.splits)
  have c': "json_string_char b' i = Some (k, ch)"
    using json_string_char_local [OF c same_upto_mono [OF "1.prems"(2) kj]] .
  show ?case
    using "1.prems" "1.IH" [OF c refl] c
    by (subst parse_string_loop.simps, subst (asm) parse_string_loop.simps)
       (auto simp: c' split: option.splits)
qed

lemma parse_json_string_local:
  assumes p: "parse_json_string b i = Some (s, j)" and s: "same_upto j b b'"
  shows "parse_json_string b' i = Some (s, j)"
proof -
  have l: "get_at b i = Some (CHR 0x22)" "parse_string_loop b (i + 1) [] = Some (s, j)"
    using p by (auto simp: parse_json_string_def split: if_splits)
  have "i < j" using parse_string_loop_ge [OF l(2)] by simp
  then show ?thesis using l same_upto_at [OF s] parse_string_loop_local [OF l(2) s]
    by (simp add: parse_json_string_def)
qed

lemma skip_json_string_local:
  "skip_json_string b i = Some j \<Longrightarrow> same_upto j b b' \<Longrightarrow> skip_json_string b' i = Some j"
  by (auto simp: skip_json_string_parse dest: parse_json_string_local)


text \<open>
  A number or a literal at the end is decided by its bytes and by the byte behind it, which only
  must not continue a number.
\<close>

definition number_char_at :: "bytes \<Rightarrow> nat \<Rightarrow> bool" where
  "number_char_at b i \<longleftrightarrow> digit_at b i \<or> get_at b i \<in> {Some (CHR ''.''), Some (CHR ''e''), Some (CHR ''E'')}"

definition same_token :: "nat \<Rightarrow> bytes \<Rightarrow> bytes \<Rightarrow> bool" where
  "same_token j b b' \<longleftrightarrow> same_upto j b b' \<and> (get_at b' j = get_at b j \<or> \<not> number_char_at b' j)"

lemma same_token_Suc: "same_upto (Suc j) b b' \<Longrightarrow> same_token j b b'"
  by (simp add: same_token_def same_upto_def)

lemma same_token_at: "same_token j b b' \<Longrightarrow> k < j \<Longrightarrow> get_at b' k = get_at b k"
  by (simp add: same_token_def same_upto_def)

lemma same_token_upto: "same_token j b b' \<Longrightarrow> m \<le> j \<Longrightarrow> same_upto m b b'"
  by (simp add: same_token_def same_upto_def)

lemma same_token_mono: "same_token j b b' \<Longrightarrow> m \<le> j \<Longrightarrow> same_token m b b'"
  by (cases "m = j") (simp_all add: same_token_def same_upto_def)

lemma same_token_digit: "same_token j b b' \<Longrightarrow> k \<le> j \<Longrightarrow> \<not> digit_at b k \<Longrightarrow> \<not> digit_at b' k"
  by (cases "k = j") (auto simp: same_token_def same_upto_def number_char_at_def digit_at_def)

lemma same_token_not: "same_token j b b' \<Longrightarrow> k \<le> j \<Longrightarrow> c \<in> {CHR ''.'', CHR ''e'', CHR ''E''} \<Longrightarrow>
    get_at b k \<noteq> Some c \<Longrightarrow> get_at b' k \<noteq> Some c"
  by (cases "k = j") (auto simp: same_token_def same_upto_def number_char_at_def)

lemma digit_at_local: "same_token j b b' \<Longrightarrow> k < j \<Longrightarrow> digit_at b' k = digit_at b k"
  by (simp add: digit_at_def same_token_at)

lemma skip_digits_local: "same_token (skip_digits b i) b b' \<Longrightarrow> skip_digits b' i = skip_digits b i"
proof (induction b i rule: skip_digits.induct)
  case (1 b i)
  show ?case
  proof (cases "digit_at b i")
    case True
    then have e: "skip_digits b i = skip_digits b (i + 1)" by (subst skip_digits.simps) simp
    have "i < skip_digits b i" unfolding e using skip_digits_ge [of "i + 1" b] by simp
    then have "digit_at b' i" using True digit_at_local [OF "1.prems"] by simp
    then have "skip_digits b' i = skip_digits b' (i + 1)" by (subst skip_digits.simps) simp
    also have "\<dots> = skip_digits b (i + 1)" using "1.IH" [OF True] "1.prems" e by simp
    finally show ?thesis using e by simp
  next
    case False
    then have e: "skip_digits b i = i" by (subst skip_digits.simps) simp
    have "\<not> digit_at b' i" using same_token_digit [OF "1.prems" _ False] e by simp
    then show ?thesis unfolding e by (subst skip_digits.simps) simp
  qed
qed

lemma skip_digits_gt: "digit_at b p \<Longrightarrow> p < skip_digits b p"
  using skip_digits_ge [of "p + 1" b] by (subst skip_digits.simps) simp

lemma skip_integer_local:
  assumes i: "skip_integer b i = Some j" and s: "same_token j b b'" shows "skip_integer b' i = Some j"
proof -
  have "i < j" using i by (rule skip_integer_progress)
  then have at: "get_at b' i = get_at b i" using same_token_at [OF s] by simp
  obtain c where c: "get_at b i = Some c" using i by (auto simp: skip_integer_def bind_eq_Some_conv)
  show ?thesis
  proof (cases "c = CHR ''0''")
    case True
    then show ?thesis using i c at same_token_digit [OF s, of "i + 1"] by (simp add: skip_integer_def split: if_splits)
  next
    case False
    then have "j = skip_digits b i" using i c by (simp add: skip_integer_def split: if_splits)
    then show ?thesis using i c at False skip_digits_local s by (simp add: skip_integer_def split: if_splits)
  qed
qed

lemma skip_fraction_local:
  assumes f: "skip_fraction b i = Some j" and s: "same_token j b b'" shows "skip_fraction b' i = Some j"
proof (cases "get_at b i = Some (CHR ''.'')")
  case True
  then have d: "digit_at b (i + 1)" and j: "j = skip_digits b (i + 1)"
    using f by (auto simp: skip_fraction_def split: if_splits)
  have "i + 1 < j" using j skip_digits_gt [OF d] by simp
  then have "get_at b' i = get_at b i" "digit_at b' (i + 1) = digit_at b (i + 1)"
    using same_token_at [OF s] digit_at_local [OF s] by simp_all
  then show ?thesis using True d j skip_digits_local s by (simp add: skip_fraction_def)
next
  case False
  then have "j = i" using f by (simp add: skip_fraction_def)
  then show ?thesis using False same_token_not [OF s, of i] by (simp add: skip_fraction_def)
qed

lemma skip_exponent_local:
  assumes e: "skip_exponent b i = Some j" and s: "same_token j b b'" shows "skip_exponent b' i = Some j"
proof (cases "get_at b i = Some (CHR ''e'') \<or> get_at b i = Some (CHR ''E'')")
  case True
  define q where "q = (if get_at b (i + 1) = Some (CHR ''+'') \<or> get_at b (i + 1) = Some (CHR ''-'')
    then i + 2 else i + 1)"
  have d: "digit_at b q" and j: "j = skip_digits b q"
    using e True by (auto simp: skip_exponent_def q_def Let_def split: if_splits)
  have "q < j" "i + 1 \<le> q" using j skip_digits_gt [OF d] by (simp_all add: q_def)
  then have "get_at b' i = get_at b i" "get_at b' (i + 1) = get_at b (i + 1)" "digit_at b' q = digit_at b q"
    using same_token_at [OF s] digit_at_local [OF s] by simp_all
  moreover have "skip_digits b' q = j" using skip_digits_local s j by simp
  ultimately show ?thesis using True d by (simp add: skip_exponent_def q_def Let_def)
next
  case False
  then have "j = i" using e by (simp add: skip_exponent_def)
  then show ?thesis using False same_token_not [OF s, of i] by (simp add: skip_exponent_def)
qed

lemma skip_json_number_local:
  assumes "skip_json_number b i = Some j" and s: "same_token j b b'"
  shows "skip_json_number b' i = Some j"
proof -
  define p where "p = (if get_at b i = Some CHR ''-'' then i + 1 else i)"
  obtain p1 p2 where n: "skip_integer b p = Some p1" "skip_fraction b p1 = Some p2"
    "skip_exponent b p2 = Some j" and ne: "j \<noteq> i"
    using assms(1) unfolding skip_json_number_def p_def [symmetric] Let_def
    by (auto simp: bind_eq_Some_conv split: if_splits)
  have "p < p1" using n(1) by (rule skip_integer_progress)
  moreover have "p1 \<le> p2" using n(2) skip_digits_ge [of "p1 + 1" b]
    by (auto simp: skip_fraction_def split: if_splits)
  moreover have "p2 \<le> j" using n(3) skip_digits_ge [of "p2 + 1" b] skip_digits_ge [of "p2 + 2" b]
    by (auto simp: skip_exponent_def Let_def split: if_splits)
  moreover have "i \<le> p" by (simp add: p_def)
  ultimately have le: "i < j" "p1 \<le> j" "p2 \<le> j" by simp_all
  then have "get_at b' i = get_at b i" using same_token_at [OF s] by simp
  then have p': "(if get_at b' i = Some CHR ''-'' then i + 1 else i) = p" by (simp add: p_def)
  have "skip_integer b' p = Some p1" "skip_fraction b' p1 = Some p2" "skip_exponent b' p2 = Some j"
    using skip_integer_local [OF n(1) same_token_mono [OF s]] skip_fraction_local [OF n(2) same_token_mono [OF s]]
      skip_exponent_local [OF n(3) s] le by simp_all
  then show ?thesis using ne by (simp add: skip_json_number_def p')
qed

text \<open>
  For values the lemma goes through the one-step characterisations; the loop of an object or an
  array continues after the value it has just skipped.
\<close>

lemma loop_step_local:
  assumes l: "loop_step f m close b v depth j" and s: "same_token j b b'"
    and le: "\<And>q2. f Value v (depth + 1) = Some q2 \<Longrightarrow> get_at b (skip_ws b q2) = Some (CHR '','') \<Longrightarrow>
       f m (skip_ws b (skip_ws b q2 + 1)) depth = Some j \<Longrightarrow> skip_ws b (skip_ws b q2 + 1) < j"
    and v: "\<And>q2. f Value v (depth + 1) = Some q2 \<Longrightarrow> q2 \<le> j \<Longrightarrow> f' Value v (depth + 1) = Some q2"
    and m: "\<And>q2. f Value v (depth + 1) = Some q2 \<Longrightarrow> get_at b (skip_ws b q2) = Some (CHR '','') \<Longrightarrow>
       f m (skip_ws b (skip_ws b q2 + 1)) depth = Some j \<Longrightarrow>
       f' m (skip_ws b (skip_ws b q2 + 1)) depth = Some j"
  shows "loop_step f' m close b' v depth j"
proof -
  obtain q2 where q2: "f Value v (depth + 1) = Some q2"
    and c: "get_at b (skip_ws b q2) = Some (CHR '','') \<and> f m (skip_ws b (skip_ws b q2 + 1)) depth = Some j \<or>
      get_at b (skip_ws b q2) = Some close \<and> j = skip_ws b q2 + 1"
    using l by (auto simp: loop_step_def)
  have g: "q2 \<le> skip_ws b q2" "skip_ws b q2 + 1 \<le> skip_ws b (skip_ws b q2 + 1)" by (rule skip_ws_ge)+
  show ?thesis
  proof (cases "get_at b (skip_ws b q2) = Some (CHR '','') \<and> f m (skip_ws b (skip_ws b q2 + 1)) depth = Some j")
    case True
    then have lt: "skip_ws b (skip_ws b q2 + 1) < j" using le [OF q2] by blast
    have "skip_ws b' q2 = skip_ws b q2" "skip_ws b' (skip_ws b q2 + 1) = skip_ws b (skip_ws b q2 + 1)"
      "get_at b' (skip_ws b q2) = get_at b (skip_ws b q2)"
      using skip_ws_local same_token_upto [OF s] same_token_at [OF s] lt g by simp_all
    then show ?thesis using v [OF q2] m [OF q2] True lt g by (simp add: loop_step_def)
  next
    case False
    then have j: "get_at b (skip_ws b q2) = Some close" "j = skip_ws b q2 + 1" using c by auto
    have "skip_ws b' q2 = skip_ws b q2" "get_at b' (skip_ws b q2) = get_at b (skip_ws b q2)"
      using skip_ws_local same_token_upto [OF s] same_token_at [OF s] j(2) by simp_all
    then show ?thesis using v [OF q2] j g by (simp add: loop_step_def)
  qed
qed

text \<open>A value that is not an object or an array is decided by the bytes up to its end.\<close>

lemma value_leaf_local:
  assumes vb: "value_body f b p depth = Some j" and s: "same_token j b b'" and pj: "p < j"
    and c: "get_at b p = Some c" and leaf: "\<not> (c = CHR ''{'' \<or> c = CHR ''['')"
  shows "value_body f' b' p depth = Some j"
proof -
  have c': "get_at b' p = Some c" using c same_token_at [OF s] pj by simp
  have dep: "depth \<le> max_json_depth" using vb by (simp add: value_body_def split: if_splits)
  note [simp] = c c' dep [folded not_less]
  have r: "get_range b' p k = Some r" if "get_range b p k = Some r" "k = j" for k r
    using get_range_local [OF that(1), of b'] same_token_upto [OF s] pj that by simp
  show ?thesis
  proof (cases "c = CHR 0x22")
    case True
    then have "skip_json_string b p = Some j" using vb by (simp add: value_body_def)
    then have "skip_json_string b' p = Some j"
      by (rule skip_json_string_local) (rule same_token_upto [OF s], simp)
    then show ?thesis using True by (simp add: value_body_def)
  next
    case nq: False
    have e: "value_body h x p depth =
       (if c = CHR ''t'' \<and> get_range x p (p + 4) = Some ''true'' then Some (p + 4)
        else if c = CHR ''f'' \<and> get_range x p (p + 5) = Some ''false'' then Some (p + 5)
        else if c = CHR ''n'' \<and> get_range x p (p + 4) = Some ''null'' then Some (p + 4)
        else if is_ascii_digit c \<or> c = CHR ''-'' then skip_json_number x p else None)"
      if "get_at x p = Some c" for h x
      using leaf nq that by (simp add: value_body_def)
    let ?t = "c = CHR ''t'' \<and> get_range b p (p + 4) = Some ''true''"
    let ?f = "c = CHR ''f'' \<and> get_range b p (p + 5) = Some ''false''"
    let ?n = "c = CHR ''n'' \<and> get_range b p (p + 4) = Some ''null''"
    note vb = vb [unfolded e [OF c]]
    consider ?t | ?f | ?n | "\<not> ?t" "\<not> ?f" "\<not> ?n" by argo
    then show ?thesis
    proof cases
      case 1
      then have "j = p + 4" using vb by simp
      then show ?thesis using e [OF c'] r 1 by simp
    next
      case 2
      then have "j = p + 5" using vb by simp
      then show ?thesis using e [OF c'] r 2 by simp
    next
      case 3
      then have "j = p + 4" using vb by simp
      then show ?thesis using e [OF c'] r 3 by simp
    next
      case 4
      note vb' = vb [unfolded if_not_P [OF 4(1)] if_not_P [OF 4(2)] if_not_P [OF 4(3)]]
      have d: "is_ascii_digit c \<or> c = CHR ''-''" by (rule ccontr) (use vb' in simp)
      then have num: "skip_json_number b p = Some j" using vb' by simp
      have "c \<noteq> CHR ''t''" "c \<noteq> CHR ''f''" "c \<noteq> CHR ''n''" using d digit_not_token by auto
      then show ?thesis using e [OF c', of f'] skip_json_number_local [OF num s] d by simp
    qed
  qed
qed

lemma value_step_local:
  assumes v: "value_step f b p depth j" and s: "same_token j b b'"
    and g: "\<And>m. f m (skip_ws b (p + 1)) depth = Some j \<Longrightarrow> skip_ws b (p + 1) < j"
    and f: "\<And>m. depth \<le> max_json_depth \<Longrightarrow> get_at b p = Some (if m = Members then CHR ''{'' else CHR ''['') \<Longrightarrow>
      get_at b (skip_ws b (p + 1)) \<noteq> Some (if m = Members then CHR ''}'' else CHR '']'') \<Longrightarrow> m \<noteq> Value \<Longrightarrow>
      f m (skip_ws b (p + 1)) depth = Some j \<Longrightarrow> f' m (skip_ws b (p + 1)) depth = Some j"
    and pj: "p < j"
  shows "value_step f' b' p depth j"
proof -
  obtain c where c: "get_at b p = Some c" using v by (auto simp: value_step_def)
  have c': "get_at b' p = Some c" using c same_token_at [OF s] pj by simp
  have ws: "skip_ws b' (p + 1) = skip_ws b (p + 1)"
    "get_at b' (skip_ws b (p + 1)) = get_at b (skip_ws b (p + 1))" if "skip_ws b (p + 1) < j"
    using that skip_ws_local same_token_upto [OF s] same_token_at [OF s] by simp_all
  have vb: "value_body f b p depth = Some j" using v by (simp add: value_body_step)
  then have dep: "depth \<le> max_json_depth" by (simp add: value_body_def split: if_splits)
  note [simp] = c c' dep [folded not_less]
  have "value_body f' b' p depth = Some j"
  proof (cases "c = CHR ''{'' \<or> c = CHR ''[''")
    case True
    define m where "m = (if c = CHR ''{'' then Members else Elements)"
    define close where "close = (if c = CHR ''{'' then CHR ''}'' else CHR '']'')"
    have body: "value_body h x p depth = (if get_at x (skip_ws x (p + 1)) = Some close
        then Some (skip_ws x (p + 1) + 1) else h m (skip_ws x (p + 1)) depth)"
      if "get_at x p = Some c" for h x
      using True that by (auto simp: value_body_def m_def close_def Let_def)
    have lt: "skip_ws b (p + 1) < j"
      using vb g [of m] by (simp add: body split: if_splits)
    have "f' m (skip_ws b (p + 1)) depth = Some j" if "get_at b (skip_ws b (p + 1)) \<noteq> Some close"
      using f [of m] vb that True c dep by (auto simp: body m_def close_def)
    then show ?thesis using vb ws [OF lt] by (simp add: body split: if_splits)
  next
    case False
    then show ?thesis using value_leaf_local [OF vb s pj c] by blast
  qed
  then show ?thesis by (simp add: value_body_step)
qed

lemma skip_json_local:
  "skip_json m b i depth = Some j \<Longrightarrow> same_token j b b' \<Longrightarrow> skip_json m b' i depth = Some j"
proof (induction m b i depth arbitrary: j rule: skip_json.induct)
  case (1 b i depth)
  have pj: "skip_ws b i < j"
    using "1.prems"(1) unfolding skip_json_Value
    by (rule value_step_progress) (auto intro: skip_json_progress)
  have ws: "skip_ws b' i = skip_ws b i"
    using skip_ws_local same_token_upto [OF "1.prems"(2)] pj by simp
  show ?case using "1.prems"(1) unfolding skip_json_Value ws
  proof (rule value_step_local [OF _ "1.prems"(2) _ _ pj])
    fix m assume dep: "depth \<le> max_json_depth"
      and m: "get_at b (skip_ws b i) = Some (if m = Members then CHR ''{'' else CHR ''['')"
        "get_at b (skip_ws b (skip_ws b i + 1)) \<noteq> Some (if m = Members then CHR ''}'' else CHR '']'')" "m \<noteq> Value"
      and r: "skip_json m b (skip_ws b (skip_ws b i + 1)) depth = Some j"
    show "skip_json m b' (skip_ws b (skip_ws b i + 1)) depth = Some j"
    proof (cases m)
      case Members
      show ?thesis unfolding Members
        by (rule "1.IH"(1) [OF _ refl]) (use dep m r "1.prems"(2) Members in auto)
    next
      case Elements
      show ?thesis unfolding Elements
        by (rule "1.IH"(2) [OF _ refl]) (use dep m r "1.prems"(2) Elements in auto)
    qed (use m in simp)
  qed (rule skip_json_progress)
next
  case (2 b q depth)
  obtain k where k: "skip_json_string b q = Some k" "get_at b (skip_ws b k) = Some (CHR '':'')"
    and l: "loop_step (\<lambda>m. skip_json m b) Members (CHR ''}'') b (skip_ws b (skip_ws b k + 1)) depth j"
    using "2.prems"(1) unfolding skip_json_Members by blast
  have lt: "skip_ws b (skip_ws b k + 1) < j"
    using l by (rule loop_step_progress) (erule skip_json_progress)+
  have g: "k \<le> skip_ws b k" "skip_ws b k + 1 \<le> skip_ws b (skip_ws b k + 1)" by (rule skip_ws_ge)+
  have same: "skip_json_string b' q = Some k" "skip_ws b' k = skip_ws b k"
    "get_at b' (skip_ws b k) = get_at b (skip_ws b k)"
    "skip_ws b' (skip_ws b k + 1) = skip_ws b (skip_ws b k + 1)"
    using skip_json_string_local [OF k(1)] skip_ws_local same_token_upto [OF "2.prems"(2)]
      same_token_at [OF "2.prems"(2)] lt g by simp_all
  have "loop_step (\<lambda>m. skip_json m b') Members (CHR ''}'') b' (skip_ws b (skip_ws b k + 1)) depth j"
    using l "2.prems"(2)
  proof (rule loop_step_local)
    fix q2 assume "skip_json Value b (skip_ws b (skip_ws b k + 1)) (depth + 1) = Some q2" "q2 \<le> j"
    then show "skip_json Value b' (skip_ws b (skip_ws b k + 1)) (depth + 1) = Some q2"
      using "2.IH"(1) k same_token_mono [OF "2.prems"(2)] by auto
  next
    fix q2 assume "skip_json Value b (skip_ws b (skip_ws b k + 1)) (depth + 1) = Some q2"
      "get_at b (skip_ws b q2) = Some (CHR '','')"
      "skip_json Members b (skip_ws b (skip_ws b q2 + 1)) depth = Some j"
    then show "skip_json Members b' (skip_ws b (skip_ws b q2 + 1)) depth = Some j"
      using "2.IH"(2) k "2.prems"(2) by auto
  qed (auto intro: skip_json_progress)
  then show ?case unfolding skip_json_Members using same k(2) by auto
next
  case (3 b q depth)
  show ?case using "3.prems" unfolding skip_json_Elements
  proof (rule loop_step_local)
    fix q2 assume "skip_json Value b q (depth + 1) = Some q2" "q2 \<le> j"
    then show "skip_json Value b' q (depth + 1) = Some q2"
      using "3.IH"(1) same_token_mono [OF "3.prems"(2)] by auto
  next
    fix q2 assume "skip_json Value b q (depth + 1) = Some q2" "get_at b (skip_ws b q2) = Some (CHR '','')"
      "skip_json Elements b (skip_ws b (skip_ws b q2 + 1)) depth = Some j"
    then show "skip_json Elements b' (skip_ws b (skip_ws b q2 + 1)) depth = Some j"
      using "3.IH"(2) "3.prems"(2) by auto
  qed (auto intro: skip_json_progress)
qed

end
