(* ===== verification/Json_Object.thy ===== *)
theory Json_Object
  imports Json_Scan
begin

text \<open>
  The one top-level member loop of \<open>hygress-gateway/src/body.rs\<close> and the three scans that drive it,
  \<open>scan_top_level_value\<close>, \<open>scan_top_level_stream\<close> and the fused \<open>scan_top_level_profile\<close>; the
  splices that rewrite a located string token or insert a member before the closing brace. The
  lemmas reduce every scan to a fold over one trace of members, and show how a splice moves it.
\<close>

section \<open>The member loop\<close>

text \<open>
  A visitor gets the state, the decoded key and the offset of the value; it answers \<open>None\<close> to
  abort, or the end of the value if it has validated it itself, with the new state. The fuel
  bounds the iterations of the loop: every iteration advances, so one more than the bytes left is
  enough (\<open>trace_loop_fuel\<close> in \<open>Json_Splice\<close> for the trace that every scan folds over).
\<close>

type_synonym 's visitor = "'s \<Rightarrow> string \<Rightarrow> nat \<Rightarrow> (nat option \<times> 's) option"

fun members_loop :: "'s visitor \<Rightarrow> bytes \<Rightarrow> nat \<Rightarrow> nat \<Rightarrow> 's \<Rightarrow> (nat \<times> 's) option" where
  "members_loop visit b 0 pos s = None"
| "members_loop visit b (Suc fuel) pos s =
     (let p = skip_ws b pos in
      case get_at b p of
        None \<Rightarrow> None
      | Some c \<Rightarrow>
          if c = CHR ''}'' then (if skip_ws b (p + 1) \<noteq> length b then None else Some (p, s))
          else if c = CHR '','' then
            (let after = skip_ws b (p + 1) in
             if get_at b after = Some (CHR ''}'') then None else members_loop visit b fuel after s)
          else if c = CHR 0x22 then
            (case parse_json_string b p of
               None \<Rightarrow> None
             | Some (key, after_key) \<Rightarrow>
                 let q = skip_ws b after_key in
                 if get_at b q \<noteq> Some (CHR '':'') then None
                 else
                   let v = skip_ws b (q + 1) in
                   case visit s key v of
                     None \<Rightarrow> None
                   | Some (Some e, s') \<Rightarrow> members_loop visit b fuel e s'
                   | Some (None, s') \<Rightarrow>
                       (case skip_json Value b v 0 of
                          None \<Rightarrow> None
                        | Some e \<Rightarrow> members_loop visit b fuel e s'))
          else None)"

definition top_level_members :: "'s visitor \<Rightarrow> bytes \<Rightarrow> 's \<Rightarrow> (nat \<times> 's) option" where
  "top_level_members visit b s =
     (let pos = skip_ws b 0 in
      if get_at b pos \<noteq> Some (CHR ''{'') then None
      else members_loop visit b (Suc (length b)) (pos + 1) s)"

section \<open>The scans\<close>

record top_level_value =
  tl_span :: "nat \<times> nat"
  tl_decoded :: "string option"

definition visit_value :: "bytes \<Rightarrow> string \<Rightarrow> top_level_value option visitor" where
  "visit_value b key s k v =
     (if k \<noteq> key then Some (None, s)
      else if get_at b v = Some (CHR 0x22) then
        (case parse_json_string b v of
           None \<Rightarrow> None
         | Some (decoded, e) \<Rightarrow> Some (Some e, Some \<lparr>tl_span = (v, e), tl_decoded = Some decoded\<rparr>))
      else Some (None, Some \<lparr>tl_span = (v, v), tl_decoded = None\<rparr>))"

definition scan_top_level_value :: "bytes \<Rightarrow> string \<Rightarrow> top_level_value option option" where
  "scan_top_level_value b key = map_option snd (top_level_members (visit_value b key) b None)"

definition visit_stream :: "bytes \<Rightarrow> (bool \<times> bool) visitor" where
  "visit_stream b s k v =
     (case s of (stream_true, has_stream_options) \<Rightarrow>
        if k = ''stream'' then Some (None, (get_range b v (v + 4) = Some ''true'', has_stream_options))
        else if k = ''stream_options'' then Some (None, (stream_true, True))
        else Some (None, s))"

definition scan_top_level_stream :: "bytes \<Rightarrow> (bool \<times> bool \<times> nat) option" where
  "scan_top_level_stream b =
     map_option (\<lambda>(closing_brace, stream_true, has_stream_options). (stream_true, has_stream_options, closing_brace))
       (top_level_members (visit_stream b) b (False, False))"

record json_object_profile =
  jp_model :: "(string \<times> nat \<times> nat) option"
  jp_stream_true :: bool
  jp_has_stream_options :: bool
  jp_closing_brace :: nat

definition visit_profile :: "bytes \<Rightarrow> string \<Rightarrow> ((string \<times> nat \<times> nat) option \<times> bool \<times> bool) visitor" where
  "visit_profile b model_key s k v =
     (case s of (model, stream_true, has_stream_options) \<Rightarrow>
        if k = model_key then
          (if get_at b v = Some (CHR 0x22) then
             (case parse_json_string b v of
                None \<Rightarrow> None
              | Some (decoded, e) \<Rightarrow> Some (Some e, (Some (decoded, v, e), stream_true, has_stream_options)))
           else Some (None, (None, stream_true, has_stream_options)))
        else if k = ''stream'' then
          Some (None, (model, get_range b v (v + 4) = Some ''true'', has_stream_options))
        else if k = ''stream_options'' then Some (None, (model, stream_true, True))
        else Some (None, s))"

definition scan_top_level_profile :: "bytes \<Rightarrow> string \<Rightarrow> json_object_profile option" where
  "scan_top_level_profile b model_key =
     map_option (\<lambda>(closing_brace, model, stream_true, has_stream_options).
         \<lparr>jp_model = model, jp_stream_true = stream_true, jp_has_stream_options = has_stream_options,
          jp_closing_brace = closing_brace\<rparr>)
       (top_level_members (visit_profile b model_key) b (None, False, False))"

section \<open>Encoding and splicing\<close>

definition lower_hex :: "nat \<Rightarrow> char" where
  "lower_hex d = (if d < 10 then char_of (48 + d) else char_of (87 + d))"

text \<open>
  The encoder copies every character above the controls except the two it escapes; on the UTF-8
  bytes of the text this is a map over the bytes, because the bytes of a longer sequence are all
  at least \<open>0x80\<close>.
\<close>

definition encode_json_byte :: "char \<Rightarrow> string" where
  "encode_json_byte c =
     (if c = CHR 0x22 then [CHR 0x5C, CHR 0x22]
      else if c = CHR 0x5C then [CHR 0x5C, CHR 0x5C]
      else if c = CHR 0x0A then [CHR 0x5C, CHR ''n'']
      else if c = CHR 0x0D then [CHR 0x5C, CHR ''r'']
      else if c = CHR 0x09 then [CHR 0x5C, CHR ''t'']
      else if c = CHR 0x08 then [CHR 0x5C, CHR ''b'']
      else if c = CHR 0x0C then [CHR 0x5C, CHR ''f'']
      else if byte_of c < 0x20 then
        [CHR 0x5C, CHR ''u'', CHR ''0'', CHR ''0'', lower_hex (byte_of c div 16), lower_hex (byte_of c mod 16)]
      else [c])"

definition encode_json_string :: "string \<Rightarrow> string" where
  "encode_json_string s = CHR 0x22 # concat (map encode_json_byte s) @ [CHR 0x22]"

definition splice_json_string_at :: "bytes \<Rightarrow> nat \<times> nat \<Rightarrow> string \<Rightarrow> bytes" where
  "splice_json_string_at body span value =
     (case span of (start, end) \<Rightarrow> take start body @ encode_json_string value @ drop end body)"

definition stream_options_injection :: bytes where
  "stream_options_injection =
     CHR '','' # CHR 0x22 # ''stream_options'' @ CHR 0x22 # '':{'' @ CHR 0x22 # ''include_usage'' @ CHR 0x22 # '':true}''"

definition splice_stream_options :: "bytes \<Rightarrow> nat \<Rightarrow> bytes option" where
  "splice_stream_options body closing_brace =
     (if closing_brace > length body then None
      else Some (take closing_brace body @ stream_options_injection @ drop closing_brace body))"

section \<open>The trace of members\<close>

text \<open>Key, value offset and value end of every member, and the offset of the closing brace.\<close>

fun trace_loop :: "bytes \<Rightarrow> nat \<Rightarrow> nat \<Rightarrow> (nat \<times> (string \<times> nat \<times> nat) list) option" where
  "trace_loop b 0 pos = None"
| "trace_loop b (Suc fuel) pos =
     (let p = skip_ws b pos in
      case get_at b p of
        None \<Rightarrow> None
      | Some c \<Rightarrow>
          if c = CHR ''}'' then (if skip_ws b (p + 1) \<noteq> length b then None else Some (p, []))
          else if c = CHR '','' then
            (let after = skip_ws b (p + 1) in
             if get_at b after = Some (CHR ''}'') then None else trace_loop b fuel after)
          else if c = CHR 0x22 then
            (case parse_json_string b p of
               None \<Rightarrow> None
             | Some (key, after_key) \<Rightarrow>
                 let q = skip_ws b after_key in
                 if get_at b q \<noteq> Some (CHR '':'') then None
                 else
                   let v = skip_ws b (q + 1) in
                   case skip_json Value b v 0 of
                     None \<Rightarrow> None
                   | Some e \<Rightarrow> map_option (\<lambda>(cb, ms). (cb, (key, v, e) # ms)) (trace_loop b fuel e))
          else None)"

definition top_level_trace :: "bytes \<Rightarrow> (nat \<times> (string \<times> nat \<times> nat) list) option" where
  "top_level_trace b =
     (let pos = skip_ws b 0 in
      if get_at b pos \<noteq> Some (CHR ''{'') then None else trace_loop b (Suc (length b)) (pos + 1))"

text \<open>A visitor that agrees with the skipper about where values end, and what it does to the state.\<close>

definition visit_ok :: "'s visitor \<Rightarrow> bytes \<Rightarrow> ('s \<Rightarrow> string \<times> nat \<times> nat \<Rightarrow> 's) \<Rightarrow> 's \<Rightarrow> string \<Rightarrow> nat \<Rightarrow> bool" where
  "visit_ok visit b step s k v \<longleftrightarrow>
     (case visit s k v of
        None \<Rightarrow> skip_json Value b v 0 = None
      | Some (None, s') \<Rightarrow> (\<forall>e. skip_json Value b v 0 = Some e \<longrightarrow> s' = step s (k, v, e))
      | Some (Some e, s') \<Rightarrow> skip_json Value b v 0 = Some e \<and> s' = step s (k, v, e))"

definition visits :: "'s visitor \<Rightarrow> bytes \<Rightarrow> ('s \<Rightarrow> string \<times> nat \<times> nat \<Rightarrow> 's) \<Rightarrow> bool" where
  "visits visit b step \<longleftrightarrow> (\<forall>s k v. visit_ok visit b step s k v)"

lemma members_loop_trace:
  assumes "visits visit b step"
  shows "members_loop visit b fuel pos s =
    map_option (\<lambda>(cb, ms). (cb, foldl step s ms)) (trace_loop b fuel pos)"
proof (induction fuel arbitrary: pos s)
  case (Suc fuel)
  define p where "p = skip_ws b pos"
  show ?case
  proof (cases "get_at b p = Some (CHR 0x22)")
    case False
    then show ?thesis by (auto simp: Let_def p_def [symmetric] Suc.IH split: option.splits)
  next
    case True
    show ?thesis
    proof (cases "parse_json_string b p")
      case (Some ka)
      obtain key ak where ka: "ka = (key, ak)" by (cases ka)
      define v where "v = skip_ws b (skip_ws b ak + 1)"
      have vis: "visit_ok visit b step s key v" using assms by (simp add: visits_def)
      show ?thesis
      proof (cases "get_at b (skip_ws b ak) = Some (CHR '':'')")
        case colon: True
        have m: "members_loop visit b (Suc fuel) pos s = (case visit s key v of
            None \<Rightarrow> None | Some (Some e, s') \<Rightarrow> members_loop visit b fuel e s'
          | Some (None, s') \<Rightarrow> (case skip_json Value b v 0 of None \<Rightarrow> None | Some e \<Rightarrow> members_loop visit b fuel e s'))"
          using True Some ka colon by (simp add: Let_def p_def [symmetric] v_def [simplified, symmetric])
        have t: "trace_loop b (Suc fuel) pos = (case skip_json Value b v 0 of None \<Rightarrow> None
          | Some e \<Rightarrow> map_option (\<lambda>(cb, ms). (cb, (key, v, e) # ms)) (trace_loop b fuel e))"
          using True Some ka colon by (simp add: Let_def p_def [symmetric] v_def [simplified, symmetric])
        show ?thesis unfolding m t Suc.IH using vis
          by (auto simp: visit_ok_def option.map_comp comp_def case_prod_unfold split: option.splits)
      qed (use True Some ka in \<open>simp add: Let_def p_def [symmetric]\<close>)
    qed (use True in \<open>simp add: Let_def p_def [symmetric]\<close>)
  qed
qed simp

lemma top_level_members_trace:
  "visits visit b step \<Longrightarrow> top_level_members visit b s =
     map_option (\<lambda>(cb, ms). (cb, foldl step s ms)) (top_level_trace b)"
  by (simp add: top_level_members_def top_level_trace_def members_loop_trace Let_def
      del: members_loop.simps trace_loop.simps)

text \<open>A value that starts at a quote is a string token, and a string token at most that.\<close>

lemma json_ws_quote: "\<not> json_ws (CHR 0x22)"
  by (simp add: json_ws_def)

lemma skip_ws_quote: "get_at b v = Some (CHR 0x22) \<Longrightarrow> skip_ws b v = v"
  by (simp add: skip_ws_at [of b v] json_ws_quote)

lemma skip_json_quote:
  "get_at b v = Some (CHR 0x22) \<Longrightarrow> skip_json Value b v 0 = map_option snd (parse_json_string b v)"
  by (simp add: skip_json_Value_eq skip_ws_quote value_body_def skip_json_string_parse)

definition value_step_of :: "bytes \<Rightarrow> string \<Rightarrow> top_level_value option \<Rightarrow> string \<times> nat \<times> nat \<Rightarrow> top_level_value option" where
  "value_step_of b key s m =
     (case m of (k, v, e) \<Rightarrow>
        if k \<noteq> key then s
        else if get_at b v = Some (CHR 0x22)
          then Some \<lparr>tl_span = (v, e), tl_decoded = map_option fst (parse_json_string b v)\<rparr>
        else Some \<lparr>tl_span = (v, v), tl_decoded = None\<rparr>)"

lemma visit_value_visits: "visits (visit_value b key) b (value_step_of b key)"
  unfolding visits_def visit_ok_def visit_value_def value_step_of_def
  by (auto simp: skip_json_quote split: option.splits)

definition stream_step :: "bytes \<Rightarrow> bool \<times> bool \<Rightarrow> string \<times> nat \<times> nat \<Rightarrow> bool \<times> bool" where
  "stream_step b s m =
     (case (s, m) of ((st, so), (k, v, e)) \<Rightarrow>
        (if k = ''stream'' then get_range b v (v + 4) = Some ''true'' else st,
         k = ''stream_options'' \<or> so))"

lemma visit_stream_visits: "visits (visit_stream b) b (stream_step b)"
  unfolding visits_def visit_ok_def visit_stream_def stream_step_def by auto

definition model_step :: "bytes \<Rightarrow> string \<Rightarrow> (string \<times> nat \<times> nat) option \<Rightarrow> string \<times> nat \<times> nat \<Rightarrow> (string \<times> nat \<times> nat) option" where
  "model_step b key s m =
     (case m of (k, v, e) \<Rightarrow>
        if k \<noteq> key then s
        else if get_at b v = Some (CHR 0x22) then map_option (\<lambda>(d, _). (d, v, e)) (parse_json_string b v)
        else None)"

lemma visit_profile_visits:
  assumes "key \<noteq> ''stream''" "key \<noteq> ''stream_options''"
  shows "visits (visit_profile b key) b (\<lambda>(mo, s) m. (model_step b key mo m, stream_step b s m))"
  unfolding visits_def visit_ok_def visit_profile_def model_step_def stream_step_def using assms
  by (auto simp: skip_json_quote split: option.splits)

lemma foldl_prod: "foldl (\<lambda>(a, s) m. (f a m, g s m)) (a, s) ms = (foldl f a ms, foldl g s ms)"
  by (induction ms arbitrary: a s) auto

definition model_of_value :: "top_level_value option \<Rightarrow> (string \<times> nat \<times> nat) option" where
  "model_of_value r = (case r of None \<Rightarrow> None
     | Some t \<Rightarrow> (case tl_decoded t of None \<Rightarrow> None | Some d \<Rightarrow> Some (d, tl_span t)))"

lemma model_value_fold: "foldl (model_step b key) (model_of_value r) ms = model_of_value (foldl (value_step_of b key) r ms)"
proof (induction ms arbitrary: r)
  case (Cons m ms)
  have "model_step b key (model_of_value r) m = model_of_value (value_step_of b key r m)"
    by (cases m) (auto simp: model_step_def value_step_of_def model_of_value_def split: option.splits)
  then show ?case using Cons by simp
qed simp

lemma scan_value_trace:
  "scan_top_level_value b key = map_option (\<lambda>(cb, ms). foldl (value_step_of b key) None ms) (top_level_trace b)"
  by (simp add: scan_top_level_value_def top_level_members_trace [OF visit_value_visits] option.map_comp comp_def case_prod_unfold)

lemma scan_stream_trace:
  "scan_top_level_stream b = map_option (\<lambda>(cb, ms). case foldl (stream_step b) (False, False) ms of (st, so) \<Rightarrow> (st, so, cb))
     (top_level_trace b)"
  by (simp add: scan_top_level_stream_def top_level_members_trace [OF visit_stream_visits] option.map_comp comp_def case_prod_unfold)

text \<open>
  Property C26. The fused scan of a body answers exactly what the two specialised scans answer: the
  same verdict on whether the body is a JSON object, the last string value of the model key with
  its span, the streaming flags and the splice point.
\<close>

theorem profile_agrees:
  assumes "key \<noteq> ''stream''" "key \<noteq> ''stream_options''"
  shows "scan_top_level_profile b key =
    (case (scan_top_level_value b key, scan_top_level_stream b) of
       (Some r, Some (st, so, cb)) \<Rightarrow>
         Some \<lparr>jp_model = model_of_value r, jp_stream_true = st, jp_has_stream_options = so, jp_closing_brace = cb\<rparr>
     | _ \<Rightarrow> None)"
  using model_value_fold [of b key None]
  by (auto simp: scan_top_level_profile_def top_level_members_trace [OF visit_profile_visits [OF assms]]
      scan_value_trace scan_stream_trace foldl_prod model_of_value_def split: option.splits prod.splits)

definition sample_body :: bytes where
  "sample_body = (CHR ''{'' # encode_json_string ''model'' @ '':'' @ encode_json_string ''m'' @ ''}'')"

theorem profile_agrees_witness:
  "scan_top_level_profile sample_body ''model'' =
    (case (scan_top_level_value sample_body ''model'', scan_top_level_stream sample_body) of
       (Some r, Some (st, so, cb)) \<Rightarrow>
         Some \<lparr>jp_model = model_of_value r, jp_stream_true = st, jp_has_stream_options = so, jp_closing_brace = cb\<rparr>
     | _ \<Rightarrow> None)"
  using profile_agrees [of "''model''" sample_body] by simp

end
