(* ===== verification/Json_Splice.thy ===== *)
theory Json_Splice
  imports Json_Object
begin

text \<open>
  What the byte splices of \<open>hygress-gateway/src/body.rs\<close> do to a body: the encoder writes string
  tokens that the scanner reads back, replacing a located string token moves the members behind it
  and changes nothing else a scan reports, and the injected member is one more member.
\<close>

section \<open>Encoding\<close>

text \<open>A Rust \<open>str\<close>: the UTF-8 bytes of a sequence of scalar values.\<close>

definition is_scalar :: "nat \<Rightarrow> bool" where
  "is_scalar cp \<longleftrightarrow> char_from_u32 cp = Some cp"

definition str_of :: "nat list \<Rightarrow> string" where
  "str_of cps = concat (map utf8_encode cps)"

lemma str_of_simps [simp]: "str_of [] = []" "str_of (cp # cps) = utf8_encode cp @ str_of cps"
  by (simp_all add: str_of_def)

lemma byte_of_char_of [simp]: "byte_of (char_of n) = n mod 256"
  by (simp add: byte_of_def)

lemma byte_at_simps [simp]:
  "byte_at (c # b) 0 = Some (byte_of c)" "byte_at (c # b) (Suc i) = byte_at b i"
  "byte_at (c # b) (numeral k) = byte_at b (numeral k - 1)"
  by (simp_all add: byte_at_def get_at_def nth_Cons')

lemma get_at_simps [simp]:
  "get_at (c # b) 0 = Some c" "get_at (c # b) (Suc i) = get_at b i"
  "get_at (c # b) (numeral k) = get_at b (numeral k - 1)"
  by (simp_all add: get_at_def nth_Cons')

lemma char_of_eqI: "byte_of c = n \<Longrightarrow> char_of n = c"
  by (auto simp: byte_of_def)

lemma char_of_neq: "n < 256 \<Longrightarrow> n \<noteq> byte_of c \<Longrightarrow> char_of n \<noteq> c"
  by (auto simp: byte_of_def)

lemma encode_json_byte_plain:
  "0x20 \<le> byte_of c \<Longrightarrow> c \<noteq> CHR 0x22 \<Longrightarrow> c \<noteq> CHR 0x5C \<Longrightarrow> encode_json_byte c = [c]"
  by (auto simp: encode_json_byte_def byte_of_def)

lemma hex_digit_lower: "d < 16 \<Longrightarrow> hex_digit (lower_hex d) = Some d"
  by (auto simp: lower_hex_def hex_digit_def Let_def)

lemma json_string_char_high:
  "byte_of c \<ge> 0x80 \<Longrightarrow> json_string_char (c # b) 0 = map_option (\<lambda>(ch, n). (n, Some ch)) (decode_utf8 (c # b) 0)"
  by (auto simp: json_string_char_def byte_of_def)

lemma json_string_char_encode_ascii:
  assumes b: "byte_of c < 0x80"
  shows "json_string_char (encode_json_byte c) 0 = Some (length (encode_json_byte c), Some (byte_of c))"
proof -
  have s: "char_from_u32 (byte_of c) = Some (byte_of c)" using b by (simp add: char_from_u32_def)
  consider "c \<in> {CHR 0x22, CHR 0x5C, CHR 0x0A, CHR 0x0D, CHR 0x09, CHR 0x08, CHR 0x0C}"
    | "c \<notin> {CHR 0x22, CHR 0x5C, CHR 0x0A, CHR 0x0D, CHR 0x09, CHR 0x08, CHR 0x0C}" "byte_of c < 0x20"
    | "c \<noteq> CHR 0x22" "c \<noteq> CHR 0x5C" "0x20 \<le> byte_of c" by force
  then show ?thesis
  proof cases
    case 1
    then show ?thesis by (auto simp: json_string_char_def encode_json_byte_def simple_escape_def byte_of_def)
  next
    case 2
    let ?hi = "lower_hex (byte_of c div 16)" and ?lo = "lower_hex (byte_of c mod 16)"
    have e: "encode_json_byte c = [CHR 0x5C, CHR ''u'', CHR ''0'', CHR ''0'', ?hi, ?lo]"
      using 2 by (simp add: encode_json_byte_def)
    have "hex_digit CHR ''0'' = Some 0" by (simp add: hex_digit_def byte_of_def)
    then have p: "parse_hex4 [CHR 0x5C, CHR ''u'', CHR ''0'', CHR ''0'', ?hi, ?lo] 2 = Some (byte_of c)"
      using 2(2) by (simp add: parse_hex4_def get_range_def hex_digit_lower)
    show ?thesis unfolding e json_string_char_def unicode_escape_def add_0 p using 2(2) s by simp
  next
    case 3
    then show ?thesis using b by (simp add: encode_json_byte_plain json_string_char_def)
  qed
qed

text \<open>The bits a sequence byte carries.\<close>

lemma cont_bits_of [simp]: "y < 64 \<Longrightarrow> (128 + y) mod 64 = y" "y < 64 \<Longrightarrow> cont_bits (128 + y)"
  "y < 64 \<Longrightarrow> (128 + y) mod 256 = y + (128::nat)"
  using mod_mult_self3 [of 2 64 y] div_mult_self3 [of 64 2 y] by (simp_all add: cont_bits_def)

lemma lead_bits [simp]:
  "x < 32 \<Longrightarrow> (192 + x) mod 32 = (x::nat)" "x < 16 \<Longrightarrow> (224 + x) mod 16 = (x::nat)" "x < 8 \<Longrightarrow> (240 + x) mod 8 = (x::nat)"
  using mod_mult_self3 [of 6 32 x] mod_mult_self3 [of 14 16 x] mod_mult_self3 [of 30 8 x] by simp_all

lemma decode_utf8_encode2:
  assumes "0x80 \<le> cp" "cp < 0x800"
  shows "decode_utf8 (utf8_encode cp) 0 = Some (cp, 2)"
proof -
  define x y where d: "x = cp div 64" "y = cp mod 64"
  have cp: "x * 64 + y = cp" unfolding d by (rule div_mult_mod_eq)
  have b: "x < 32" "2 \<le> x" "y < 64" using assms unfolding d by simp_all
  have e: "utf8_encode cp = [char_of (0xC0 + x), char_of (0x80 + y)]" using assms by (simp add: utf8_encode_def d)
  have "char_from_u32 cp = Some cp" using assms by (simp add: char_from_u32_def)
  then show ?thesis using b unfolding e by (simp add: decode_utf8_def cp add.commute [of y] del: of_char_of)
qed

lemma decode_utf8_bits3:
  assumes "byte_of c0 = 224 + x" "byte_of c1 = 128 + y" "byte_of c2 = 128 + z" "x < 16" "y < 64" "z < 64"
    and "x = 0 \<Longrightarrow> 32 \<le> y" "x = 13 \<Longrightarrow> y < 32"
  shows "decode_utf8 [c0, c1, c2] 0 = map_option (\<lambda>ch. (ch, 3)) (char_from_u32 (x * 4096 + y * 64 + z))"
proof -
  have "\<not> ((224 + x = 224 \<and> 128 + y < 160) \<or> (224 + x = 237 \<and> 128 + y \<ge> 160))" using assms(7,8) by auto
  then show ?thesis using assms(1-6) by (auto simp: decode_utf8_def)
qed

lemma decode_utf8_bits4:
  assumes "byte_of c0 = 240 + w" "byte_of c1 = 128 + x" "byte_of c2 = 128 + y" "byte_of c3 = 128 + z"
    and "w < 5" "x < 64" "y < 64" "z < 64" and "w = 0 \<Longrightarrow> 16 \<le> x" "w = 4 \<Longrightarrow> x < 16"
  shows "decode_utf8 [c0, c1, c2, c3] 0 =
    map_option (\<lambda>ch. (ch, 4)) (char_from_u32 (w * 262144 + x * 4096 + y * 64 + z))"
proof -
  have "\<not> ((240 + w = 240 \<and> 128 + x < 144) \<or> (240 + w = 244 \<and> 128 + x \<ge> 144))" using assms(9,10) by auto
  then show ?thesis using assms(1-8) by (auto simp: decode_utf8_def)
qed

lemma byte_of_small: "n < 256 \<Longrightarrow> byte_of (char_of n) = n"
  by simp

lemma digits64: "(cp::nat) div 64 div 64 * 4096 + cp div 64 mod 64 * 64 + cp mod 64 = cp"
proof -
  have "cp div 64 div 64 * 64 + cp div 64 mod 64 = cp div 64" "cp div 64 * 64 + cp mod 64 = cp"
    by (rule div_mult_mod_eq)+
  then show ?thesis by linarith
qed

lemma div64: "(cp::nat) div 4096 = cp div 64 div 64" "(cp::nat) div 262144 = cp div 64 div 64 div 64"
  by (simp_all add: div_mult2_eq [symmetric])

lemma decode_utf8_encode3:
  assumes "0x800 \<le> cp" "cp < 0x10000" "is_scalar cp"
  shows "decode_utf8 (utf8_encode cp) 0 = Some (cp, 3)"
proof -
  define x y z where d: "x = cp div 4096" "y = cp div 64 mod 64" "z = cp mod 64"
  have e: "utf8_encode cp = [char_of (224 + x), char_of (128 + y), char_of (128 + z)]"
    using assms unfolding utf8_encode_def d by simp
  have cp: "x * 4096 + y * 64 + z = cp" unfolding d div64 by (rule digits64)
  have b: "x < 16" "y < 64" "z < 64" using assms(2) unfolding d by simp_all
  have ns: "\<not> (55296 \<le> cp \<and> cp \<le> 57343)" using assms(3) by (auto simp: is_scalar_def char_from_u32_def split: if_splits)
  have c: "x = 0 \<Longrightarrow> 32 \<le> y" "x = 13 \<Longrightarrow> y < 32" using assms(1) ns cp b by linarith+
  have "decode_utf8 (utf8_encode cp) 0 = map_option (\<lambda>ch. (ch, 3)) (char_from_u32 (x * 4096 + y * 64 + z))"
    unfolding e by (rule decode_utf8_bits3 [OF byte_of_small byte_of_small byte_of_small b c]) (use b in simp_all)
  then show ?thesis using assms(3) by (simp add: cp is_scalar_def)
qed

lemma decode_utf8_encode4:
  assumes "0x10000 \<le> cp" "is_scalar cp"
  shows "decode_utf8 (utf8_encode cp) 0 = Some (cp, 4)"
proof -
  define w x y z where d: "w = cp div 262144" "x = cp div 4096 mod 64" "y = cp div 64 mod 64" "z = cp mod 64"
  have e: "utf8_encode cp = [char_of (240 + w), char_of (128 + x), char_of (128 + y), char_of (128 + z)]"
    using assms unfolding utf8_encode_def d by simp
  have lt: "cp < 0x110000" using assms(2) by (auto simp: is_scalar_def char_from_u32_def split: if_splits)
  have cp: "w * 262144 + x * 4096 + y * 64 + z = cp"
    using digits64 [of cp] div_mult_mod_eq [of "cp div 64 div 64" 64] unfolding d div64 by linarith
  have b: "w < 5" "x < 64" "y < 64" "z < 64" using lt unfolding d by simp_all
  have c: "w = 0 \<Longrightarrow> 16 \<le> x" "w = 4 \<Longrightarrow> x < 16" using assms(1) lt cp b by linarith+
  have "decode_utf8 (utf8_encode cp) 0 = map_option (\<lambda>ch. (ch, 4)) (char_from_u32 (w * 262144 + x * 4096 + y * 64 + z))"
    unfolding e by (rule decode_utf8_bits4 [OF byte_of_small byte_of_small byte_of_small byte_of_small b c]) (use b in simp_all)
  then show ?thesis using assms(2) by (simp add: cp is_scalar_def)
qed

text \<open>The encoding of a scalar is one character of a string token.\<close>

lemma same_upto_append: "same_upto (length b) b (b @ c)"
  by (simp add: same_upto_def get_at_def nth_append)

lemma encode_high: "0x80 \<le> byte_of c \<Longrightarrow> encode_json_byte c = [c]"
  by (rule encode_json_byte_plain) (auto simp: byte_of_def)

lemma encode_high_list: "\<forall>c \<in> set b. 0x80 \<le> byte_of c \<Longrightarrow> concat (map encode_json_byte b) = b"
  by (induction b) (simp_all add: encode_high)

definition encode_char :: "nat \<Rightarrow> string" where
  "encode_char cp = concat (map encode_json_byte (utf8_encode cp))"

lemma json_string_char_encode: 
  assumes "is_scalar cp"
  shows "json_string_char (encode_char cp) 0 = Some (length (encode_char cp), Some cp)"
proof (cases "cp < 0x80")
  case True
  then show ?thesis using json_string_char_encode_ascii [of "char_of cp"] by (simp add: encode_char_def utf8_encode_def)
next
  case False
  have lt: "cp < 0x110000" using assms by (auto simp: is_scalar_def char_from_u32_def split: if_splits)
  have high: "\<forall>c \<in> set (utf8_encode cp). 0x80 \<le> byte_of c"
    using False lt by (auto simp: utf8_encode_def)
  then have e: "encode_char cp = utf8_encode cp"
    unfolding encode_char_def by (rule encode_high_list)
  have "decode_utf8 (utf8_encode cp) 0 = Some (cp, length (utf8_encode cp))"
    using decode_utf8_encode2 [of cp] decode_utf8_encode3 [of cp] decode_utf8_encode4 [of cp] False assms
    by (cases "cp < 0x800"; cases "cp < 0x10000") (simp_all add: utf8_encode_def)
  moreover obtain c r where "utf8_encode cp = c # r" by (cases "utf8_encode cp") (auto simp: utf8_encode_def split: if_splits)
  ultimately show ?thesis using high unfolding e by (simp add: json_string_char_high)
qed

lemma encode_json_string_str_of:
  "encode_json_string (str_of cps) = CHR 0x22 # concat (map encode_char cps) @ [CHR 0x22]"
proof -
  have "concat (map encode_json_byte (str_of cps)) = concat (map encode_char cps)"
    by (induction cps) (simp_all add: encode_char_def)
  then show ?thesis by (simp add: encode_json_string_def)
qed

lemma parse_string_loop_encode:
  "list_all is_scalar cps \<Longrightarrow>
   parse_string_loop (pre @ concat (map encode_char cps) @ CHR 0x22 # rest) (length pre) out =
     Some (out @ str_of cps, length pre + length (concat (map encode_char cps)) + 1)"
proof (induction cps arbitrary: pre out)
  case Nil
  have "json_string_char (pre @ CHR 0x22 # rest) (length pre) = Some (length pre + 1, None)"
    using json_string_char_shift [of pre "CHR 0x22 # rest" 0] by (simp add: json_string_char_def)
  then show ?case by (simp add: parse_string_loop.simps)
next
  case (Cons cp cps)
  let ?e = "encode_char cp" and ?r = "concat (map encode_char cps) @ CHR 0x22 # rest"
  have "json_string_char (?e @ ?r) 0 = Some (length ?e, Some cp)"
    using json_string_char_encode same_upto_append Cons.prems by (auto intro: json_string_char_local)
  then have "json_string_char (pre @ ?e @ ?r) (length pre) = Some (length (pre @ ?e), Some cp)"
    using json_string_char_shift [of pre "?e @ ?r" 0] by simp
  then show ?case using Cons.IH [of "pre @ ?e" "out @ utf8_encode cp"] Cons.prems
    by (subst parse_string_loop.simps) simp
qed

lemma parse_encode:
  "list_all is_scalar cps \<Longrightarrow> parse_json_string (encode_json_string (str_of cps) @ rest) 0 =
    Some (str_of cps, length (encode_json_string (str_of cps)))"
  using parse_string_loop_encode [of cps "[CHR 0x22]" rest "[]"]
  by (simp add: parse_json_string_def encode_json_string_str_of)

text \<open>
  Property C27. A scanner that meets the encoding of a text reads the text back and stops behind the
  closing quote, whatever follows: the encoder never ends a token early and escapes what it must.
\<close>

theorem parse_encode_json_string:
  assumes "list_all is_scalar cps"
  shows "parse_json_string (encode_json_string (str_of cps) @ rest) 0 =
    Some (str_of cps, length (encode_json_string (str_of cps)))"
  using assms by (rule parse_encode)

theorem parse_encode_json_string_witness:
  "parse_json_string (encode_json_string (str_of [0x22, 0x0A, 0x01, 0xE9, 0x20AC, 0x1F600]) @ ''}'') 0 =
    Some (str_of [0x22, 0x0A, 0x01, 0xE9, 0x20AC, 0x1F600],
      length (encode_json_string (str_of [0x22, 0x0A, 0x01, 0xE9, 0x20AC, 0x1F600])))"
  by (rule parse_encode_json_string) (simp add: is_scalar_def char_from_u32_def)

section \<open>The trace of a body\<close>

lemmas [simp del] = trace_loop.simps(2)

text \<open>One step of the trace: closing brace, comma, or member.\<close>

lemma trace_loop_step:
  "trace_loop b (Suc fuel) pos = Some (cb, ms) \<longleftrightarrow>
     (\<exists>p. p = skip_ws b pos \<and>
       (get_at b p = Some (CHR ''}'') \<and> skip_ws b (p + 1) = length b \<and> cb = p \<and> ms = [] \<or>
        get_at b p = Some (CHR '','') \<and> get_at b (skip_ws b (p + 1)) \<noteq> Some (CHR ''}'') \<and>
          trace_loop b fuel (skip_ws b (p + 1)) = Some (cb, ms) \<or>
        get_at b p = Some (CHR 0x22) \<and>
          (\<exists>k ak v e ms'. parse_json_string b p = Some (k, ak) \<and> get_at b (skip_ws b ak) = Some (CHR '':'') \<and>
             v = skip_ws b (skip_ws b ak + 1) \<and> skip_json Value b v 0 = Some e \<and>
             trace_loop b fuel e = Some (cb, ms') \<and> ms = (k, v, e) # ms')))"
  by (auto simp: trace_loop.simps Let_def split: option.splits if_splits)

lemma parse_json_string_progress: "parse_json_string b i = Some (s, j) \<Longrightarrow> i < j"
  using skip_json_string_progress [of b i j] by (simp add: skip_json_string_parse)

lemma skip_ws_idem [simp]: "skip_ws b (skip_ws b i) = skip_ws b i"
proof (induction b i rule: skip_ws.induct)
  case (1 b i)
  have "skip_ws b i = (if i < length b \<and> json_ws (b ! i) then skip_ws b (i + 1) else i)" by (rule skip_ws.simps)
  then show ?case using 1 by (cases "i < length b \<and> json_ws (b ! i)") presburger+
qed

lemma trace_loop_cases [consumes 1, case_names close comma member]:
  assumes "trace_loop b (Suc fuel) pos = Some (cb, ms)"
  obtains "get_at b (skip_ws b pos) = Some (CHR ''}'')" "skip_ws b (skip_ws b pos + 1) = length b"
      "cb = skip_ws b pos" "ms = []"
    | "get_at b (skip_ws b pos) = Some (CHR '','')"
      "get_at b (skip_ws b (skip_ws b pos + 1)) \<noteq> Some (CHR ''}'')"
      "trace_loop b fuel (skip_ws b (skip_ws b pos + 1)) = Some (cb, ms)"
      "pos < skip_ws b (skip_ws b pos + 1)"
    | k ak v e ms' where "get_at b (skip_ws b pos) = Some (CHR 0x22)"
      "parse_json_string b (skip_ws b pos) = Some (k, ak)" "get_at b (skip_ws b ak) = Some (CHR '':'')"
      "v = skip_ws b (skip_ws b ak + 1)" "skip_json Value b v 0 = Some e" "trace_loop b fuel e = Some (cb, ms')"
      "ms = (k, v, e) # ms'" "skip_ws b pos < ak" "skip_ws b ak < v" "ak \<le> skip_ws b ak" "pos < v" "v < e"
proof -
  define p where "p = skip_ws b pos"
  have pp: "pos \<le> p" "p + 1 \<le> skip_ws b (p + 1)" unfolding p_def by (rule skip_ws_ge)+
  from assms [unfolded trace_loop_step, folded p_def]
  consider "get_at b p = Some (CHR ''}'')" "skip_ws b (p + 1) = length b" "cb = p" "ms = []"
    | "get_at b p = Some (CHR '','')" "get_at b (skip_ws b (p + 1)) \<noteq> Some (CHR ''}'')"
        "trace_loop b fuel (skip_ws b (p + 1)) = Some (cb, ms)"
    | k ak v e ms' where "get_at b p = Some (CHR 0x22)" "parse_json_string b p = Some (k, ak)"
        "get_at b (skip_ws b ak) = Some (CHR '':'')" "v = skip_ws b (skip_ws b ak + 1)"
        "skip_json Value b v 0 = Some e" "trace_loop b fuel e = Some (cb, ms')" "ms = (k, v, e) # ms'"
    by blast
  then show thesis
  proof cases
    case 1
    then show thesis using that(1) by (simp add: p_def)
  next
    case 2
    then show thesis using that(2) pp by (simp add: p_def)
  next
    case 3
    have "p < ak" using 3(2) by (rule parse_json_string_progress)
    moreover have "ak \<le> skip_ws b ak" "skip_ws b ak + 1 \<le> v" unfolding 3(4) by (rule skip_ws_ge)+
    moreover have "v < e" using 3(5) by (rule skip_json_progress)
    ultimately show thesis using that(3) [OF 3 [unfolded p_def]] pp by (simp add: p_def)
  qed
qed

text \<open>Members lie in order between the position and the closing brace.\<close>

lemma trace_loop_bounds:
  "trace_loop b fuel pos = Some (cb, ms) \<Longrightarrow>
     pos \<le> cb \<and> get_at b cb = Some (CHR ''}'') \<and> skip_ws b (cb + 1) = length b \<and>
     sorted_wrt (\<lambda>(_, _, e) (_, v, _). e < v) ms \<and>
     (\<forall>(k, v, e) \<in> set ms. pos < v \<and> v < e \<and> e \<le> cb \<and> skip_ws b v = v \<and> skip_json Value b v 0 = Some e)"
proof (induction fuel arbitrary: pos ms)
  case (Suc fuel)
  from Suc.prems show ?case
  proof (cases rule: trace_loop_cases)
    case close
    then show ?thesis using skip_ws_ge [of pos b] by simp
  next
    case comma
    then show ?thesis using Suc.IH [OF comma(3)] by fastforce
  next
    case (member k ak v e ms')
    then show ?thesis using Suc.IH [OF member(6)] by fastforce
  qed
qed simp

text \<open>Every fuel that reaches the end of the body gives the same trace.\<close>

lemma trace_loop_fuel:
  "trace_loop b fuel pos = Some (cb, ms) \<Longrightarrow> length b < pos + fuel' \<Longrightarrow> trace_loop b fuel' pos = Some (cb, ms)"
proof (induction fuel arbitrary: pos ms fuel')
  case (Suc fuel)
  have "pos \<le> cb" "cb < length b" using trace_loop_bounds [OF Suc.prems(1)] by (auto dest: get_at_lengthD)
  then obtain f where f: "fuel' = Suc f" using Suc.prems(2) by (cases fuel') auto
  from Suc.prems(1) show ?case
  proof (cases rule: trace_loop_cases)
    case close
    then show ?thesis unfolding f by (simp add: trace_loop_step)
  next
    case comma
    have "trace_loop b f (skip_ws b (skip_ws b pos + 1)) = Some (cb, ms)"
      using comma(4) Suc.prems(2) f by (intro Suc.IH [OF comma(3)]) simp
    then show ?thesis using comma unfolding f by (simp add: trace_loop_step)
  next
    case (member k ak v e ms')
    have "trace_loop b f e = Some (cb, ms')"
      using member(11,12) Suc.prems(2) f by (intro Suc.IH [OF member(6)]) simp
    then show ?thesis using member unfolding f by (simp add: trace_loop_step)
  qed
qed simp

text \<open>The trace of a suffix.\<close>

definition move_all :: "(nat \<Rightarrow> nat) \<Rightarrow> nat \<times> (string \<times> nat \<times> nat) list \<Rightarrow> nat \<times> (string \<times> nat \<times> nat) list" where
  "move_all f t = (f (fst t), map (\<lambda>(k, v, e). (k, f v, f e)) (snd t))"

lemma move_all_simps [simp]:
  "move_all f (cb, []) = (f cb, [])"
  "move_all f (cb, (k, v, e) # ms) = (f cb, (k, f v, f e) # map (\<lambda>(k, v, e). (k, f v, f e)) ms)"
  by (simp_all add: move_all_def)

lemma move_all_Some: "map_option (move_all f) t = Some (cb, ms) \<longleftrightarrow>
    (\<exists>cb0 ms0. t = Some (cb0, ms0) \<and> cb = f cb0 \<and> ms = map (\<lambda>(k, v, e). (k, f v, f e)) ms0)"
  by (cases t) (auto simp: move_all_def)

lemma skip_ws_shift_Suc: "skip_ws (p @ b) (Suc (length p + j)) = length p + skip_ws b (Suc j)"
  using skip_ws_shift [of p b "Suc j"] by simp

lemma trace_loop_shift:
  "trace_loop (p @ b) fuel (length p + i) = map_option (move_all ((+) (length p))) (trace_loop b fuel i)"
proof (induction fuel arbitrary: i)
  case (Suc fuel)
  show ?case unfolding trace_loop.simps(2) skip_ws_shift
    by (auto simp: Let_def skip_ws_shift_Suc skip_ws_shift shift_at parse_json_string_shift skip_json_shift Suc.IH
        move_all_def option.map_comp comp_def case_prod_unfold split: option.splits)
qed simp

text \<open>
  A body whose value token at \<open>s\<close>, ending at \<open>e\<close>, is exchanged for one that ends at \<open>e'\<close>: the bytes
  before it stay, the trace behind it moves.
\<close>

definition moved :: "nat \<Rightarrow> nat \<Rightarrow> nat \<Rightarrow> nat \<Rightarrow> nat" where
  "moved s e e' p = (if p \<le> s then p else p + e' - e)"

definition token_swap :: "bytes \<Rightarrow> nat \<Rightarrow> nat \<Rightarrow> bytes \<Rightarrow> nat \<Rightarrow> bool" where
  "token_swap b s e b' e' \<longleftrightarrow> same_upto (Suc s) b b' \<and> skip_json Value b' s 0 = Some e' \<and>
     (\<forall>fuel cb ms. trace_loop b fuel e = Some (cb, ms) \<longrightarrow>
        trace_loop b' fuel e' = Some (move_all (\<lambda>p. p + e' - e) (cb, ms))) \<and>
     (\<forall>p\<ge>e. get_at b' (p + e' - e) = get_at b p)"

lemma token_swapI:
  assumes t: "parse_json_string (tok @ post) 0 = Some (d, length tok)"
    and t': "parse_json_string (tok' @ post) 0 = Some (d', length tok')"
  shows "token_swap (pre @ tok @ post) (length pre) (length pre + length tok) (pre @ tok' @ post) (length pre + length tok')"
proof -
  have q: "get_at (tok' @ post) 0 = Some (CHR 0x22)" "get_at (tok @ post) 0 = Some (CHR 0x22)"
    using t t' by (auto simp: parse_json_string_def split: if_splits)
  have "get_at (pre @ tok' @ post) k = get_at (pre @ tok @ post) k" if "k < Suc (length pre)" for k
  proof (cases "k < length pre")
    case False
    then have "k = length pre" using that by simp
    then show ?thesis using q get_at_append_right [of pre _ 0] by simp
  qed (simp add: get_at_def nth_append)
  moreover have "skip_json Value (pre @ tok' @ post) (length pre) 0 = Some (length pre + length tok')"
    using skip_json_shift [of Value pre "tok' @ post" 0 0] q t' by (simp add: skip_json_quote)
  moreover have "trace_loop (pre @ tok' @ post) fuel (length pre + length tok') =
      Some (move_all (\<lambda>p. p + (length pre + length tok') - (length pre + length tok)) (cb, ms))"
    if tr: "trace_loop (pre @ tok @ post) fuel (length pre + length tok) = Some (cb, ms)" for fuel cb ms
  proof -
    obtain cb0 ms0 where t0: "trace_loop post fuel 0 = Some (cb0, ms0)" "(cb, ms) = move_all ((+) (length pre + length tok)) (cb0, ms0)"
      using tr trace_loop_shift [of "pre @ tok" post fuel 0] by (cases "trace_loop post fuel 0") auto
    then show ?thesis using trace_loop_shift [of "pre @ tok'" post fuel 0] by (auto simp: move_all_def)
  qed
  moreover have "get_at (pre @ tok' @ post) (p + (length pre + length tok') - (length pre + length tok)) =
      get_at (pre @ tok @ post) p" if "length pre + length tok \<le> p" for p
    using get_at_append_right [of "pre @ tok" post "p - (length pre + length tok)"]
      get_at_append_right [of "pre @ tok'" post "p - (length pre + length tok)"] that
    by (simp add: algebra_simps)
  ultimately show ?thesis unfolding token_swap_def same_upto_def by simp
qed

lemma trace_loop_prefix:
  assumes sw: "token_swap b s e b' e'"
  shows "trace_loop b fuel pos = Some (cb, ms) \<Longrightarrow> pos \<le> s \<Longrightarrow> (k, s, e) \<in> set ms \<Longrightarrow>
    trace_loop b' fuel pos = Some (move_all (moved s e e') (cb, ms))"
proof (induction fuel arbitrary: pos ms)
  case (Suc fuel)
  have same: "same_upto (Suc s) b b'" using sw by (simp add: token_swap_def)
  have ws: "skip_ws b' i = skip_ws b i" if "skip_ws b i \<le> s" for i
    using skip_ws_local [OF same_upto_mono [OF same]] that by simp
  have at: "get_at b' i = get_at b i" if "i \<le> s" for i using same_upto_at [OF same] that by simp
  from Suc.prems(1) show ?case
  proof (cases rule: trace_loop_cases)
    case close
    then show ?thesis using Suc.prems(3) by simp
  next
    case comma
    have "skip_ws b (skip_ws b pos + 1) \<le> s"
      using trace_loop_bounds [OF comma(3)] Suc.prems(3) by force
    moreover have "skip_ws b pos < skip_ws b (skip_ws b pos + 1)"
      using skip_ws_ge [of "skip_ws b pos + 1" b] by simp
    ultimately show ?thesis using comma(1,2) Suc.IH [OF comma(3) _ Suc.prems(3)]
      unfolding trace_loop_step move_all_def by (simp add: ws at)
  next
    case (member key ak v w ms')
    have later: "w < v2" if "(k2, v2, w2) \<in> set ms'" for k2 v2 w2
      using trace_loop_bounds [OF member(6)] that by force
    have "v \<le> s" using Suc.prems(3) member(7,12) later by force
    then have head: "skip_ws b' pos = skip_ws b pos" "get_at b' (skip_ws b pos) = Some (CHR 0x22)"
      "parse_json_string b' (skip_ws b pos) = Some (key, ak)" "skip_ws b' ak = skip_ws b ak"
      "get_at b' (skip_ws b ak) = Some (CHR '':'')" "skip_ws b' (skip_ws b ak + 1) = v"
      using member parse_json_string_local [OF member(2) same_upto_mono [OF same]]
      by (simp_all add: ws at)
    show ?thesis
    proof (cases "v = s")
      case True
      then have w: "w = e" using Suc.prems(3) member(7,12) later by force
      have "\<forall>(k2, v2, w2) \<in> set ms'. \<not> v2 \<le> s \<and> \<not> w2 \<le> s" "\<not> cb \<le> s"
        using trace_loop_bounds [OF member(6)] member(12) True by force+
      then have "move_all (\<lambda>p. p + e' - e) (cb, ms') = move_all (moved s e e') (cb, ms')"
        by (auto simp: move_all_def moved_def)
      moreover have "trace_loop b' fuel e' = Some (move_all (\<lambda>p. p + e' - e) (cb, ms'))" "skip_json Value b' s 0 = Some e'"
        using sw member(6) w by (simp_all add: token_swap_def)
      moreover have "moved s e e' v = s" "moved s e e' w = e'" using True w member(12) by (auto simp: moved_def)
      ultimately show ?thesis using head True member(7) unfolding trace_loop_step move_all_def by auto
    next
      case False
      then have m: "(k, s, e) \<in> set ms'" using Suc.prems(3) member(7) by auto
      then have "w < s" using later by blast
      then have "skip_json Value b' v 0 = Some w" "moved s e e' v = v" "moved s e e' w = w"
        using skip_json_local [OF member(5) same_token_Suc [OF same_upto_mono [OF same]]] \<open>v \<le> s\<close> by (simp_all add: moved_def)
      then show ?thesis using head member(7) Suc.IH [OF member(6) _ m] \<open>w < s\<close>
        unfolding trace_loop_step move_all_def by auto
    qed
  qed
qed simp

lemma top_level_trace_swap:
  assumes sw: "token_swap b s e b' e'" and t: "top_level_trace b = Some (cb, ms)" and m: "(k, s, e) \<in> set ms"
  shows "top_level_trace b' = Some (move_all (moved s e e') (cb, ms))"
proof -
  define p where "p = skip_ws b 0"
  have p: "get_at b p = Some (CHR ''{'')" and tl: "trace_loop b (Suc (length b)) (p + 1) = Some (cb, ms)"
    using t by (simp_all add: top_level_trace_def Let_def p_def split: if_splits)
  have ps: "p + 1 \<le> s" using trace_loop_bounds [OF tl] m by force
  have same: "same_upto (Suc s) b b'" using sw by (simp add: token_swap_def)
  have "skip_ws b' 0 = p" "get_at b' p = Some (CHR ''{'')"
    using skip_ws_local [OF same_upto_mono [OF same]] same_upto_at [OF same] p ps unfolding p_def by simp_all
  moreover have "trace_loop b' (Suc (length b')) (p + 1) = Some (move_all (moved s e e') (cb, ms))"
    using trace_loop_prefix [OF sw tl ps m] unfolding move_all_def by (rule trace_loop_fuel) simp
  ultimately show ?thesis by (simp add: top_level_trace_def)
qed

section \<open>Scans after a splice\<close>

lemma scan_profile_trace:
  assumes "key \<noteq> ''stream''" "key \<noteq> ''stream_options''"
  shows "scan_top_level_profile b key = map_option (\<lambda>(cb, ms).
     \<lparr>jp_model = foldl (model_step b key) None ms, jp_stream_true = fst (foldl (stream_step b) (False, False) ms),
      jp_has_stream_options = snd (foldl (stream_step b) (False, False) ms), jp_closing_brace = cb\<rparr>) (top_level_trace b)"
  by (auto simp: scan_top_level_profile_def top_level_members_trace [OF visit_profile_visits [OF assms]]
      foldl_prod option.map_comp comp_def split: prod.splits intro!: option.map_cong0)

lemma top_level_trace_bounds:
  assumes "top_level_trace b = Some (cb, ms)"
  shows "get_at b cb = Some (CHR ''}'') \<and> skip_ws b (cb + 1) = length b \<and>
    sorted_wrt (\<lambda>(_, _, e) (_, v, _). e < v) ms \<and>
    (\<forall>(k, v, e) \<in> set ms. v < e \<and> e \<le> cb \<and> skip_ws b v = v \<and> skip_json Value b v 0 = Some e)"
proof -
  have "trace_loop b (Suc (length b)) (skip_ws b 0 + 1) = Some (cb, ms)"
    using assms by (simp add: top_level_trace_def Let_def split: if_splits)
  then show ?thesis by (drule_tac trace_loop_bounds) auto
qed

text \<open>A value that the skipper accepts is \<open>true\<close> as soon as it starts like it.\<close>

lemma value_true_iff:
  assumes "skip_json Value b v 0 = Some e" "skip_ws b v = v"
  shows "get_range b v (v + 4) = Some ''true'' \<longleftrightarrow> get_at b v = Some (CHR ''t'')"
proof
  assume "get_range b v (v + 4) = Some ''true''"
  then have r: "take 4 (drop v b) = ''true''" "v + 4 \<le> length b" by (auto simp: get_range_def split: if_splits)
  have "take 4 (drop v b) ! 0 = b ! v" using r(2) by (simp add: nth_take)
  then have "b ! v = CHR ''t''" "v < length b" unfolding r(1) using r(2) by simp_all
  then show "get_at b v = Some (CHR ''t'')" by (simp add: get_at_def)
next
  assume t: "get_at b v = Some (CHR ''t'')"
  then have "value_body (\<lambda>m. skip_json m b) b v 0 = Some e" using assms by (simp add: skip_json_Value_eq)
  then show "get_range b v (v + 4) = Some ''true''"
    using t by (simp add: value_body_def is_ascii_digit_def split: if_splits)
qed

lemma stream_fold_moved:
  assumes "\<And>k v e. (k, v, e) \<in> set ms \<Longrightarrow> get_at b' (f v) = get_at b v \<and>
      skip_ws b v = v \<and> skip_json Value b v 0 = Some e \<and> skip_ws b' (f v) = f v \<and> skip_json Value b' (f v) 0 = Some (f e)"
  shows "foldl (stream_step b') s (map (\<lambda>(k, v, e). (k, f v, f e)) ms) = foldl (stream_step b) s ms"
  using assms
proof (induction ms arbitrary: s)
  case (Cons m ms)
  obtain k v e where m: "m = (k, v, e)" by (cases m)
  have f: "get_at b' (f v) = get_at b v" "skip_ws b v = v" "skip_json Value b v 0 = Some e"
    "skip_ws b' (f v) = f v" "skip_json Value b' (f v) 0 = Some (f e)" using Cons.prems [of k v e] m by auto
  have "stream_step b' s (k, f v, f e) = stream_step b s (k, v, e)"
    unfolding stream_step_def value_true_iff [OF f(3,2)] value_true_iff [OF f(5,4)] prod.case f(1) by simp
  moreover have "foldl (stream_step b') t (map (\<lambda>(k, v, e). (k, f v, f e)) ms) = foldl (stream_step b) t ms" for t
    using Cons.prems by (intro Cons.IH) auto
  ultimately show ?case using m by simp
qed simp

lemma model_fold_other: "key \<notin> fst ` set ms \<Longrightarrow> foldl (model_step b key) s ms = s"
  by (induction ms arbitrary: s) (auto simp: model_step_def)

lemma model_fold_last:
  "foldl (model_step b key) None ms = Some (d, s, e) \<Longrightarrow>
     \<exists>ms1 ms2. ms = ms1 @ (key, s, e) # ms2 \<and> key \<notin> fst ` set ms2 \<and>
       get_at b s = Some (CHR 0x22) \<and> map_option fst (parse_json_string b s) = Some d"
proof (induction ms rule: rev_induct)
  case (snoc m ms)
  obtain k v w where m: "m = (k, v, w)" by (cases m)
  show ?case
  proof (cases "k = key")
    case True
    then have "m = (key, s, e)" "get_at b s = Some (CHR 0x22)" "map_option fst (parse_json_string b s) = Some d"
      using snoc.prems m by (auto simp: model_step_def split: if_splits)
    then show ?thesis by (intro exI [of _ ms] exI [of _ "[]"]) simp
  next
    case False
    then obtain ms1 ms2 where "ms = ms1 @ (key, s, e) # ms2 \<and> key \<notin> fst ` set ms2 \<and>
       get_at b s = Some (CHR 0x22) \<and> map_option fst (parse_json_string b s) = Some d"
      using snoc m by (auto simp: model_step_def)
    then show ?thesis using False m by (intro exI [of _ ms1] exI [of _ "ms2 @ [m]"]) auto
  qed
qed simp

text \<open>Splicing an encoded string over the string token of a member swaps that token.\<close>

lemma splice_token_swap:
  assumes pj: "parse_json_string b s = Some (d, e)" and se: "s < e" "e < length b" and sc: "list_all is_scalar cps"
  shows "token_swap b s e (splice_json_string_at b (s, e) (str_of cps)) (s + length (encode_json_string (str_of cps)))"
    and "parse_json_string (splice_json_string_at b (s, e) (str_of cps)) s =
      Some (str_of cps, s + length (encode_json_string (str_of cps)))"
proof -
  define tok' where "tok' = encode_json_string (str_of cps)"
  define pre tok post where d: "pre = take s b" "tok = take (e - s) (drop s b)" "post = drop e b"
  have "drop (e - s) (drop s b) = post" using se unfolding d by simp
  then have b: "b = pre @ tok @ post" unfolding d by (metis append_take_drop_id)
  have l: "length pre = s" "length tok = e - s" using se unfolding d by auto
  have b': "splice_json_string_at b (s, e) (str_of cps) = pre @ tok' @ post"
    by (simp add: splice_json_string_at_def tok'_def d)
  have "parse_json_string (tok @ post) 0 = Some (d, length tok)"
    using pj parse_json_string_shift [of pre "tok @ post" 0] l se
    by (cases "parse_json_string (tok @ post) 0") (auto simp: b [symmetric])
  moreover have "parse_json_string (tok' @ post) 0 = Some (str_of cps, length tok')"
    unfolding tok'_def by (rule parse_encode [OF sc])
  ultimately show "token_swap b s e (splice_json_string_at b (s, e) (str_of cps)) (s + length (encode_json_string (str_of cps)))"
    "parse_json_string (splice_json_string_at b (s, e) (str_of cps)) s =
      Some (str_of cps, s + length (encode_json_string (str_of cps)))"
    using token_swapI [of tok post d tok' "str_of cps" pre] parse_json_string_shift [of pre "tok' @ post" 0] l se
    by (auto simp: b [symmetric] b' [symmetric] tok'_def [symmetric])
qed

lemma splice_profile:
  assumes key: "key \<noteq> ''stream''" "key \<noteq> ''stream_options''"
    and p: "scan_top_level_profile b key = Some p" and m: "jp_model p = Some (d, s, e)"
    and sc: "list_all is_scalar cps"
  shows "scan_top_level_profile (splice_json_string_at b (s, e) (str_of cps)) key =
    Some (p\<lparr>jp_model := Some (str_of cps, s, s + length (encode_json_string (str_of cps))),
            jp_closing_brace := jp_closing_brace p + length (encode_json_string (str_of cps)) - (e - s)\<rparr>)"
proof -
  define tok' where "tok' = encode_json_string (str_of cps)"
  define e' where "e' = s + length tok'"
  define b' where "b' = splice_json_string_at b (s, e) (str_of cps)"
  obtain cb ms where t: "top_level_trace b = Some (cb, ms)"
    and pm: "p = \<lparr>jp_model = foldl (model_step b key) None ms, jp_stream_true = fst (foldl (stream_step b) (False, False) ms),
      jp_has_stream_options = snd (foldl (stream_step b) (False, False) ms), jp_closing_brace = cb\<rparr>"
    using p unfolding scan_profile_trace [OF key] by auto
  obtain ms1 ms2 where ms: "ms = ms1 @ (key, s, e) # ms2" "key \<notin> fst ` set ms2" "get_at b s = Some (CHR 0x22)"
      "map_option fst (parse_json_string b s) = Some d"
    using model_fold_last [of b key ms] m pm by auto
  note bd = top_level_trace_bounds [OF t]
  have se: "s < e" "e \<le> cb" "skip_json Value b s 0 = Some e" using bd ms(1) by auto
  have cbl: "cb < length b" using bd by (auto dest: get_at_lengthD)
  have pj: "parse_json_string b s = Some (d, e)"
    using ms(4) se(3) skip_json_quote [OF ms(3)] by auto
  have sw: "token_swap b s e b' e'" and pj': "parse_json_string b' s = Some (str_of cps, e')"
    using splice_token_swap [OF pj se(1) _ sc] se(2) cbl unfolding b'_def e'_def tok'_def by simp_all
  let ?f = "moved s e e'"
  have t': "top_level_trace b' = Some (?f cb, map (\<lambda>(k, v, e). (k, ?f v, ?f e)) ms)"
    using top_level_trace_swap [OF sw t] ms(1) by (auto simp: move_all_def)
  have at': "get_at b' s = Some (CHR 0x22)" using pj' by (auto simp: parse_json_string_def split: if_splits)
  have "get_at b' (?f v) = get_at b v" if mem: "(k, v, w) \<in> set ms" for k v w
  proof (cases "v \<le> s")
    case True
    then show ?thesis using sw same_upto_at [of "Suc s" b b' v] by (simp add: token_swap_def moved_def)
  next
    case False
    then have "e < v" using mem bd se unfolding ms(1) by (fastforce simp: sorted_wrt_append)
    then show ?thesis using sw False by (simp add: token_swap_def moved_def)
  qed
  moreover note bd' = top_level_trace_bounds [OF t']
  ultimately have st: "foldl (stream_step b') (False, False) (map (\<lambda>(k, v, e). (k, ?f v, ?f e)) ms) =
      foldl (stream_step b) (False, False) ms"
    using bd by (intro stream_fold_moved) force
  have mo: "foldl (model_step b' key) None (map (\<lambda>(k, v, e). (k, ?f v, ?f e)) ms) = Some (str_of cps, s, e')"
  proof -
    have "key \<notin> fst ` set (map (\<lambda>(k, v, e). (k, ?f v, ?f e)) ms2)" using ms(2) by force
    moreover have "?f s = s" "?f e = e'" using se by (simp_all add: moved_def)
    ultimately show ?thesis using at' pj' by (simp add: ms(1) model_fold_other model_step_def del: map_map)
  qed
  have "?f cb = cb + length tok' - (e - s)" using se by (simp add: moved_def e'_def)
  then show ?thesis unfolding b'_def [symmetric] tok'_def [symmetric] scan_profile_trace [OF key] t'
    using st mo by (simp add: pm e'_def)
qed

section \<open>The injected member\<close>

lemma skip_ws_stop:
  "same_upto (skip_ws b i) b b' \<Longrightarrow> get_at b' (skip_ws b i) = Some c \<Longrightarrow> \<not> json_ws c \<Longrightarrow> skip_ws b' i = skip_ws b i"
proof (induction b i rule: skip_ws.induct)
  case (1 b i)
  show ?case
  proof (cases "i < length b \<and> json_ws (b ! i)")
    case True
    then have e: "skip_ws b i = skip_ws b (i + 1)" by (subst skip_ws.simps) simp
    have "i < skip_ws b i" unfolding e using skip_ws_ge [of "i + 1" b] by simp
    then have "get_at b' i = Some (b ! i)" using same_upto_at [OF "1.prems"(1)] True by (simp add: get_at_def)
    then have "skip_ws b' i = skip_ws b' (i + 1)" using True by (simp add: skip_ws_at [of b' i])
    then show ?thesis using "1.IH" True "1.prems" unfolding e by simp
  next
    case False
    then have "skip_ws b i = i" by (subst skip_ws.simps) auto
    then show ?thesis using "1.prems" by (simp add: skip_ws_at [of b' i])
  qed
qed

definition stream_options_key :: string where
  "stream_options_key = ''stream_options''"

lemma injection_length: "length stream_options_injection = 40"
  by (simp add: stream_options_injection_def)

lemma injection_tokens:
  "parse_json_string stream_options_injection 1 = Some (stream_options_key, 17)"
  "skip_json Value stream_options_injection 18 0 = Some 40"
  "skip_ws stream_options_injection 1 = 1" "skip_ws stream_options_injection 18 = 18"
  "skip_ws stream_options_injection 17 = 17" "skip_ws stream_options_injection 0 = 0"
  "get_at stream_options_injection 0 = Some (CHR '','')" "get_at stream_options_injection 1 = Some (CHR 0x22)"
  "get_at stream_options_injection 17 = Some (CHR '':'')"
  by code_simp+

lemma trace_loop_injection:
  assumes "skip_ws post 1 = length post" "get_at post 0 = Some (CHR ''}'')"
  shows "trace_loop (stream_options_injection @ post) (Suc (Suc (Suc fuel))) 0 = Some (40, [(stream_options_key, 18, 40)])"
proof -
  let ?b = "stream_options_injection @ post"
  note len = injection_length
  have up: "same_upto k stream_options_injection ?b" if "k \<le> 40" for k
    by (rule same_upto_mono [OF same_upto_append]) (simp add: len that)
  have tok: "same_token 40 stream_options_injection ?b"
    using assms(2) get_at_append_right [of stream_options_injection post 0]
    by (simp add: same_token_def up number_char_at_def len digit_at_def is_ascii_digit_def)
  have ws: "skip_ws ?b k = k" if "skip_ws stream_options_injection k = k" "k < 40" for k
    using skip_ws_local [of stream_options_injection k ?b] up that by simp
  have at: "get_at ?b k = get_at stream_options_injection k" if "k < 40" for k
    using same_upto_at [OF up [of 40]] that by simp
  have "parse_json_string ?b 1 = Some (stream_options_key, 17)"
    by (rule parse_json_string_local [OF injection_tokens(1)]) (simp add: up)
  moreover have "skip_json Value ?b 18 0 = Some 40" by (rule skip_json_local [OF injection_tokens(2) tok])
  moreover have e: "skip_ws ?b 40 = 40" "get_at ?b 40 = Some (CHR ''}'')" "skip_ws ?b 41 = length ?b"
    using skip_ws_shift [of stream_options_injection post 0] skip_ws_shift [of stream_options_injection post 1]
      get_at_append_right [of stream_options_injection post 0] assms
    by (simp_all add: len skip_ws_at [of post 0] json_ws_def)
  moreover have "trace_loop ?b (Suc fuel) 40 = Some (40, [])" unfolding trace_loop_step using e by simp
  ultimately show ?thesis using ws at injection_tokens unfolding trace_loop_step
    by simp
qed

lemma trace_loop_extend:
  assumes same: "same_upto cb b b'" and c: "get_at b' cb = Some (CHR '','')"
    and t: "\<And>f. trace_loop b' (Suc (Suc (Suc f))) cb = Some (cb', ms2)"
  shows "trace_loop b fuel pos = Some (cb, ms) \<Longrightarrow> trace_loop b' (fuel + 2) pos = Some (cb', ms @ ms2)"
proof (induction fuel arbitrary: pos ms)
  case (Suc fuel)
  have ws: "skip_ws b' i = skip_ws b i" if "skip_ws b i < cb" for i
    using skip_ws_local [OF same_upto_mono [OF same]] that by simp
  have at: "get_at b' i = get_at b i" if "i < cb" for i using same_upto_at [OF same] that by simp
  have nc: "\<not> number_char_at b' cb" using c by (simp add: number_char_at_def digit_at_def is_ascii_digit_def)
  note close_at = trace_loop_bounds [OF Suc.prems]
  from Suc.prems show ?case
  proof (cases rule: trace_loop_cases)
    case close
    then have "skip_ws b' pos = cb"
      using skip_ws_stop [of b pos b' "CHR '',''"] same c by (simp add: json_ws_def)
    moreover have "skip_ws b' cb = cb" using c by (simp add: skip_ws_at [of b' cb] json_ws_def)
    ultimately have "trace_loop b' (Suc (Suc (Suc fuel))) pos = trace_loop b' (Suc (Suc (Suc fuel))) cb"
      by (simp only: trace_loop.simps(2))
    then show ?thesis using t close by simp
  next
    case comma
    have "skip_ws b (skip_ws b pos + 1) \<noteq> cb" using comma(2) close_at by auto
    then have "skip_ws b (skip_ws b pos + 1) < cb" using trace_loop_bounds [OF comma(3)] by simp
    moreover have "skip_ws b pos < skip_ws b (skip_ws b pos + 1)"
      using skip_ws_ge [of "skip_ws b pos + 1" b] by simp
    ultimately show ?thesis using comma(1,2) Suc.IH [OF comma(3)]
      by (simp add: trace_loop_step ws at)
  next
    case (member key ak v w ms')
    have w: "w \<le> cb" using trace_loop_bounds [OF member(6)] by simp
    then have head: "skip_ws b' pos = skip_ws b pos" "get_at b' (skip_ws b pos) = Some (CHR 0x22)"
      "parse_json_string b' (skip_ws b pos) = Some (key, ak)" "skip_ws b' ak = skip_ws b ak"
      "get_at b' (skip_ws b ak) = Some (CHR '':'')" "skip_ws b' (skip_ws b ak + 1) = v"
      using member parse_json_string_local [OF member(2) same_upto_mono [OF same]]
      by (simp_all add: ws at)
    have "same_token w b b'"
      using w same_upto_mono [OF same w] at nc by (cases "w = cb") (simp_all add: same_token_def)
    then have "skip_json Value b' v 0 = Some w" by (rule skip_json_local [OF member(5)])
    then show ?thesis using head member(7) Suc.IH [OF member(6)] by (auto simp: trace_loop_step)
  qed
qed simp

lemma top_level_trace_inject:
  assumes t: "top_level_trace b = Some (cb, ms)" and s: "splice_stream_options b cb = Some b'"
  shows "top_level_trace b' = Some (cb + 40, ms @ [(stream_options_key, cb + 18, cb + 40)])" "same_upto cb b b'"
proof -
  note bd = top_level_trace_bounds [OF t]
  have cbl: "cb < length b" using bd by (auto dest: get_at_lengthD)
  have b': "b' = take cb b @ stream_options_injection @ drop cb b" using s cbl by (simp add: splice_stream_options_def)
  have l: "length (take cb b) = cb" using cbl by simp
  show same: "same_upto cb b b'" using cbl unfolding b' by (simp add: same_upto_def get_at_def nth_append)
  have post: "skip_ws (drop cb b) 1 = length (drop cb b)" "get_at (drop cb b) 0 = Some (CHR ''}'')"
    using skip_ws_shift [of "take cb b" "drop cb b" 1] get_at_append_right [of "take cb b" "drop cb b" 0] bd l by simp_all
  have c: "get_at b' cb = Some (CHR '','')"
    using get_at_append_right [of "take cb b" "stream_options_injection @ drop cb b" 0] l
    by (simp add: b' stream_options_injection_def)
  have tail: "trace_loop b' (Suc (Suc (Suc f))) cb = Some (cb + 40, [(stream_options_key, cb + 18, cb + 40)])" for f
    using trace_loop_shift [of "take cb b" "stream_options_injection @ drop cb b" "Suc (Suc (Suc f))" 0]
      trace_loop_injection [OF post, of f] l unfolding b' by (simp add: move_all_def)
  define p where "p = skip_ws b 0"
  have p: "get_at b p = Some (CHR ''{'')" and tl: "trace_loop b (Suc (length b)) (p + 1) = Some (cb, ms)"
    using t by (simp_all add: top_level_trace_def Let_def p_def split: if_splits)
  have "p < cb" using trace_loop_bounds [OF tl] by simp
  then have "skip_ws b' 0 = p" "get_at b' p = Some (CHR ''{'')"
    using skip_ws_local [OF same_upto_mono [OF same]] same_upto_at [OF same] p unfolding p_def by simp_all
  moreover have "trace_loop b' (Suc (length b')) (p + 1) = Some (cb + 40, ms @ [(stream_options_key, cb + 18, cb + 40)])"
    using trace_loop_extend [OF same c tail tl] by (rule trace_loop_fuel) simp
  ultimately show "top_level_trace b' = Some (cb + 40, ms @ [(stream_options_key, cb + 18, cb + 40)])"
    by (simp add: top_level_trace_def)
qed

lemma model_fold_same:
  assumes "\<And>k v e. (k, v, e) \<in> set ms \<Longrightarrow> get_at b' v = get_at b v \<and>
      (get_at b v = Some (CHR 0x22) \<longrightarrow> parse_json_string b' v = parse_json_string b v)"
  shows "foldl (model_step b' key) s ms = foldl (model_step b key) s ms"
  using assms by (intro foldl_cong refl) (force simp: model_step_def)

lemma inject_profile:
  assumes key: "key \<noteq> ''stream''" "key \<noteq> ''stream_options''"
    and p: "scan_top_level_profile b key = Some p" and s: "splice_stream_options b (jp_closing_brace p) = Some b'"
  shows "scan_top_level_profile b' key = Some (p\<lparr>jp_has_stream_options := True,
      jp_closing_brace := jp_closing_brace p + length stream_options_injection\<rparr>)"
proof -
  obtain cb ms where t: "top_level_trace b = Some (cb, ms)"
    and pm: "p = \<lparr>jp_model = foldl (model_step b key) None ms, jp_stream_true = fst (foldl (stream_step b) (False, False) ms),
      jp_has_stream_options = snd (foldl (stream_step b) (False, False) ms), jp_closing_brace = cb\<rparr>"
    using p unfolding scan_profile_trace [OF key] by auto
  have s': "splice_stream_options b cb = Some b'" using s pm by simp
  note t' = top_level_trace_inject [OF t s']
  note bd = top_level_trace_bounds [OF t] and bd' = top_level_trace_bounds [OF t'(1)]
  have at: "get_at b' v = get_at b v" if "(k, v, e) \<in> set ms" for k v e
    using same_upto_at [OF t'(2)] bd that by force
  have st: "foldl (stream_step b') (False, False) ms = foldl (stream_step b) (False, False) ms"
    using stream_fold_moved [of ms b' id b "(False, False)"] at bd bd' by force
  have "parse_json_string b' v = parse_json_string b v" if m: "(k, v, e) \<in> set ms" and q: "get_at b v = Some (CHR 0x22)" for k v e
  proof -
    have e: "skip_json Value b v 0 = Some e" "e \<le> cb" using bd m by auto
    then obtain d where "parse_json_string b v = Some (d, e)" using skip_json_quote [OF q] by auto
    then show ?thesis using parse_json_string_local [of b v d e b'] same_upto_mono [OF t'(2) e(2)] by simp
  qed
  then have mo: "foldl (model_step b' key) None ms = foldl (model_step b key) None ms"
    using at by (intro model_fold_same) blast
  have "model_step b' key x (stream_options_key, v, e) = x" "snd (stream_step b' y (stream_options_key, v, e))"
    "fst (stream_step b' y (stream_options_key, v, e)) = fst y" for x y v e
    using key by (auto simp: model_step_def stream_step_def stream_options_key_def split: prod.splits)
  then show ?thesis unfolding scan_profile_trace [OF key] t'(1) using st mo by (simp add: pm injection_length)
qed

end
