(* ===== verification/Bytes.thy ===== *)
theory Bytes
  imports Utf8 Route
begin

text \<open>
  The byte helpers of \<open>hygress-core/src/bytes.rs\<close>, subsequence search, in-place replacement and the
  multipart part scanner, and the multipart rewrite of \<open>hygress-core/src/model_mapping.rs\<close> on top
  of them. The lemmas describe the scanner on the message it is meant for, a sequence of delimited
  parts.
\<close>

section \<open>Search and replacement\<close>

definition find_subseq :: "bytes \<Rightarrow> bytes \<Rightarrow> nat \<Rightarrow> nat option" where
  "find_subseq hay needle from =
     (if needle = [] then (if from \<le> length hay then Some from else None)
      else if length hay < from + length needle then None
      else map_option (\<lambda>i. i + from) (find_str needle (drop from hay)))"

definition replace_bytes :: "bytes \<Rightarrow> nat \<Rightarrow> nat \<Rightarrow> bytes \<Rightarrow> bytes" where
  "replace_bytes hay start end new = take start hay @ new @ drop end hay"

definition contains_form_field :: "bytes \<Rightarrow> string \<Rightarrow> bool" where
  "contains_form_field header field =
     (find_subseq header (''name='' @ CHR 0x22 # field @ [CHR 0x22]) 0 \<noteq> None)"

definition crlf :: bytes where
  "crlf = [CHR 0x0D, CHR 0x0A]"

lemma find_subseq_bounds: "find_subseq hay needle from = Some i \<Longrightarrow> from \<le> i \<and> i + length needle \<le> length hay"
  using find_str_bound [of needle "drop from hay"] by (auto simp: find_subseq_def split: if_splits)

text \<open>One turn of the loop: the span found in the part behind the marker at \<open>start\<close>.\<close>

definition part_value_span :: "bytes \<Rightarrow> nat \<Rightarrow> nat \<Rightarrow> string \<Rightarrow> (nat \<times> nat) option" where
  "part_value_span body after next field =
     (let part = take (next - after) (drop after body) in
      case find_subseq part (crlf @ crlf) 0 of
        None \<Rightarrow> None
      | Some sep \<Rightarrow>
          if contains_form_field (take sep part) field then
            (let value_start = after + sep + 4;
                 value_end = (if ends_with crlf part then next - 2 else next)
             in if value_start \<le> value_end then Some (value_start, value_end) else None)
          else None)"

function form_span_loop :: "bytes \<Rightarrow> bytes \<Rightarrow> string \<Rightarrow> nat \<Rightarrow> (nat \<times> nat) option" where
  "form_span_loop body marker field search_from =
     (if search_from > length body \<or> marker = [] then None
      else
        case find_subseq body marker search_from of
          None \<Rightarrow> None
        | Some start \<Rightarrow>
            let after = start + length marker in
            if get_range body after (after + 2) = Some ''--'' then None
            else
              let next = (case find_subseq body marker after of Some n \<Rightarrow> n | None \<Rightarrow> length body) in
              case part_value_span body after next field of
                Some span \<Rightarrow> Some span
              | None \<Rightarrow> form_span_loop body marker field next)"
  by pat_completeness auto
termination
proof (relation "measure (\<lambda>(body, marker, field, from). Suc (length body) - from)", goal_cases)
  case (2 body marker field i start after nx)
  have "i \<le> start" "start + length marker \<le> length body"
    using find_subseq_bounds [OF 2(2)] 2(1) by auto
  moreover have "after \<le> nx" using find_subseq_bounds [of body marker after] 2(3,5) calculation
    by (auto split: option.splits)
  moreover have "0 < length marker" using 2(1) by simp
  ultimately have "i < nx" "i \<le> length body" using 2(1,3) by linarith+
  then show ?case by simp
qed simp

declare form_span_loop.simps [simp del]

definition first_form_value_span :: "bytes \<Rightarrow> string \<Rightarrow> string \<Rightarrow> (nat \<times> nat) option" where
  "first_form_value_span body boundary field = form_span_loop body (''--'' @ boundary) field 0"

definition apply_multipart :: "model_mapping \<Rightarrow> string \<Rightarrow> bytes \<Rightarrow> string \<Rightarrow> bytes \<times> bool" where
  "apply_multipart m service body boundary =
     (case mapping_lookup m service of
        None \<Rightarrow> (body, False)
      | Some model \<Rightarrow>
          (case first_form_value_span body boundary ''model'' of
             Some (value_start, value_end) \<Rightarrow> (replace_bytes body value_start value_end model, True)
           | None \<Rightarrow> (body, False)))"

section \<open>Search lemmas\<close>

lemma find_str_extend: "find_str p (c @ p) = Some (length c) \<Longrightarrow> find_str p (c @ p @ r) = Some (length c)"
proof (induction c)
  case Nil
  have "starts_with p (p @ r)" by simp
  then show ?case by (cases "p @ r") (use starts_with_def in auto)
next
  case (Cons x c)
  have n: "\<not> starts_with p (x # c @ p)" and c: "find_str p (c @ p) = Some (length c)"
    using Cons.prems by (auto split: if_splits)
  have "\<not> starts_with p (x # c @ p @ r)" using n by (auto simp: starts_with_def take_Cons')
  then show ?case using Cons.IH [OF c] by simp
qed

lemma find_str_here [simp]: "find_str p (p @ r) = Some 0"
  using find_str_extend [of p "[]" r] by (cases p) (simp_all add: starts_with_def)

lemma find_subseq_drop:
  "n \<noteq> [] \<Longrightarrow> find_subseq (pre @ s) n (length pre) = map_option (\<lambda>i. i + length pre) (find_str n s)"
  using find_str_bound [of n s] by (cases "find_str n s") (auto simp: find_subseq_def)

text \<open>
  A multipart message: parts of a header block and a value, each behind a delimiter line. A part is
  well formed for a boundary if the first delimiter behind it is the next one, and the first empty
  line ends its header block.
\<close>

definition mp_marker :: "string \<Rightarrow> bytes" where
  "mp_marker boundary = ''--'' @ boundary"

definition mp_content :: "bytes \<times> bytes \<Rightarrow> bytes" where
  "mp_content p = (case p of (h, v) \<Rightarrow> crlf @ h @ crlf @ crlf @ v @ crlf)"

definition mp_body :: "string \<Rightarrow> (bytes \<times> bytes) list \<Rightarrow> bytes" where
  "mp_body boundary ps = concat (map (\<lambda>p. mp_marker boundary @ mp_content p) ps) @ mp_marker boundary @ ''--'' @ crlf"

definition mp_part_ok :: "string \<Rightarrow> bytes \<times> bytes \<Rightarrow> bool" where
  "mp_part_ok boundary p \<longleftrightarrow>
     find_str (mp_marker boundary) (mp_content p @ mp_marker boundary) = Some (length (mp_content p)) \<and>
     find_str (crlf @ crlf) (crlf @ fst p @ crlf @ crlf) = Some (length (crlf @ fst p))"

definition mp_has_field :: "string \<Rightarrow> bytes \<times> bytes \<Rightarrow> bool" where
  "mp_has_field field p = contains_form_field (crlf @ fst p) field"

lemma mp_body_simps:
  "mp_body bd [] = mp_marker bd @ ''--'' @ crlf"
  "mp_body bd (p # ps) = mp_marker bd @ mp_content p @ mp_body bd ps"
  by (simp_all add: mp_body_def)

lemma mp_body_marker: "\<exists>r. mp_body bd ps = mp_marker bd @ r"
  by (cases ps) (auto simp: mp_body_simps)

lemma crlf_length [simp]: "length crlf = 2"
  by (simp add: crlf_def)

lemma part_span_content:
  assumes ok: "mp_part_ok bd (h, v)"
  shows "part_value_span (pre @ mp_content (h, v) @ post) (length pre) (length pre + length (mp_content (h, v))) field =
    (if mp_has_field field (h, v) then Some (length pre + length h + 6, length pre + length h + 6 + length v) else None)"
proof -
  have part: "take (length (mp_content (h, v))) (drop (length pre) (pre @ mp_content (h, v) @ post)) = mp_content (h, v)"
    by simp
  have "find_str (crlf @ crlf) ((crlf @ h) @ (crlf @ crlf) @ v @ crlf) = Some (length (crlf @ h))"
    using ok find_str_extend [of "crlf @ crlf" "crlf @ h" "v @ crlf"] by (simp add: mp_part_ok_def)
  then have sep: "find_subseq (mp_content (h, v)) (crlf @ crlf) 0 = Some (length h + 2)"
    by (simp add: find_subseq_def mp_content_def) (simp add: crlf_def)
  have hd: "take (length h + 2) (mp_content (h, v)) = crlf @ h" by (simp add: mp_content_def)
  have en: "ends_with crlf (mp_content (h, v))" unfolding ends_with_iff mp_content_def
    by (intro exI [of _ "crlf @ h @ crlf @ crlf @ v"]) simp
  have len: "length (mp_content (h, v)) = length h + length v + 8" by (simp add: mp_content_def)
  show ?thesis unfolding part_value_span_def add_diff_cancel_left' part Let_def sep option.case hd mp_has_field_def fst_conv
    using en by (simp add: len)
qed

lemma mp_content_no_end: "get_range (pre @ mp_content p @ s) (length pre) (length pre + 2) \<noteq> Some ''--''"
  by (cases p) (auto simp: get_range_def mp_content_def crlf_def)

text \<open>One turn of the loop over a well-formed part.\<close>

lemma form_span_loop_part:
  assumes ok: "mp_part_ok bd (h, v)"
  shows "form_span_loop (pre @ mp_body bd ((h, v) # ps)) (mp_marker bd) field (length pre) =
    (if mp_has_field field (h, v)
     then Some (length pre + length (mp_marker bd) + length h + 6, length pre + length (mp_marker bd) + length h + 6 + length v)
     else form_span_loop ((pre @ mp_marker bd @ mp_content (h, v)) @ mp_body bd ps) (mp_marker bd) field
            (length (pre @ mp_marker bd @ mp_content (h, v))))"
proof -
  let ?m = "mp_marker bd" and ?c = "mp_content (h, v)"
  let ?p = "pre @ ?m" and ?r = "mp_body bd ps"
  have m: "?m \<noteq> []" by (simp add: mp_marker_def)
  have body: "pre @ mp_body bd ((h, v) # ps) = ?p @ ?c @ ?r" by (simp add: mp_body_simps)
  obtain r where r: "?r = ?m @ r" using mp_body_marker by blast
  have start: "find_subseq (?p @ ?c @ ?r) ?m (length pre) = Some (length pre)"
    using find_subseq_drop [OF m, of pre "?m @ ?c @ ?r"] by simp
  have "find_str ?m (?c @ ?m @ r) = Some (length ?c)" using ok find_str_extend by (simp add: mp_part_ok_def)
  then have nx: "find_subseq (?p @ ?c @ ?r) ?m (length ?p) = Some (length ?p + length ?c)"
    using find_subseq_drop [OF m, of ?p "?c @ ?r"] r by (simp add: add.commute)
  have no_end: "get_range (?p @ ?c @ ?r) (length ?p) (length ?p + 2) \<noteq> Some ''--''" by (rule mp_content_no_end)
  have len: "length pre + length ?m = length ?p" by simp
  show ?thesis unfolding body
    by (subst form_span_loop.simps, unfold start option.case Let_def len nx part_span_content [OF ok, of ?p ?r field])
      (use no_end m in \<open>simp add: add.assoc\<close>)
qed

lemma form_span_parts:
  "list_all (mp_part_ok bd) ps1 \<Longrightarrow> mp_part_ok bd (h, v) \<Longrightarrow> list_all (Not \<circ> mp_has_field field) ps1 \<Longrightarrow>
   mp_has_field field (h, v) \<Longrightarrow>
   \<exists>l r. (\<forall>w. mp_body bd (ps1 @ (h, w) # ps2) = l @ w @ r) \<and>
     form_span_loop (pre @ mp_body bd (ps1 @ (h, v) # ps2)) (mp_marker bd) field (length pre) =
       Some (length (pre @ l), length (pre @ l @ v))"
proof (induction ps1 arbitrary: pre)
  case Nil
  show ?case
  proof (intro exI conjI allI)
    show "mp_body bd ([] @ (h, w) # ps2) = (mp_marker bd @ crlf @ h @ crlf @ crlf) @ w @ (crlf @ mp_body bd ps2)" for w
      by (simp add: mp_body_simps mp_content_def)
    show "form_span_loop (pre @ mp_body bd ([] @ (h, v) # ps2)) (mp_marker bd) field (length pre) =
       Some (length (pre @ mp_marker bd @ crlf @ h @ crlf @ crlf), length (pre @ (mp_marker bd @ crlf @ h @ crlf @ crlf) @ v))"
      using form_span_loop_part [OF Nil.prems(2), of pre ps2 field] Nil.prems(4) by simp
  qed
next
  case (Cons p ps1)
  obtain h' v' where p: "p = (h', v')" by (cases p)
  let ?hd = "mp_marker bd @ mp_content p"
  have "\<exists>l r. (\<forall>w. mp_body bd (ps1 @ (h, w) # ps2) = l @ w @ r) \<and>
     form_span_loop ((pre @ ?hd) @ mp_body bd (ps1 @ (h, v) # ps2)) (mp_marker bd) field (length (pre @ ?hd)) =
       Some (length ((pre @ ?hd) @ l), length ((pre @ ?hd) @ l @ v))"
    by (rule Cons.IH) (use Cons.prems in auto)
  then obtain l r where lr: "\<forall>w. mp_body bd (ps1 @ (h, w) # ps2) = l @ w @ r"
    "form_span_loop ((pre @ ?hd) @ mp_body bd (ps1 @ (h, v) # ps2)) (mp_marker bd) field (length (pre @ ?hd)) =
       Some (length ((pre @ ?hd) @ l), length ((pre @ ?hd) @ l @ v))"
    by blast
  show ?case
  proof (intro exI conjI allI)
    show "mp_body bd ((p # ps1) @ (h, w) # ps2) = (?hd @ l) @ w @ r" for w
      using lr(1) by (simp add: mp_body_simps)
    show "form_span_loop (pre @ mp_body bd ((p # ps1) @ (h, v) # ps2)) (mp_marker bd) field (length pre) =
       Some (length (pre @ ?hd @ l), length (pre @ (?hd @ l) @ v))"
      using form_span_loop_part [of bd h' v' pre "ps1 @ (h, v) # ps2" field] lr(2) Cons.prems by (simp add: p)
  qed
qed

lemma form_span_message:
  assumes "list_all (mp_part_ok bd) ps1" "mp_part_ok bd (h, v)" "list_all (Not \<circ> mp_has_field field) ps1" "mp_has_field field (h, v)"
  obtains l r where "\<And>w. mp_body bd (ps1 @ (h, w) # ps2) = l @ w @ r"
    "first_form_value_span (mp_body bd (ps1 @ (h, v) # ps2)) bd field = Some (length l, length (l @ v))"
  using form_span_parts [OF assms, of ps2 "[]"] by (auto simp: first_form_value_span_def mp_marker_def)

lemma replace_in_message:
  assumes "list_all (mp_part_ok bd) ps1" "mp_part_ok bd (h, v)" "list_all (Not \<circ> mp_has_field field) ps1" "mp_has_field field (h, v)"
    and "first_form_value_span (mp_body bd (ps1 @ (h, v) # ps2)) bd field = Some (s, e)"
  shows "replace_bytes (mp_body bd (ps1 @ (h, v) # ps2)) s e w = mp_body bd (ps1 @ (h, w) # ps2)"
    "take (e - s) (drop s (mp_body bd (ps1 @ (h, v) # ps2))) = v"
proof -
  obtain l r where lr: "\<And>w. mp_body bd (ps1 @ (h, w) # ps2) = l @ w @ r"
    and sp: "first_form_value_span (mp_body bd (ps1 @ (h, v) # ps2)) bd field = Some (length l, length (l @ v))"
    using form_span_message [OF assms(1-4)] by metis
  then have "s = length l" "e = length (l @ v)" using assms(5) by simp_all
  then show "replace_bytes (mp_body bd (ps1 @ (h, v) # ps2)) s e w = mp_body bd (ps1 @ (h, w) # ps2)"
    "take (e - s) (drop s (mp_body bd (ps1 @ (h, v) # ps2))) = v"
    unfolding lr by (simp_all add: replace_bytes_def)
qed

end
