(* ===== verification/Body.thy ===== *)
theory Body
  imports Json_Splice Bytes
begin

text \<open>
  The body helpers of \<open>hygress-gateway/src/body.rs\<close> over the scanners: the content-type tests,
  extraction and rewriting of the model field in JSON and multipart bodies, and the injection of
  \<open>stream_options\<close>, by a fresh scan or from the memo of an earlier one. A \<open>Bytes\<close> value is its
  bytes; an \<open>Err(())\<close> of a scan is \<open>None\<close>.
\<close>

section \<open>Content types\<close>

definition unquote :: "string \<Rightarrow> string" where
  "unquote v =
     (case Option.bind (strip_prefix [CHR 0x22] v) (strip_suffix [CHR 0x22]) of Some s \<Rightarrow> s | None \<Rightarrow> v)"

definition boundary_of_part :: "string \<Rightarrow> string option" where
  "boundary_of_part part =
     (case strip_prefix ''boundary='' (trim part) of
        None \<Rightarrow> None
      | Some v \<Rightarrow> let v = unquote (trim v) in if v = [] then None else Some v)"

fun first_some :: "('a \<Rightarrow> 'b option) \<Rightarrow> 'a list \<Rightarrow> 'b option" where
  "first_some f [] = None"
| "first_some f (x # xs) = (case f x of Some y \<Rightarrow> Some y | None \<Rightarrow> first_some f xs)"

definition parse_boundary :: "string option \<Rightarrow> string option" where
  "parse_boundary content_type =
     (case content_type of
        None \<Rightarrow> None
      | Some ct \<Rightarrow>
          if \<not> contains_str ''multipart/form-data'' (to_ascii_lowercase ct) then None
          else first_some boundary_of_part (split_on (CHR '';'') ct))"

definition is_json :: "string option \<Rightarrow> bool" where
  "is_json content_type =
     (case content_type of None \<Rightarrow> False | Some ct \<Rightarrow> contains_str ''application/json'' (to_ascii_lowercase ct))"

section \<open>The model field\<close>

definition extract_multipart_model :: "bytes \<Rightarrow> string \<Rightarrow> string option" where
  "extract_multipart_model body boundary =
     map_option (\<lambda>(start, end). utf8_lossy (take (end - start) (drop start body)))
       (first_form_value_span body boundary ''model'')"

definition extract_model :: "bytes \<Rightarrow> string option \<Rightarrow> string \<Rightarrow> string option" where
  "extract_model body content_type model_key =
     (if body = [] then None
      else if is_json content_type then
        (case scan_top_level_value body model_key of Some (Some v) \<Rightarrow> tl_decoded v | _ \<Rightarrow> None)
      else
        (case parse_boundary content_type of
           Some boundary \<Rightarrow> extract_multipart_model body boundary
         | None \<Rightarrow> None))"

definition rewrite_json_model :: "bytes \<Rightarrow> string \<Rightarrow> string \<Rightarrow> bytes option" where
  "rewrite_json_model body model_key value =
     (case scan_top_level_value body model_key of
        Some (Some v) \<Rightarrow>
          if tl_decoded v \<noteq> None then Some (splice_json_string_at body (tl_span v) value) else None
      | _ \<Rightarrow> None)"

definition rewrite_multipart_model :: "bytes \<Rightarrow> string \<Rightarrow> string \<Rightarrow> bytes option" where
  "rewrite_multipart_model body boundary value =
     map_option (\<lambda>(start, end). replace_bytes body start end value) (first_form_value_span body boundary ''model'')"

definition rewrite_model_field :: "bytes \<Rightarrow> string option \<Rightarrow> string \<Rightarrow> string \<Rightarrow> bytes option" where
  "rewrite_model_field body content_type model_key value =
     (if is_json content_type then rewrite_json_model body model_key value
      else
        (case parse_boundary content_type of
           Some boundary \<Rightarrow> rewrite_multipart_model body boundary value
         | None \<Rightarrow> None))"

definition model_field_equals :: "bytes \<Rightarrow> string option \<Rightarrow> string \<Rightarrow> string \<Rightarrow> bool" where
  "model_field_equals body content_type model_key value =
     (if body = [] then False
      else if is_json content_type then
        (case scan_top_level_value body model_key of Some (Some v) \<Rightarrow> tl_decoded v = Some value | _ \<Rightarrow> False)
      else
        (case parse_boundary content_type of
           Some boundary \<Rightarrow> extract_multipart_model body boundary = Some value
         | None \<Rightarrow> False))"

section \<open>The usage injection\<close>

record am2_memo =
  am_stream_true :: bool
  am_has_stream_options :: bool
  am_closing_brace :: nat

definition am2_memo_of :: "json_object_profile \<Rightarrow> am2_memo" where
  "am2_memo_of p =
     \<lparr>am_stream_true = jp_stream_true p, am_has_stream_options = jp_has_stream_options p,
      am_closing_brace = jp_closing_brace p\<rparr>"

definition completions_upstream_path :: "string \<Rightarrow> bool" where
  "completions_upstream_path path \<longleftrightarrow> ends_with ''/chat/completions'' path \<or> ends_with ''/completions'' path"

definition ensure_stream_include_usage :: "bytes \<Rightarrow> string option \<Rightarrow> string \<Rightarrow> bool \<Rightarrow> bytes option" where
  "ensure_stream_include_usage body content_type upstream_path is_model_route =
     (if \<not> is_model_route then None
      else if body = [] \<or> \<not> is_json content_type then None
      else if \<not> (ends_with ''/chat/completions'' upstream_path \<or> ends_with ''/completions'' upstream_path) then None
      else
        (case scan_top_level_stream body of
           None \<Rightarrow> None
         | Some (stream_true, has_stream_options, closing_brace) \<Rightarrow>
             if \<not> stream_true \<or> has_stream_options then None
             else splice_stream_options body closing_brace))"

definition ensure_stream_include_usage_from_memo :: "bytes \<Rightarrow> string \<Rightarrow> bool \<Rightarrow> am2_memo \<Rightarrow> bytes option" where
  "ensure_stream_include_usage_from_memo body upstream_path is_model_route memo =
     (if \<not> is_model_route then None
      else if body = [] then None
      else if \<not> completions_upstream_path upstream_path then None
      else if \<not> am_stream_true memo \<or> am_has_stream_options memo then None
      else splice_stream_options body (am_closing_brace memo))"

section \<open>Properties\<close>

lemma profile_value:
  assumes "key \<noteq> ''stream''" "key \<noteq> ''stream_options''" "scan_top_level_profile b key = Some p"
  shows "\<exists>r. scan_top_level_value b key = Some r \<and> model_of_value r = jp_model p"
    "scan_top_level_stream b = Some (jp_stream_true p, jp_has_stream_options p, jp_closing_brace p)"
  using assms(3) model_value_fold [of b key None]
  by (auto simp: scan_profile_trace [OF assms(1,2)] scan_value_trace scan_stream_trace model_of_value_def [of None]
      case_prod_unfold)

text \<open>A memo of the body itself decides like a fresh scan.\<close>

lemma memo_of_scan:
  assumes "key \<noteq> ''stream''" "key \<noteq> ''stream_options''" "scan_top_level_profile b key = Some p" "is_json ct"
  shows "ensure_stream_include_usage_from_memo b path mr (am2_memo_of p) = ensure_stream_include_usage b ct path mr"
  using profile_value(2) [OF assms(1-3)] assms(4)
  by (simp add: ensure_stream_include_usage_def ensure_stream_include_usage_from_memo_def
      completions_upstream_path_def am2_memo_of_def)

lemma rewrite_json_profile:
  assumes key: "key \<noteq> ''stream''" "key \<noteq> ''stream_options''"
    and p: "scan_top_level_profile b key = Some p"
  shows "rewrite_json_model b key v = (case jp_model p of None \<Rightarrow> None | Some (d, span) \<Rightarrow> Some (splice_json_string_at b span v))"
proof -
  obtain r where r: "scan_top_level_value b key = Some r" "jp_model p = model_of_value r"
    using profile_value(1) [OF assms] by auto
  show ?thesis unfolding rewrite_json_model_def r by (auto simp: model_of_value_def split: option.splits)
qed

lemma extract_json_profile:
  assumes key: "key \<noteq> ''stream''" "key \<noteq> ''stream_options''"
    and p: "scan_top_level_profile b key = Some p" and ct: "is_json ct"
  shows "extract_model b ct key = map_option fst (jp_model p)"
proof -
  have "b \<noteq> []" using p by (auto simp: scan_profile_trace [OF key] top_level_trace_def Let_def get_at_def skip_ws.simps)
  obtain r where r: "scan_top_level_value b key = Some r" "jp_model p = model_of_value r"
    using profile_value(1) [OF key p] by auto
  show ?thesis using \<open>b \<noteq> []\<close> ct unfolding extract_model_def r by (auto simp: model_of_value_def split: option.splits)
qed

lemma equals_json_profile:
  assumes key: "key \<noteq> ''stream''" "key \<noteq> ''stream_options''"
    and p: "scan_top_level_profile b key = Some p" and ct: "is_json ct"
  shows "model_field_equals b ct key v \<longleftrightarrow> map_option fst (jp_model p) = Some v"
proof -
  have "b \<noteq> []" using p by (auto simp: scan_profile_trace [OF key] top_level_trace_def Let_def get_at_def skip_ws.simps)
  obtain r where r: "scan_top_level_value b key = Some r" "jp_model p = model_of_value r"
    using profile_value(1) [OF key p] by auto
  show ?thesis using \<open>b \<noteq> []\<close> ct unfolding model_field_equals_def r by (auto simp: model_of_value_def split: option.splits)
qed

lemma is_scalar_ascii: "cp < 0x80 \<Longrightarrow> is_scalar cp"
  by (simp add: is_scalar_def char_from_u32_def)

lemma profile_bounds:
  assumes key: "key \<noteq> ''stream''" "key \<noteq> ''stream_options''"
    and p: "scan_top_level_profile b key = Some p" and m: "jp_model p = Some (d, s, e)"
  shows "s < e \<and> e \<le> jp_closing_brace p \<and> jp_closing_brace p < length b"
proof -
  obtain cb ms where t: "top_level_trace b = Some (cb, ms)"
    and pm: "jp_model p = foldl (model_step b key) None ms" "jp_closing_brace p = cb"
    using p unfolding scan_profile_trace [OF key] by auto
  have "(key, s, e) \<in> set ms" using model_fold_last [of b key ms d s e] m pm(1) by auto
  then show ?thesis using top_level_trace_bounds [OF t] pm(2) by (auto dest: get_at_lengthD)
qed

lemma splice_length:
  "s \<le> e \<Longrightarrow> e \<le> length b \<Longrightarrow> int (length (splice_json_string_at b (s, e) v)) =
     int (length b) + int (length (encode_json_string v)) - int (e - s)"
  by (simp add: splice_json_string_at_def)

lemma splice_twice:
  "s \<le> length b \<Longrightarrow> splice_json_string_at (splice_json_string_at b (s, e) v) (s, s + length (encode_json_string v)) v =
     splice_json_string_at b (s, e) v"
  by (simp add: splice_json_string_at_def)

text \<open>The members of a body, each with the text of its value.\<close>

definition json_key :: "string \<Rightarrow> string" where
  "json_key k = CHR 0x22 # k @ [CHR 0x22]"

definition member_texts :: "bytes \<Rightarrow> (string \<times> bytes) list option" where
  "member_texts b = map_option (\<lambda>(cb, ms). map (\<lambda>(k, v, e). (k, take (e - v) (drop v b))) ms) (top_level_trace b)"

lemma text_before: "w \<le> n \<Longrightarrow> n \<le> length b \<Longrightarrow> take (w - v) (drop v (take n b @ c)) = take (w - v) (drop v b)"
  by (cases "v \<le> n") (simp_all add: drop_take min_def)

lemma text_after: "e \<le> v \<Longrightarrow> e \<le> length b \<Longrightarrow> drop (length c + v - e) (c @ drop e b) = drop v b"
  by simp

lemma splice_trace:
  assumes key: "key \<noteq> ''stream''" "key \<noteq> ''stream_options''"
    and p: "scan_top_level_profile b key = Some p" and m: "jp_model p = Some (d, s, e)"
    and sc: "list_all is_scalar cps"
  defines "f \<equiv> moved s e (s + length (encode_json_string (str_of cps)))"
  obtains ms1 ms2 where "top_level_trace b = Some (jp_closing_brace p, ms1 @ (key, s, e) # ms2)" "key \<notin> fst ` set ms2"
    "top_level_trace (splice_json_string_at b (s, e) (str_of cps)) =
       Some (f (jp_closing_brace p), map (\<lambda>(k, v, w). (k, f v, f w)) (ms1 @ (key, s, e) # ms2))"
proof -
  obtain cb ms where t: "top_level_trace b = Some (cb, ms)"
    and pm: "jp_model p = foldl (model_step b key) None ms" "jp_closing_brace p = cb"
    using p unfolding scan_profile_trace [OF key] by auto
  obtain ms1 ms2 where ms: "ms = ms1 @ (key, s, e) # ms2" "key \<notin> fst ` set ms2" "get_at b s = Some (CHR 0x22)"
      "map_option fst (parse_json_string b s) = Some d"
    using model_fold_last [of b key ms] m pm by auto
  note bd = top_level_trace_bounds [OF t]
  have se: "s < e" "e \<le> cb" "skip_json Value b s 0 = Some e" using bd ms(1) by auto
  have "cb < length b" using bd by (auto dest: get_at_lengthD)
  moreover have "parse_json_string b s = Some (d, e)" using ms(4) se(3) skip_json_quote [OF ms(3)] by auto
  ultimately have "token_swap b s e (splice_json_string_at b (s, e) (str_of cps)) (s + length (encode_json_string (str_of cps)))"
    using se by (intro splice_token_swap(1) sc) simp_all
  from top_level_trace_swap [OF this t] ms(1)
  have "top_level_trace (splice_json_string_at b (s, e) (str_of cps)) = Some (f cb, map (\<lambda>(k, v, w). (k, f v, f w)) ms)"
    by (auto simp: move_all_def f_def)
  then show thesis using that t ms(1,2) pm(2) by metis
qed

text \<open>Splicing replaces the text of the last member of the key, and of no other member.\<close>

lemma splice_members:
  assumes key: "key \<noteq> ''stream''" "key \<noteq> ''stream_options''"
    and p: "scan_top_level_profile b key = Some p" and m: "jp_model p = Some (d, s, e)"
    and sc: "list_all is_scalar cps"
  shows "\<exists>xs ys. member_texts b = Some (xs @ (key, take (e - s) (drop s b)) # ys) \<and> key \<notin> fst ` set ys \<and>
    member_texts (splice_json_string_at b (s, e) (str_of cps)) = Some (xs @ (key, encode_json_string (str_of cps)) # ys)"
proof -
  define tok where "tok = encode_json_string (str_of cps)"
  define b' where "b' = splice_json_string_at b (s, e) (str_of cps)"
  obtain ms1 ms2 where t: "top_level_trace b = Some (jp_closing_brace p, ms1 @ (key, s, e) # ms2)" "key \<notin> fst ` set ms2"
    and t': "top_level_trace b' = Some (moved s e (s + length tok) (jp_closing_brace p),
       map (\<lambda>(k, v, w). (k, moved s e (s + length tok) v, moved s e (s + length tok) w)) (ms1 @ (key, s, e) # ms2))"
    by (rule splice_trace [OF assms]) (simp add: b'_def tok_def)
  note bd = top_level_trace_bounds [OF t(1)]
  have cb: "jp_closing_brace p < length b" using bd by (auto dest: get_at_lengthD)
  have se: "s < e" "e \<le> length b" using bd cb by auto
  have b': "b' = take s b @ tok @ drop e b" by (simp add: b'_def splice_json_string_at_def tok_def)
  let ?f = "moved s e (s + length tok)"
  let ?txt = "\<lambda>b (k, v, w). (k, take (w - v) (drop v b))"
  have "?txt b' (k, ?f v, ?f w) = ?txt b (k, v, w)" if "(k, v, w) \<in> set ms1" for k v w
  proof -
    have "v < w" "w < s" using bd that by (force simp: sorted_wrt_append)+
    then show ?thesis using text_before [of w s b v "tok @ drop e b"] se by (simp add: b' moved_def)
  qed
  moreover have "?txt b' (k, ?f v, ?f w) = ?txt b (k, v, w)" if "(k, v, w) \<in> set ms2" for k v w
  proof -
    have vw: "v < w" "e < v" using bd that by (force simp: sorted_wrt_append)+
    then have "drop (?f v) b' = drop v b"
      using text_after [of e v b "take s b @ tok"] se by (simp add: b' moved_def)
    moreover have "?f w - ?f v = w - v" using vw se by (simp add: moved_def)
    ultimately show ?thesis by simp
  qed
  moreover have "?txt b' (key, ?f s, ?f e) = (key, tok)" using se by (simp add: b' moved_def)
  ultimately have "map (?txt b' \<circ> (\<lambda>(k, v, w). (k, ?f v, ?f w))) ms1 = map (?txt b) ms1"
    "map (?txt b' \<circ> (\<lambda>(k, v, w). (k, ?f v, ?f w))) ms2 = map (?txt b) ms2" "?txt b' (key, ?f s, ?f e) = (key, tok)"
    unfolding map_eq_conv by auto
  then have "map (?txt b') (map (\<lambda>(k, v, w). (k, ?f v, ?f w)) (ms1 @ (key, s, e) # ms2)) =
      map (?txt b) ms1 @ (key, tok) # map (?txt b) ms2"
    unfolding map_append list.map map_map prod.case by simp
  moreover have "key \<notin> fst ` set (map (?txt b) ms2)" using t(2) by force
  ultimately show ?thesis
    unfolding b'_def [symmetric] tok_def [symmetric]
    by (intro exI [of _ "map (?txt b) ms1"] exI [of _ "map (?txt b) ms2"]) (simp add: member_texts_def t(1) t' del: map_map)
qed

text \<open>
  Property C28. Rewriting the model field of a JSON body: on a body the scanner accepts the rewrite
  happens exactly when the model field is a string, and it changes nothing else: of the members of the
  body, in their order, only the last of the model key has another text, the encoding of the new value,
  and the bytes before and after that text are the same. So the model read back is the new value, a
  second rewrite with it is the identity, the streaming flags are unchanged, and the closing brace has
  moved by the difference of the lengths.
\<close>

theorem rewrite_json_model_correct:
  assumes "key \<noteq> ''stream''" "key \<noteq> ''stream_options''"
    and "scan_top_level_profile b key = Some p" and "is_json ct" and "list_all is_scalar cps"
  shows "case rewrite_json_model b key (str_of cps) of
      None \<Rightarrow> extract_model b ct key = None
    | Some b' \<Rightarrow> extract_model b ct key \<noteq> None \<and>
        extract_model b' ct key = Some (str_of cps) \<and> model_field_equals b' ct key (str_of cps) \<and>
        rewrite_json_model b' key (str_of cps) = Some b' \<and>
        (\<exists>xs ys pre text post. member_texts b = Some (xs @ (key, text) # ys) \<and> key \<notin> fst ` set ys \<and>
           member_texts b' = Some (xs @ (key, encode_json_string (str_of cps)) # ys) \<and>
           b = pre @ text @ post \<and> b' = pre @ encode_json_string (str_of cps) @ post) \<and>
        (\<exists>q. scan_top_level_profile b' key = Some q \<and> jp_stream_true q = jp_stream_true p \<and>
           jp_has_stream_options q = jp_has_stream_options p \<and>
           int (jp_closing_brace q) = int (jp_closing_brace p) + int (length b') - int (length b))"
proof (cases "jp_model p")
  case None
  then show ?thesis using assms by (simp add: rewrite_json_profile extract_json_profile)
next
  case (Some m)
  obtain d s e where m: "jp_model p = Some (d, s, e)" using Some by (cases m) auto
  let ?b = "splice_json_string_at b (s, e) (str_of cps)" and ?n = "length (encode_json_string (str_of cps))"
  note bd = profile_bounds [OF assms(1-3) m]
  define q where "q = p\<lparr>jp_model := Some (str_of cps, s, s + ?n), jp_closing_brace := jp_closing_brace p + ?n - (e - s)\<rparr>"
  have q: "scan_top_level_profile ?b key = Some q"
    unfolding q_def using assms(1-3) m assms(5) by (rule splice_profile)
  have "rewrite_json_model b key (str_of cps) = Some ?b" using m by (simp add: rewrite_json_profile [OF assms(1-3)])
  moreover have "rewrite_json_model ?b key (str_of cps) = Some ?b"
    using splice_twice [of s b e "str_of cps"] bd by (simp add: rewrite_json_profile [OF assms(1,2) q] q_def)
  moreover have "extract_model b ct key \<noteq> None" using m by (simp add: extract_json_profile [OF assms(1-4)])
  moreover have "extract_model ?b ct key = Some (str_of cps)" "model_field_equals ?b ct key (str_of cps)"
    using extract_json_profile [OF assms(1,2) q assms(4)] equals_json_profile [OF assms(1,2) q assms(4)]
    by (simp_all add: q_def)
  moreover have "int (jp_closing_brace q) = int (jp_closing_brace p) + int (length ?b) - int (length b)"
    using splice_length [of s e b "str_of cps"] bd by (simp add: q_def of_nat_diff)
  moreover have "\<exists>xs ys pre text post. member_texts b = Some (xs @ (key, text) # ys) \<and> key \<notin> fst ` set ys \<and>
      member_texts ?b = Some (xs @ (key, encode_json_string (str_of cps)) # ys) \<and>
      b = pre @ text @ post \<and> ?b = pre @ encode_json_string (str_of cps) @ post"
  proof -
    have "b = take s b @ take (e - s) (drop s b) @ drop e b"
      using bd by (metis append_take_drop_id drop_drop le_add_diff_inverse2 less_imp_le)
    then show ?thesis using splice_members [OF assms(1-3) m assms(5)] unfolding splice_json_string_at_def prod.case by metis
  qed
  ultimately show ?thesis using q by (simp add: q_def)
qed

definition stream_body :: bytes where
  "stream_body = CHR ''{'' # encode_json_string ''model'' @ '':'' @ encode_json_string ''m'' @ '','' @
     encode_json_string ''stream'' @ '':true}''"

definition stream_profile :: json_object_profile where
  "stream_profile = \<lparr>jp_model = Some (''m'', 9, 12), jp_stream_true = True, jp_has_stream_options = False, jp_closing_brace = 26\<rparr>"

lemma stream_body_profile: "scan_top_level_profile stream_body ''model'' = Some stream_profile"
  by code_simp

theorem rewrite_json_model_correct_witness:
  "case rewrite_json_model stream_body ''model'' (str_of [0x71]) of
      None \<Rightarrow> extract_model stream_body (Some ''application/json'') ''model'' = None
    | Some b' \<Rightarrow> extract_model stream_body (Some ''application/json'') ''model'' \<noteq> None \<and>
        extract_model b' (Some ''application/json'') ''model'' = Some (str_of [0x71]) \<and>
        model_field_equals b' (Some ''application/json'') ''model'' (str_of [0x71]) \<and>
        rewrite_json_model b' ''model'' (str_of [0x71]) = Some b' \<and>
        (\<exists>xs ys pre text post. member_texts stream_body = Some (xs @ (''model'', text) # ys) \<and> ''model'' \<notin> fst ` set ys \<and>
           member_texts b' = Some (xs @ (''model'', encode_json_string (str_of [0x71])) # ys) \<and>
           stream_body = pre @ text @ post \<and> b' = pre @ encode_json_string (str_of [0x71]) @ post) \<and>
        (\<exists>q. scan_top_level_profile b' ''model'' = Some q \<and> jp_stream_true q = jp_stream_true stream_profile \<and>
           jp_has_stream_options q = jp_has_stream_options stream_profile \<and>
           int (jp_closing_brace q) = int (jp_closing_brace stream_profile) + int (length b') - int (length stream_body))"
  by (rule rewrite_json_model_correct [OF _ _ stream_body_profile]) (simp_all add: is_scalar_ascii, code_simp)

lemma inject_members:
  assumes key: "key \<noteq> ''stream''" "key \<noteq> ''stream_options''"
    and p: "scan_top_level_profile b key = Some p" and s: "splice_stream_options b (jp_closing_brace p) = Some b'"
  shows "\<exists>ms. member_texts b = Some ms \<and>
    member_texts b' = Some (ms @ [(''stream_options'', ''{'' @ json_key ''include_usage'' @ '':true}'')])"
proof -
  obtain ms where t: "top_level_trace b = Some (jp_closing_brace p, ms)"
    using p unfolding scan_profile_trace [OF key] by auto
  let ?cb = "jp_closing_brace p"
  note bd = top_level_trace_bounds [OF t]
  have cb: "?cb < length b" using bd by (auto dest: get_at_lengthD)
  have b': "b' = take ?cb b @ stream_options_injection @ drop ?cb b" using s cb by (simp add: splice_stream_options_def)
  have old: "take (w - v) (drop v b') = take (w - v) (drop v b)" if "(k, v, w) \<in> set ms" for k v w
  proof -
    have "w \<le> ?cb" using bd that by auto
    then show ?thesis using cb unfolding b' by (intro text_before) simp_all
  qed
  have "take 22 (drop 18 stream_options_injection) = ''{'' @ json_key ''include_usage'' @ '':true}''"
    by (simp add: stream_options_injection_def json_key_def)
  moreover have "take 22 (drop (?cb + 18) b') = take 22 (drop 18 stream_options_injection)"
    using cb injection_length by (simp add: b')
  ultimately have new: "take 22 (drop (?cb + 18) b') = ''{'' @ json_key ''include_usage'' @ '':true}''" by (rule trans [rotated])
  show ?thesis
    unfolding member_texts_def t top_level_trace_inject(1) [OF t s]
    by (auto simp: old new stream_options_key_def)
qed

lemma stream_injection:
  assumes "key \<noteq> ''stream''" "key \<noteq> ''stream_options''"
    and "scan_top_level_profile b key = Some p" and "is_json ct"
  shows "case ensure_stream_include_usage b ct path mr of
       None \<Rightarrow> \<not> (mr \<and> completions_upstream_path path \<and> jp_stream_true p \<and> \<not> jp_has_stream_options p)
     | Some b' \<Rightarrow> mr \<and> completions_upstream_path path \<and> jp_stream_true p \<and> \<not> jp_has_stream_options p \<and>
         (\<exists>q. scan_top_level_profile b' key = Some q \<and> jp_has_stream_options q \<and> jp_stream_true q \<and>
            jp_model q = jp_model p) \<and>
         extract_model b' ct key = extract_model b ct key \<and>
         (\<exists>ms. member_texts b = Some ms \<and>
            member_texts b' = Some (ms @ [(''stream_options'', ''{'' @ json_key ''include_usage'' @ '':true}'')])) \<and>
         ensure_stream_include_usage b' ct path mr = None"
proof -
  have ne: "b \<noteq> []"
    using assms(3) by (auto simp: scan_profile_trace [OF assms(1,2)] top_level_trace_def Let_def get_at_def skip_ws.simps)
  have cb: "jp_closing_brace p < length b"
    using assms(3) by (auto simp: scan_profile_trace [OF assms(1,2)] dest!: top_level_trace_bounds get_at_lengthD)
  define b' where "b' = the (splice_stream_options b (jp_closing_brace p))"
  have b': "splice_stream_options b (jp_closing_brace p) = Some b'" using cb by (simp add: b'_def splice_stream_options_def)
  note q = inject_profile [OF assms(1-3) b']
  have "ensure_stream_include_usage b ct path mr =
      (if mr \<and> completions_upstream_path path \<and> jp_stream_true p \<and> \<not> jp_has_stream_options p then Some b' else None)"
    using profile_value(2) [OF assms(1-3)] b' ne assms(4)
    by (simp add: ensure_stream_include_usage_def completions_upstream_path_def)
  moreover have "ensure_stream_include_usage b' ct path x = None" for x
    using profile_value(2) [OF assms(1,2) q] by (simp add: ensure_stream_include_usage_def)
  moreover have "extract_model b' ct key = extract_model b ct key"
    using extract_json_profile [OF assms(1,2) q assms(4)] extract_json_profile [OF assms] by simp
  ultimately show ?thesis using q inject_members [OF assms(1-3) b'] by simp
qed

lemma ensure_keeps_model:
  assumes "key \<noteq> ''stream''" "key \<noteq> ''stream_options''"
    and "scan_top_level_profile b key = Some p" and "is_json ct"
  shows "ensure_stream_include_usage b ct path mr = Some b' \<Longrightarrow> extract_model b' ct key = extract_model b ct key"
  using stream_injection [OF assms, where path = path and mr = mr] by simp

text \<open>
  Property C29. The usage injection: it happens exactly for model routes on completions paths whose
  JSON body streams and has no \<open>stream_options\<close>; the injected body is again a well-formed object whose
  members are those of the body with their texts and one more, the options that ask for the usage; it
  has the same model and still streams, and no second injection follows.
  Deciding from a memo of the body gives the same result.
\<close>

theorem stream_injection_correct:
  assumes "key \<noteq> ''stream''" "key \<noteq> ''stream_options''"
    and "scan_top_level_profile b key = Some p" and "is_json ct"
  shows "ensure_stream_include_usage_from_memo b path mr (am2_memo_of p) = ensure_stream_include_usage b ct path mr \<and>
    (case ensure_stream_include_usage b ct path mr of
       None \<Rightarrow> \<not> (mr \<and> completions_upstream_path path \<and> jp_stream_true p \<and> \<not> jp_has_stream_options p)
     | Some b' \<Rightarrow> mr \<and> completions_upstream_path path \<and> jp_stream_true p \<and> \<not> jp_has_stream_options p \<and>
         (\<exists>q. scan_top_level_profile b' key = Some q \<and> jp_has_stream_options q \<and> jp_stream_true q \<and>
            jp_model q = jp_model p) \<and>
         extract_model b' ct key = extract_model b ct key \<and>
         (\<exists>ms. member_texts b = Some ms \<and>
            member_texts b' = Some (ms @ [(''stream_options'', ''{'' @ json_key ''include_usage'' @ '':true}'')])) \<and>
         ensure_stream_include_usage b' ct path mr = None)"
  using memo_of_scan [OF assms] stream_injection [OF assms] by simp

theorem stream_injection_correct_witness:
  "ensure_stream_include_usage_from_memo stream_body ''/v1/completions'' True (am2_memo_of stream_profile) =
     ensure_stream_include_usage stream_body (Some ''application/json'') ''/v1/completions'' True \<and>
    (case ensure_stream_include_usage stream_body (Some ''application/json'') ''/v1/completions'' True of
       None \<Rightarrow> \<not> (True \<and> completions_upstream_path ''/v1/completions'' \<and> jp_stream_true stream_profile \<and>
         \<not> jp_has_stream_options stream_profile)
     | Some b' \<Rightarrow> True \<and> completions_upstream_path ''/v1/completions'' \<and> jp_stream_true stream_profile \<and>
         \<not> jp_has_stream_options stream_profile \<and>
         (\<exists>q. scan_top_level_profile b' ''model'' = Some q \<and> jp_has_stream_options q \<and> jp_stream_true q \<and>
            jp_model q = jp_model stream_profile) \<and>
         extract_model b' (Some ''application/json'') ''model'' =
           extract_model stream_body (Some ''application/json'') ''model'' \<and>
         (\<exists>ms. member_texts stream_body = Some ms \<and>
            member_texts b' = Some (ms @ [(''stream_options'', ''{'' @ json_key ''include_usage'' @ '':true}'')])) \<and>
         ensure_stream_include_usage b' (Some ''application/json'') ''/v1/completions'' True = None)"
  by (rule stream_injection_correct [OF _ _ stream_body_profile]) (simp_all, code_simp)

text \<open>
  Property C30. The multipart rewrite: in a message of well-formed parts it changes the value of the
  first part named \<open>model\<close> and nothing else, whatever the new value is; what was there is what
  the extraction reads.
\<close>

theorem multipart_model_correct:
  assumes "list_all (mp_part_ok bd) ps1" "mp_part_ok bd (h, v)"
    and "list_all (Not \<circ> mp_has_field ''model'') ps1" "mp_has_field ''model'' (h, v)"
  shows "extract_multipart_model (mp_body bd (ps1 @ (h, v) # ps2)) bd = Some (utf8_lossy v) \<and>
    rewrite_multipart_model (mp_body bd (ps1 @ (h, v) # ps2)) bd w = Some (mp_body bd (ps1 @ (h, w) # ps2))"
proof -
  obtain s e where sp: "first_form_value_span (mp_body bd (ps1 @ (h, v) # ps2)) bd ''model'' = Some (s, e)"
    using form_span_message [OF assms] by metis
  show ?thesis using replace_in_message [OF assms sp]
    by (simp add: extract_multipart_model_def rewrite_multipart_model_def sp)
qed

definition model_header :: bytes where
  "model_header = ''Content-Disposition: form-data; name='' @ CHR 0x22 # ''model'' @ [CHR 0x22]"

theorem multipart_model_correct_witness:
  "extract_multipart_model (mp_body ''B'' ([(''X: y'', ''file'')] @ (model_header, ''m1'') # [])) ''B'' = Some (utf8_lossy ''m1'') \<and>
    rewrite_multipart_model (mp_body ''B'' ([(''X: y'', ''file'')] @ (model_header, ''m1'') # [])) ''B'' ''longer'' =
      Some (mp_body ''B'' ([(''X: y'', ''file'')] @ (model_header, ''longer'') # []))"
  by (rule multipart_model_correct) code_simp+

text \<open>
  The member loop takes a comma wherever it meets one and needs none: bodies that \<open>serde_json\<close>
  rejects, with a missing, a leading or a doubled comma, pass.
\<close>

lemma lenient_commas:
  "scan_top_level_stream (''{'' @ json_key ''a'' @ '':1 '' @ json_key ''b'' @ '':2}'') = Some (False, False, 12)"
  "scan_top_level_stream (''{,'' @ json_key ''a'' @ '':1}'') = Some (False, False, 7)"
  "scan_top_level_stream (''{'' @ json_key ''a'' @ '':1,,'' @ json_key ''b'' @ '':2}'') = Some (False, False, 13)"
  by code_simp+

end
