(* ===== verification/Pipeline.thy ===== *)
theory Pipeline
  imports Body Shared_Config Transformer Policy_Merge
begin

text \<open>
  The pure decision pipeline of \<open>hygress-gateway/src/pipeline\<close> with the value types of
  \<open>context.rs\<close> and the errors of \<open>error.rs\<close>: the model router, the route match, registry
  resolution, the routing-policy overrides, the fallback plan, \<open>prepare\<close> and \<open>build_outbound\<close>. The
  clock and the regex engine are parameters; the shared configuration, which a selection mutates,
  is passed and returned.
\<close>

section \<open>Header names\<close>

definition hdr_llm_model :: string where [simp]: "hdr_llm_model = ''x-higress-llm-model''"
definition hdr_fallback_from :: string where [simp]: "hdr_fallback_from = ''x-higress-fallback-from''"
definition hdr_original_path :: string where [simp]: "hdr_original_path = ''x-gpustack-original-path''"
definition hdr_fallback_path :: string where [simp]: "hdr_fallback_path = ''x-gpustack-fallback-path''"
definition hdr_gpustack_auth_token :: string where [simp]: "hdr_gpustack_auth_token = ''x-gpustack-auth-token''"
definition hdr_model_instance :: string where [simp]: "hdr_model_instance = ''x-gpustack-model-instance''"
definition hdr_model_instance_out :: string where [simp]: "hdr_model_instance_out = ''X-GPUStack-Model-Instance''"
definition hdr_route_name_out :: string where [simp]: "hdr_route_name_out = ''X-GPUStack-Route-Name''"
definition hdr_mse_consumer :: string where [simp]: "hdr_mse_consumer = ''X-Mse-Consumer''"
definition hdr_authorization :: string where [simp]: "hdr_authorization = ''Authorization''"
definition hdr_cookie :: string where [simp]: "hdr_cookie = ''cookie''"
definition hdr_auth_cache :: string where [simp]: "hdr_auth_cache = ''x-gpustack-auth-cache''"
definition hdr_organization_id :: string where [simp]: "hdr_organization_id = ''X-Organization-Id''"

section \<open>Values\<close>

datatype gateway_error =
    BodyTooLarge nat nat
  | BodyReadAborted string
  | NoRoute string
  | RegistryResolve string
  | AllCandidatesFailed string
  | UpstreamAttempt string
  | Egress string
  | DownstreamWrite string
  | Other string

fun error_status :: "gateway_error \<Rightarrow> nat" where
  "error_status (BodyTooLarge _ _) = 413"
| "error_status (BodyReadAborted _) = 400"
| "error_status (NoRoute _) = 404"
| "error_status (RegistryResolve _) = 503"
| "error_status (AllCandidatesFailed _) = 502"
| "error_status (UpstreamAttempt _) = 502"
| "error_status (Egress _) = 502"
| "error_status (DownstreamWrite _) = 502"
| "error_status (Other _) = 500"

fun error_reason :: "gateway_error \<Rightarrow> string" where
  "error_reason (BodyTooLarge _ _) = ''request_body_too_large''"
| "error_reason (BodyReadAborted _) = ''request_body_read_failed''"
| "error_reason (NoRoute _) = ''no_route''"
| "error_reason (RegistryResolve _) = ''registry_resolve_failed''"
| "error_reason (AllCandidatesFailed _) = ''all_candidates_failed''"
| "error_reason (UpstreamAttempt _) = ''upstream_attempt_failed''"
| "error_reason (Egress _) = ''egress_failed''"
| "error_reason (DownstreamWrite _) = ''downstream_write_failed''"
| "error_reason (Other _) = ''other''"

definition dquoted :: "string \<Rightarrow> string" where
  "dquoted s = CHR 0x22 # s @ [CHR 0x22]"

definition error_json_body :: "gateway_error \<Rightarrow> string" where
  "error_json_body e =
     CHR ''{'' # dquoted ''error'' @ '':{'' @ dquoted ''message'' @ CHR '':'' # dquoted (error_reason e) @
     CHR '','' # dquoted ''type'' @ CHR '':'' # dquoted ''proxy_error'' @
     CHR '','' # dquoted ''reason'' @ CHR '':'' # dquoted (error_reason e) @ ''}}''"

record inbound_request =
  ib_method :: string
  ib_path :: string
  ib_query :: string
  ib_headers :: header_map
  ib_body :: bytes
  ib_content_type :: string
  ib_client_ip :: string
  ib_host :: string

definition path_and_query :: "inbound_request \<Rightarrow> string" where
  "path_and_query r = (if ib_query r = [] then ib_path r else ib_path r @ CHR ''?'' # ib_query r)"

datatype model_resolution = PathAlias string | BodyModel string | Passthrough

datatype scheme = Http | Https

definition scheme_as_str :: "scheme \<Rightarrow> string" where
  "scheme_as_str s = (case s of Http \<Rightarrow> ''http'' | Https \<Rightarrow> ''https'')"

definition scheme_parse :: "string \<Rightarrow> scheme option" where
  "scheme_parse s =
     (let l = to_ascii_lowercase s in
      if l = ''http'' then Some Http else if l = ''https'' then Some Https else None)"

record candidate_target =
  ct_service :: string
  ct_service_name :: string
  ct_address :: string
  ct_proxied :: bool
  ct_scheme :: scheme
  ct_proxy :: "string option"

record outbound_request =
  ob_method :: string
  ob_path :: string
  ob_host :: string
  ob_headers :: outbound_headers
  ob_body :: bytes
  ob_content_type :: string

record route_info =
  ri_route_key :: string
  ri_ingress_name :: string
  ri_matched_by :: match_kind
  ri_is_model_route :: bool
  ri_model :: string
  ri_auth_required :: bool
  ri_retry :: retry_policy
  ri_fallback :: "fallback_spec option"
  ri_matched_predicate :: "nat option"
  ri_path_groups :: "string list"

record usage_target =
  ut_model :: string
  ut_route_name :: string
  ut_mse_consumer :: string
  ut_organization_id :: string

record prepared_request =
  pq_candidates :: "candidate_target list"
  pq_route :: route_info
  pq_base_headers :: header_map
  pq_upstream_path :: string
  pq_query :: string
  pq_body :: bytes
  pq_body_model :: "string option"
  pq_content_type :: string
  pq_model_mapping :: model_mapping
  pq_usage :: "usage_target option"
  pq_selected_service :: string
  pq_started_at_ms :: nat
  pq_override_timeout_ms :: "nat option"
  pq_override_retries :: "nat option"
  pq_am2_memo :: "am2_memo option"

section \<open>The model router\<close>

record model_resolve =
  mv_resolution :: model_resolution
  mv_model :: "string option"

datatype path_mode = AliasHit string | BodyDriven | PassMode

definition path_mode_of :: "string \<Rightarrow> model_router_config \<Rightarrow> path_mode" where
  "path_mode_of path cfg =
     (case strip_prefix (mr_prefix cfg) path of
        Some rest \<Rightarrow>
          (let ident = hd (split_on (CHR ''/'') rest) in
           if ident \<noteq> [] then
             (case hm_get (mr_alias_name_mapping cfg) ident of Some model \<Rightarrow> AliasHit model | None \<Rightarrow> BodyDriven)
           else BodyDriven)
      | None \<Rightarrow>
          if list_ex (\<lambda>s. ends_with s path) (mr_enable_on_path_suffix cfg) then BodyDriven else PassMode)"

definition from_body :: "string option \<Rightarrow> model_resolve" where
  "from_body model =
     (case model of
        Some m \<Rightarrow> \<lparr>mv_resolution = BodyModel m, mv_model = Some m\<rparr>
      | None \<Rightarrow> \<lparr>mv_resolution = Passthrough, mv_model = None\<rparr>)"

definition from_mode :: "path_mode \<Rightarrow> string option \<Rightarrow> model_resolve" where
  "from_mode mode body_model =
     (case mode of
        AliasHit model \<Rightarrow> \<lparr>mv_resolution = PathAlias model, mv_model = Some model\<rparr>
      | BodyDriven \<Rightarrow> from_body body_model
      | PassMode \<Rightarrow> \<lparr>mv_resolution = Passthrough, mv_model = None\<rparr>)"

definition router_extract_model :: "bytes \<Rightarrow> string \<Rightarrow> model_router_config \<Rightarrow> string option" where
  "router_extract_model body content_type cfg =
     (if content_type = [] \<and> body = [] then None
      else extract_model body (if content_type = [] then None else Some content_type) (mr_model_key cfg))"

definition resolve :: "string \<Rightarrow> bytes \<Rightarrow> string \<Rightarrow> model_router_config \<Rightarrow> gateway_error + model_resolve" where
  "resolve path body content_type cfg =
     (if length body > mr_max_body_bytes cfg then Inl (BodyTooLarge (length body) (mr_max_body_bytes cfg))
      else
        let mode = path_mode_of path cfg;
            body_model = (if mode = BodyDriven then router_extract_model body content_type cfg else None)
        in Inr (from_mode mode body_model))"

definition resolve_fused :: "string \<Rightarrow> bytes \<Rightarrow> model_router_config \<Rightarrow> string option \<Rightarrow> gateway_error + model_resolve" where
  "resolve_fused path body cfg body_model =
     (if length body > mr_max_body_bytes cfg then Inl (BodyTooLarge (length body) (mr_max_body_bytes cfg))
      else Inr (from_mode (path_mode_of path cfg) body_model))"

section \<open>Model mapper, instance headers, authentication write-back\<close>

text \<open>
  The result says whether the body was rewritten: a rewrite allocates a new buffer, no rewrite keeps
  the one it was given. Callers compare buffers by this.
\<close>

definition apply_with_current ::
  "model_mapping \<Rightarrow> string \<Rightarrow> bytes \<Rightarrow> string \<Rightarrow> string option \<Rightarrow> bytes \<times> bool" where
  "apply_with_current mapping service body content_type current_model =
     (if body = [] then (body, False)
      else
        (case mapping_lookup mapping service of
           None \<Rightarrow> (body, False)
         | Some mapped \<Rightarrow>
             (case current_model of
                None \<Rightarrow> (body, False)
              | Some current \<Rightarrow>
                  if current = mapped then (body, False)
                  else if is_json (Some content_type) then
                    (case rewrite_json_model body ''model'' mapped of
                       Some nb \<Rightarrow> (nb, True) | None \<Rightarrow> (body, False))
                  else
                    (case parse_boundary (Some content_type) of
                       Some boundary \<Rightarrow>
                         (case apply_multipart mapping service body boundary of
                            (buf, done) \<Rightarrow> if done then (buf, True) else (body, False))
                     | None \<Rightarrow> (body, False)))))"

definition model_mapper_apply :: "model_mapping \<Rightarrow> string \<Rightarrow> bytes \<Rightarrow> string \<Rightarrow> bytes \<times> bool" where
  "model_mapper_apply mapping service body content_type =
     apply_with_current mapping service body content_type (extract_model body (Some content_type) ''model'')"

definition set_pre_route_headers :: "string \<Rightarrow> string \<Rightarrow> outbound_headers \<Rightarrow> outbound_headers" where
  "set_pre_route_headers service route_name headers =
     oh_insert hdr_route_name_out route_name (oh_insert hdr_model_instance_out service headers)"

record forward_auth_verdict =
  fv_authenticated :: bool
  fv_consumer :: "string option"
  fv_authorization :: "string option"
  fv_set_cookie :: "string option"
  fv_auth_cache :: "string option"

datatype auth_outcome = AuthAllowed header_map | AuthDenied | AuthServiceUnavailable

definition insert_nonempty :: "string \<Rightarrow> string option \<Rightarrow> header_map \<Rightarrow> header_map" where
  "insert_nonempty name value h =
     (case value of None \<Rightarrow> h | Some s \<Rightarrow> if s = [] then h else header_insert name s h)"

definition write_back :: "forward_auth_verdict \<Rightarrow> header_map" where
  "write_back v =
     (let h = insert_nonempty hdr_mse_consumer (fv_consumer v) [];
          h = insert_nonempty hdr_authorization (fv_authorization v) h;
          h = insert_nonempty hdr_cookie (fv_set_cookie v) h
      in insert_nonempty hdr_auth_cache (fv_auth_cache v) h)"

text \<open>The exchange, over the client's answer: a verdict, no verdict, or a transport error.\<close>

definition auth_outcome_of :: "string + forward_auth_verdict option \<Rightarrow> auth_outcome" where
  "auth_outcome_of answer =
     (case answer of
        Inr (Some v) \<Rightarrow> if fv_authenticated v then AuthAllowed (write_back v) else AuthDenied
      | Inr None \<Rightarrow> AuthServiceUnavailable
      | Inl e \<Rightarrow> AuthServiceUnavailable)"

section \<open>Registry resolution\<close>

definition resolve_index :: "(string, string + pre_resolved) hash_map \<Rightarrow> destination \<Rightarrow> gateway_error + candidate_target" where
  "resolve_index index dest =
     (case dest_service_ref dest of
        Inl e \<Rightarrow> Inl (RegistryResolve (error_to_string e))
      | Inr r \<Rightarrow>
          let name = service_name r in
          case hm_get index name of
            Some (Inr info) \<Rightarrow>
              Inr \<lparr>ct_service = dest_service dest, ct_service_name = name, ct_address = pr_address info,
                   ct_proxied = pr_proxied info, ct_scheme = (if pr_https info then Https else Http),
                   ct_proxy = pr_proxy info\<rparr>
          | Some (Inl e) \<Rightarrow> Inl (RegistryResolve (quoted name @ '': '' @ e))
          | None \<Rightarrow> Inl (RegistryResolve (''no registry for '' @ quoted name)))"

definition split_scheme :: "string \<Rightarrow> scheme \<times> string" where
  "split_scheme domain =
     (case find_str ''://'' domain of
        Some i \<Rightarrow> ((case scheme_parse (take i domain) of Some s \<Rightarrow> s | None \<Rightarrow> Http), drop (i + 3) domain)
      | None \<Rightarrow> (Http, domain))"

definition resolve_destination :: "config_data \<Rightarrow> destination \<Rightarrow> gateway_error + candidate_target" where
  "resolve_destination data dest =
     (case dest_service_ref dest of
        Inl e \<Rightarrow> Inl (RegistryResolve (error_to_string e))
      | Inr r \<Rightarrow>
          let name = service_name r in
          case find (\<lambda>g. reg_id g = name) (cd_registries data) of
            None \<Rightarrow> Inl (RegistryResolve (''no registry for '' @ quoted name))
          | Some registry \<Rightarrow>
              (case split_scheme (reg_domain registry) of
                 (scheme, bare_domain) \<Rightarrow>
                   let shadow = registry\<lparr>reg_domain := bare_domain\<rparr> in
                   case registry_resolve (cd_proxies data) shadow of
                     Inl e \<Rightarrow> Inl (RegistryResolve (quoted name @ '': '' @ error_to_string e))
                   | Inr target \<Rightarrow>
                       (case (case target of Direct a \<Rightarrow> (a, False, None)
                              | Proxied a _ proxy \<Rightarrow> (a, True, Some (proxy_address proxy))
                              | TunnelTo a \<Rightarrow> (a, False, None)) of
                          (address, proxied, proxy) \<Rightarrow>
                            Inr \<lparr>ct_service = dest_service dest, ct_service_name = name, ct_address = address,
                                 ct_proxied = proxied, ct_scheme = scheme, ct_proxy = proxy\<rparr>)))"

text \<open>The precomputed index answers like the direct resolution.\<close>

lemma scheme_of_prefix: "(case scheme_parse s of Some x \<Rightarrow> x | None \<Rightarrow> Http) = (if eq_ignore_ascii_case s ''https'' then Https else Http)"
proof -
  have "to_ascii_lowercase ''https'' = ''https''" by code_simp
  then show ?thesis by (simp add: scheme_parse_def eq_ignore_ascii_case_def Let_def)
qed

lemma resolve_index_scan:
  "resolve_index (precompute_registries (cd_registries data) (cd_proxies data)) dest = resolve_destination data dest"
  unfolding resolve_index_def resolve_destination_def
  by (auto simp: precompute_registries_def foldl_or_insert_get hm.get_empty pre_resolve_def
      split_scheme_is_https_def split_scheme_def scheme_of_prefix Let_def
      split: sum.splits option.splits resolved_target.splits prod.splits)

section \<open>Route match and routing policy\<close>

definition match_initial :: "'re path_engine \<Rightarrow> 're route_table \<Rightarrow> header_map \<Rightarrow> string \<Rightarrow> route_match option" where
  "match_initial rx table headers path = find_match rx table (header_get headers ''x-higress-llm-model'') path"

definition match_fallback :: "'re path_engine \<Rightarrow> 're route_table \<Rightarrow> header_map \<Rightarrow> string \<Rightarrow> route_match option" where
  "match_fallback rx table headers path =
     find_match_fallback rx table (header_get headers ''x-higress-fallback-from'') path"

definition capture_groups :: "'re path_engine \<Rightarrow> path_pred \<Rightarrow> string \<Rightarrow> string list" where
  "capture_groups rx pred path =
     (case re_build rx (''^(?:'' @ pp_regex pred @ '')$'') (pp_ignore_case pred) of
        Inl e \<Rightarrow> []
      | Inr re \<Rightarrow>
          (case re_captures rx re path of
             None \<Rightarrow> []
           | Some gs \<Rightarrow> map (\<lambda>g. case g of None \<Rightarrow> [] | Some s \<Rightarrow> s) gs))"

definition pin_matches :: "string \<Rightarrow> string \<Rightarrow> bool" where
  "pin_matches pattern name = glob_match pattern name"

definition pick_override :: "route_policy_actions \<Rightarrow> string list \<Rightarrow> string option" where
  "pick_override actions services =
     (case override_route actions of None \<Rightarrow> None | Some target \<Rightarrow> find (\<lambda>s. s = target) services)"

record policy_apply =
  pa_applied :: bool
  pa_override_hit :: bool
  pa_override_miss :: bool
  pa_pin_applied :: bool
  pa_pin_miss :: bool

definition policy_apply_default :: policy_apply where
  "policy_apply_default = \<lparr>pa_applied = False, pa_override_hit = False, pa_override_miss = False,
     pa_pin_applied = False, pa_pin_miss = False\<rparr>"

definition apply_override ::
  "route_policy_actions \<Rightarrow> prepared_request \<times> policy_apply \<Rightarrow> prepared_request \<times> policy_apply" where
  "apply_override actions st =
     (case (st, override_route actions) of
        ((prepared, out), None) \<Rightarrow> (prepared, out)
      | ((prepared, out), Some target) \<Rightarrow>
          (case pick_override actions (map ct_service (pq_candidates prepared)) of
             Some hit \<Rightarrow>
               (case find (\<lambda>c. ct_service c = hit) (pq_candidates prepared) of
                  Some c \<Rightarrow> (prepared\<lparr>pq_selected_service := ct_service_name c, pq_candidates := [c]\<rparr>,
                             out\<lparr>pa_override_hit := True, pa_applied := True\<rparr>)
                | None \<Rightarrow> (prepared, out\<lparr>pa_override_miss := True\<rparr>))
           | None \<Rightarrow> (prepared, out\<lparr>pa_override_miss := True\<rparr>)))"

definition apply_pin ::
  "route_policy_actions \<Rightarrow> prepared_request \<times> policy_apply \<Rightarrow> prepared_request \<times> policy_apply" where
  "apply_pin actions st =
     (case (st, pin_provider_svc_pattern actions) of
        ((prepared, out), None) \<Rightarrow> (prepared, out)
      | ((prepared, out), Some pattern) \<Rightarrow>
          (case filter (\<lambda>c. pin_matches pattern (ct_service_name c)) (pq_candidates prepared) of
             [] \<Rightarrow> (prepared, out\<lparr>pa_pin_miss := True\<rparr>)
           | c # cs \<Rightarrow> (prepared\<lparr>pq_candidates := c # cs, pq_selected_service := ct_service_name c\<rparr>,
                        out\<lparr>pa_pin_applied := True, pa_applied := True\<rparr>)))"

definition routing_policy_apply ::
  "route_policy_actions \<Rightarrow> prepared_request \<Rightarrow> prepared_request \<times> policy_apply" where
  "routing_policy_apply actions prepared =
     (let (prepared, out) = apply_pin actions (apply_override actions (prepared, policy_apply_default));
          added = foldl (\<lambda>h (name, value). header_insert name value h) (pq_base_headers prepared) (header_add actions);
          headers = foldl (\<lambda>h name. header_remove name h) added (header_del actions);
          out = (if header_add actions \<noteq> [] \<or> header_del actions \<noteq> [] then out\<lparr>pa_applied := True\<rparr> else out);
          prepared = prepared\<lparr>pq_base_headers := headers, pq_override_timeout_ms := action_timeout_ms actions,
                              pq_override_retries := action_retries actions\<rparr>;
          out = (if action_timeout_ms actions \<noteq> None \<or> action_retries actions \<noteq> None then out\<lparr>pa_applied := True\<rparr> else out)
      in (prepared, out))"

section \<open>Fallback\<close>

record fallback_plan =
  fp_target_key :: string
  fp_restored_path :: string
  fp_max_redirects :: nat
  fp_fallback_path_header :: string

definition budget_exhausted :: "nat \<Rightarrow> fallback_spec \<Rightarrow> bool" where
  "budget_exhausted redirect_count spec \<longleftrightarrow> redirect_count \<ge> fs_max_redirects spec"

definition fallback_plan_of :: "fallback_spec \<Rightarrow> string \<Rightarrow> nat \<Rightarrow> fallback_plan option" where
  "fallback_plan_of spec original_path redirect_count =
     (if budget_exhausted redirect_count spec then None
      else Some \<lparr>fp_target_key = fs_target_key spec, fp_restored_path = original_path,
                 fp_max_redirects = fs_max_redirects spec, fp_fallback_path_header = original_path\<rparr>)"

definition fallback_original_path :: "header_map \<Rightarrow> string option" where
  "fallback_original_path headers = header_get headers hdr_original_path"

definition fallback_arm :: "fallback_plan \<Rightarrow> header_map \<Rightarrow> header_map" where
  "fallback_arm plan headers =
     header_insert hdr_fallback_path (fp_fallback_path_header plan)
       (header_insert hdr_fallback_from (fp_target_key plan) headers)"

end
