(* ===== verification/Prepare.thy ===== *)
theory Prepare
  imports Pipeline
begin

text \<open>
  \<open>prepare\<close>, \<open>prepare_fallback\<close> and \<open>build_outbound\<close> of \<open>hygress-gateway/src/pipeline/mod.rs\<close>: the
  decision path of a request up to the prepared request, and the outbound request of one
  candidate. The lemmas relate the fused path (one scan of the body, a memo of its verdict) to the
  step-by-step path it replaces, and say which headers an upstream can see.
\<close>

record 're pipeline_ctx =
  px_data :: config_data
  px_table :: "'re route_table"
  px_router :: model_router_config

section \<open>The stages of \<open>prepare_inner\<close>\<close>

definition strip_untrusted :: "header_map \<Rightarrow> header_map" where
  "strip_untrusted headers = header_remove hdr_model_instance (header_remove hdr_gpustack_auth_token headers)"

definition scan_profile :: "bytes \<Rightarrow> string \<Rightarrow> model_router_config \<Rightarrow> json_object_profile option" where
  "scan_profile body content_type router =
     (if is_json (Some content_type) \<and> body \<noteq> [] then scan_top_level_profile body (mr_model_key router) else None)"

definition scanned_model :: "json_object_profile option \<Rightarrow> string option" where
  "scanned_model profile = Option.bind profile (\<lambda>p. map_option fst (jp_model p))"

definition resolve_request ::
  "inbound_request \<Rightarrow> json_object_profile option \<Rightarrow> model_router_config \<Rightarrow> gateway_error + model_resolve" where
  "resolve_request inbound profile router =
     (if profile \<noteq> None
      then resolve_fused (ib_path inbound) (ib_body inbound) router (scanned_model profile)
      else resolve (ib_path inbound) (ib_body inbound) (ib_content_type inbound) router)"

definition write_model_headers :: "model_router_config \<Rightarrow> string option \<Rightarrow> header_map \<Rightarrow> header_map" where
  "write_model_headers router model headers =
     (case model of
        None \<Rightarrow> headers
      | Some m \<Rightarrow>
          (let h = header_insert (mr_target_header router) m headers in
           if mr_target_header router \<noteq> hdr_llm_model then header_insert hdr_llm_model m h else h))"

text \<open>The rewritten body, its model value, and the difference of the lengths.\<close>

definition rewrite_body ::
  "bytes \<Rightarrow> string \<Rightarrow> model_router_config \<Rightarrow> json_object_profile option \<Rightarrow> string option
     \<Rightarrow> bytes \<times> string option \<times> int" where
  "rewrite_body body content_type router profile model =
     (case model of
        Some m \<Rightarrow>
          (case profile of
             Some p \<Rightarrow>
               (case jp_model p of
                  Some (decoded, sp) \<Rightarrow>
                    if decoded = m then (body, Some m, 0)
                    else
                      (let nb = splice_json_string_at body sp m
                       in (nb, Some m, int (length nb) - int (length body)))
                | None \<Rightarrow> (body, None, 0))
           | None \<Rightarrow>
               if model_field_equals body (Some content_type) (mr_model_key router) m then (body, Some m, 0)
               else
                 (case rewrite_model_field body (Some content_type) (mr_model_key router) m of
                    Some nb \<Rightarrow> (nb, Some m, 0)
                  | None \<Rightarrow> (body, extract_model body (Some content_type) (mr_model_key router), 0)))
      | None \<Rightarrow>
          (case profile of
             Some p \<Rightarrow> (body, map_option fst (jp_model p), 0)
           | None \<Rightarrow> (body, extract_model body (Some content_type) (mr_model_key router), 0)))"

definition shifted_memo :: "json_object_profile option \<Rightarrow> int \<Rightarrow> am2_memo option" where
  "shifted_memo profile delta =
     map_option (\<lambda>p. (am2_memo_of p)\<lparr>am_closing_brace := nat (max 0 (int (am_closing_brace (am2_memo_of p)) + delta))\<rparr>)
       profile"

definition rewrite_groups :: "'re path_engine \<Rightarrow> 're route_table \<Rightarrow> route_match \<Rightarrow> string \<Rightarrow> string list" where
  "rewrite_groups rx table matched path =
     (if rr_rewrite_target (rt_routes table ! rm_index matched) \<noteq> None then
        (case rm_predicate matched of
           Some p \<Rightarrow> capture_groups_for rx table (rm_index matched) p path
         | None \<Rightarrow> [])
      else [])"

text \<open>
  From the matched route and the resolved candidates to the prepared request; the headers are those
  after the inbound transformer.
\<close>

definition finish_prepare ::
  "nat \<Rightarrow> inbound_request \<Rightarrow> route_rule \<Rightarrow> route_match \<Rightarrow> string list \<Rightarrow> header_map \<Rightarrow> candidate_target list
     \<Rightarrow> bytes \<Rightarrow> string option \<Rightarrow> am2_memo option \<Rightarrow> prepared_request" where
  "finish_prepare now inbound route matched groups headers candidates body body_model memo =
     (let is_model_route = (rr_kind route = Main \<or> rr_kind route = Fallback);
          effective_model = (case header_get headers hdr_llm_model of Some m \<Rightarrow> m | None \<Rightarrow> rr_key route);
          upstream_path = (case rewrite_path route groups of Some p \<Rightarrow> p | None \<Rightarrow> ib_path inbound)
      in \<lparr>pq_candidates = candidates,
          pq_route = \<lparr>ri_route_key = rr_key route, ri_ingress_name = rr_ingress_name route,
            ri_matched_by = rm_matched_by matched, ri_is_model_route = is_model_route, ri_model = effective_model,
            ri_auth_required = requires_auth route, ri_retry = rr_retry route,
            ri_fallback = fallback_from_route route, ri_matched_predicate = rm_predicate matched,
            ri_path_groups = groups\<rparr>,
          pq_base_headers = headers, pq_upstream_path = upstream_path, pq_query = ib_query inbound,
          pq_body = body, pq_body_model = body_model, pq_content_type = ib_content_type inbound,
          pq_model_mapping = rr_model_mapping route,
          pq_usage = (if is_model_route then
             Some \<lparr>ut_model = effective_model, ut_route_name = rr_ingress_name route, ut_mse_consumer = [],
               ut_organization_id = (case header_get headers hdr_organization_id of Some org \<Rightarrow> org | None \<Rightarrow> [])\<rparr>
             else None),
          pq_selected_service = ct_service_name (candidates ! 0), pq_started_at_ms = now,
          pq_override_timeout_ms = None, pq_override_retries = None, pq_am2_memo = memo\<rparr>)"

definition prepare_inner ::
  "'re path_engine \<Rightarrow> ('re route_table \<Rightarrow> header_map \<Rightarrow> string \<Rightarrow> route_match option) \<Rightarrow> nat
     \<Rightarrow> 're pipeline_ctx \<Rightarrow> inbound_request \<Rightarrow> 're shared_config
     \<Rightarrow> (gateway_error + prepared_request) \<times> 're shared_config" where
  "prepare_inner rx match now ctx inbound sc =
     (let stripped = strip_untrusted (ib_headers inbound);
          router = px_router ctx;
          profile = scan_profile (ib_body inbound) (ib_content_type inbound) router
      in case resolve_request inbound profile router of
           Inl e \<Rightarrow> (Inl e, sc)
         | Inr mr \<Rightarrow>
             (case rewrite_body (ib_body inbound) (ib_content_type inbound) router profile (mv_model mr) of
                (body, body_model, delta) \<Rightarrow>
                  let headers = transformer_apply header_map_ops inbound_rules
                        (write_model_headers router (mv_model mr) stripped)
                  in case match (px_table ctx) headers (ib_path inbound) of
                       None \<Rightarrow> (Inl (NoRoute (ib_path inbound)), sc)
                     | Some matched \<Rightarrow>
                         let route = rt_routes (px_table ctx) ! rm_index matched;
                             groups = rewrite_groups rx (px_table ctx) matched (ib_path inbound)
                         in case order_route (px_table ctx) (rm_index matched) sc of
                              (ordered, sc') \<Rightarrow>
                                (case collect_results (map (resolve_index (rt_registry_index (px_table ctx))) ordered) of
                                   Inl e \<Rightarrow> (Inl e, sc')
                                 | Inr candidates \<Rightarrow>
                                     if candidates = [] then (Inl (AllCandidatesFailed (rr_key route)), sc')
                                     else (Inr (finish_prepare now inbound route matched groups headers candidates
                                                  body body_model (shifted_memo profile delta)), sc'))))"

definition prepare ::
  "'re path_engine \<Rightarrow> nat \<Rightarrow> 're pipeline_ctx \<Rightarrow> inbound_request \<Rightarrow> 're shared_config
     \<Rightarrow> (gateway_error + prepared_request) \<times> 're shared_config" where
  "prepare rx now ctx inbound sc = prepare_inner rx (match_initial rx) now ctx inbound sc"

definition prepare_fallback ::
  "'re path_engine \<Rightarrow> nat \<Rightarrow> 're pipeline_ctx \<Rightarrow> inbound_request \<Rightarrow> 're shared_config
     \<Rightarrow> (gateway_error + prepared_request) \<times> 're shared_config" where
  "prepare_fallback rx now ctx inbound sc = prepare_inner rx (match_fallback rx) now ctx inbound sc"

section \<open>The outbound request\<close>

definition hop_by_hop :: "string list" where
  "hop_by_hop =
     [''connection'', ''keep-alive'', ''proxy-authenticate'', ''proxy-authorization'', ''te'', ''trailer'',
      ''transfer-encoding'', ''upgrade'', ''host'', ''content-length'']"

definition host_from_address :: "string \<Rightarrow> string" where
  "host_from_address address =
     (case find_byte (CHR '']'') address of
        Some close \<Rightarrow> dropWhile (\<lambda>c. c = CHR ''['') (take close address)
      | None \<Rightarrow> (case rfind_byte (CHR '':'') address of Some i \<Rightarrow> take i address | None \<Rightarrow> address))"

definition apply_writeback :: "header_map \<Rightarrow> outbound_headers \<Rightarrow> outbound_headers" where
  "apply_writeback auth_writeback headers =
     foldl (\<lambda>h name. foldl (\<lambda>h value. oh_insert name value h) h (header_get_all auth_writeback name))
       headers (header_names auth_writeback)"

definition strip_hop_by_hop :: "outbound_headers \<Rightarrow> outbound_headers" where
  "strip_hop_by_hop headers = foldl (\<lambda>h n. if oh_contains h n then oh_remove n h else h) headers hop_by_hop"

definition swap_provider_key :: "provider_token list \<Rightarrow> string \<Rightarrow> string \<Rightarrow> outbound_headers \<Rightarrow> outbound_headers" where
  "swap_provider_key tokens name ingress headers =
     (if starts_with ''provider-'' name then
        (case provider_bearer tokens name ingress of
           Some token \<Rightarrow> oh_insert hdr_authorization (''Bearer '' @ token) headers
         | None \<Rightarrow> headers)
      else headers)"

definition outbound_body :: "prepared_request \<Rightarrow> candidate_target \<Rightarrow> bytes" where
  "outbound_body prepared candidate =
     (case apply_with_current (pq_model_mapping prepared) (ct_service_name candidate) (pq_body prepared)
             (pq_content_type prepared) (pq_body_model prepared) of
        (body, rewritten) \<Rightarrow>
          (case (case (pq_am2_memo prepared, \<not> rewritten) of
                   (Some memo, True) \<Rightarrow>
                     ensure_stream_include_usage_from_memo body (pq_upstream_path prepared)
                       (ri_is_model_route (pq_route prepared)) memo
                 | _ \<Rightarrow>
                     ensure_stream_include_usage body (Some (pq_content_type prepared)) (pq_upstream_path prepared)
                       (ri_is_model_route (pq_route prepared))) of
             Some nb \<Rightarrow> nb
           | None \<Rightarrow> body))"

definition build_outbound ::
  "string \<Rightarrow> prepared_request \<Rightarrow> candidate_target \<Rightarrow> header_map \<Rightarrow> provider_token list \<Rightarrow> outbound_request" where
  "build_outbound method prepared candidate auth_writeback provider_tokens =
     (let headers = apply_writeback auth_writeback (oh_new (pq_base_headers prepared));
          headers = (if ri_is_model_route (pq_route prepared)
            then set_pre_route_headers (ct_service_name candidate) (ri_ingress_name (pq_route prepared)) headers
            else headers);
          headers = transformer_apply outbound_ops outbound_rules headers;
          headers = strip_hop_by_hop headers;
          headers = swap_provider_key provider_tokens (ct_service_name candidate)
            (ri_ingress_name (pq_route prepared)) headers;
          path = (if pq_query prepared = [] then pq_upstream_path prepared
            else pq_upstream_path prepared @ CHR ''?'' # pq_query prepared)
      in \<lparr>ob_method = method, ob_path = path, ob_host = host_from_address (ct_address candidate),
          ob_headers = headers, ob_body = outbound_body prepared candidate,
          ob_content_type = pq_content_type prepared\<rparr>)"

section \<open>The fused path against the step-by-step path\<close>

definition is_str :: "string \<Rightarrow> bool" where
  "is_str s \<longleftrightarrow> (\<exists>cps. list_all is_scalar cps \<and> s = str_of cps)"

definition aliases_are_strings :: "model_router_config \<Rightarrow> bool" where
  "aliases_are_strings router \<longleftrightarrow> (\<forall>(k, v) \<in> set (mr_alias_name_mapping router). is_str v)"

text \<open>
  The reference: every step scans the body it is given, and the memo is a scan of the body that
  comes out.
\<close>

definition prepare_reference ::
  "'re path_engine \<Rightarrow> ('re route_table \<Rightarrow> header_map \<Rightarrow> string \<Rightarrow> route_match option) \<Rightarrow> nat
     \<Rightarrow> 're pipeline_ctx \<Rightarrow> inbound_request \<Rightarrow> 're shared_config
     \<Rightarrow> (gateway_error + prepared_request) \<times> 're shared_config" where
  "prepare_reference rx match now ctx inbound sc =
     (let router = px_router ctx; ct = ib_content_type inbound in
      case resolve (ib_path inbound) (ib_body inbound) ct router of
        Inl e \<Rightarrow> (Inl e, sc)
      | Inr mr \<Rightarrow>
          (case rewrite_body (ib_body inbound) ct router None (mv_model mr) of
             (body, body_model, _) \<Rightarrow>
               let headers = transformer_apply header_map_ops inbound_rules
                     (write_model_headers router (mv_model mr) (strip_untrusted (ib_headers inbound)))
               in case match (px_table ctx) headers (ib_path inbound) of
                    None \<Rightarrow> (Inl (NoRoute (ib_path inbound)), sc)
                  | Some matched \<Rightarrow>
                      let route = rt_routes (px_table ctx) ! rm_index matched;
                          groups = rewrite_groups rx (px_table ctx) matched (ib_path inbound)
                      in case order_route (px_table ctx) (rm_index matched) sc of
                           (ordered, sc') \<Rightarrow>
                             (case collect_results (map (resolve_index (rt_registry_index (px_table ctx))) ordered) of
                                Inl e \<Rightarrow> (Inl e, sc')
                              | Inr candidates \<Rightarrow>
                                  if candidates = [] then (Inl (AllCandidatesFailed (rr_key route)), sc')
                                  else (Inr (finish_prepare now inbound route matched groups headers candidates
                                               body body_model (map_option am2_memo_of (scan_profile body ct router))), sc'))))"

lemma model_key_ok: "mr_model_key (router_from_settings s) = ''model''"
  by (simp add: router_from_settings_def)

lemma not_json_empty: "\<not> is_json (Some [])"
  by code_simp

lemma scan_profile_SomeD:
  "scan_profile body ct router = Some p \<Longrightarrow>
     is_json (Some ct) \<and> body \<noteq> [] \<and> scan_top_level_profile body (mr_model_key router) = Some p"
  by (simp add: scan_profile_def split: if_splits)

lemma resolve_request_classic:
  assumes "mr_model_key router = ''model''"
  shows "resolve_request inbound (scan_profile (ib_body inbound) (ib_content_type inbound) router) router =
    resolve (ib_path inbound) (ib_body inbound) (ib_content_type inbound) router"
proof (cases "scan_profile (ib_body inbound) (ib_content_type inbound) router")
  case (Some p)
  note p = scan_profile_SomeD [OF Some]
  have ct: "ib_content_type inbound \<noteq> []" using p not_json_empty by auto
  have "extract_model (ib_body inbound) (Some (ib_content_type inbound)) ''model'' = map_option fst (jp_model p)"
    using p assms by (intro extract_json_profile) auto
  then show ?thesis using Some p ct assms
    by (cases "path_mode_of (ib_path inbound) router")
      (auto simp: resolve_request_def resolve_fused_def resolve_def router_extract_model_def scanned_model_def
        from_mode_def Let_def)
qed (simp add: resolve_request_def)

text \<open>The model that a request resolves to is an alias or the model of its body.\<close>

lemma resolve_model_cases:
  assumes "resolve path body ct router = Inr mr" "mv_model mr = Some m"
  shows "(\<exists>k. hm_get (mr_alias_name_mapping router) k = Some m) \<or>
    router_extract_model body ct router = Some m"
  using assms
  by (auto simp: resolve_def from_mode_def from_body_def path_mode_of_def Let_def
      split: if_splits path_mode.splits option.splits)

lemma rewrite_body_fused:
  assumes key: "mr_model_key router = ''model''"
    and p: "scan_profile body ct router = Some p"
    and m: "\<And>m. model = Some m \<Longrightarrow> is_str m \<or> extract_model body (Some ct) ''model'' = Some m"
  shows "\<exists>body' bm d d'. rewrite_body body ct router (Some p) model = (body', bm, d) \<and>
    rewrite_body body ct router None model = (body', bm, d') \<and>
    shifted_memo (Some p) d = map_option am2_memo_of (scan_profile body' ct router) \<and>
    bm = extract_model body' (Some ct) ''model''"
proof -
  note sp = scan_profile_SomeD [OF p]
  have k: "(''model'' :: string) \<noteq> ''stream''" "(''model'' :: string) \<noteq> ''stream_options''" by simp_all
  have pr: "scan_top_level_profile body ''model'' = Some p" and ct: "is_json (Some ct)" and ne: "body \<noteq> []"
    using sp key by simp_all
  note ex = extract_json_profile [OF k pr ct] and eq = equals_json_profile [OF k pr ct]
    and rw = rewrite_json_profile [OF k pr]
  have same: "shifted_memo (Some p) 0 = map_option am2_memo_of (scan_profile body ct router)"
    using p by (simp add: shifted_memo_def am2_memo_of_def)
  show ?thesis
  proof (cases model)
    case None
    then show ?thesis using same ex key by (simp add: rewrite_body_def)
  next
    case (Some v)
    show ?thesis
    proof (cases "jp_model p")
      case N: None
      then show ?thesis using Some same ex eq rw key ct by (simp add: rewrite_body_def rewrite_model_field_def)
    next
      case J: (Some mm)
      obtain d s e where mm: "jp_model p = Some (d, s, e)" using J by (cases mm) auto
      show ?thesis
      proof (cases "d = v")
        case True
        then show ?thesis using Some mm same eq ex key by (simp add: rewrite_body_def)
      next
        case False
        then obtain cps where v: "v = str_of cps" and sc: "list_all is_scalar cps"
          using m [OF Some] ex mm by (auto simp: is_str_def)
        let ?b = "splice_json_string_at body (s, e) v"
        note bd = profile_bounds [OF k pr mm]
        have q: "scan_top_level_profile ?b ''model'' = Some (p\<lparr>jp_model := Some (v, s, s + length (encode_json_string v)),
            jp_closing_brace := jp_closing_brace p + length (encode_json_string v) - (e - s)\<rparr>)"
          unfolding v using k pr mm sc by (rule splice_profile)
        have "?b \<noteq> []" by (simp add: splice_json_string_at_def encode_json_string_def)
        then have "scan_profile ?b ct router = Some (p\<lparr>jp_model := Some (v, s, s + length (encode_json_string v)),
            jp_closing_brace := jp_closing_brace p + length (encode_json_string v) - (e - s)\<rparr>)"
          using q ct key by (simp add: scan_profile_def)
        moreover have "nat (max 0 (int (jp_closing_brace p) + (int (length ?b) - int (length body)))) =
            jp_closing_brace p + length (encode_json_string v) - (e - s)"
          using splice_length [of s e body v] bd by simp
        ultimately have "shifted_memo (Some p) (int (length ?b) - int (length body)) =
            map_option am2_memo_of (scan_profile ?b ct router)"
          by (simp add: shifted_memo_def am2_memo_of_def)
        moreover have "extract_model ?b (Some ct) ''model'' = Some v"
          using extract_json_profile [OF k q ct] by simp
        ultimately show ?thesis using Some mm False eq rw key ct
          by (simp add: rewrite_body_def rewrite_model_field_def Let_def)
      qed
    qed
  qed
qed

lemma rewrite_body_unscanned:
  assumes key: "mr_model_key router = ''model''" and none: "scan_profile body ct router = None"
    and rw: "rewrite_body body ct router None model = (body', bm, d)"
  shows "scan_profile body' ct router = None"
proof (cases "is_json (Some ct)")
  case True
  have k: "(''model'' :: string) \<noteq> ''stream''" "(''model'' :: string) \<noteq> ''stream_options''" by simp_all
  have "top_level_trace body = None"
  proof (cases "body = []")
    case True
    then show ?thesis by (simp add: top_level_trace_def get_at_def skip_ws.simps)
  next
    case False
    then have "scan_top_level_profile body ''model'' = None" using none True key by (simp add: scan_profile_def)
    then show ?thesis by (simp add: scan_profile_trace [OF k])
  qed
  then have "rewrite_json_model body ''model'' m = None" for m
    by (simp add: rewrite_json_model_def scan_value_trace)
  then have "body' = body" using rw True key
    by (auto simp: rewrite_body_def rewrite_model_field_def split: option.splits if_splits)
  then show ?thesis using none by simp
qed (simp add: scan_profile_def)

lemma fused_rewrite_agrees:
  assumes key: "mr_model_key (px_router ctx) = ''model''" and al: "aliases_are_strings (px_router ctx)"
    and mr: "resolve (ib_path inbound) (ib_body inbound) (ib_content_type inbound) (px_router ctx) = Inr mr"
    and d: "profile = scan_profile (ib_body inbound) (ib_content_type inbound) (px_router ctx)"
  shows "\<exists>body' bm d d'. rewrite_body (ib_body inbound) (ib_content_type inbound) (px_router ctx) profile (mv_model mr) = (body', bm, d) \<and>
    rewrite_body (ib_body inbound) (ib_content_type inbound) (px_router ctx) None (mv_model mr) = (body', bm, d') \<and>
    shifted_memo profile d = map_option am2_memo_of (scan_profile body' (ib_content_type inbound) (px_router ctx)) \<and>
    (scan_profile body' (ib_content_type inbound) (px_router ctx) \<noteq> None \<longrightarrow>
       bm = extract_model body' (Some (ib_content_type inbound)) ''model'')"
proof (cases profile)
  case None
  obtain body' bm dl where "rewrite_body (ib_body inbound) (ib_content_type inbound) (px_router ctx) None (mv_model mr) = (body', bm, dl)"
    by (metis prod_cases3)
  then show ?thesis using rewrite_body_unscanned [OF key d [symmetric, unfolded None]] None by (simp add: shifted_memo_def)
next
  case (Some p)
  have ct: "ib_content_type inbound \<noteq> []" using scan_profile_SomeD [OF d [symmetric, unfolded Some]] not_json_empty by auto
  have "is_str m \<or> extract_model (ib_body inbound) (Some (ib_content_type inbound)) ''model'' = Some m"
    if "mv_model mr = Some m" for m
    using resolve_model_cases [OF mr that] al key ct
    by (auto simp: aliases_are_strings_def hm_get_def router_extract_model_def dest!: map_of_SomeD)
  then show ?thesis using rewrite_body_fused [OF key d [symmetric, unfolded Some], of "mv_model mr"] Some by blast
qed

lemma prepare_inner_reference:
  assumes "mr_model_key (px_router ctx) = ''model''" "aliases_are_strings (px_router ctx)"
  shows "prepare_inner rx mt now ctx inbound sc = prepare_reference rx mt now ctx inbound sc"
proof (cases "resolve (ib_path inbound) (ib_body inbound) (ib_content_type inbound) (px_router ctx)")
  case (Inl e)
  then show ?thesis
    by (simp add: prepare_inner_def prepare_reference_def resolve_request_classic [OF assms(1)] Let_def)
next
  case (Inr mr)
  obtain body' bm d d' where r: "rewrite_body (ib_body inbound) (ib_content_type inbound) (px_router ctx)
      (scan_profile (ib_body inbound) (ib_content_type inbound) (px_router ctx)) (mv_model mr) = (body', bm, d)"
    "rewrite_body (ib_body inbound) (ib_content_type inbound) (px_router ctx) None (mv_model mr) = (body', bm, d')"
    "shifted_memo (scan_profile (ib_body inbound) (ib_content_type inbound) (px_router ctx)) d =
       map_option am2_memo_of (scan_profile body' (ib_content_type inbound) (px_router ctx))"
    using fused_rewrite_agrees [OF assms Inr refl] by blast
  show ?thesis
    unfolding prepare_inner_def prepare_reference_def resolve_request_classic [OF assms(1)] Let_def
      Inr sum.case r prod.case ..
qed

text \<open>
  Property C31. The fused request path is the step-by-step path: for every request and configuration,
  scanning the body once and carrying the verdict in a memo gives the same error or the same prepared
  request, and the same selection state, as scanning at every step and once more at the end.
\<close>

theorem prepare_fused_correct:
  assumes "px_router ctx = router_from_settings settings"
    and "\<forall>(k, v) \<in> set (ms_alias_name_mapping settings). is_str v"
  shows "prepare rx now ctx inbound sc = prepare_reference rx (match_initial rx) now ctx inbound sc \<and>
    prepare_fallback rx now ctx inbound sc = prepare_reference rx (match_fallback rx) now ctx inbound sc"
proof -
  have "mr_model_key (px_router ctx) = ''model''" "aliases_are_strings (px_router ctx)"
    using assms by (simp_all add: model_key_ok aliases_are_strings_def) (simp add: router_from_settings_def)
  then show ?thesis by (simp add: prepare_def prepare_fallback_def prepare_inner_reference)
qed

section \<open>The memo cannot be observed\<close>

lemma prepared_memo:
  assumes "prepare_reference rx mt now ctx inbound sc = (Inr p, sc')"
  shows "pq_am2_memo p = map_option am2_memo_of (scan_profile (pq_body p) (pq_content_type p) (px_router ctx))"
  using assms
  by (auto simp: prepare_reference_def Let_def finish_prepare_def
      split: sum.splits prod.splits option.splits if_splits)

lemma outbound_body_memo:
  assumes key: "mr_model_key router = ''model''"
    and memo: "pq_am2_memo p = map_option am2_memo_of (scan_profile (pq_body p) (pq_content_type p) router)"
  shows "outbound_body p c = outbound_body (p\<lparr>pq_am2_memo := None\<rparr>) c"
proof (cases "scan_profile (pq_body p) (pq_content_type p) router")
  case None
  then show ?thesis using memo by (simp add: outbound_body_def)
next
  case (Some q)
  note sp = scan_profile_SomeD [OF Some]
  have k: "(''model'' :: string) \<noteq> ''stream''" "(''model'' :: string) \<noteq> ''stream_options''" by simp_all
  obtain b r where b: "apply_with_current (pq_model_mapping p) (ct_service_name c) (pq_body p)
             (pq_content_type p) (pq_body_model p) = (b, r)" by fastforce
  have "b = pq_body p" if "\<not> r"
    using b that by (auto simp: apply_with_current_def Let_def split: if_splits option.splits prod.splits)
  then show ?thesis using memo Some b sp key memo_of_scan [OF k, of "pq_body p" q "Some (pq_content_type p)"]
    by (cases r) (simp_all add: outbound_body_def)
qed

lemma prepared_body_model:
  assumes key: "mr_model_key (px_router ctx) = ''model''" and al: "aliases_are_strings (px_router ctx)"
    and p: "prepare_reference rx mt now ctx inbound sc = (Inr p, sc')"
    and q: "scan_profile (pq_body p) (pq_content_type p) (px_router ctx) \<noteq> None"
  shows "pq_body_model p = extract_model (pq_body p) (Some (pq_content_type p)) ''model''"
proof -
  obtain mr where mr: "resolve (ib_path inbound) (ib_body inbound) (ib_content_type inbound) (px_router ctx) = Inr mr"
    using p by (cases "resolve (ib_path inbound) (ib_body inbound) (ib_content_type inbound) (px_router ctx)")
      (auto simp: prepare_reference_def Let_def)
  obtain body' bm d where r: "rewrite_body (ib_body inbound) (ib_content_type inbound) (px_router ctx) None (mv_model mr) = (body', bm, d)"
    and m: "scan_profile body' (ib_content_type inbound) (px_router ctx) \<noteq> None \<longrightarrow>
       bm = extract_model body' (Some (ib_content_type inbound)) ''model''"
    using fused_rewrite_agrees [OF key al mr refl] by blast
  have "pq_body p = body'" "pq_body_model p = bm" "pq_content_type p = ib_content_type inbound"
    using p unfolding prepare_reference_def Let_def mr sum.case r prod.case
    by (auto simp: finish_prepare_def Let_def split: sum.splits prod.splits option.splits if_splits)
  then show ?thesis using m q by simp
qed

text \<open>The last member of a key with another text, which is where the model is read and rewritten.\<close>

fun replace_last :: "string \<Rightarrow> bytes \<Rightarrow> (string \<times> bytes) list \<Rightarrow> (string \<times> bytes) list" where
  "replace_last k t [] = []"
| "replace_last k t (m # ms) = (if fst m = k \<and> k \<notin> fst ` set ms then (k, t) # ms else m # replace_last k t ms)"

lemma replace_last_split: "k \<notin> fst ` set ys \<Longrightarrow> replace_last k t (xs @ (k, u) # ys) = xs @ (k, t) # ys"
  by (induction xs) auto

text \<open>The text the mapping of a service puts in place of the model, if it replaces one.\<close>

definition mapped_text :: "prepared_request \<Rightarrow> candidate_target \<Rightarrow> bytes option" where
  "mapped_text p c =
     (case (extract_model (pq_body p) (Some (pq_content_type p)) ''model'', mapping_lookup (pq_model_mapping p) (ct_service_name c)) of
        (Some cur, Some v) \<Rightarrow> if cur = v then None else Some (encode_json_string v)
      | _ \<Rightarrow> None)"

definition usage_member :: "string \<times> bytes" where
  "usage_member = (''stream_options'', ''{'' @ json_key ''include_usage'' @ '':true}'')"

text \<open>The body after the mapping: still a profile that streams alike, with the members of the request.\<close>

lemma mapped_body:
  assumes q: "scan_top_level_profile (pq_body p) ''model'' = Some q" and ct: "is_json (Some (pq_content_type p))"
    and bm: "pq_body_model p = extract_model (pq_body p) (Some (pq_content_type p)) ''model''"
    and str: "\<forall>(k, v) \<in> set (pq_model_mapping p). is_str v"
    and b: "apply_with_current (pq_model_mapping p) (ct_service_name c) (pq_body p) (pq_content_type p) (pq_body_model p) = (b, r)"
  shows "\<exists>q'. scan_top_level_profile b ''model'' = Some q' \<and> jp_stream_true q' = jp_stream_true q \<and>
      jp_has_stream_options q' = jp_has_stream_options q"
    and "\<exists>ms. member_texts (pq_body p) = Some ms \<and>
      member_texts b = Some (case mapped_text p c of Some t \<Rightarrow> replace_last ''model'' t ms | None \<Rightarrow> ms)"
proof -
  have k: "(''model'' :: string) \<noteq> ''stream''" "(''model'' :: string) \<noteq> ''stream_options''" by simp_all
  note ex = extract_json_profile [OF k q ct] and rw = rewrite_json_profile [OF k q]
  have ne: "pq_body p \<noteq> []"
    using q by (auto simp: scan_profile_trace [OF k] top_level_trace_def Let_def get_at_def skip_ws.simps)
  have "(\<exists>q'. scan_top_level_profile b ''model'' = Some q' \<and> jp_stream_true q' = jp_stream_true q \<and>
      jp_has_stream_options q' = jp_has_stream_options q) \<and> (\<exists>ms. member_texts (pq_body p) = Some ms \<and>
      member_texts b = Some (case mapped_text p c of Some t \<Rightarrow> replace_last ''model'' t ms | None \<Rightarrow> ms))"
  proof (cases "\<exists>cur v. pq_body_model p = Some cur \<and> mapping_lookup (pq_model_mapping p) (ct_service_name c) = Some v \<and> cur \<noteq> v")
    case True
    then obtain cur v where v: "pq_body_model p = Some cur" "mapping_lookup (pq_model_mapping p) (ct_service_name c) = Some v" "cur \<noteq> v"
      by blast
    have "(ct_service_name c, v) \<in> set (pq_model_mapping p)"
      using v(2) by (force simp: mapping_lookup_def find_Some_iff set_conv_nth)
    then have "is_str v" using str by auto
    then obtain cps where cps: "v = str_of cps" "list_all is_scalar cps" by (auto simp: is_str_def)
    obtain d s e where m: "jp_model q = Some (d, s, e)" using v(1) bm ex by (cases "jp_model q") auto
    have "b = splice_json_string_at (pq_body p) (s, e) v"
      using b v ct rw m ne by (auto simp: apply_with_current_def)
    moreover have "mapped_text p c = Some (encode_json_string v)" using v bm by (simp add: mapped_text_def)
    ultimately show ?thesis
      using splice_profile [OF k q m cps(2)] splice_members [OF k q m cps(2)] cps(1) replace_last_split by fastforce
  next
    case False
    then have "b = pq_body p" using b by (auto simp: apply_with_current_def split: option.splits if_splits)
    moreover have "mapped_text p c = None" using False bm by (auto simp: mapped_text_def split: option.splits)
    moreover obtain ms where "member_texts (pq_body p) = Some ms"
      using q unfolding scan_profile_trace [OF k] by (auto simp: member_texts_def)
    ultimately show ?thesis using q by simp
  qed
  then show "\<exists>q'. scan_top_level_profile b ''model'' = Some q' \<and> jp_stream_true q' = jp_stream_true q \<and>
      jp_has_stream_options q' = jp_has_stream_options q"
    "\<exists>ms. member_texts (pq_body p) = Some ms \<and>
      member_texts b = Some (case mapped_text p c of Some t \<Rightarrow> replace_last ''model'' t ms | None \<Rightarrow> ms)" by blast+
qed

lemma outbound_members:
  assumes q: "scan_top_level_profile (pq_body p) ''model'' = Some q" and ct: "is_json (Some (pq_content_type p))"
    and bm: "pq_body_model p = extract_model (pq_body p) (Some (pq_content_type p)) ''model''"
    and memo: "pq_am2_memo p = None"
    and str: "\<forall>(k, v) \<in> set (pq_model_mapping p). is_str v"
  shows "\<exists>ms. member_texts (pq_body p) = Some ms \<and>
    member_texts (outbound_body p c) =
      Some ((case mapped_text p c of Some t \<Rightarrow> replace_last ''model'' t ms | None \<Rightarrow> ms) @
        (if ri_is_model_route (pq_route p) \<and> completions_upstream_path (pq_upstream_path p) \<and>
            jp_stream_true q \<and> \<not> jp_has_stream_options q then [usage_member] else []))"
proof -
  have k: "(''model'' :: string) \<noteq> ''stream''" "(''model'' :: string) \<noteq> ''stream_options''" by simp_all
  obtain b r where b: "apply_with_current (pq_model_mapping p) (ct_service_name c) (pq_body p)
             (pq_content_type p) (pq_body_model p) = (b, r)" by fastforce
  note m = mapped_body [OF q ct bm str b]
  obtain q' where q': "scan_top_level_profile b ''model'' = Some q'" "jp_stream_true q' = jp_stream_true q"
    "jp_has_stream_options q' = jp_has_stream_options q" using m(1) by blast
  have "outbound_body p c = (case ensure_stream_include_usage b (Some (pq_content_type p)) (pq_upstream_path p)
      (ri_is_model_route (pq_route p)) of Some nb \<Rightarrow> nb | None \<Rightarrow> b)"
    using memo b by (simp add: outbound_body_def)
  moreover obtain ms where ms: "member_texts (pq_body p) = Some ms"
    "member_texts b = Some (case mapped_text p c of Some t \<Rightarrow> replace_last ''model'' t ms | None \<Rightarrow> ms)" using m(2) by blast
  moreover note inj = stream_injection [OF k q'(1) ct, where path = "pq_upstream_path p" and mr = "ri_is_model_route (pq_route p)"]
  ultimately show ?thesis
    using q'(2,3)
    by (cases "ensure_stream_include_usage b (Some (pq_content_type p)) (pq_upstream_path p) (ri_is_model_route (pq_route p))")
      (auto simp: usage_member_def)
qed

lemma outbound_json_model:
  assumes q: "scan_top_level_profile (pq_body p) ''model'' = Some q" and ct: "is_json (Some (pq_content_type p))"
    and bm: "pq_body_model p = extract_model (pq_body p) (Some (pq_content_type p)) ''model''"
    and memo: "pq_am2_memo p = None"
    and str: "\<forall>(k, v) \<in> set (pq_model_mapping p). is_str v"
  shows "extract_model (outbound_body p c) (Some (pq_content_type p)) ''model'' =
    (case (pq_body_model p, mapping_lookup (pq_model_mapping p) (ct_service_name c)) of
       (Some _, Some mapped) \<Rightarrow> Some mapped | (m, _) \<Rightarrow> m)"
proof -
  let ?ct = "Some (pq_content_type p)"
  have k: "(''model'' :: string) \<noteq> ''stream''" "(''model'' :: string) \<noteq> ''stream_options''" by simp_all
  obtain b r where b: "apply_with_current (pq_model_mapping p) (ct_service_name c) (pq_body p)
             (pq_content_type p) (pq_body_model p) = (b, r)" by fastforce
  note ex = extract_json_profile [OF k q ct] and rw = rewrite_json_profile [OF k q]
  have ne: "pq_body p \<noteq> []"
    using q by (auto simp: scan_profile_trace [OF k] top_level_trace_def Let_def get_at_def skip_ws.simps)
  have mapped: "\<exists>q'. scan_top_level_profile b ''model'' = Some q' \<and> map_option fst (jp_model q') =
    (case (pq_body_model p, mapping_lookup (pq_model_mapping p) (ct_service_name c)) of
       (Some _, Some mapped) \<Rightarrow> Some mapped | (m, _) \<Rightarrow> m)"
  proof (cases "\<exists>cur v. pq_body_model p = Some cur \<and> mapping_lookup (pq_model_mapping p) (ct_service_name c) = Some v \<and> cur \<noteq> v")
    case True
    then obtain cur v where v: "pq_body_model p = Some cur" "mapping_lookup (pq_model_mapping p) (ct_service_name c) = Some v" "cur \<noteq> v"
      by blast
    have "(ct_service_name c, v) \<in> set (pq_model_mapping p)"
      using v(2) by (force simp: mapping_lookup_def find_Some_iff set_conv_nth)
    then have "is_str v" using str by auto
    then obtain cps where cps: "v = str_of cps" "list_all is_scalar cps" by (auto simp: is_str_def)
    obtain d s e where m: "jp_model q = Some (d, s, e)" using v(1) bm ex by (cases "jp_model q") auto
    have "b = splice_json_string_at (pq_body p) (s, e) v"
      using b v ct rw m ne by (auto simp: apply_with_current_def)
    then show ?thesis using splice_profile [OF k q m cps(2)] v cps(1) by simp
  next
    case False
    then have "b = pq_body p" using b by (auto simp: apply_with_current_def split: option.splits if_splits)
    then show ?thesis using q ex bm False by (auto split: option.splits)
  qed
  then obtain q' where q': "scan_top_level_profile b ''model'' = Some q'" "map_option fst (jp_model q') =
    (case (pq_body_model p, mapping_lookup (pq_model_mapping p) (ct_service_name c)) of
       (Some _, Some mapped) \<Rightarrow> Some mapped | (m, _) \<Rightarrow> m)" by blast
  have "extract_model (case ensure_stream_include_usage b ?ct path mr of Some nb \<Rightarrow> nb | None \<Rightarrow> b) ?ct ''model'' =
      extract_model b ?ct ''model''" for path mr
    using ensure_keeps_model [OF k q'(1) ct, of path mr] by (auto split: option.splits)
  then show ?thesis using b memo extract_json_profile [OF k q'(1) ct] q'(2) by (simp add: outbound_body_def)
qed

text \<open>
  Property C32. The outbound body of every candidate of a prepared request: deciding from the memo or by
  scanning again cannot be told apart. For a JSON body the upstream sees the members of the request's
  body, in their order and with their texts, but for two things: the last model member has the text of
  the mapped model if the candidate's service has a mapping to another one, and the stream options that
  ask for the usage follow at the end exactly if the route is a model route, the path a completions path
  and the body streams without options of its own. So the model it reads is the mapped one if there is a
  mapping and a model, else the one of the request.
\<close>

theorem outbound_body_correct:
  assumes "px_router ctx = router_from_settings settings"
    and "\<forall>(k, v) \<in> set (ms_alias_name_mapping settings). is_str v"
    and "prepare_inner rx mt now ctx inbound sc = (Inr p, sc')"
    and "\<forall>(k, v) \<in> set (pq_model_mapping p). is_str v"
  shows "outbound_body p c = outbound_body (p\<lparr>pq_am2_memo := None\<rparr>) c \<and>
    (pq_am2_memo p \<noteq> None \<longrightarrow>
       extract_model (outbound_body p c) (Some (pq_content_type p)) ''model'' =
         (case (extract_model (pq_body p) (Some (pq_content_type p)) ''model'',
                mapping_lookup (pq_model_mapping p) (ct_service_name c)) of
            (Some _, Some mapped) \<Rightarrow> Some mapped | (m, _) \<Rightarrow> m) \<and>
       (\<exists>ms streams options closing. member_texts (pq_body p) = Some ms \<and>
          scan_top_level_stream (pq_body p) = Some (streams, options, closing) \<and>
          member_texts (outbound_body p c) =
            Some ((case mapped_text p c of Some t \<Rightarrow> replace_last ''model'' t ms | None \<Rightarrow> ms) @
              (if ri_is_model_route (pq_route p) \<and> completions_upstream_path (pq_upstream_path p) \<and> streams \<and> \<not> options
               then [usage_member] else []))))"
proof -
  have key: "mr_model_key (px_router ctx) = ''model''" and al: "aliases_are_strings (px_router ctx)"
    using assms(1,2) by (simp_all add: model_key_ok aliases_are_strings_def) (simp add: router_from_settings_def)
  have p: "prepare_reference rx mt now ctx inbound sc = (Inr p, sc')"
    using assms(3) prepare_inner_reference [OF key al, of rx mt now inbound sc] by simp
  note memo = prepared_memo [OF p]
  note eq = outbound_body_memo [OF key memo, of c]
  show ?thesis
  proof (cases "scan_profile (pq_body p) (pq_content_type p) (px_router ctx)")
    case None
    then show ?thesis using eq memo by simp
  next
    case (Some q)
    have bm: "pq_body_model p = extract_model (pq_body p) (Some (pq_content_type p)) ''model''"
      using prepared_body_model [OF key al p] Some by simp
    have q: "scan_top_level_profile (pq_body p) ''model'' = Some q" "is_json (Some (pq_content_type p))"
      using scan_profile_SomeD [OF Some] key by simp_all
    have "extract_model (outbound_body (p\<lparr>pq_am2_memo := None\<rparr>) c) (Some (pq_content_type p)) ''model'' =
      (case (pq_body_model p, mapping_lookup (pq_model_mapping p) (ct_service_name c)) of
         (Some _, Some mapped) \<Rightarrow> Some mapped | (m, _) \<Rightarrow> m)"
      using outbound_json_model [of "p\<lparr>pq_am2_memo := None\<rparr>" q c] q bm assms(4) by simp
    moreover have "scan_top_level_stream (pq_body p) = Some (jp_stream_true q, jp_has_stream_options q, jp_closing_brace q)"
      using profile_value(2) [OF _ _ q(1)] by simp
    moreover have "mapped_text (p\<lparr>pq_am2_memo := None\<rparr>) c = mapped_text p c" by (simp add: mapped_text_def)
    ultimately show ?thesis
      using eq bm outbound_members [of "p\<lparr>pq_am2_memo := None\<rparr>" q c] q assms(4) by simp
  qed
qed

section \<open>Headers an upstream sees\<close>

text \<open>The base headers of a prepared request.\<close>

lemma prepared_headers:
  assumes "prepare_inner rx mt now ctx inbound sc = (Inr p, sc')"
  shows "\<exists>mr. resolve_request inbound (scan_profile (ib_body inbound) (ib_content_type inbound) (px_router ctx)) (px_router ctx) = Inr mr \<and>
    pq_base_headers p = transformer_apply header_map_ops inbound_rules
      (write_model_headers (px_router ctx) (mv_model mr) (strip_untrusted (ib_headers inbound)))"
  using assms
  by (auto simp: prepare_inner_def Let_def finish_prepare_def
      split: sum.splits prod.splits option.splits if_splits)

lemma header_keys [simp]:
  "header_key ''X-GPUStack-Model-Instance'' = ''x-gpustack-model-instance''"
  "header_key ''X-GPUStack-Route-Name'' = ''x-gpustack-route-name''"
  "header_key ''Authorization'' = ''authorization''"
  "header_key ''X-Mse-Consumer'' = ''x-mse-consumer''"
  "header_key ''cookie'' = ''cookie''"
  "header_key ''x-gpustack-auth-cache'' = ''x-gpustack-auth-cache''"
  by code_simp+

declare header_literals [simp]

lemma map_header_key_hop: "map header_key hop_by_hop = hop_by_hop"
  by code_simp

lemma oh_contains_iff: "oh_wf h \<Longrightarrow> oh_contains h n \<longleftrightarrow> oh_get_all h n \<noteq> []"
  by (auto simp: oh_contains_def oh_get_all_cases Let_def header_contains_iff oh_wf_def
      header_contains_iff [of "oh_base h" "header_key n", simplified]
      dest: map_of_SomeD split: option.splits)

lemma oh_get_all_cong: "header_key k = header_key n \<Longrightarrow> oh_get_all h k = oh_get_all h n"
  using oh_get_all_key [of h k] oh_get_all_key [of h n] by simp

lemma strip_loop_view:
  "oh_wf h \<Longrightarrow> oh_wf (foldl (\<lambda>h n. if oh_contains h n then oh_remove n h else h) h ns) \<and>
   oh_get_all (foldl (\<lambda>h n. if oh_contains h n then oh_remove n h else h) h ns) k =
     (if header_key k \<in> set (map header_key ns) then [] else oh_get_all h k)"
proof (induction ns arbitrary: h)
  case (Cons n ns)
  let ?h = "if oh_contains h n then oh_remove n h else h"
  have wf: "oh_wf ?h" using Cons.prems by (simp add: oh_wf_remove)
  have "oh_get_all ?h k = (if header_key k = header_key n then [] else oh_get_all h k)"
    using Cons.prems oh_get_all_cong [of k n h] by (auto simp: oh_get_all_remove oh_contains_iff)
  then show ?case using Cons.IH [OF wf] by simp
qed simp

lemma strip_hop_by_hop_view:
  "oh_wf h \<Longrightarrow> oh_wf (strip_hop_by_hop h) \<and>
   oh_get_all (strip_hop_by_hop h) k = (if header_key k \<in> set hop_by_hop then [] else oh_get_all h k)"
  using strip_loop_view [of h hop_by_hop k] unfolding strip_hop_by_hop_def map_header_key_hop .

lemma insert_values_view:
  "oh_wf h \<Longrightarrow> oh_wf (foldl (\<lambda>h value. oh_insert n value h) h vs) \<and>
   oh_get_all (foldl (\<lambda>h value. oh_insert n value h) h vs) k =
     (if header_key k = header_key n \<and> vs \<noteq> [] then [last vs] else oh_get_all h k)"
  by (induction vs arbitrary: h) (auto simp: oh_wf_insert oh_get_all_insert)

text \<open>The write-back replaces the values of the names it has.\<close>

lemma writeback_loop_view:
  "oh_wf h \<Longrightarrow> header_wf w \<Longrightarrow>
   oh_wf (foldl (\<lambda>h name. foldl (\<lambda>h value. oh_insert name value h) h (header_get_all w name)) h ns) \<and>
   oh_get_all (foldl (\<lambda>h name. foldl (\<lambda>h value. oh_insert name value h) h (header_get_all w name)) h ns) k =
     (if header_key k \<in> set (map header_key ns) \<and> header_get_all w k \<noteq> []
      then [last (header_get_all w k)] else oh_get_all h k)"
proof (induction ns arbitrary: h)
  case (Cons n ns)
  let ?h = "foldl (\<lambda>h value. oh_insert n value h) h (header_get_all w n)"
  have cong: "header_get_all w k = header_get_all w n" if "header_key k = header_key n"
    using that header_get_all_key [of w k] header_get_all_key [of w n] by simp
  have "oh_wf ?h" "oh_get_all ?h k = (if header_key k = header_key n \<and> header_get_all w k \<noteq> []
      then [last (header_get_all w k)] else oh_get_all h k)"
    using insert_values_view [OF Cons.prems(1), of n "header_get_all w n" k] cong by auto
  then show ?case using Cons.IH [of ?h] Cons.prems(2) by auto
qed simp

lemma apply_writeback_view:
  assumes "oh_wf h" "header_wf w"
  shows "oh_wf (apply_writeback w h) \<and>
    oh_get_all (apply_writeback w h) k =
      (if header_get_all w k \<noteq> [] then [last (header_get_all w k)] else oh_get_all h k)"
proof -
  have "header_key k \<in> set (map header_key (header_names w))" if "header_get_all w k \<noteq> []"
  proof -
    have "hm_get w (header_key k) \<noteq> None" using that by (auto simp: header_get_all_def split: option.splits)
    then have "header_key k \<in> set (header_names w)" by (simp add: header_names_def hm.keys_get)
    then show ?thesis by (metis header_key_idem imageI set_map)
  qed
  then show ?thesis using writeback_loop_view [OF assms, of "header_names w" k] by (auto simp: apply_writeback_def)
qed

lemma build_headers_view:
  assumes wf: "header_wf (pq_base_headers p)" and w: "header_wf wb"
  shows "oh_get_all (ob_headers (build_outbound m p c wb toks)) k =
    (if starts_with ''provider-'' (ct_service_name c) \<and> header_key k = ''authorization'' \<and>
        provider_bearer toks (ct_service_name c) (ri_ingress_name (pq_route p)) \<noteq> None
     then [''Bearer '' @ the (provider_bearer toks (ct_service_name c) (ri_ingress_name (pq_route p)))]
     else if header_key k \<in> set hop_by_hop then []
     else if ri_is_model_route (pq_route p) \<and> header_key k = ''x-gpustack-model-instance'' then [ct_service_name c]
     else if ri_is_model_route (pq_route p) \<and> header_key k = ''x-gpustack-route-name'' then [ri_ingress_name (pq_route p)]
     else if header_get_all wb k \<noteq> [] then [last (header_get_all wb k)]
     else if header_key k \<in> {''x-gpustack-model-instance'', ''x-gpustack-route-name''}
       then keep_first (header_get_all (pq_base_headers p) k)
     else header_get_all (pq_base_headers p) k)"
proof -
  define h1 where "h1 = apply_writeback wb (oh_new (pq_base_headers p))"
  define h2 where "h2 = (if ri_is_model_route (pq_route p)
    then set_pre_route_headers (ct_service_name c) (ri_ingress_name (pq_route p)) h1 else h1)"
  define h3 where "h3 = strip_hop_by_hop (transformer_apply outbound_ops outbound_rules h2)"
  have v1: "oh_wf h1" "oh_get_all h1 k = (if header_get_all wb k \<noteq> [] then [last (header_get_all wb k)]
      else header_get_all (pq_base_headers p) k)" for k
    using apply_writeback_view [OF oh_wf_new [OF wf] w, of k] by (simp_all add: h1_def)
  have v2: "oh_wf h2" "oh_get_all h2 k =
     (if ri_is_model_route (pq_route p) \<and> header_key k = ''x-gpustack-model-instance'' then [ct_service_name c]
      else if ri_is_model_route (pq_route p) \<and> header_key k = ''x-gpustack-route-name'' then [ri_ingress_name (pq_route p)]
      else oh_get_all h1 k)" for k
    using v1(1) by (auto simp: h2_def set_pre_route_headers_def oh_wf_insert oh_get_all_insert)
  have v3: "oh_wf h3" "oh_get_all h3 k = (if header_key k \<in> set hop_by_hop then []
      else if header_key k \<in> {''x-gpustack-model-instance'', ''x-gpustack-route-name''}
       then keep_first (oh_get_all h2 k) else oh_get_all h2 k)"
    using outbound_overlay [OF v2(1), of k]
      strip_hop_by_hop_view [of "transformer_apply outbound_ops outbound_rules h2" k]
    by (simp_all add: h3_def)
  have k1: "keep_first [x] = [x]" for x by (simp add: keep_first_def)
  have "ob_headers (build_outbound m p c wb toks) =
      swap_provider_key toks (ct_service_name c) (ri_ingress_name (pq_route p)) h3"
    unfolding build_outbound_def Let_def h1_def h2_def h3_def by simp
  then have "oh_get_all (ob_headers (build_outbound m p c wb toks)) k =
     (if starts_with ''provider-'' (ct_service_name c) \<and> header_key k = ''authorization'' \<and>
        provider_bearer toks (ct_service_name c) (ri_ingress_name (pq_route p)) \<noteq> None
      then [''Bearer '' @ the (provider_bearer toks (ct_service_name c) (ri_ingress_name (pq_route p)))]
      else oh_get_all h3 k)"
    using v3(1) by (auto simp: swap_provider_key_def oh_get_all_insert split: option.splits)
  then show ?thesis unfolding v3(2) v2(2) v1(2) using k1 by auto
qed

text \<open>What the base headers of a prepared request say about the names the gateway owns.\<close>

lemma base_headers_view:
  assumes wf: "header_wf (ib_headers inbound)"
    and p: "prepare_inner rx mt now ctx inbound sc = (Inr p, sc')"
  shows "header_wf (pq_base_headers p)"
    and "header_key k \<in> {''x-gpustack-auth-token'', ''x-gpustack-model-instance''} \<Longrightarrow> header_get_all (pq_base_headers p) k = []"
    and "resolve_request inbound (scan_profile (ib_body inbound) (ib_content_type inbound) (px_router ctx)) (px_router ctx) = Inr mr \<Longrightarrow>
      mv_model mr = Some m \<Longrightarrow> header_get_all (pq_base_headers p) ''x-higress-llm-model'' = [m]"
proof -
  obtain mr0 where mr0: "resolve_request inbound (scan_profile (ib_body inbound) (ib_content_type inbound) (px_router ctx)) (px_router ctx) = Inr mr0"
    and b: "pq_base_headers p = transformer_apply header_map_ops inbound_rules
      (write_model_headers (px_router ctx) (mv_model mr0) (strip_untrusted (ib_headers inbound)))"
    using prepared_headers [OF p] by blast
  let ?h = "write_model_headers (px_router ctx) (mv_model mr0) (strip_untrusted (ib_headers inbound))"
  have wf': "header_wf ?h" using wf
    by (simp add: write_model_headers_def strip_untrusted_def header_wf_remove header_wf_insert Let_def split: option.splits)
  show "header_wf (pq_base_headers p)" using inbound_map [OF wf'] unfolding b by simp
  have v: "header_get_all (pq_base_headers p) k = transformer_apply view_ops inbound_rules (header_get_all ?h) k" for k
    using inbound_map [OF wf'] unfolding b by simp
  show "header_get_all (pq_base_headers p) k = []" if "header_key k \<in> {''x-gpustack-auth-token'', ''x-gpustack-model-instance''}"
    unfolding v using inbound_view [of "header_get_all ?h" k] that by auto
  show "header_get_all (pq_base_headers p) ''x-higress-llm-model'' = [m]"
    if "resolve_request inbound (scan_profile (ib_body inbound) (ib_content_type inbound) (px_router ctx)) (px_router ctx) = Inr mr"
      "mv_model mr = Some m"
  proof -
    have "header_get_all ?h ''x-higress-llm-model'' = [m]"
      using that mr0 by (auto simp: write_model_headers_def header_get_all_insert Let_def)
    then show ?thesis unfolding v using inbound_view [of "header_get_all ?h" "''x-higress-llm-model''"]
      by (simp add: keep_first_def)
  qed
qed

lemma write_back_view:
  "header_wf (write_back v)"
  "header_get_all (write_back v) k \<noteq> [] \<Longrightarrow>
     header_key k \<in> {''x-mse-consumer'', ''authorization'', ''cookie'', ''x-gpustack-auth-cache''}"
  "header_get_all (write_back v) ''Authorization'' =
     (case fv_authorization v of None \<Rightarrow> [] | Some a \<Rightarrow> if a = [] then [] else [a])"
proof -
  have i: "header_wf h \<Longrightarrow> header_wf (insert_nonempty n x h)"
    "header_get_all (insert_nonempty n x h) k =
      (if header_key k = header_key n \<and> x \<noteq> None \<and> x \<noteq> Some [] then [the x] else header_get_all h k)" for n x h k
    by (auto simp: insert_nonempty_def header_wf_insert header_get_all_insert split: option.splits)
  have e: "header_get_all [] k = []" for k by (simp add: header_get_all_def hm.get_empty)
  show "header_wf (write_back v)" by (simp add: write_back_def Let_def i(1) header_wf_empty)
  show "header_key k \<in> {''x-mse-consumer'', ''authorization'', ''cookie'', ''x-gpustack-auth-cache''}"
    if "header_get_all (write_back v) k \<noteq> []"
    using that by (auto simp: write_back_def Let_def i(2) e split: if_splits)
  show "header_get_all (write_back v) ''Authorization'' =
     (case fv_authorization v of None \<Rightarrow> [] | Some a \<Rightarrow> if a = [] then [] else [a])"
    by (auto simp: write_back_def Let_def i(2) e split: option.splits)
qed


section \<open>A concrete request\<close>

text \<open>
  A model route with one destination and a model mapping, and a client that streams a completion and
  tries to choose its instance.
\<close>

definition demo_route :: route_rule where
  "demo_route = (sample_route ''m'' Main [destination_new ''a.static''] None)\<lparr>rr_model_mapping := [(''a.static'', ''q'')]\<rparr>"

definition demo_table :: "string route_table" where
  "demo_table = \<lparr>rt_routes = [demo_route], rt_by_main_key = [(''m'', [0])], rt_by_fallback_key = [],
     rt_regexes = [[''/'']], rt_anchors = [[1]], rt_mirror_index = None, rt_swrr_group_keys = [(''m'', ''digest'')],
     rt_swrr_candidates = [route_candidates demo_route], rt_destination_index = [route_destination_index demo_route],
     rt_registry_index = [(''a.static'', Inr \<lparr>pr_https = False, pr_address = ''10.0.0.5:80'', pr_proxied = False, pr_proxy = None\<rparr>)]\<rparr>"

definition demo_settings :: model_router_settings where
  "demo_settings = model_router_settings_default\<lparr>ms_enable_on_path_suffix := [''/completions''], ms_max_body_bytes := Some 99\<rparr>"

definition demo_router :: model_router_config where
  "demo_router = \<lparr>mr_prefix = ''/model/proxy/'', mr_target_header = ''x-higress-llm-model'', mr_model_key = ''model'',
     mr_enable_on_path_suffix = [''/completions''], mr_alias_name_mapping = [], mr_max_body_bytes = 99\<rparr>"

lemma demo_router_settings: "demo_router = router_from_settings demo_settings"
  by (simp add: demo_router_def router_from_settings_def demo_settings_def model_router_settings_default_def)

definition demo_ctx :: "string pipeline_ctx" where
  "demo_ctx = \<lparr>px_data = split_config, px_table = demo_table, px_router = demo_router\<rparr>"

definition demo_inbound :: inbound_request where
  "demo_inbound = \<lparr>ib_method = ''POST'', ib_path = ''/v1/chat/completions'', ib_query = [],
     ib_headers = [(''x-gpustack-model-instance'', [''spoof''])], ib_body = stream_body, ib_content_type = ''application/json'',
     ib_client_ip = ''10.0.0.1'', ib_host = ''gw''\<rparr>"

definition demo_profile :: "json_object_profile option" where
  "demo_profile = scan_profile (ib_body demo_inbound) (ib_content_type demo_inbound) (px_router demo_ctx)"

definition demo_headers :: header_map where
  "demo_headers = [(''x-higress-llm-model'', [''m''])]"

definition demo_candidate :: candidate_target where
  "demo_candidate = \<lparr>ct_service = ''a.static'', ct_service_name = ''a.static'', ct_address = ''10.0.0.5:80'',
     ct_proxied = False, ct_scheme = Http, ct_proxy = None\<rparr>"

definition demo_prepared :: prepared_request where
  "demo_prepared = finish_prepare 0 demo_inbound demo_route \<lparr>rm_index = 0, rm_matched_by = HeaderExact, rm_predicate = Some 0\<rparr>
     [] demo_headers [demo_candidate] stream_body (Some ''m'') (Some (am2_memo_of stream_profile))"

lemma demo_resolve: "resolve_request demo_inbound demo_profile (px_router demo_ctx) = Inr \<lparr>mv_resolution = BodyModel ''m'', mv_model = Some ''m''\<rparr>"
  by code_simp

lemma demo_steps:
  "rewrite_body (ib_body demo_inbound) (ib_content_type demo_inbound) (px_router demo_ctx) demo_profile (Some ''m'') =
     (stream_body, Some ''m'', 0)"
  "transformer_apply header_map_ops inbound_rules (write_model_headers (px_router demo_ctx) (Some ''m'')
     (strip_untrusted (ib_headers demo_inbound))) = demo_headers"
  "match_initial slash_engine (px_table demo_ctx) demo_headers (ib_path demo_inbound) =
     Some \<lparr>rm_index = 0, rm_matched_by = HeaderExact, rm_predicate = Some 0\<rparr>"
  "collect_results (map (resolve_index (rt_registry_index (px_table demo_ctx))) [destination_new ''a.static'']) = Inr [demo_candidate]"
  "shifted_memo demo_profile 0 = Some (am2_memo_of stream_profile)"
  by code_simp+

lemma demo_order: "order_route (px_table demo_ctx) 0 sc = ([destination_new ''a.static''], sc)"
  by (simp add: order_route_def demo_ctx_def demo_table_def demo_route_def sample_route_def)

lemma demo_groups: "rewrite_groups slash_engine (px_table demo_ctx) \<lparr>rm_index = 0, rm_matched_by = HeaderExact, rm_predicate = Some 0\<rparr> path = []"
  "rt_routes (px_table demo_ctx) ! 0 = demo_route"
  by (simp_all add: rewrite_groups_def demo_ctx_def demo_table_def demo_route_def sample_route_def)

lemma demo_prepare: "prepare_inner slash_engine (match_initial slash_engine) 0 demo_ctx demo_inbound sc = (Inr demo_prepared, sc)"
  unfolding prepare_inner_def Let_def demo_profile_def [symmetric] demo_resolve sum.case model_resolve.simps demo_steps prod.case
    option.case route_match.simps demo_order demo_groups demo_prepared_def by simp

definition demo_shared :: "string shared_config" where
  "demo_shared = \<lparr>sc_snapshot = snapshot_build split_config demo_table, sc_swrr_states = [],
     sc_reject_total = 0, sc_skipped_total = 0\<rparr>"

lemma demo_strings:
  "\<forall>(k, v) \<in> set (ms_alias_name_mapping demo_settings). is_str v"
  "\<forall>(k, v) \<in> set (pq_model_mapping demo_prepared). is_str v"
proof -
  have "is_str ''q''" unfolding is_str_def
    by (intro exI [of _ "[0x71]"] conjI) (simp add: is_scalar_ascii, code_simp)
  then show "\<forall>(k, v) \<in> set (pq_model_mapping demo_prepared). is_str v"
    by (simp add: demo_prepared_def finish_prepare_def Let_def demo_route_def sample_route_def)
qed (simp add: demo_settings_def model_router_settings_default_def)

theorem prepare_fused_correct_witness:
  "prepare_reference slash_engine (match_initial slash_engine) 0 demo_ctx demo_inbound demo_shared = (Inr demo_prepared, demo_shared)"
proof -
  have "px_router demo_ctx = router_from_settings demo_settings" by (simp add: demo_ctx_def demo_router_settings)
  from prepare_fused_correct [OF this demo_strings(1), of slash_engine 0 demo_inbound demo_shared]
  show ?thesis using demo_prepare [of demo_shared] unfolding prepare_def by simp
qed

text \<open>The model is mapped, and the streaming flag is sent on with the request for usage.\<close>

theorem outbound_body_correct_witness:
  "extract_model (outbound_body demo_prepared demo_candidate) (Some ''application/json'') ''model'' = Some ''q'' \<and>
   member_texts (outbound_body demo_prepared demo_candidate) =
     Some [(''model'', json_key ''q''), (''stream'', ''true''), usage_member]"
proof -
  have f: "pq_am2_memo demo_prepared \<noteq> None" "pq_content_type demo_prepared = ''application/json''"
    "pq_body demo_prepared = stream_body" "mapping_lookup (pq_model_mapping demo_prepared) (ct_service_name demo_candidate) = Some ''q''"
    by (simp_all add: demo_prepared_def finish_prepare_def Let_def demo_inbound_def demo_route_def sample_route_def
        demo_candidate_def mapping_lookup_def)
  have m: "extract_model stream_body (Some ''application/json'') ''model'' = Some ''m''"
    "member_texts stream_body = Some [(''model'', json_key ''m''), (''stream'', ''true'')]"
    "scan_top_level_stream stream_body = Some (True, False, 26)" "encode_json_string ''q'' = json_key ''q''" by code_simp+
  have path: "ri_is_model_route (pq_route demo_prepared) \<and> completions_upstream_path (pq_upstream_path demo_prepared)"
    by code_simp
  have t: "mapped_text demo_prepared demo_candidate = Some (json_key ''q'')"
    unfolding mapped_text_def f(2-4) m by (simp add: m(4))
  have "px_router demo_ctx = router_from_settings demo_settings" by (simp add: demo_ctx_def demo_router_settings)
  from outbound_body_correct [OF this demo_strings(1) demo_prepare [of demo_shared] demo_strings(2), of demo_candidate,
      THEN conjunct2] f(1) path
  show ?thesis unfolding f(2-4) m t by auto
qed


text \<open>
  On a route that is no model route the client's own route-name header passes: only the instance
  header is stripped on entry.
\<close>

lemma mirror_route_name_passes:
  assumes "header_wf (ib_headers inbound)"
    and "prepare_inner rx mt now ctx inbound sc = (Inr p, sc')" and "\<not> ri_is_model_route (pq_route p)"
    and "header_get_all (pq_base_headers p) ''x-gpustack-route-name'' = [r]"
  shows "oh_get_all (ob_headers (build_outbound m p c (write_back v) toks)) ''X-GPUStack-Route-Name'' = [r]"
proof -
  have "header_get_all (write_back v) ''X-GPUStack-Route-Name'' = []"
    using write_back_view(2) [of v "''X-GPUStack-Route-Name''"] by auto
  then show ?thesis
    using build_headers_view [OF base_headers_view(1) [OF assms(1,2)] write_back_view(1) [of v],
        of m c toks "''X-GPUStack-Route-Name''"] assms(3,4)
    by (auto simp: hop_by_hop_def keep_first_def header_get_all_def)
qed

end
