(* ===== verification/Usage.thy ===== *)
theory Usage
  imports Bytes Json_Scan
begin

text \<open>
  The usage accumulator of \<open>hygress-core/src/usage.rs\<close>: a response arrives in chunks cut anywhere, is
  classified as an event stream or as one JSON document, and the token counts of its usage objects
  are kept. \<open>serde_json\<close> is a parameter: the record \<open>json_ops\<close> holds its parser and the four
  accessors the code calls.

  The lemmas show that the chunking of an event stream does not matter and that the buffer and the
  number of parse attempts stay bounded.
\<close>

section \<open>Parameters and records\<close>

record 'v json_ops =
  jo_parse :: "bytes \<Rightarrow> 'v option"
  jo_is_object :: "'v \<Rightarrow> bool"
  jo_get :: "'v \<Rightarrow> string \<Rightarrow> 'v option"
  jo_as_u64 :: "'v \<Rightarrow> nat option"

datatype operation =
  Completion | ChatCompletion | Embedding | Rerank | ImageGeneration | AudioSpeech | AuditTranscription

definition operation_all :: "operation list" where
  "operation_all = [Completion, ChatCompletion, Embedding, Rerank, ImageGeneration, AudioSpeech, AuditTranscription]"

fun operation_as_str :: "operation \<Rightarrow> string" where
  "operation_as_str Completion = ''completion''"
| "operation_as_str ChatCompletion = ''chat_completion''"
| "operation_as_str Embedding = ''embedding''"
| "operation_as_str Rerank = ''rerank''"
| "operation_as_str ImageGeneration = ''image_generation''"
| "operation_as_str AudioSpeech = ''audio_speech''"
| "operation_as_str AuditTranscription = ''audit_transcription''"

definition operation_parse :: "string \<Rightarrow> operation option" where
  "operation_parse s = find (\<lambda>op. operation_as_str op = s) operation_all"

datatype usage_schema = OpenAi | Anthropic | Generic

record usage =
  ug_input_tokens :: "nat option"
  ug_output_tokens :: "nat option"
  ug_total_tokens :: "nat option"
  ug_cache_hit_tokens :: "nat option"

record model_usage_metrics =
  mm_model :: string
  mm_input_token :: nat
  mm_output_token :: nat
  mm_total_token :: nat
  mm_input_cached_token :: nat
  mm_request_count :: nat
  mm_completed :: bool
  mm_output_chunk_count :: nat
  mm_request_content_bytes :: nat
  mm_started_at :: "nat option"
  mm_completed_at :: "nat option"
  mm_user_id :: "nat option"
  mm_model_id :: "int option"
  mm_model_route_id :: "int option"
  mm_provider_id :: "int option"
  mm_access_key :: "string option"
  mm_organization_id :: "string option"

record flush_fields =
  ff_model :: string
  ff_user_id :: "nat option"
  ff_model_id :: "int option"
  ff_model_route_id :: "int option"
  ff_cluster_id :: "int option"
  ff_provider_id :: "int option"
  ff_provider_name :: "string option"
  ff_provider_type :: "string option"
  ff_access_key :: "string option"
  ff_operation :: "string option"
  ff_organization_id :: "string option"
  ff_started_at_ms :: "nat option"
  ff_completed_at_ms :: "nat option"
  ff_request_content_bytes :: nat
  ff_output_chunk_count :: "nat option"

datatype usage_mode = Unclassified | Sse | JsonBody | Oversized

record usage_snapshot =
  us_schema :: usage_schema
  us_input_token :: "nat option"
  us_output_token :: "nat option"
  us_total_token :: "nat option"
  us_input_cached_token :: "nat option"
  us_output_chunk_count :: nat
  us_seen_any :: bool
  us_tail :: bytes
  us_mode :: usage_mode
  us_json_counted :: bool
  us_data_probe :: nat
  us_json_parse_attempts :: nat
  us_skip_until_newline :: bool

definition max_tail_bytes :: nat where "max_tail_bytes = 1048576"
definition max_json_parse_attempts :: nat where "max_json_parse_attempts = 128"
definition newline :: char where "newline = CHR 0x0A"

section \<open>One usage object\<close>

definition u64_field :: "'v json_ops \<Rightarrow> 'v \<Rightarrow> string \<Rightarrow> nat option" where
  "u64_field ops v key = Option.bind (jo_get ops v key) (jo_as_u64 ops)"

definition cached_detail :: "'v json_ops \<Rightarrow> 'v \<Rightarrow> nat option" where
  "cached_detail ops v = Option.bind (jo_get ops v ''prompt_tokens_details'') (\<lambda>d. u64_field ops d ''cached_tokens'')"

definition fields_from :: "'v json_ops \<Rightarrow> 'v \<Rightarrow> usage_schema \<Rightarrow> usage option" where
  "fields_from ops v schema =
     (if \<not> jo_is_object ops v then None
      else
        let u64 = u64_field ops v;
            total = or_else (u64 ''total_tokens'') (u64 ''total_token'')
        in Some (case schema of
             OpenAi \<Rightarrow>
               \<lparr>ug_input_tokens = or_else (u64 ''prompt_tokens'') (u64 ''input_tokens''),
                ug_output_tokens = or_else (u64 ''completion_tokens'') (u64 ''output_tokens''),
                ug_total_tokens = total,
                ug_cache_hit_tokens = or_else (cached_detail ops v) (u64 ''cached_tokens'')\<rparr>
           | Anthropic \<Rightarrow>
               \<lparr>ug_input_tokens = u64 ''input_tokens'', ug_output_tokens = u64 ''output_tokens'',
                ug_total_tokens = total, ug_cache_hit_tokens = u64 ''cache_read_input_tokens''\<rparr>
           | Generic \<Rightarrow>
               \<lparr>ug_input_tokens = or_else (u64 ''prompt_tokens'') (u64 ''input_tokens''),
                ug_output_tokens = or_else (u64 ''completion_tokens'') (u64 ''output_tokens''),
                ug_total_tokens = total,
                ug_cache_hit_tokens = or_else (u64 ''cache_read_input_tokens'')
                  (or_else (u64 ''cached_tokens'') (cached_detail ops v))\<rparr>))"

definition parse_usage :: "'v json_ops \<Rightarrow> bytes \<Rightarrow> usage_schema \<Rightarrow> usage option" where
  "parse_usage ops json schema = Option.bind (jo_parse ops json) (\<lambda>v. fields_from ops v schema)"

definition usage_from_payload :: "'v json_ops \<Rightarrow> 'v \<Rightarrow> 'v option" where
  "usage_from_payload ops v =
     or_else (jo_get ops v ''usage'') (Option.bind (jo_get ops v ''message'') (\<lambda>m. jo_get ops m ''usage''))"

section \<open>The accumulator\<close>

definition usage_new :: "usage_schema \<Rightarrow> usage_snapshot" where
  "usage_new schema =
     \<lparr>us_schema = schema, us_input_token = None, us_output_token = None, us_total_token = None,
      us_input_cached_token = None, us_output_chunk_count = 0, us_seen_any = False, us_tail = [],
      us_mode = Unclassified, us_json_counted = False, us_data_probe = 0, us_json_parse_attempts = 0,
      us_skip_until_newline = False\<rparr>"

definition absorb_value :: "'v json_ops \<Rightarrow> 'v \<Rightarrow> usage_snapshot \<Rightarrow> bool \<times> usage_snapshot" where
  "absorb_value ops v s =
     (case fields_from ops v (us_schema s) of
        None \<Rightarrow> (False, s)
      | Some u \<Rightarrow>
          (True, s\<lparr>us_input_token := or_else (ug_input_tokens u) (us_input_token s),
                   us_output_token := or_else (ug_output_tokens u) (us_output_token s),
                   us_total_token := or_else (ug_total_tokens u) (us_total_token s),
                   us_input_cached_token := or_else (ug_cache_hit_tokens u) (us_input_cached_token s),
                   us_seen_any := True\<rparr>))"

definition trim_ascii :: "bytes \<Rightarrow> bytes" where
  "trim_ascii b = rev (dropWhile is_ascii_whitespace (rev (dropWhile is_ascii_whitespace b)))"

definition done_marker :: bytes where "done_marker = ''[DONE]''"

definition usage_token :: bytes where "usage_token = CHR 0x22 # ''usage'' @ [CHR 0x22]"

definition process_sse_line :: "'v json_ops \<Rightarrow> bytes \<Rightarrow> usage_snapshot \<Rightarrow> bool \<times> usage_snapshot" where
  "process_sse_line ops line s =
     (if \<not> starts_with ''data:'' line then (False, s)
      else
        let payload = trim_ascii (drop 5 line) in
        if payload = [] \<or> payload = done_marker then (False, s)
        else
          let s = s\<lparr>us_output_chunk_count := us_output_chunk_count s + 1\<rparr> in
          if find_subseq payload usage_token 0 = None then (False, s)
          else
            (case jo_parse ops payload of
               None \<Rightarrow> (False, s)
             | Some v \<Rightarrow>
                 (case usage_from_payload ops v of
                    None \<Rightarrow> (False, s)
                  | Some u \<Rightarrow> absorb_value ops u s)))"

definition finish_json :: "'v json_ops \<Rightarrow> 'v \<Rightarrow> usage_snapshot \<Rightarrow> bool \<times> usage_snapshot" where
  "finish_json ops v s =
     (let s = (if us_json_counted s then s
               else s\<lparr>us_output_chunk_count := us_output_chunk_count s + 1, us_json_counted := True, us_tail := []\<rparr>)
      in case usage_from_payload ops v of
           Some u \<Rightarrow> absorb_value ops u s
         | None \<Rightarrow> (False, s))"

text \<open>The newline-terminated lines of a buffer from an offset on.\<close>

function lines_loop ::
  "'v json_ops \<Rightarrow> bytes \<Rightarrow> nat \<Rightarrow> bool \<Rightarrow> usage_snapshot \<Rightarrow> nat \<times> bool \<times> usage_snapshot" where
  "lines_loop ops buf pos found s =
     (if pos < length buf then
        (case find_byte newline (drop pos buf) of
           None \<Rightarrow> (pos, found, s)
         | Some i \<Rightarrow>
             (case process_sse_line ops (take i (drop pos buf)) s of
                (f, s') \<Rightarrow> lines_loop ops buf (pos + i + 1) (found \<or> f) s'))
      else (pos, found, s))"
  by pat_completeness auto
termination by (relation "measure (\<lambda>(ops, buf, pos, found, s). length buf - pos)") auto

declare lines_loop.simps [simp del]

definition consume_sse :: "'v json_ops \<Rightarrow> usage_snapshot \<Rightarrow> nat \<times> bool \<times> usage_snapshot" where
  "consume_sse ops s =
     (case lines_loop ops (us_tail s) 0 False (s\<lparr>us_tail := []\<rparr>) of
        (pos, found, s') \<Rightarrow> (pos, found, s'\<lparr>us_tail := us_tail s\<rparr>))"

definition discard_prefix :: "nat \<Rightarrow> usage_snapshot \<Rightarrow> usage_snapshot" where
  "discard_prefix consumed s =
     (if consumed \<ge> length (us_tail s) then s\<lparr>us_tail := []\<rparr> else s\<lparr>us_tail := drop consumed (us_tail s)\<rparr>)"

text \<open>
  The pending line of an earlier chunk: \<open>Inl\<close> when the whole chunk belongs to it, \<open>Inr\<close> with the
  offset behind it otherwise.
\<close>

definition finish_pending ::
  "'v json_ops \<Rightarrow> bytes \<Rightarrow> nat \<Rightarrow> usage_snapshot \<Rightarrow> usage_snapshot + nat \<times> bool \<times> usage_snapshot" where
  "finish_pending ops chunk start s =
     (if us_tail s = [] then Inr (start, False, s)
      else
        case find_byte newline (drop start chunk) of
          Some i \<Rightarrow>
            if length (us_tail s) + i > max_tail_bytes then Inr (start + i + 1, False, s\<lparr>us_tail := []\<rparr>)
            else
              (case process_sse_line ops (us_tail s @ take i (drop start chunk)) (s\<lparr>us_tail := []\<rparr>) of
                 (f, s') \<Rightarrow> Inr (start + i + 1, f, s'\<lparr>us_tail := []\<rparr>))
        | None \<Rightarrow>
            if length (us_tail s) + length (drop start chunk) > max_tail_bytes
            then Inl (s\<lparr>us_tail := [], us_skip_until_newline := True\<rparr>)
            else Inl (s\<lparr>us_tail := us_tail s @ drop start chunk\<rparr>))"

definition keep_sliver :: "bytes \<Rightarrow> nat \<Rightarrow> usage_snapshot \<Rightarrow> usage_snapshot" where
  "keep_sliver chunk pos s =
     (if pos < length chunk then
        if length (us_tail s) + length (drop pos chunk) > max_tail_bytes
        then s\<lparr>us_tail := [], us_skip_until_newline := True\<rparr>
        else s\<lparr>us_tail := us_tail s @ drop pos chunk\<rparr>
      else s\<lparr>us_tail := []\<rparr>)"

definition skip_dropped_line :: "bytes \<Rightarrow> usage_snapshot \<Rightarrow> usage_snapshot + nat \<times> usage_snapshot" where
  "skip_dropped_line chunk s =
     (if us_skip_until_newline s then
        (case find_byte newline chunk of
           Some i \<Rightarrow> Inr (i + 1, s\<lparr>us_skip_until_newline := False\<rparr>)
         | None \<Rightarrow> Inl s)
      else Inr (0, s))"

definition consume_sse_slice :: "'v json_ops \<Rightarrow> bytes \<Rightarrow> usage_snapshot \<Rightarrow> bool \<times> usage_snapshot" where
  "consume_sse_slice ops chunk s =
     (case skip_dropped_line chunk s of
        Inl s \<Rightarrow> (False, s)
      | Inr (start, s) \<Rightarrow>
          (case finish_pending ops chunk start s of
             Inl s \<Rightarrow> (False, s)
           | Inr (start, found, s) \<Rightarrow>
               (case lines_loop ops chunk start found s of
                  (pos, found, s) \<Rightarrow> (found, keep_sliver chunk pos s))))"

function probe_loop :: "bytes \<Rightarrow> nat \<Rightarrow> nat \<Rightarrow> bool" where
  "probe_loop buf i final =
     (if i > final then False
      else if get_at buf i = Some newline \<and> get_range buf (i + 1) (i + 6) = Some ''data:'' then True
      else probe_loop buf (i + 1) final)"
  by pat_completeness auto
termination by (relation "measure (\<lambda>(buf, i, final). Suc final - i)") auto

declare probe_loop.simps [simp del]

definition probe_anchored_data :: "bytes \<Rightarrow> nat \<Rightarrow> bool \<times> nat" where
  "probe_anchored_data buf probe =
     (if probe < 5 \<and> length buf \<ge> 5 \<and> starts_with ''data:'' buf then (True, length buf)
      else if length buf < 6 then (False, length buf)
      else if probe - 6 > length buf - 6 then (False, length buf)
      else (probe_loop buf (probe - 6) (length buf - 6), length buf))"

definition json_may_have_completed :: "bytes \<Rightarrow> bool" where
  "json_may_have_completed buf = (find (\<lambda>c. \<not> is_ascii_whitespace c) (rev buf) = Some (CHR ''}''))"

definition usage_feed :: "'v json_ops \<Rightarrow> bytes \<Rightarrow> usage_snapshot \<Rightarrow> bool \<times> usage_snapshot" where
  "usage_feed ops chunk s =
     (if chunk = [] then (False, s)
      else
        case us_mode s of
          JsonBody \<Rightarrow> (False, s\<lparr>us_tail := []\<rparr>)
        | Oversized \<Rightarrow> (False, s\<lparr>us_tail := []\<rparr>)
        | Unclassified \<Rightarrow>
            let tl = us_tail s @ chunk in
            (case probe_anchored_data tl (us_data_probe s) of
               (anchored, probe) \<Rightarrow>
                 let s = s\<lparr>us_tail := tl, us_data_probe := probe\<rparr> in
                 if anchored then
                   (case consume_sse ops (s\<lparr>us_mode := Sse\<rparr>) of
                      (consumed, found, s) \<Rightarrow> (found, if consumed > 0 then discard_prefix consumed s else s))
                 else if length tl > max_tail_bytes then (False, s\<lparr>us_tail := [], us_mode := Oversized\<rparr>)
                 else if json_may_have_completed tl \<and> us_json_parse_attempts s < max_json_parse_attempts then
                   let s = s\<lparr>us_json_parse_attempts := us_json_parse_attempts s + 1\<rparr> in
                   (case jo_parse ops tl of
                      Some v \<Rightarrow>
                        if jo_is_object ops v then
                          (case finish_json ops v (s\<lparr>us_mode := JsonBody\<rparr>) of
                             (absorbed, s) \<Rightarrow> (absorbed, s\<lparr>us_tail := []\<rparr>))
                        else (False, s)
                    | None \<Rightarrow> (False, s))
                 else (False, s))
        | Sse \<Rightarrow> consume_sse_slice ops chunk s)"

definition usage_complete :: "usage_snapshot \<Rightarrow> bool" where
  "usage_complete s = us_seen_any s"

definition unwrap_or_zero :: "nat option \<Rightarrow> nat" where
  "unwrap_or_zero x = (case x of Some n \<Rightarrow> n | None \<Rightarrow> 0)"

definition usage_tokens :: "usage_snapshot \<Rightarrow> nat \<times> nat \<times> nat" where
  "usage_tokens s = (unwrap_or_zero (us_input_token s), unwrap_or_zero (us_output_token s),
     unwrap_or_zero (us_input_cached_token s))"

definition usage_flush :: "usage_snapshot \<Rightarrow> flush_fields \<Rightarrow> model_usage_metrics" where
  "usage_flush s f =
     (let input = unwrap_or_zero (us_input_token s);
          output = unwrap_or_zero (us_output_token s);
          recomputed = sat_add input output;
          total = (case us_total_token s of Some t \<Rightarrow> if t > recomputed then t else recomputed | None \<Rightarrow> recomputed)
      in \<lparr>mm_model = ff_model f, mm_input_token = input, mm_output_token = output, mm_total_token = total,
          mm_input_cached_token = unwrap_or_zero (us_input_cached_token s), mm_request_count = 1,
          mm_completed = us_seen_any s,
          mm_output_chunk_count = (case ff_output_chunk_count f of Some n \<Rightarrow> n | None \<Rightarrow> us_output_chunk_count s),
          mm_request_content_bytes = ff_request_content_bytes f, mm_started_at = ff_started_at_ms f,
          mm_completed_at = ff_completed_at_ms f, mm_user_id = ff_user_id f, mm_model_id = ff_model_id f,
          mm_model_route_id = ff_model_route_id f, mm_provider_id = ff_provider_id f,
          mm_access_key = ff_access_key f, mm_organization_id = ff_organization_id f\<rparr>)"

section \<open>Lines\<close>

definition sse_lines :: "bytes \<Rightarrow> bytes list" where
  "sse_lines b = butlast (split_on newline b)"

definition sse_rest :: "bytes \<Rightarrow> bytes" where
  "sse_rest b = last (split_on newline b)"

definition absorb_lines :: "'v json_ops \<Rightarrow> bytes list \<Rightarrow> usage_snapshot \<Rightarrow> usage_snapshot" where
  "absorb_lines ops ls s = foldl (\<lambda>s l. snd (process_sse_line ops l s)) s ls"

lemma split_on_append:
  "split_on c (a @ b) =
     butlast (split_on c a) @ (last (split_on c a) @ hd (split_on c b)) # tl (split_on c b)"
proof (induction a)
  case Nil
  then show ?case by simp
next
  case (Cons x a)
  obtain y ys where a: "split_on c a = y # ys" by (cases "split_on c a") auto
  show ?case using Cons by (auto simp: a split: list.splits)
qed

lemma sse_lines_append:
  "sse_lines (a @ b) = (if newline \<in> set b
     then sse_lines a @ (sse_rest a @ hd (split_on newline b)) # butlast (tl (split_on newline b)) else sse_lines a)"
  "sse_rest (a @ b) = (if newline \<in> set b then sse_rest b else sse_rest a @ b)"
proof -
  have tl: "tl (split_on newline b) \<noteq> [] \<longleftrightarrow> newline \<in> set b"
    by (induction b) (auto split: list.splits)
  have last: "last (tl (split_on newline b)) = sse_rest b" if "newline \<in> set b"
    using that tl by (simp add: sse_rest_def last_tl)
  show "sse_lines (a @ b) = (if newline \<in> set b
     then sse_lines a @ (sse_rest a @ hd (split_on newline b)) # butlast (tl (split_on newline b)) else sse_lines a)"
    using tl by (auto simp: sse_lines_def sse_rest_def split_on_append butlast_append split_on_notin)
  show "sse_rest (a @ b) = (if newline \<in> set b then sse_rest b else sse_rest a @ b)"
    using tl last by (auto simp: sse_rest_def split_on_append split_on_notin)
qed

lemma split_on_parts: "split_on newline b = sse_lines b @ [sse_rest b]"
  by (simp add: sse_lines_def sse_rest_def)

lemma sse_no_newline: "newline \<notin> set b \<Longrightarrow> sse_lines b = [] \<and> sse_rest b = b"
  by (simp add: sse_lines_def sse_rest_def split_on_notin)

lemma sse_first_line:
  assumes "newline \<notin> set p"
  shows "sse_lines (p @ newline # s) = p # sse_lines s" "sse_rest (p @ newline # s) = sse_rest s"
  using split_on_cons [OF assms, of s] by (auto simp: sse_lines_def sse_rest_def)

lemma sse_rest_length: "length (sse_rest b) \<le> length b"
proof (induction b)
  case (Cons x b)
  then show ?case by (cases "split_on newline b") (auto simp: sse_rest_def split: if_splits)
qed (simp add: sse_rest_def)

lemma find_byte_split: "find_byte c s = Some i \<Longrightarrow> s = take i s @ c # drop (Suc i) s \<and> c \<notin> set (take i s)"
  by (metis find_byte_Some_iff id_take_nth_drop)

lemma sse_rest_drop: "drop (length b - length (sse_rest b)) b = sse_rest b"
proof (induction b rule: length_induct)
  case (1 b)
  show ?case
  proof (cases "find_byte newline b")
    case None
    then show ?thesis using sse_no_newline [of b] by (simp add: find_byte_None_iff)
  next
    case (Some i)
    then have split: "b = take i b @ newline # drop (Suc i) b" and nn: "newline \<notin> set (take i b)"
      and i: "i < length b"
      using find_byte_split [OF Some] by (auto simp: find_byte_Some_iff)
    let ?r = "drop (Suc i) b"
    have rest: "sse_rest b = sse_rest ?r" by (subst split, simp only: sse_first_line [OF nn])
    have "length ?r < length b" using i by simp
    from 1 [rule_format, OF this] have "sse_rest ?r = drop (length ?r - length (sse_rest ?r)) ?r" by (rule sym)
    also have "\<dots> = drop (Suc i + (length ?r - length (sse_rest ?r))) b" by (simp add: add.commute)
    also have "Suc i + (length ?r - length (sse_rest ?r)) = length b - length (sse_rest ?r)"
      using sse_rest_length [of ?r] i by simp
    finally show ?thesis by (simp only: rest)
  qed
qed

lemma lines_loop_eq:
  "pos \<le> length buf \<Longrightarrow>
     \<exists>f. lines_loop ops buf pos found s =
       (length buf - length (sse_rest (drop pos buf)), f, absorb_lines ops (sse_lines (drop pos buf)) s)"
proof (induction ops buf pos found s rule: lines_loop.induct)
  case (1 ops buf pos found s)
  show ?case
  proof (cases "pos < length buf \<and> newline \<in> set (drop pos buf)")
    case False
    then show ?thesis
      using sse_no_newline [of "drop pos buf"] 1(2) find_byte_None_iff [of newline "drop pos buf"]
      by (subst lines_loop.simps) (auto simp: absorb_lines_def)
  next
    case True
    then obtain i where i: "find_byte newline (drop pos buf) = Some i"
      using find_byte_None_iff by blast
    obtain f s' where p: "process_sse_line ops (take i (drop pos buf)) s = (f, s')" by fastforce
    have bound: "i < length (drop pos buf)" using i by (simp only: find_byte_Some_iff)
    have split: "drop pos buf = take i (drop pos buf) @ newline # drop (pos + i + 1) buf"
      using find_byte_split [OF i] by (simp add: add.commute)
    have nn: "newline \<notin> set (take i (drop pos buf))" using find_byte_split [OF i] by blast
    have lines: "sse_lines (drop pos buf) = take i (drop pos buf) # sse_lines (drop (pos + i + 1) buf)"
      "sse_rest (drop pos buf) = sse_rest (drop (pos + i + 1) buf)"
      by (subst split, simp only: sse_first_line [OF nn])+
    have "pos + i + 1 \<le> length buf" using bound by simp
    from 1(1) [OF _ i p [symmetric] this] True
    obtain g where "lines_loop ops buf (pos + i + 1) (found \<or> f) s' =
        (length buf - length (sse_rest (drop (pos + i + 1) buf)), g, absorb_lines ops (sse_lines (drop (pos + i + 1) buf)) s')"
      by auto
    then show ?thesis
      using True i p by (subst lines_loop.simps) (auto simp: lines absorb_lines_def)
  qed
qed

text \<open>What a line adds depends on the counters only, and touches nothing else.\<close>

definition counters where
  "counters s = (us_schema s, us_input_token s, us_output_token s, us_total_token s, us_input_cached_token s,
     us_output_chunk_count s, us_seen_any s)"

definition line_frame where
  "line_frame s = (us_tail s, us_mode s, us_skip_until_newline s, us_data_probe s, us_json_parse_attempts s)"

lemma process_sse_line_frame: "line_frame (snd (process_sse_line ops l s)) = line_frame s"
  by (simp add: process_sse_line_def absorb_value_def line_frame_def Let_def split: option.splits)

lemma process_sse_line_counters:
  "counters s = counters t \<Longrightarrow>
     counters (snd (process_sse_line ops l s)) = counters (snd (process_sse_line ops l t))"
  by (auto simp: process_sse_line_def absorb_value_def counters_def Let_def split: option.splits)

lemma absorb_lines_frame: "line_frame (absorb_lines ops ls s) = line_frame s"
  by (induction ls arbitrary: s) (auto simp: absorb_lines_def process_sse_line_frame)

lemma absorb_lines_counters:
  "counters s = counters t \<Longrightarrow> counters (absorb_lines ops ls s) = counters (absorb_lines ops ls t)"
proof (induction ls arbitrary: s t)
  case (Cons l ls)
  have "counters (snd (process_sse_line ops l s)) = counters (snd (process_sse_line ops l t))"
    by (rule process_sse_line_counters [OF Cons.prems])
  from Cons.IH [OF this] show ?case by (simp add: absorb_lines_def)
qed (simp add: absorb_lines_def)

lemma absorb_lines_append: "absorb_lines ops (ls @ ms) s = absorb_lines ops ms (absorb_lines ops ls s)"
  by (simp add: absorb_lines_def)

lemma counters_tail [simp]:
  "counters (s\<lparr>us_tail := t\<rparr>) = counters s" "counters (s\<lparr>us_mode := m\<rparr>) = counters s"
  "counters (s\<lparr>us_data_probe := p\<rparr>) = counters s" "counters (s\<lparr>us_json_parse_attempts := a\<rparr>) = counters s"
  "counters (s\<lparr>us_skip_until_newline := k\<rparr>) = counters s"
  by (simp_all add: counters_def)

lemma usage_flush_counters: "counters s = counters t \<Longrightarrow> usage_flush s f = usage_flush t f"
  by (simp add: usage_flush_def counters_def Let_def split: option.split)

section \<open>The marker probe\<close>

definition marker_at :: "bytes \<Rightarrow> nat \<Rightarrow> bool" where
  "marker_at b k \<longleftrightarrow> get_at b k = Some newline \<and> get_range b (k + 1) (k + 6) = Some ''data:''"

definition anchored :: "bytes \<Rightarrow> bool" where
  "anchored b \<longleftrightarrow> starts_with ''data:'' b \<or> (\<exists>k < length b. marker_at b k)"

lemma marker_at_bound: "marker_at b k \<Longrightarrow> k + 6 \<le> length b"
  by (auto simp: marker_at_def get_range_def split: if_splits)

lemma marker_at_append: "k + 6 \<le> length p \<Longrightarrow> marker_at (p @ c) k \<longleftrightarrow> marker_at p k"
  by (auto simp: marker_at_def get_range_def get_at_def nth_append)

lemma probe_loop_iff: "probe_loop buf i final \<longleftrightarrow> (\<exists>k. i \<le> k \<and> k \<le> final \<and> marker_at buf k)"
proof (induction buf i final rule: probe_loop.induct)
  case (1 buf i final)
  show ?case
  proof (cases "i > final \<or> marker_at buf i")
    case True
    then show ?thesis by (subst probe_loop.simps) (auto simp: marker_at_def)
  next
    case False
    then have "probe_loop buf i final = probe_loop buf (i + 1) final"
      by (subst probe_loop.simps) (auto simp: marker_at_def)
    also have "\<dots> \<longleftrightarrow> (\<exists>k. i + 1 \<le> k \<and> k \<le> final \<and> marker_at buf k)"
      using 1 False by (auto simp: marker_at_def)
    also have "\<dots> \<longleftrightarrow> (\<exists>k. i \<le> k \<and> k \<le> final \<and> marker_at buf k)"
      using False by (metis Suc_eq_plus1 Suc_leD not_less_eq_eq le_antisym)
    finally show ?thesis .
  qed
qed

lemma anchored_append: "anchored p \<Longrightarrow> anchored (p @ c)"
  unfolding anchored_def
  by (auto simp: starts_with_iff dest: marker_at_bound)
     (meson marker_at_append marker_at_bound trans_less_add1)

lemma probe_incremental:
  assumes "\<not> anchored p"
  shows "probe_anchored_data (p @ c) (length p) = (anchored (p @ c), length (p @ c))"
proof -
  let ?b = "p @ c"
  have old: "\<not> marker_at ?b k" if "k + 6 \<le> length p" for k
    using assms that marker_at_append [OF that, of c] marker_at_bound [of p k] by (auto simp: anchored_def)
  have start: "\<not> starts_with ''data:'' ?b" if "5 \<le> length p"
    using assms that by (auto simp: anchored_def starts_with_def)
  have len: "5 \<le> length ?b" if "starts_with ''data:'' ?b"
    using that by (auto simp: starts_with_iff simp flip: length_append)
  have any: "(\<exists>k < length ?b. marker_at ?b k) \<longleftrightarrow> 6 \<le> length ?b \<and> probe_loop ?b (length p - 6) (length ?b - 6)"
  proof
    assume "\<exists>k < length ?b. marker_at ?b k"
    then obtain k where k: "marker_at ?b k" by blast
    with old have "\<not> k + 6 \<le> length p" by blast
    with marker_at_bound [OF k] k show "6 \<le> length ?b \<and> probe_loop ?b (length p - 6) (length ?b - 6)"
      by (auto simp: probe_loop_iff intro!: exI [of _ k])
  next
    assume "6 \<le> length ?b \<and> probe_loop ?b (length p - 6) (length ?b - 6)"
    then obtain k where "marker_at ?b k" by (auto simp: probe_loop_iff)
    with marker_at_bound [OF this] show "\<exists>k < length ?b. marker_at ?b k"
      by (metis add_leD1 add_le_imp_le_diff less_le_trans le_neq_implies_less not_add_less1 trans_less_add1 zero_less_numeral less_add_same_cancel1)
  qed
  show ?thesis
  proof (cases "starts_with ''data:'' ?b")
    case True
    then have "length p < 5" "5 \<le> length ?b" using start len by (blast intro: leI, blast)
    then show ?thesis using True by (simp add: probe_anchored_data_def anchored_def)
  next
    case False
    then show ?thesis using any by (auto simp: probe_anchored_data_def anchored_def not_less)
  qed
qed

section \<open>Chunking\<close>

definition feed_all :: "'v json_ops \<Rightarrow> bytes list \<Rightarrow> usage_snapshot \<Rightarrow> usage_snapshot" where
  "feed_all ops chunks s = foldl (\<lambda>s c. snd (usage_feed ops c s)) s chunks"

definition short_lines :: "bytes \<Rightarrow> bool" where
  "short_lines b \<longleftrightarrow> (\<forall>l \<in> set (split_on newline b). length l \<le> max_tail_bytes)"

lemma frame_fields:
  "line_frame s = line_frame t \<Longrightarrow> us_tail s = us_tail t \<and> us_mode s = us_mode t \<and>
     us_skip_until_newline s = us_skip_until_newline t \<and> us_data_probe s = us_data_probe t \<and>
     us_json_parse_attempts s = us_json_parse_attempts t"
  by (simp add: line_frame_def)

lemmas absorb_frame = absorb_lines_frame [THEN frame_fields]

lemma keep_sliver_rest:
  assumes "length (sse_rest chunk) \<le> max_tail_bytes" "us_tail s = []" "us_mode s = Sse" "\<not> us_skip_until_newline s"
  shows "us_mode (keep_sliver chunk (length chunk - length (sse_rest chunk)) s) = Sse \<and>
    \<not> us_skip_until_newline (keep_sliver chunk (length chunk - length (sse_rest chunk)) s) \<and>
    us_tail (keep_sliver chunk (length chunk - length (sse_rest chunk)) s) = sse_rest chunk \<and>
    counters (keep_sliver chunk (length chunk - length (sse_rest chunk)) s) = counters s"
proof (cases "sse_rest chunk = []")
  case True
  then show ?thesis using assms by (simp add: keep_sliver_def)
next
  case False
  then have "length chunk - length (sse_rest chunk) < length chunk"
    using sse_rest_length [of chunk] by (metis diff_less length_greater_0_conv le_zero_eq not_gr_zero)
  then show ?thesis using assms by (simp add: keep_sliver_def sse_rest_drop)
qed

lemma consume_slice_step:
  assumes s: "us_mode s = Sse" "\<not> us_skip_until_newline s" "us_tail s = sse_rest p"
    and c: "c \<noteq> []" and short: "short_lines (p @ c)"
  shows "let s' = snd (consume_sse_slice ops c s) in
    us_mode s' = Sse \<and> \<not> us_skip_until_newline s' \<and> us_tail s' = sse_rest (p @ c) \<and>
    (\<exists>ls. sse_lines (p @ c) = sse_lines p @ ls \<and> counters s' = counters (absorb_lines ops ls s))"
proof (cases "find_byte newline c")
  case None
  then have nn: "newline \<notin> set c" by (simp add: find_byte_None_iff)
  have lines: "sse_lines (p @ c) = sse_lines p" "sse_rest (p @ c) = sse_rest p @ c"
    using nn by (simp_all add: sse_lines_append)
  have len: "length (sse_rest p) + length c \<le> max_tail_bytes"
    using short by (simp add: short_lines_def split_on_parts lines)
  have "lines_loop ops c 0 False s = (0, False, s)"
    using None c by (subst lines_loop.simps) simp
  then show ?thesis
    using s c len None
    by (auto simp: consume_sse_slice_def skip_dropped_line_def finish_pending_def keep_sliver_def lines absorb_lines_def)
next
  case (Some i)
  define q r where "q = take i c" and "r = drop (Suc i) c"
  have cs: "c = q @ newline # r" and nn: "newline \<notin> set q" and i: "i < length c"
    using find_byte_split [OF Some] Some by (auto simp: q_def r_def find_byte_Some_iff)
  have lines: "sse_lines (p @ c) = sse_lines p @ (sse_rest p @ q) # sse_lines r" "sse_rest (p @ c) = sse_rest c"
    "sse_rest c = sse_rest r" "sse_lines c = q # sse_lines r"
    using split_on_cons [OF nn, of r] sse_lines_append [of p c] sse_first_line [OF nn, of r]
    by (simp_all add: cs) (simp add: sse_lines_def)
  have len: "length (sse_rest p) + i \<le> max_tail_bytes" "length (sse_rest c) \<le> max_tail_bytes"
    using short i by (auto simp: short_lines_def split_on_parts lines q_def)
  show ?thesis
  proof (cases "sse_rest p = []")
    case True
    obtain f where "lines_loop ops c 0 False s = (length c - length (sse_rest c), f, absorb_lines ops (sse_lines c) s)"
      using lines_loop_eq [of 0 c ops False s] by auto
    then show ?thesis
      using s True keep_sliver_rest [OF len(2), of "absorb_lines ops (sse_lines c) s"] absorb_frame [of ops "sse_lines c" s]
      by (auto simp: consume_sse_slice_def skip_dropped_line_def finish_pending_def lines Let_def)
  next
    case False
    obtain f s1 where p1: "process_sse_line ops (sse_rest p @ q) (s\<lparr>us_tail := []\<rparr>) = (f, s1)" by fastforce
    then have s1: "s1 = absorb_lines ops [sse_rest p @ q] (s\<lparr>us_tail := []\<rparr>)" by (simp add: absorb_lines_def)
    let ?s1 = "s1\<lparr>us_tail := []\<rparr>"
    obtain g where loop: "lines_loop ops c (Suc i) f ?s1 =
        (length c - length (sse_rest r), g, absorb_lines ops (sse_lines r) ?s1)"
      using lines_loop_eq [of "Suc i" c ops f ?s1] i by (auto simp: r_def)
    have counted: "counters (absorb_lines ops (sse_lines r) ?s1) = counters (absorb_lines ops ((sse_rest p @ q) # sse_lines r) s)"
    proof -
      have "counters ?s1 = counters (absorb_lines ops [sse_rest p @ q] s)"
        unfolding s1 counters_tail by (rule absorb_lines_counters) simp
      from absorb_lines_counters [OF this] show ?thesis by (simp add: absorb_lines_def)
    qed
    have "us_tail (absorb_lines ops (sse_lines r) ?s1) = []" "us_mode (absorb_lines ops (sse_lines r) ?s1) = Sse"
      "\<not> us_skip_until_newline (absorb_lines ops (sse_lines r) ?s1)"
      using s absorb_frame [of ops "sse_lines r" ?s1] absorb_frame [of ops "[sse_rest p @ q]" "s\<lparr>us_tail := []\<rparr>"]
      by (simp_all add: s1)
    note kept = keep_sliver_rest [OF len(2) this]
    have "finish_pending ops c 0 s = Inr (Suc i, f, ?s1)"
      using False Some len(1) p1 s(3) by (simp add: finish_pending_def q_def)
    then have eq: "snd (consume_sse_slice ops c s) =
        keep_sliver c (length c - length (sse_rest c)) (absorb_lines ops (sse_lines r) ?s1)"
      using s(2) loop by (simp add: consume_sse_slice_def skip_dropped_line_def lines)
    show ?thesis
      unfolding Let_def eq using kept counted lines(1,2)
      by (intro conjI exI [of _ "(sse_rest p @ q) # sse_lines r"]) (simp_all only: simp_thms)
  qed
qed

text \<open>
  A body of an event stream: a marker at a line start early enough, no line above the cap, and a
  first character that starts no JSON object. Of the parser only one law is used.
\<close>

definition json_lib_ok :: "'v json_ops \<Rightarrow> bool" where
  "json_lib_ok ops \<longleftrightarrow>
     (\<forall>b v. jo_parse ops b = Some v \<and> jo_is_object ops v \<longrightarrow> starts_with ''{'' (dropWhile json_ws b))"

definition sse_body :: "bytes \<Rightarrow> bool" where
  "sse_body b \<longleftrightarrow> anchored (take max_tail_bytes b) \<and> short_lines b \<and> \<not> starts_with ''{'' (dropWhile json_ws b)"

definition feed_inv :: "'v json_ops \<Rightarrow> usage_schema \<Rightarrow> bytes \<Rightarrow> usage_snapshot \<Rightarrow> bool" where
  "feed_inv ops schema p s \<longleftrightarrow> \<not> us_skip_until_newline s \<and>
     (if anchored p
      then us_mode s = Sse \<and> us_tail s = sse_rest p \<and>
        counters s = counters (absorb_lines ops (sse_lines p) (usage_new schema))
      else us_mode s = Unclassified \<and> us_tail s = p \<and> us_data_probe s = length p \<and> counters s = counters (usage_new schema))"

lemma short_lines_prefix: "short_lines (p @ c) \<Longrightarrow> short_lines p"
  by (cases "newline \<in> set c") (auto simp: short_lines_def split_on_parts sse_lines_append)

lemma prefix_not_object: "\<not> starts_with ''{'' (dropWhile json_ws (p @ c)) \<Longrightarrow> \<not> starts_with ''{'' (dropWhile json_ws p)"
  by (induction p) (auto simp: starts_with_iff)

lemma classify_step:
  assumes "counters s = counters (usage_new schema)" "us_mode s = Sse" "\<not> us_skip_until_newline s" "us_tail s = b"
    and "anchored b"
  shows "\<exists>n f t. consume_sse ops s = (n, f, t) \<and>
    feed_inv ops schema b (if n > 0 then discard_prefix n t else t)"
proof -
  obtain f where loop: "lines_loop ops b 0 False (s\<lparr>us_tail := []\<rparr>) =
      (length b - length (sse_rest b), f, absorb_lines ops (sse_lines b) (s\<lparr>us_tail := []\<rparr>))"
    using lines_loop_eq [of 0 b ops False "s\<lparr>us_tail := []\<rparr>"] by auto
  let ?a = "absorb_lines ops (sse_lines b) (s\<lparr>us_tail := []\<rparr>)"
  let ?t = "?a\<lparr>us_tail := b\<rparr>"
  let ?n = "length b - length (sse_rest b)"
  let ?u = "if ?n > 0 then discard_prefix ?n ?t else ?t"
  have consumed: "consume_sse ops s = (?n, f, ?t)" using loop assms(4) by (simp add: consume_sse_def)
  have "counters ?u = counters ?a" by (simp add: discard_prefix_def)
  also have "\<dots> = counters (absorb_lines ops (sse_lines b) (usage_new schema))"
    using assms(1) by (intro absorb_lines_counters) simp
  finally have counted: "counters ?u = counters (absorb_lines ops (sse_lines b) (usage_new schema))" .
  have "us_mode ?u = us_mode ?a" "us_skip_until_newline ?u = us_skip_until_newline ?a"
    by (simp_all add: discard_prefix_def)
  then have kept: "us_mode ?u = Sse" "\<not> us_skip_until_newline ?u"
    using assms(2,3) absorb_frame [of ops "sse_lines b" "s\<lparr>us_tail := []\<rparr>"] by simp_all
  have "us_tail ?u = sse_rest b"
    using sse_rest_drop [of b] sse_rest_length [of b] by (auto simp: discard_prefix_def)
  then have "feed_inv ops schema b ?u" using kept counted assms(5) unfolding feed_inv_def by simp
  then show ?thesis using consumed by blast
qed

lemma feed_step:
  assumes inv: "feed_inv ops schema p s" and lib: "json_lib_ok ops"
    and body: "sse_body (p @ c @ r)"
  shows "feed_inv ops schema (p @ c) (snd (usage_feed ops c s))"
proof (cases "c = []")
  case True
  then show ?thesis using inv by (simp add: usage_feed_def)
next
  case False
  have short: "short_lines (p @ c)"
    using body short_lines_prefix [of "p @ c" r] by (simp add: sse_body_def)
  show ?thesis
  proof (cases "anchored p")
    case True
    then have s: "us_mode s = Sse" "\<not> us_skip_until_newline s" "us_tail s = sse_rest p"
      "counters s = counters (absorb_lines ops (sse_lines p) (usage_new schema))"
      using inv by (simp_all add: feed_inv_def)
    from consume_slice_step [OF s(1-3) False short, of ops]
    obtain ls where step: "us_mode (snd (consume_sse_slice ops c s)) = Sse"
        "\<not> us_skip_until_newline (snd (consume_sse_slice ops c s))"
        "us_tail (snd (consume_sse_slice ops c s)) = sse_rest (p @ c)" "sse_lines (p @ c) = sse_lines p @ ls"
        "counters (snd (consume_sse_slice ops c s)) = counters (absorb_lines ops ls s)"
      by (auto simp: Let_def)
    then show ?thesis
      using False s(1) anchored_append [OF True] absorb_lines_counters [OF s(4), of ops ls]
      by (simp add: usage_feed_def feed_inv_def absorb_lines_append)
  next
    case na: False
    then have s: "us_mode s = Unclassified" "\<not> us_skip_until_newline s" "us_tail s = p" "us_data_probe s = length p"
      "counters s = counters (usage_new schema)"
      using inv by (simp_all add: feed_inv_def)
    note probe = probe_incremental [OF na, of c]
    show ?thesis
    proof (cases "anchored (p @ c)")
      case True
      let ?s = "s\<lparr>us_tail := p @ c, us_data_probe := length (p @ c), us_mode := Sse\<rparr>"
      obtain n f t where "consume_sse ops ?s = (n, f, t)"
          "feed_inv ops schema (p @ c) (if n > 0 then discard_prefix n t else t)"
        using classify_step [of ?s schema "p @ c" ops] True s(2,5) by auto
      then show ?thesis using False s probe True by (simp add: usage_feed_def Let_def)
    next
      case nac: False
      have "length (p @ c) \<le> max_tail_bytes"
      proof (rule ccontr)
        assume "\<not> length (p @ c) \<le> max_tail_bytes"
        then have "p @ c = take max_tail_bytes (p @ c @ r) @ drop max_tail_bytes (p @ c)"
          by (metis append.assoc append_take_drop_id nat_le_linear take_all_iff take_append append_Nil2 diff_is_0_eq take0)
        moreover have "anchored (take max_tail_bytes (p @ c @ r))" using body by (simp add: sse_body_def)
        ultimately show False using nac anchored_append by metis
      qed
      moreover have "\<not> jo_is_object ops v" if "jo_parse ops (p @ c) = Some v" for v
        using that lib body prefix_not_object [of "p @ c" r] by (auto simp: json_lib_ok_def sse_body_def)
      ultimately show ?thesis
        using False s nac probe by (auto simp: usage_feed_def Let_def feed_inv_def split: option.splits)
    qed
  qed
qed

lemma feed_all_inv:
  "\<lbrakk>feed_inv ops schema p s; json_lib_ok ops; sse_body (p @ concat chunks)\<rbrakk>
     \<Longrightarrow> feed_inv ops schema (p @ concat chunks) (feed_all ops chunks s)"
proof (induction chunks arbitrary: p s)
  case (Cons c cs)
  have "feed_inv ops schema (p @ c) (snd (usage_feed ops c s))"
    using Cons.prems by (intro feed_step [where r = "concat cs"]) simp_all
  from Cons.IH [OF this Cons.prems(2)] show ?case using Cons.prems(3) by (simp add: feed_all_def)
qed (simp add: feed_all_def)

lemma feed_inv_new: "feed_inv ops schema [] (usage_new schema)"
  by (simp add: feed_inv_def usage_new_def anchored_def starts_with_def)

text \<open>
  Property C34. However an event stream is cut into chunks, the accumulator counts and absorbs each
  newline-terminated data line of the body exactly once and in order, keeps the unterminated rest,
  and reports the same usage row.
\<close>

theorem chunking_irrelevant:
  assumes "json_lib_ok ops" "sse_body (concat chunks)"
  shows "us_mode (feed_all ops chunks (usage_new schema)) = Sse \<and>
    us_tail (feed_all ops chunks (usage_new schema)) = sse_rest (concat chunks) \<and>
    counters (feed_all ops chunks (usage_new schema)) =
      counters (absorb_lines ops (sse_lines (concat chunks)) (usage_new schema)) \<and>
    usage_flush (feed_all ops chunks (usage_new schema)) f =
      usage_flush (absorb_lines ops (sse_lines (concat chunks)) (usage_new schema)) f"
proof -
  have "anchored (concat chunks)"
    using assms(2) anchored_append [of "take max_tail_bytes (concat chunks)" "drop max_tail_bytes (concat chunks)"]
    by (simp add: sse_body_def)
  moreover have "feed_inv ops schema (concat chunks) (feed_all ops chunks (usage_new schema))"
    using feed_all_inv [OF feed_inv_new assms(1), of chunks schema] assms(2) by simp
  ultimately have "us_mode (feed_all ops chunks (usage_new schema)) = Sse"
      "us_tail (feed_all ops chunks (usage_new schema)) = sse_rest (concat chunks)"
      "counters (feed_all ops chunks (usage_new schema)) =
        counters (absorb_lines ops (sse_lines (concat chunks)) (usage_new schema))"
    unfolding feed_inv_def by (metis, metis, metis)
  then show ?thesis using usage_flush_counters by blast
qed

section \<open>Bounds\<close>

definition quiet :: "usage_snapshot \<Rightarrow> bool" where
  "quiet s \<longleftrightarrow> us_seen_any s \<or> us_input_token s = None \<and> us_output_token s = None \<and> us_total_token s = None \<and>
     us_input_cached_token s = None"

definition bounded_by :: "nat \<Rightarrow> nat \<Rightarrow> usage_snapshot \<Rightarrow> bool" where
  "bounded_by k n s \<longleftrightarrow>
     length (us_tail s) \<le> max_tail_bytes + (if us_mode s = Sse then k else 0) \<and>
     us_json_parse_attempts s \<le> max_json_parse_attempts \<and>
     us_output_chunk_count s + length (us_tail s) \<le> n \<and> quiet s"

lemma quiet_updates [simp]:
  "quiet (s\<lparr>us_tail := t\<rparr>) = quiet s" "quiet (s\<lparr>us_mode := m\<rparr>) = quiet s" "quiet (s\<lparr>us_data_probe := p\<rparr>) = quiet s"
  "quiet (s\<lparr>us_json_parse_attempts := a\<rparr>) = quiet s" "quiet (s\<lparr>us_skip_until_newline := k\<rparr>) = quiet s"
  "quiet (s\<lparr>us_output_chunk_count := c\<rparr>) = quiet s" "quiet (s\<lparr>us_json_counted := j\<rparr>) = quiet s"
  by (simp_all add: quiet_def)

lemma absorb_value_bounds:
  "quiet s \<Longrightarrow> quiet (snd (absorb_value ops v s))"
  "us_output_chunk_count (snd (absorb_value ops v s)) = us_output_chunk_count s"
  "line_frame (snd (absorb_value ops v s)) = line_frame s"
  by (auto simp: absorb_value_def quiet_def line_frame_def split: option.splits)

lemma process_sse_line_bounds:
  "quiet s \<Longrightarrow> quiet (snd (process_sse_line ops l s))"
  "us_output_chunk_count (snd (process_sse_line ops l s)) \<le> us_output_chunk_count s + 1"
  by (auto simp: process_sse_line_def Let_def absorb_value_bounds split: option.splits)

lemma absorb_lines_bounds:
  "quiet s \<Longrightarrow> quiet (absorb_lines ops ls s)"
  "us_output_chunk_count (absorb_lines ops ls s) \<le> us_output_chunk_count s + length ls"
proof -
  show "quiet s \<Longrightarrow> quiet (absorb_lines ops ls s)"
    unfolding absorb_lines_def by (induction ls arbitrary: s) (auto simp: process_sse_line_bounds)
  show "us_output_chunk_count (absorb_lines ops ls s) \<le> us_output_chunk_count s + length ls"
  proof (induction ls arbitrary: s)
    case (Cons l ls)
    from Cons.IH [of "snd (process_sse_line ops l s)"] process_sse_line_bounds(2) [of ops l s]
    show ?case by (simp add: absorb_lines_def)
  qed (simp add: absorb_lines_def)
qed

lemma sse_lines_length: "length (sse_lines b) + length (sse_rest b) \<le> length b"
proof (induction b rule: length_induct)
  case (1 b)
  show ?case
  proof (cases "find_byte newline b")
    case None
    then show ?thesis using sse_no_newline [of b] by (simp add: find_byte_None_iff)
  next
    case (Some i)
    then have split: "b = take i b @ newline # drop (Suc i) b" and nn: "newline \<notin> set (take i b)" and i: "i < length b"
      using find_byte_split [OF Some] by (auto simp: find_byte_Some_iff)
    have "length (drop (Suc i) b) < length b" using i by simp
    note 1 [rule_format, OF this]
    moreover have "sse_lines b = take i b # sse_lines (drop (Suc i) b)" "sse_rest b = sse_rest (drop (Suc i) b)"
      by (subst split, simp only: sse_first_line [OF nn])+
    ultimately show ?thesis using i by simp
  qed
qed

lemma keep_sliver_bounds:
  assumes "us_tail s = []"
  shows "length (us_tail (keep_sliver chunk pos s)) \<le> max_tail_bytes \<and>
    length (us_tail (keep_sliver chunk pos s)) \<le> length chunk - pos \<and>
    us_output_chunk_count (keep_sliver chunk pos s) = us_output_chunk_count s \<and>
    us_json_parse_attempts (keep_sliver chunk pos s) = us_json_parse_attempts s \<and>
    us_mode (keep_sliver chunk pos s) = us_mode s \<and>
    quiet (keep_sliver chunk pos s) = quiet s"
  using assms by (auto simp: keep_sliver_def)

lemma lines_then_sliver:
  assumes "us_tail s = []" "pos \<le> length chunk" "lines_loop ops chunk pos found s = (pos', f, s')"
  shows "length (us_tail (keep_sliver chunk pos' s')) \<le> max_tail_bytes \<and>
    us_output_chunk_count (keep_sliver chunk pos' s') + length (us_tail (keep_sliver chunk pos' s'))
      \<le> us_output_chunk_count s + (length chunk - pos) \<and>
    us_json_parse_attempts (keep_sliver chunk pos' s') = us_json_parse_attempts s \<and>
    us_mode (keep_sliver chunk pos' s') = us_mode s \<and>
    (quiet s \<longrightarrow> quiet (keep_sliver chunk pos' s'))"
proof -
  from lines_loop_eq [OF assms(2), of ops found s] assms(3)
  have p: "pos' = length chunk - length (sse_rest (drop pos chunk))" and s': "s' = absorb_lines ops (sse_lines (drop pos chunk)) s"
    by auto
  have "us_tail s' = []" "us_json_parse_attempts s' = us_json_parse_attempts s" "us_mode s' = us_mode s"
    using absorb_frame [of ops "sse_lines (drop pos chunk)" s] assms(1) by (simp_all add: s')
  with keep_sliver_bounds [of s' chunk pos'] sse_lines_length [of "drop pos chunk"]
    absorb_lines_bounds [where s = s and ops = ops and ls = "sse_lines (drop pos chunk)"]
  show ?thesis by (auto simp: p s')
qed

lemma finish_pending_bounds:
  assumes "start \<le> length chunk"
  shows "case finish_pending ops chunk start s of
      Inl s' \<Rightarrow> length (us_tail s') \<le> max (length (us_tail s)) max_tail_bytes \<and> us_output_chunk_count s' = us_output_chunk_count s \<and>
        length (us_tail s') \<le> length (us_tail s) + length chunk \<and>
        us_json_parse_attempts s' = us_json_parse_attempts s \<and> us_mode s' = us_mode s \<and> (quiet s \<longrightarrow> quiet s')
    | Inr (start', f, s') \<Rightarrow> us_tail s' = [] \<and> start' \<le> length chunk \<and>
        us_output_chunk_count s' \<le> us_output_chunk_count s + length (us_tail s) \<and>
        us_json_parse_attempts s' = us_json_parse_attempts s \<and> us_mode s' = us_mode s \<and> (quiet s \<longrightarrow> quiet s')"
proof (cases "find_byte newline (drop start chunk)")
  case None
  then show ?thesis using assms by (auto simp: finish_pending_def)
next
  case (Some i)
  then have i: "start + i + 1 \<le> length chunk" using assms by (auto simp: find_byte_Some_iff)
  show ?thesis
  proof (cases "us_tail s = [] \<or> length (us_tail s) + i > max_tail_bytes")
    case True
    then show ?thesis using Some i assms by (auto simp: finish_pending_def)
  next
    case False
    obtain f s' where p: "process_sse_line ops (us_tail s @ take i (drop start chunk)) (s\<lparr>us_tail := []\<rparr>) = (f, s')"
      by fastforce
    have "1 \<le> length (us_tail s)" using False by (simp add: Suc_le_eq)
    moreover have "us_output_chunk_count s' \<le> us_output_chunk_count s + 1" "quiet s \<longrightarrow> quiet s'"
      using process_sse_line_bounds [where s = "s\<lparr>us_tail := []\<rparr>" and ops = ops and l = "us_tail s @ take i (drop start chunk)"] p by simp_all
    moreover have "us_json_parse_attempts s' = us_json_parse_attempts s" "us_mode s' = us_mode s"
      using frame_fields [OF process_sse_line_frame [of ops "us_tail s @ take i (drop start chunk)" "s\<lparr>us_tail := []\<rparr>"]] p
      by simp_all
    ultimately show ?thesis using False Some i p by (simp add: finish_pending_def)
  qed
qed

lemma consume_slice_bounds:
  assumes "bounded_by k n s" "us_mode s = Sse"
  shows "bounded_by k (n + length c) (snd (consume_sse_slice ops c s))"
proof -
  show ?thesis
  proof (cases "skip_dropped_line c s")
    case (Inl t)
    then have "t = s" by (auto simp: skip_dropped_line_def split: if_splits option.splits)
    then show ?thesis using assms Inl by (auto simp: consume_sse_slice_def bounded_by_def)
  next
    case (Inr a)
    then obtain start t where a: "a = (start, t)" by (cases a)
    have t: "start \<le> length c" "us_tail t = us_tail s" "us_output_chunk_count t = us_output_chunk_count s"
      "us_json_parse_attempts t = us_json_parse_attempts s" "us_mode t = us_mode s" "quiet t = quiet s"
      using Inr a by (auto simp: skip_dropped_line_def find_byte_Some_iff split: if_splits option.splits)
    note pending = finish_pending_bounds [OF t(1), where ops = ops and s = t]
    show ?thesis
    proof (cases "finish_pending ops c start t")
      case (Inl u)
      then show ?thesis using pending assms t Inr a
        by (auto simp: consume_sse_slice_def bounded_by_def split: if_splits)
    next
      case u: (Inr q)
      then obtain start' f u where q: "q = (start', f, u)" by (cases q)
      obtain pos g w where loop: "lines_loop ops c start' f u = (pos, g, w)" by (metis prod_cases3)
      have "us_tail u = []" "start' \<le> length c" using pending u q by simp_all
      from lines_then_sliver [OF this loop] show ?thesis
        using pending assms t u q Inr a loop by (auto simp: consume_sse_slice_def bounded_by_def)
    qed
  qed
qed

lemma discard_prefix_bounds:
  "length (us_tail (discard_prefix n s)) \<le> length (us_tail s)" "quiet (discard_prefix n s) = quiet s"
  "us_mode (discard_prefix n s) = us_mode s" "us_output_chunk_count (discard_prefix n s) = us_output_chunk_count s"
  "us_json_parse_attempts (discard_prefix n s) = us_json_parse_attempts s"
  by (simp_all add: discard_prefix_def)

lemma classify_bounds:
  assumes "consume_sse ops s = (n, f, t)"
  shows "us_mode (if n > 0 then discard_prefix n t else t) = us_mode s \<and>
    us_json_parse_attempts (if n > 0 then discard_prefix n t else t) = us_json_parse_attempts s \<and>
    (quiet s \<longrightarrow> quiet (if n > 0 then discard_prefix n t else t)) \<and>
    us_output_chunk_count (if n > 0 then discard_prefix n t else t) + length (us_tail (if n > 0 then discard_prefix n t else t))
      \<le> us_output_chunk_count s + length (us_tail s)"
proof -
  let ?a = "absorb_lines ops (sse_lines (us_tail s)) (s\<lparr>us_tail := []\<rparr>)"
  from lines_loop_eq [of 0 "us_tail s" ops False "s\<lparr>us_tail := []\<rparr>"] assms
  have n: "n = length (us_tail s) - length (sse_rest (us_tail s))" and t: "t = ?a\<lparr>us_tail := us_tail s\<rparr>"
    by (auto simp: consume_sse_def)
  have "length (us_tail (if n > 0 then discard_prefix n t else t)) = length (sse_rest (us_tail s))"
  proof (cases "length (sse_rest (us_tail s)) = 0")
    case False
    then have "n < length (us_tail s)" using sse_rest_length [of "us_tail s"] unfolding n by linarith
    then show ?thesis using sse_rest_length [of "us_tail s"] by (auto simp: discard_prefix_def n t)
  qed (auto simp: discard_prefix_def n t)
  moreover have "us_output_chunk_count t \<le> us_output_chunk_count s + length (sse_lines (us_tail s))" "quiet s \<longrightarrow> quiet t"
    using absorb_lines_bounds [where s = "s\<lparr>us_tail := []\<rparr>" and ops = ops and ls = "sse_lines (us_tail s)"]
    by (simp_all add: t)
  ultimately show ?thesis
    using absorb_frame [of ops "sse_lines (us_tail s)" "s\<lparr>us_tail := []\<rparr>"] sse_lines_length [of "us_tail s"]
    by (auto simp: discard_prefix_bounds t)
qed

lemma classify_tail:
  assumes "consume_sse ops s = (n, f, t)"
  shows "length (us_tail (if n > 0 then discard_prefix n t else t)) \<le> length (us_tail s)"
  using assms discard_prefix_bounds(1) [of n t] by (auto simp: consume_sse_def split: prod.splits)

lemma finish_json_bounds:
  "quiet s \<Longrightarrow> quiet (snd (finish_json ops v s))"
  "us_output_chunk_count (snd (finish_json ops v s)) \<le> us_output_chunk_count s + 1"
  "us_json_parse_attempts (snd (finish_json ops v s)) = us_json_parse_attempts s"
  "us_mode (snd (finish_json ops v s)) = us_mode s"
  by (auto simp: finish_json_def Let_def absorb_value_bounds(1,2) absorb_value_bounds(3) [THEN frame_fields]
      split: option.splits)

lemma feed_bounds:
  assumes "bounded_by k n s" "length c \<le> k"
  shows "bounded_by k (n + length c) (snd (usage_feed ops c s))"
proof (cases "c = [] \<or> us_mode s = JsonBody \<or> us_mode s = Oversized")
  case True
  then show ?thesis using assms by (auto simp: usage_feed_def bounded_by_def split: usage_mode.splits)
next
  case False
  show ?thesis
  proof (cases "us_mode s = Sse")
    case True
    then show ?thesis using False consume_slice_bounds [OF assms(1) True, of c ops] by (simp add: usage_feed_def)
  next
    case unclassified: False
    with False have m: "us_mode s = Unclassified" "c \<noteq> []" by (cases "us_mode s"; simp)+
    obtain found p where probe: "probe_anchored_data (us_tail s @ c) (us_data_probe s) = (found, p)" by fastforce
    let ?s = "s\<lparr>us_tail := us_tail s @ c, us_data_probe := p\<rparr>"
    show ?thesis
    proof (cases found)
      case True
      obtain a f t where cs: "consume_sse ops (?s\<lparr>us_mode := Sse\<rparr>) = (a, f, t)" by (metis prod_cases3)
      have eq: "snd (usage_feed ops c s) = (if a > 0 then discard_prefix a t else t)"
        using m probe True cs by (simp add: usage_feed_def Let_def)
      have "length (us_tail (if a > 0 then discard_prefix a t else t)) \<le> length (us_tail s @ c)"
        using classify_tail [OF cs] by simp
      with classify_bounds [OF cs] show ?thesis
        using assms m unfolding eq bounded_by_def by auto
    next
      case na: False
      show ?thesis
      proof (cases "length (us_tail s @ c) > max_tail_bytes")
        case True
        then show ?thesis using assms m probe na by (simp add: usage_feed_def Let_def bounded_by_def)
      next
        case False
        let ?q = "?s\<lparr>us_json_parse_attempts := us_json_parse_attempts s + 1, us_mode := JsonBody\<rparr>"
        have one: "1 \<le> length c" using m(2) by (simp add: Suc_le_eq)
        have "quiet s" using assms by (simp add: bounded_by_def)
        then have "quiet (snd (finish_json ops v ?q))" for v by (intro finish_json_bounds) simp
        moreover have "us_output_chunk_count (snd (finish_json ops v ?q)) \<le> n + length c" for v
          using finish_json_bounds(2) [where s = ?q and ops = ops and v = v] one assms(1) by (simp add: bounded_by_def)
        ultimately show ?thesis
          using assms m probe na False finish_json_bounds(3,4) [where s = ?q and ops = ops]
          by (auto simp: usage_feed_def Let_def bounded_by_def case_prod_beta split: option.splits)
      qed
    qed
  qed
qed

text \<open>
  Property C35. With chunks of at most \<open>k\<close> bytes the retained tail never exceeds the cap by more than
  one chunk, at most 128 parses are tried, at most one data line is counted per byte received, and
  no token is reported before a usage object was seen.
\<close>

theorem accumulator_bounded:
  assumes "\<forall>c \<in> set chunks. length c \<le> k"
  shows "length (us_tail (feed_all ops chunks (usage_new schema))) \<le> max_tail_bytes + k \<and>
    us_json_parse_attempts (feed_all ops chunks (usage_new schema)) \<le> max_json_parse_attempts \<and>
    us_output_chunk_count (feed_all ops chunks (usage_new schema)) \<le> length (concat chunks) \<and>
    (\<not> usage_complete (feed_all ops chunks (usage_new schema)) \<longrightarrow>
       usage_tokens (feed_all ops chunks (usage_new schema)) = (0, 0, 0) \<and>
       (mm_completed (usage_flush (feed_all ops chunks (usage_new schema)) f) = False \<and>
        mm_total_token (usage_flush (feed_all ops chunks (usage_new schema)) f) = 0))"
proof -
  have step: "bounded_by k (n + length (concat cs)) (feed_all ops cs s)"
    if "bounded_by k n s" "\<forall>c \<in> set cs. length c \<le> k" for n s cs
    using that
  proof (induction cs arbitrary: n s)
    case (Cons c cs)
    from Cons.IH [OF feed_bounds [OF Cons.prems(1)], of c ops] Cons.prems(2)
    show ?case by (simp add: feed_all_def add.assoc)
  qed (simp add: feed_all_def)
  have "bounded_by k 0 (usage_new schema)"
    by (simp add: bounded_by_def usage_new_def quiet_def)
  from step [OF this assms] show ?thesis
    by (auto simp: bounded_by_def quiet_def usage_complete_def usage_tokens_def unwrap_or_zero_def usage_flush_def
        sat_add_def Let_def split: if_splits)
qed

text \<open>The cap on a single line does not hold for the chunk that classifies the response.\<close>

lemma first_chunk_uncapped:
  assumes "newline \<notin> set line"
  shows "us_tail (snd (usage_feed ops (''data:'' @ line) (usage_new schema))) = ''data:'' @ line"
proof -
  have nn: "newline \<notin> set (''data:'' @ line)" using assms by (simp add: newline_def)
  have "probe_anchored_data (''data:'' @ line) 0 = (True, length (''data:'' @ line))"
    by (simp add: probe_anchored_data_def starts_with_def)
  moreover have "consume_sse ops s = (0, False, s)" if "us_tail s = ''data:'' @ line" for s
    using nn that by (subst consume_sse_def, subst lines_loop.simps) (auto simp: find_byte_None_iff [THEN iffD2])
  ultimately show ?thesis by (simp add: usage_feed_def usage_new_def)
qed

section \<open>Witnesses\<close>

text \<open>A parser that accepts what starts with a brace and reports the length as the token counts.\<close>

definition demo_ops :: "nat json_ops" where
  "demo_ops =
     \<lparr>jo_parse = (\<lambda>b. if starts_with ''{'' (dropWhile json_ws b) then Some (length b) else None),
      jo_is_object = (\<lambda>v. True),
      jo_get = (\<lambda>v k. if k \<in> {''usage'', ''prompt_tokens''} then Some v else None),
      jo_as_u64 = Some\<rparr>"

definition demo_chunks :: "bytes list" where
  "demo_chunks = [''da'', ''ta: {'' @ [CHR 0x22] @ ''usa'', ''ge'' @ [CHR 0x22] @ '':7}'' @ [newline, newline] @ ''data: [DO'',
     ''NE]'' @ [newline]]"

definition demo_flush :: flush_fields where
  "demo_flush =
     \<lparr>ff_model = ''m'', ff_user_id = None, ff_model_id = None, ff_model_route_id = None, ff_cluster_id = None,
      ff_provider_id = None, ff_provider_name = None, ff_provider_type = None, ff_access_key = None,
      ff_operation = None, ff_organization_id = None, ff_started_at_ms = None, ff_completed_at_ms = None,
      ff_request_content_bytes = 0, ff_output_chunk_count = None\<rparr>"

lemma demo_lib: "json_lib_ok demo_ops"
  by (simp add: json_lib_ok_def demo_ops_def)

lemma demo_body: "sse_body (concat demo_chunks)"
  by (simp add: sse_body_def anchored_def demo_chunks_def newline_def starts_with_def short_lines_def max_tail_bytes_def json_ws_def)

lemma demo_absorbed:
  "mm_total_token (usage_flush (absorb_lines demo_ops (sse_lines (concat demo_chunks)) (usage_new Generic)) demo_flush) = 11"
  by (simp add: demo_chunks_def sse_lines_def newline_def absorb_lines_def process_sse_line_def starts_with_def trim_ascii_def
      is_ascii_whitespace_def done_marker_def usage_token_def find_subseq_def find_str.simps demo_ops_def usage_from_payload_def
      json_ws_def or_else_def absorb_value_def fields_from_def u64_field_def cached_detail_def usage_new_def usage_flush_def unwrap_or_zero_def
      sat_add_def u64_max_def Let_def)

theorem chunking_irrelevant_witness:
  "us_tail (feed_all demo_ops demo_chunks (usage_new Generic)) = [] \<and>
   mm_total_token (usage_flush (feed_all demo_ops demo_chunks (usage_new Generic)) demo_flush) = 11"
  using chunking_irrelevant [OF demo_lib demo_body, of Generic demo_flush] demo_absorbed
  by (simp add: sse_rest_def demo_chunks_def newline_def)

theorem accumulator_bounded_witness:
  "length (us_tail (feed_all demo_ops demo_chunks (usage_new Generic))) \<le> max_tail_bytes + 20 \<and>
   us_output_chunk_count (feed_all demo_ops demo_chunks (usage_new Generic)) \<le> length (concat demo_chunks)"
  using accumulator_bounded [of demo_chunks 20 demo_ops Generic demo_flush] by (simp add: demo_chunks_def)

end
