(* ===== verification/Ratelimit.thy ===== *)
theory Ratelimit
  imports Policy
begin

text \<open>
  The token buckets of \<open>hygress-core/src/ratelimit.rs\<close> and their per-key table of the proxy:
  \<open>check_bucket\<close> and \<open>retry_after\<close> of \<open>hygress-gateway/src/pipe.rs\<close>, the idle eviction of
  \<open>hygress-gateway/src/bootstrap.rs\<close>.

  An \<open>f64\<close> is the rational number it denotes, and \<open>rnd\<close> is the rounding after each operation. What
  is used of it is IEEE 754 round-to-nearest: monotone, exact on the natural numbers below
  \<open>2^53\<close>, idempotent, with an error of at most \<open>\<delta>\<close> up to a magnitude.
\<close>

type_synonym rounding = "rat \<Rightarrow> rat"

record token_bucket =
  tk_burst :: nat
  tk_fill_per_ms :: rat
  tk_tokens :: rat
  tk_last :: nat

definition bucket_new :: "rounding \<Rightarrow> nat \<Rightarrow> rat \<Rightarrow> token_bucket" where
  "bucket_new rnd burst rps =
     \<lparr>tk_burst = burst, tk_fill_per_ms = rnd (rps / 1000), tk_tokens = rnd (of_nat burst), tk_last = 0\<rparr>"

definition bucket_refill :: "rounding \<Rightarrow> nat \<Rightarrow> token_bucket \<Rightarrow> token_bucket" where
  "bucket_refill rnd now b =
     (if now \<ge> tk_last b then
        (let elapsed = rnd (of_nat (now - tk_last b))
         in b\<lparr>tk_tokens := min (rnd (tk_tokens b + rnd (elapsed * tk_fill_per_ms b))) (rnd (of_nat (tk_burst b))),
              tk_last := now\<rparr>)
      else b)"

definition bucket_check :: "rounding \<Rightarrow> nat \<Rightarrow> token_bucket \<Rightarrow> bool \<times> token_bucket" where
  "bucket_check rnd now b =
     (let b = bucket_refill rnd now b in
      if tk_tokens b \<ge> 1 then (True, b\<lparr>tk_tokens := rnd (tk_tokens b - 1)\<rparr>) else (False, b))"

section \<open>The limiter of the core crate\<close>

record buckets =
  bk_ip :: "token_bucket option"
  bk_consumer :: "token_bucket option"

definition buckets_from_spec :: "rounding \<Rightarrow> limits_spec \<Rightarrow> buckets" where
  "buckets_from_spec rnd spec =
     \<lparr>bk_ip = map_option (\<lambda>t. bucket_new rnd (tb_burst t) (tb_rps t)) (ls_ip spec),
      bk_consumer = map_option (\<lambda>t. bucket_new rnd (tb_burst t) (tb_rps t)) (ls_consumer spec)\<rparr>"

record rat_limiter =
  rl_templates :: buckets
  rl_ip_buckets :: "(string, token_bucket) hash_map"
  rl_consumer_buckets :: "(string, token_bucket) hash_map"

definition limiter_new :: "rounding \<Rightarrow> limits_spec \<Rightarrow> rat_limiter" where
  "limiter_new rnd spec =
     \<lparr>rl_templates = buckets_from_spec rnd spec, rl_ip_buckets = [], rl_consumer_buckets = []\<rparr>"

definition check_dim ::
  "rounding \<Rightarrow> token_bucket option \<Rightarrow> (string, token_bucket) hash_map \<Rightarrow> string \<Rightarrow> nat
     \<Rightarrow> bool \<times> (string, token_bucket) hash_map" where
  "check_dim rnd template live key now =
     (case template of
        None \<Rightarrow> (True, live)
      | Some tpl \<Rightarrow>
          if key = [] then (True, live)
          else
            (case bucket_check rnd now (case hm_get live key of Some b \<Rightarrow> b | None \<Rightarrow> tpl) of
               (granted, b) \<Rightarrow> (granted, hm_insert key b live)))"

definition check_ip :: "rounding \<Rightarrow> string \<Rightarrow> nat \<Rightarrow> rat_limiter \<Rightarrow> bool \<times> rat_limiter" where
  "check_ip rnd key now l =
     (case check_dim rnd (bk_ip (rl_templates l)) (rl_ip_buckets l) key now of
        (granted, live) \<Rightarrow> (granted, l\<lparr>rl_ip_buckets := live\<rparr>))"

definition check_consumer :: "rounding \<Rightarrow> string \<Rightarrow> nat \<Rightarrow> rat_limiter \<Rightarrow> bool \<times> rat_limiter" where
  "check_consumer rnd key now l =
     (case check_dim rnd (bk_consumer (rl_templates l)) (rl_consumer_buckets l) key now of
        (granted, live) \<Rightarrow> (granted, l\<lparr>rl_consumer_buckets := live\<rparr>))"

section \<open>The table of the proxy\<close>

record rate_limit_entry =
  re_spec_rps :: rat
  re_spec_burst :: nat
  re_last_active_ms :: nat
  re_bucket :: token_bucket

type_synonym rate_table = "(string, rate_limit_entry) hash_map"

definition entry_seed :: "rounding \<Rightarrow> token_bucket_spec \<Rightarrow> nat \<Rightarrow> rate_limit_entry" where
  "entry_seed rnd spec now =
     \<lparr>re_spec_rps = tb_rps spec, re_spec_burst = tb_burst spec, re_last_active_ms = now,
      re_bucket = bucket_new rnd (tb_burst spec) (tb_rps spec)\<rparr>"

definition entry_reset :: "rounding \<Rightarrow> token_bucket_spec \<Rightarrow> rate_limit_entry \<Rightarrow> rate_limit_entry" where
  "entry_reset rnd spec e =
     (if re_spec_rps e \<noteq> tb_rps spec \<or> re_spec_burst e \<noteq> tb_burst spec
      then e\<lparr>re_spec_rps := tb_rps spec, re_spec_burst := tb_burst spec,
             re_bucket := bucket_new rnd (tb_burst spec) (tb_rps spec)\<rparr>
      else e)"

definition check_bucket ::
  "rounding \<Rightarrow> rate_table \<Rightarrow> string \<Rightarrow> token_bucket_spec \<Rightarrow> nat \<Rightarrow> bool \<times> rate_table" where
  "check_bucket rnd table key spec now =
     (if key = [] then (True, table)
      else
        let e = (case hm_get table key of Some e \<Rightarrow> e | None \<Rightarrow> entry_seed rnd spec now);
            e = (entry_reset rnd spec e)\<lparr>re_last_active_ms := now\<rparr>
        in case bucket_check rnd now (re_bucket e) of
             (granted, b) \<Rightarrow> (granted, hm_insert key (e\<lparr>re_bucket := b\<rparr>) table))"

definition ratelimit_evict :: "nat \<Rightarrow> nat \<Rightarrow> rate_table \<Rightarrow> nat \<times> rate_table" where
  "ratelimit_evict now idle_ms table =
     (let kept = hm_retain (\<lambda>_ e. re_last_active_ms e \<ge> now - idle_ms) table in (length table - length kept, kept))"

text \<open>\<open>as u64\<close> of a non-negative \<open>f64\<close> saturates.\<close>

definition retry_after_secs :: "rounding \<Rightarrow> token_bucket_spec \<Rightarrow> nat" where
  "retry_after_secs rnd spec =
     (if tb_rps spec > 0 then min (nat (max \<lceil>rnd (1 / tb_rps spec)\<rceil> 1)) u64_max else 1)"

definition retry_after :: "rounding \<Rightarrow> token_bucket_spec \<Rightarrow> string" where
  "retry_after rnd spec = dec_of_nat (retry_after_secs rnd spec)"

section \<open>One bucket\<close>

definition f64_rounding :: "rounding \<Rightarrow> rat \<Rightarrow> rat \<Rightarrow> bool" where
  "f64_rounding rnd \<delta> limit \<longleftrightarrow>
     (\<forall>x y. x \<le> y \<longrightarrow> rnd x \<le> rnd y) \<and> (\<forall>x. rnd (rnd x) = rnd x) \<and>
     (\<forall>n < 9007199254740992. rnd (of_nat n) = of_nat n) \<and>
     0 \<le> \<delta> \<and> (\<forall>x. 0 \<le> x \<and> x \<le> limit \<longrightarrow> rnd x \<le> x + \<delta>)"

lemma rnd_mono: "f64_rounding rnd \<delta> limit \<Longrightarrow> x \<le> y \<Longrightarrow> rnd x \<le> rnd y"
  and rnd_nat: "f64_rounding rnd \<delta> limit \<Longrightarrow> n < 9007199254740992 \<Longrightarrow> rnd (of_nat n) = of_nat n"
  and rnd_idem: "f64_rounding rnd \<delta> limit \<Longrightarrow> rnd (rnd x) = rnd x"
  and rnd_error: "f64_rounding rnd \<delta> limit \<Longrightarrow> 0 \<le> x \<Longrightarrow> x \<le> limit \<Longrightarrow> rnd x \<le> x + \<delta>"
  and delta_nonneg: "f64_rounding rnd \<delta> limit \<Longrightarrow> 0 \<le> \<delta>"
  unfolding f64_rounding_def by blast+

lemma rnd_nonneg: "f64_rounding rnd \<delta> limit \<Longrightarrow> 0 \<le> x \<Longrightarrow> 0 \<le> rnd x"
  using rnd_mono [of rnd \<delta> limit 0 x] rnd_nat [of rnd \<delta> limit 0] by simp

definition bucket_ok :: "nat \<Rightarrow> rat \<Rightarrow> token_bucket \<Rightarrow> bool" where
  "bucket_ok burst fill b \<longleftrightarrow> tk_burst b = burst \<and> tk_fill_per_ms b = fill \<and> 0 \<le> tk_tokens b \<and> tk_tokens b \<le> of_nat burst"

text \<open>What a bucket holds at a later time, were it refilled without rounding.\<close>

definition level :: "nat \<Rightarrow> token_bucket \<Rightarrow> rat" where
  "level now b = min (of_nat (tk_burst b)) (tk_tokens b + tk_fill_per_ms b * of_nat (now - tk_last b))"

lemma bucket_check_ok:
  assumes f: "f64_rounding rnd \<delta> limit" "burst < 9007199254740992" "0 \<le> fill" and b: "bucket_ok burst fill b"
  shows "bucket_ok burst fill (snd (bucket_check rnd now b))"
proof -
  have cap: "rnd (of_nat burst) = of_nat burst" using f by (simp add: rnd_nat)
  let ?b = "bucket_refill rnd now b"
  have "bucket_ok burst fill ?b"
    using b f by (auto simp: bucket_refill_def bucket_ok_def cap Let_def
        intro!: rnd_nonneg [OF f(1)] add_nonneg_nonneg mult_nonneg_nonneg)
  moreover have "rnd (tk_tokens ?b - 1) \<le> of_nat burst" if "tk_tokens ?b \<le> of_nat burst"
    using rnd_mono [OF f(1), of "tk_tokens ?b - 1" "of_nat burst"] that cap by simp
  ultimately show ?thesis
    by (auto simp: bucket_check_def Let_def bucket_ok_def intro!: rnd_nonneg [OF f(1)])
qed

lemma bucket_check_level:
  assumes f: "f64_rounding rnd \<delta> limit" "2 * of_nat burst + \<delta> \<le> limit" "burst < 9007199254740992" "0 \<le> fill"
    and b: "bucket_ok burst fill b" and now: "tk_last b \<le> now" "now < 9007199254740992"
  shows "tk_tokens (snd (bucket_check rnd now b)) + (if fst (bucket_check rnd now b) then 1 else 0) \<le> level now b + 3 * \<delta>"
proof -
  let ?d = "of_nat (now - tk_last b) :: rat" and ?b = "bucket_refill rnd now b"
  have d: "rnd ?d = ?d" using now by (intro rnd_nat [OF f(1)]) simp
  have cap: "rnd (of_nat burst) = of_nat burst" using f by (simp add: rnd_nat)
  have nn: "0 \<le> \<delta>" using f(1) by (rule delta_nonneg)
  have t: "0 \<le> tk_tokens b" "tk_tokens b \<le> of_nat burst" "tk_burst b = burst" "tk_fill_per_ms b = fill"
    using b by (simp_all add: bucket_ok_def)
  have refill: "tk_tokens ?b = min (rnd (tk_tokens b + rnd (?d * fill))) (of_nat burst)"
    using now t by (simp add: bucket_refill_def Let_def d cap del: of_nat_diff)
  have lvl: "tk_tokens ?b \<le> level now b + 2 * \<delta>"
  proof (cases "?d * fill \<le> of_nat burst")
    case True
    have p: "0 \<le> ?d * fill" using f(4) by simp
    have "?d * fill \<le> limit" using True f(2) nn by (simp add: algebra_simps)
    with p have r: "rnd (?d * fill) \<le> ?d * fill + \<delta>" by (rule rnd_error [OF f(1)])
    have "0 \<le> rnd (?d * fill)" using p by (rule rnd_nonneg [OF f(1)])
    with t(1) have "0 \<le> tk_tokens b + rnd (?d * fill)" by simp
    moreover have "tk_tokens b + rnd (?d * fill) \<le> limit" using r True t(2) f(2) by (simp add: algebra_simps)
    ultimately have "rnd (tk_tokens b + rnd (?d * fill)) \<le> tk_tokens b + rnd (?d * fill) + \<delta>"
      by (rule rnd_error [OF f(1)])
    with r nn show ?thesis by (auto simp: refill level_def t mult.commute min_def)
  next
    case False
    then have "level now b = of_nat burst" using t by (simp add: level_def mult.commute min_def del: of_nat_diff)
    then show ?thesis using nn by (simp add: refill)
  qed
  moreover have "rnd (tk_tokens ?b - 1) \<le> tk_tokens ?b - 1 + \<delta>" if "1 \<le> tk_tokens ?b"
    using that f(2) nn by (intro rnd_error [OF f(1)]) (auto simp: refill min_def)
  ultimately show ?thesis using nn by (auto simp: bucket_check_def Let_def)
qed

lemma bucket_check_last: "tk_last b \<le> now \<Longrightarrow> tk_last (snd (bucket_check rnd now b)) = now"
  by (simp add: bucket_check_def bucket_refill_def Let_def)

lemma bucket_check_grants:
  assumes f: "f64_rounding rnd \<delta> limit" "burst < 9007199254740992" "0 \<le> fill"
    and b: "bucket_ok burst fill b" and now: "tk_last b \<le> now" "now < 9007199254740992"
    and enough: "1 \<le> tk_tokens b \<or> 1 \<le> fill * of_nat (now - tk_last b)" "1 \<le> burst"
  shows "fst (bucket_check rnd now b)"
proof -
  let ?d = "of_nat (now - tk_last b) :: rat"
  have d: "rnd ?d = ?d" using now by (intro rnd_nat [OF f(1)]) simp
  have one: "rnd 1 = 1" using rnd_nat [OF f(1), of 1] by simp
  have cap: "rnd (of_nat burst) = of_nat burst" using f by (simp add: rnd_nat)
  have t: "0 \<le> tk_tokens b" "tk_burst b = burst" "tk_fill_per_ms b = fill"
    using b by (simp_all add: bucket_ok_def)
  have "0 \<le> rnd (?d * fill)" using f(3) by (intro rnd_nonneg [OF f(1)]) simp
  moreover have "1 \<le> rnd (?d * fill)" if "1 \<le> fill * ?d"
    using rnd_mono [OF f(1) that] by (simp add: one mult.commute)
  ultimately have "1 \<le> tk_tokens b + rnd (?d * fill)" using enough(1) t(1) by linarith
  from rnd_mono [OF f(1) this] have "1 \<le> rnd (tk_tokens b + rnd (?d * fill))" by (simp add: one)
  then show ?thesis
    using t now enough(2) by (simp add: bucket_check_def bucket_refill_def Let_def d cap del: of_nat_diff)
qed

section \<open>The table under interleaved requests and evictions\<close>

datatype rate_event = CheckKey string nat | EvictIdle nat nat

fun event_time :: "rate_event \<Rightarrow> nat" where
  "event_time (CheckKey _ now) = now"
| "event_time (EvictIdle now _) = now"

fun rate_run ::
  "rounding \<Rightarrow> (string \<Rightarrow> token_bucket_spec) \<Rightarrow> string \<Rightarrow> rate_event list \<Rightarrow> rate_table \<Rightarrow> nat \<times> rate_table" where
  "rate_run rnd spec_of k [] table = (0, table)"
| "rate_run rnd spec_of k (CheckKey key now # evs) table =
     (case check_bucket rnd table key (spec_of key) now of
        (granted, table') \<Rightarrow>
          (case rate_run rnd spec_of k evs table' of
             (n, t) \<Rightarrow> (if granted \<and> key = k then Suc n else n, t)))"
| "rate_run rnd spec_of k (EvictIdle now idle_ms # evs) table =
     rate_run rnd spec_of k evs (snd (ratelimit_evict now idle_ms table))"

fun checks_of :: "string \<Rightarrow> rate_event list \<Rightarrow> nat" where
  "checks_of k [] = 0"
| "checks_of k (CheckKey key now # evs) = (if key = k then 1 else 0) + checks_of k evs"
| "checks_of k (EvictIdle now idle_ms # evs) = checks_of k evs"

definition fill_of :: "rounding \<Rightarrow> token_bucket_spec \<Rightarrow> rat" where
  "fill_of rnd spec = rnd (tb_rps spec / 1000)"

text \<open>
  An eviction forgets nothing when a bucket refills within the idle time; the evictions that come
  too early for a bucket are counted.
\<close>

fun early_evictions :: "rat \<Rightarrow> nat \<Rightarrow> rate_event list \<Rightarrow> nat" where
  "early_evictions fill burst [] = 0"
| "early_evictions fill burst (CheckKey key now # evs) = early_evictions fill burst evs"
| "early_evictions fill burst (EvictIdle now idle_ms # evs) =
     (if of_nat burst \<le> fill * of_nat idle_ms then 0 else 1) + early_evictions fill burst evs"

definition table_ok :: "rounding \<Rightarrow> token_bucket_spec \<Rightarrow> string \<Rightarrow> nat \<Rightarrow> rate_table \<Rightarrow> bool" where
  "table_ok rnd spec k t table \<longleftrightarrow> hm_wf table \<and>
     (case hm_get table k of
        None \<Rightarrow> True
      | Some e \<Rightarrow> re_spec_rps e = tb_rps spec \<and> re_spec_burst e = tb_burst spec \<and>
          bucket_ok (tb_burst spec) (fill_of rnd spec) (re_bucket e) \<and>
          re_last_active_ms e = tk_last (re_bucket e) \<and> tk_last (re_bucket e) \<le> t)"

definition potential :: "token_bucket_spec \<Rightarrow> string \<Rightarrow> nat \<Rightarrow> rate_table \<Rightarrow> rat" where
  "potential spec k t table =
     (case hm_get table k of None \<Rightarrow> of_nat (tb_burst spec) | Some e \<Rightarrow> level t (re_bucket e))"

definition rates_ok :: "rounding \<Rightarrow> rat \<Rightarrow> rat \<Rightarrow> token_bucket_spec \<Rightarrow> bool" where
  "rates_ok rnd \<delta> limit spec \<longleftrightarrow> f64_rounding rnd \<delta> limit \<and> 2 * of_nat (tb_burst spec) + \<delta> \<le> limit \<and>
     tb_burst spec < 9007199254740992 \<and> 0 \<le> tb_rps spec"

lemma fill_nonneg: "rates_ok rnd \<delta> limit spec \<Longrightarrow> 0 \<le> fill_of rnd spec"
  by (auto simp: rates_ok_def fill_of_def intro: rnd_nonneg)

lemma seed_ok:
  "rates_ok rnd \<delta> limit spec \<Longrightarrow> bucket_ok (tb_burst spec) (fill_of rnd spec) (bucket_new rnd (tb_burst spec) (tb_rps spec))"
  by (auto simp: rates_ok_def bucket_ok_def bucket_new_def fill_of_def rnd_nat)

lemma seed_level:
  "rates_ok rnd \<delta> limit spec \<Longrightarrow> level now (bucket_new rnd (tb_burst spec) (tb_rps spec)) = of_nat (tb_burst spec)"
  using fill_nonneg [of rnd \<delta> limit spec]
  by (auto simp: rates_ok_def level_def bucket_new_def fill_of_def rnd_nat min_def)

lemma level_mono: "0 \<le> tk_fill_per_ms b \<Longrightarrow> t \<le> now \<Longrightarrow> level now b \<le> level t b + tk_fill_per_ms b * of_nat (now - t)"
proof -
  assume f: "0 \<le> tk_fill_per_ms b" and t: "t \<le> now"
  have "now - tk_last b \<le> (t - tk_last b) + (now - t)" by simp
  then have "(of_nat (now - tk_last b) :: rat) \<le> of_nat (t - tk_last b) + of_nat (now - t)"
    by (simp flip: of_nat_add del: of_nat_diff)
  from mult_left_mono [OF this f]
  have "tk_fill_per_ms b * of_nat (now - tk_last b) \<le> tk_fill_per_ms b * of_nat (t - tk_last b) + tk_fill_per_ms b * of_nat (now - t)"
    by (simp add: ring_distribs del: of_nat_diff)
  moreover have "0 \<le> tk_fill_per_ms b * of_nat (now - t)" using f by simp
  ultimately show ?thesis unfolding level_def by linarith
qed

lemma potential_mono:
  assumes "rates_ok rnd \<delta> limit spec" "table_ok rnd spec k t table" "t \<le> now"
  shows "potential spec k now table \<le> potential spec k t table + fill_of rnd spec * of_nat (now - t)"
proof (cases "hm_get table k")
  case None
  then show ?thesis using fill_nonneg [OF assms(1)] by (simp add: potential_def)
next
  case (Some e)
  then have "tk_fill_per_ms (re_bucket e) = fill_of rnd spec" using assms(2) by (simp add: table_ok_def bucket_ok_def)
  then show ?thesis using level_mono [of "re_bucket e" t now] fill_nonneg [OF assms(1)] assms(3) Some
    by (simp add: potential_def)
qed

lemma entry_after_check:
  assumes r: "rates_ok rnd \<delta> limit spec" and t: "table_ok rnd spec k t table" "t \<le> now"
    and k: "k \<noteq> []" and c: "check_bucket rnd table k spec now = (granted, table')"
  obtains b e where "bucket_ok (tb_burst spec) (fill_of rnd spec) b" "tk_last b \<le> now"
    "level now b = potential spec k now table"
    "bucket_check rnd now b = (granted, re_bucket e)" "table' = hm_insert k e table"
    "re_spec_rps e = tb_rps spec" "re_spec_burst e = tb_burst spec" "re_last_active_ms e = now"
    "b = (case hm_get table k of None \<Rightarrow> bucket_new rnd (tb_burst spec) (tb_rps spec) | Some e \<Rightarrow> re_bucket e)"
proof (cases "hm_get table k")
  case None
  let ?s = "entry_seed rnd spec now"
  let ?b = "bucket_new rnd (tb_burst spec) (tb_rps spec)"
  obtain b' where b': "bucket_check rnd now ?b = (granted, b')" "table' = hm_insert k (?s\<lparr>re_bucket := b'\<rparr>) table"
    using c k None by (auto simp: check_bucket_def entry_seed_def entry_reset_def Let_def split: prod.splits)
  show ?thesis
  proof (rule that [of ?b "?s\<lparr>re_bucket := b'\<rparr>"])
    show "tk_last ?b \<le> now" by (simp add: bucket_new_def)
  qed (use b' None seed_ok [OF r] seed_level [OF r, of now] in \<open>simp_all add: entry_seed_def potential_def\<close>)
next
  case (Some e)
  have reset: "entry_reset rnd spec e = e" using t Some by (simp add: entry_reset_def table_ok_def)
  obtain b' where b': "bucket_check rnd now (re_bucket e) = (granted, b')"
      "table' = hm_insert k (e\<lparr>re_last_active_ms := now, re_bucket := b'\<rparr>) table"
    using c k Some by (auto simp: check_bucket_def reset Let_def split: prod.splits)
  show ?thesis
    by (rule that [of "re_bucket e" "e\<lparr>re_last_active_ms := now, re_bucket := b'\<rparr>"])
       (use b' Some t in \<open>simp_all add: table_ok_def potential_def\<close>)
qed

lemma check_other_key:
  "key \<noteq> k \<Longrightarrow> check_bucket rnd table key spec now = (granted, table') \<Longrightarrow>
     hm_get table' k = hm_get table k \<and> (hm_wf table \<longrightarrow> hm_wf table')"
  by (auto simp: check_bucket_def Let_def hm.get_insert hm.wf_insert split: if_splits prod.splits)

lemma check_step:
  assumes r: "rates_ok rnd \<delta> limit (spec_of k)" and t: "table_ok rnd (spec_of k) k t table" "t \<le> now" "now < 9007199254740992"
    and k: "k \<noteq> []" and c: "check_bucket rnd table key (spec_of key) now = (granted, table')"
  shows "table_ok rnd (spec_of k) k now table' \<and>
    potential (spec_of k) k now table' + (if granted \<and> key = k then 1 else 0)
      \<le> potential (spec_of k) k now table + (if key = k then 3 * \<delta> else 0)"
proof (cases "key = k")
  case True
  obtain b e where b: "bucket_ok (tb_burst (spec_of k)) (fill_of rnd (spec_of k)) b" "tk_last b \<le> now"
      "level now b = potential (spec_of k) k now table" "bucket_check rnd now b = (granted, re_bucket e)"
      "table' = hm_insert k e table"
    and e: "re_spec_rps e = tb_rps (spec_of k)" "re_spec_burst e = tb_burst (spec_of k)" "re_last_active_ms e = now"
    using entry_after_check [OF r t(1,2) k c [unfolded True]] by metis
  have f: "f64_rounding rnd \<delta> limit" "2 * of_nat (tb_burst (spec_of k)) + \<delta> \<le> limit"
    "tb_burst (spec_of k) < 9007199254740992" "0 \<le> fill_of rnd (spec_of k)"
    using r fill_nonneg [OF r] by (simp_all add: rates_ok_def)
  have ok: "bucket_ok (tb_burst (spec_of k)) (fill_of rnd (spec_of k)) (re_bucket e)" "tk_last (re_bucket e) = now"
    using bucket_check_ok [OF f(1,3,4) b(1), of now] bucket_check_last [OF b(2), of rnd] b(4) by simp_all
  have lv: "level now (re_bucket e) \<le> tk_tokens (re_bucket e)" by (simp add: level_def ok(2))
  have "tk_tokens (re_bucket e) + (if granted then 1 else 0) \<le> potential (spec_of k) k now table + 3 * \<delta>"
    using bucket_check_level [OF f(1-4) b(1,2) t(3)] b(3,4) by simp
  with lv have "level now (re_bucket e) + (if granted then 1 else 0) \<le> potential (spec_of k) k now table + 3 * \<delta>"
    by linarith
  then show ?thesis using True t(1) e ok b(5)
    by (auto simp: table_ok_def potential_def hm.get_insert hm.wf_insert)
next
  case False
  then show ?thesis using check_other_key [OF False c] t
    by (auto simp: table_ok_def potential_def split: option.splits)
qed

lemma evict_step:
  assumes r: "rates_ok rnd \<delta> limit spec" and t: "table_ok rnd spec k t table" "t \<le> now"
    and idle: "of_nat (tb_burst spec) \<le> fill_of rnd spec * of_nat idle_ms"
  shows "table_ok rnd spec k now (snd (ratelimit_evict now idle_ms table)) \<and>
    potential spec k now (snd (ratelimit_evict now idle_ms table)) = potential spec k now table"
proof -
  let ?P = "\<lambda>_ e. re_last_active_ms e \<ge> now - idle_ms"
  have wf: "hm_wf table" using t(1) by (simp add: table_ok_def)
  note get = hm.get_retain [OF wf, of ?P k]
  have full: "level now (re_bucket e) = of_nat (tb_burst spec)"
    if e: "hm_get table k = Some e" "\<not> ?P k e" for e
  proof -
    have b: "bucket_ok (tb_burst spec) (fill_of rnd spec) (re_bucket e)" "idle_ms \<le> now - tk_last (re_bucket e)"
      using t(1) e by (auto simp: table_ok_def)
    have "fill_of rnd spec * of_nat idle_ms \<le> fill_of rnd spec * of_nat (now - tk_last (re_bucket e))"
      using b(2) fill_nonneg [OF r] by (intro mult_left_mono) simp_all
    with idle have "of_nat (tb_burst spec) \<le> tk_tokens (re_bucket e) + fill_of rnd spec * of_nat (now - tk_last (re_bucket e))"
      using b(1) unfolding bucket_ok_def by linarith
    then show ?thesis using b(1) by (simp add: level_def bucket_ok_def)
  qed
  have wf': "hm_wf (snd (ratelimit_evict now idle_ms table))"
    using wf by (simp add: ratelimit_evict_def Let_def hm.wf_retain)
  have get': "hm_get (snd (ratelimit_evict now idle_ms table)) k =
      (case hm_get table k of None \<Rightarrow> None | Some v \<Rightarrow> if ?P k v then Some v else None)"
    using get by (simp add: ratelimit_evict_def Let_def)
  show ?thesis
    using wf' full t by (auto simp: table_ok_def potential_def get' split: option.splits)
qed

lemma potential_nonneg:
  assumes "rates_ok rnd \<delta> limit spec" "table_ok rnd spec k t table" shows "0 \<le> potential spec k t table"
  using assms fill_nonneg [OF assms(1)]
  by (auto simp: potential_def table_ok_def bucket_ok_def level_def split: option.splits simp del: of_nat_diff
      intro!: add_nonneg_nonneg mult_nonneg_nonneg)

text \<open>An early eviction gives at most a full bucket.\<close>

lemma early_evict_step:
  assumes r: "rates_ok rnd \<delta> limit spec" and t: "table_ok rnd spec k t table" "t \<le> now"
  shows "table_ok rnd spec k now (snd (ratelimit_evict now idle_ms table)) \<and>
    potential spec k now (snd (ratelimit_evict now idle_ms table)) \<le> potential spec k now table +
      of_nat (tb_burst spec) * (if of_nat (tb_burst spec) \<le> fill_of rnd spec * of_nat idle_ms then 0 else 1)"
proof (cases "of_nat (tb_burst spec) \<le> fill_of rnd spec * of_nat idle_ms")
  case True
  then show ?thesis using evict_step [OF r t True] by simp
next
  case False
  let ?P = "\<lambda>_ e. re_last_active_ms e \<ge> now - idle_ms"
  have wf: "hm_wf table" and now: "table_ok rnd spec k now table"
    using t by (auto simp: table_ok_def split: option.splits)
  have get: "hm_get (snd (ratelimit_evict now idle_ms table)) k =
      (case hm_get table k of None \<Rightarrow> None | Some v \<Rightarrow> if ?P k v then Some v else None)"
    using hm.get_retain [OF wf, of ?P k] by (simp add: ratelimit_evict_def Let_def)
  have "table_ok rnd spec k now (snd (ratelimit_evict now idle_ms table))"
    using now get wf by (auto simp: table_ok_def ratelimit_evict_def Let_def hm.wf_retain split: option.splits)
  moreover have "potential spec k now (snd (ratelimit_evict now idle_ms table)) \<le> potential spec k now table + of_nat (tb_burst spec)"
    using potential_nonneg [OF r now] by (auto simp: potential_def get split: option.splits)
  ultimately show ?thesis using False by simp
qed

lemma rate_run_bound:
  assumes r: "rates_ok rnd \<delta> limit (spec_of k)" and k: "k \<noteq> []"
  shows "\<lbrakk>table_ok rnd (spec_of k) k t table; sorted (t # map event_time evs); \<forall>e \<in> set evs. event_time e \<le> u;
      t \<le> u; u < 9007199254740992\<rbrakk> \<Longrightarrow>
    table_ok rnd (spec_of k) k u (snd (rate_run rnd spec_of k evs table)) \<and>
    of_nat (fst (rate_run rnd spec_of k evs table)) + potential (spec_of k) k u (snd (rate_run rnd spec_of k evs table))
      \<le> potential (spec_of k) k t table + fill_of rnd (spec_of k) * of_nat (u - t) + 3 * \<delta> * of_nat (checks_of k evs) +
        of_nat (tb_burst (spec_of k)) * of_nat (early_evictions (fill_of rnd (spec_of k)) (tb_burst (spec_of k)) evs)"
proof (induction evs arbitrary: t table)
  case Nil
  have "table_ok rnd (spec_of k) k u table" using Nil by (auto simp: table_ok_def split: option.splits)
  then show ?case using potential_mono [OF r Nil(1,4)] by simp
next
  case (Cons e evs)
  let ?f = "fill_of rnd (spec_of k)" and ?n = "event_time e"
  have tn: "t \<le> ?n" "?n \<le> u" "sorted (?n # map event_time evs)" using Cons.prems(2,3) by auto
  have pm: "potential (spec_of k) k ?n table \<le> potential (spec_of k) k t table + ?f * of_nat (?n - t)"
    by (rule potential_mono [OF r Cons.prems(1) tn(1)])
  have time: "?f * of_nat (?n - t) + ?f * of_nat (u - ?n) = ?f * of_nat (u - t)"
    using tn by (simp flip: distrib_left)
  let ?b = "of_nat (tb_burst (spec_of k)) :: rat" and ?early = "early_evictions ?f (tb_burst (spec_of k))"
  have rest: "\<forall>e \<in> set evs. event_time e \<le> u" using Cons.prems(3) by simp
  show ?case
  proof (cases e)
    case (CheckKey key now)
    obtain granted table' where c: "check_bucket rnd table key (spec_of key) now = (granted, table')" by fastforce
    obtain n t' where run: "rate_run rnd spec_of k evs table' = (n, t')" by fastforce
    have "now < 9007199254740992" using tn(2) Cons.prems(5) CheckKey by simp
    note step = check_step [OF r Cons.prems(1) tn(1) [unfolded CheckKey event_time.simps] this k c]
    have "table_ok rnd (spec_of k) k u t' \<and> of_nat n + potential (spec_of k) k u t'
        \<le> potential (spec_of k) k now table' + ?f * of_nat (u - now) + 3 * \<delta> * of_nat (checks_of k evs) + ?b * of_nat (?early evs)"
      using Cons.IH [of now table'] step tn rest Cons.prems(5) CheckKey run by simp
    then show ?thesis
      using step pm time CheckKey c run by (auto simp: algebra_simps split: if_splits)
  next
    case (EvictIdle now idle_ms)
    note step = early_evict_step [OF r Cons.prems(1) tn(1) [unfolded EvictIdle event_time.simps], of idle_ms]
    have "table_ok rnd (spec_of k) k u (snd (rate_run rnd spec_of k (e # evs) table)) \<and>
      of_nat (fst (rate_run rnd spec_of k (e # evs) table)) + potential (spec_of k) k u (snd (rate_run rnd spec_of k (e # evs) table))
        \<le> potential (spec_of k) k now (snd (ratelimit_evict now idle_ms table)) + ?f * of_nat (u - now) +
          3 * \<delta> * of_nat (checks_of k evs) + ?b * of_nat (?early evs)"
      using Cons.IH [of now "snd (ratelimit_evict now idle_ms table)"] step tn rest Cons.prems(5) EvictIdle by simp
    moreover have "?b * of_nat (?early (e # evs)) = ?b * (if ?b \<le> ?f * of_nat idle_ms then 0 else 1) + ?b * of_nat (?early evs)"
      using EvictIdle by (simp add: algebra_simps)
    ultimately show ?thesis using step pm time EvictIdle by simp
  qed
qed


text \<open>
  Property C37. A throttled key recovers: after any interleaving of requests and evictions, whatever
  their idle times, a request of a key whose burst is at least one token is granted as soon as the time
  since the last event fills one token.
\<close>

theorem throttled_key_recovers:
  assumes "rates_ok rnd \<delta> limit (spec_of k)" "sorted (t # map event_time evs)"
    and "\<forall>e \<in> set evs. event_time e \<le> u" "t \<le> u"
    and "1 \<le> tb_burst (spec_of k)" "u \<le> now" "now < 9007199254740992"
    and "1 \<le> fill_of rnd (spec_of k) * of_nat (now - u)"
  shows "fst (check_bucket rnd (snd (rate_run rnd spec_of k evs [])) k (spec_of k) now)"
proof (cases "k = []")
  case True
  then show ?thesis by (simp add: check_bucket_def)
next
  case False
  let ?s = "snd (rate_run rnd spec_of k evs [])"
  obtain granted table' where c: "check_bucket rnd ?s k (spec_of k) now = (granted, table')" by fastforce
  have u: "u < 9007199254740992" using assms(6,7) by simp
  have "table_ok rnd (spec_of k) k t []" by (simp add: table_ok_def hm.get_empty hm.wf_empty)
  from rate_run_bound [where spec_of = spec_of and k = k, OF assms(1) False this assms(2-4) u]
  have ok: "table_ok rnd (spec_of k) k u ?s" by blast
  obtain b and e :: rate_limit_entry where b: "bucket_ok (tb_burst (spec_of k)) (fill_of rnd (spec_of k)) b" "tk_last b \<le> now"
      "bucket_check rnd now b = (granted, re_bucket e)"
      "b = (case hm_get ?s k of None \<Rightarrow> bucket_new rnd (tb_burst (spec_of k)) (tb_rps (spec_of k)) | Some e \<Rightarrow> re_bucket e)"
    by (rule entry_after_check [OF assms(1) ok assms(6) False c]) (rule that)
  have f: "f64_rounding rnd \<delta> limit" "tb_burst (spec_of k) < 9007199254740992" "0 \<le> fill_of rnd (spec_of k)"
    using assms(1) fill_nonneg [OF assms(1)] by (simp_all add: rates_ok_def)
  have "1 \<le> tk_tokens b \<or> 1 \<le> fill_of rnd (spec_of k) * of_nat (now - tk_last b)"
  proof (cases "hm_get ?s k")
    case None
    then show ?thesis using b(4) f assms(5) by (simp add: bucket_new_def rnd_nat)
  next
    case (Some e)
    then have "now - u \<le> now - tk_last b" using ok b(4) by (simp add: table_ok_def diff_le_mono2)
    then have "fill_of rnd (spec_of k) * of_nat (now - u) \<le> fill_of rnd (spec_of k) * of_nat (now - tk_last b)"
      using f(3) by (intro mult_left_mono) simp_all
    then show ?thesis using assms(8) by linarith
  qed
  from bucket_check_grants [OF f b(1,2) assms(7) this assms(5)] show ?thesis by (simp add: c b(3))
qed

text \<open>In exact arithmetic the \<open>Retry-After\<close> of a denial is long enough for one token.\<close>

lemma retry_after_fills_token:
  assumes "0 < tb_rps spec" "1 / tb_rps spec \<le> of_nat u64_max"
  shows "1 \<le> fill_of (\<lambda>x. x) spec * of_nat (1000 * retry_after_secs (\<lambda>x. x) spec)"
proof -
  let ?q = "1 / tb_rps spec"
  have "\<lceil>?q\<rceil> \<le> int u64_max" using assms(2) by (simp add: ceiling_le_iff)
  then have "retry_after_secs (\<lambda>x. x) spec = nat (max \<lceil>?q\<rceil> 1)"
    using assms(1) by (simp add: retry_after_secs_def u64_max_def min_def nat_le_iff)
  moreover have "?q \<le> of_nat (nat (max \<lceil>?q\<rceil> 1))"
    using le_of_int_ceiling [of ?q] by (simp add: max_def)
  ultimately have "?q * tb_rps spec \<le> of_nat (retry_after_secs (\<lambda>x. x) spec) * tb_rps spec"
    using assms(1) by (intro mult_right_mono) simp_all
  then show ?thesis using assms(1) by (simp add: fill_of_def mult.commute)
qed

section \<open>Witnesses\<close>

definition demo_spec :: token_bucket_spec where
  "demo_spec = \<lparr>tb_rps = 1 / 1000, tb_burst = 2\<rparr>"

definition quick_spec :: token_bucket_spec where
  "quick_spec = \<lparr>tb_rps = 10, tb_burst = 2\<rparr>"

lemma exact_rates: "rates_ok (\<lambda>x. x) 0 10 demo_spec" "rates_ok (\<lambda>x. x) 0 10 quick_spec"
  by (simp_all add: rates_ok_def f64_rounding_def demo_spec_def quick_spec_def)

definition demo_events :: "rate_event list" where
  "demo_events = [CheckKey ''ip:a'' 1000000, CheckKey ''ip:b'' 1000000, CheckKey ''ip:a'' 1000010,
     CheckKey ''ip:a'' 1000020, EvictIdle 1000030 300000]"


theorem throttled_key_recovers_witness:
  "fst (check_bucket (\<lambda>x. x) (snd (rate_run (\<lambda>x. x) (\<lambda>_. quick_spec) ''ip:a'' demo_events [])) ''ip:a'' quick_spec 1000130)"
  by (rule throttled_key_recovers [where \<delta> = 0 and limit = 10 and spec_of = "\<lambda>_. quick_spec" and t = 1000000 and u = 1000030,
        OF exact_rates(2)])
     (simp_all add: demo_events_def fill_of_def quick_spec_def)

text \<open>
  The burst of an early eviction is real: after the five idle minutes of the eviction task a bucket
  that needs longer to refill is full again, and four requests pass where the rate allows three.
\<close>

lemma eviction_refills_bucket:
  "fst (rate_run (\<lambda>x. x) (\<lambda>_. demo_spec) ''ip:a''
     [CheckKey ''ip:a'' 5000000, CheckKey ''ip:a'' 5000000, EvictIdle 5300001 300000,
      CheckKey ''ip:a'' 5300001, CheckKey ''ip:a'' 5300001] []) = 4 \<and>
   of_nat (tb_burst demo_spec) + fill_of (\<lambda>x. x) demo_spec * of_nat (5300001 - 5000000) < (3 :: rat)"
  by (simp add: check_bucket_def entry_seed_def entry_reset_def bucket_new_def bucket_check_def bucket_refill_def
      demo_spec_def hm_get_def hm_insert_def hm_retain_def ratelimit_evict_def fill_of_def Let_def min_def)

end
