(* ===== verification/Proxy_Io.thy ===== *)
theory Proxy_Io
  imports Prepare Usage
begin

text \<open>
  What \<open>hygress-gateway/src/pipe.rs\<close> does at its edges: reading the head and the body of a request,
  copying headers, framing a response, the error documents, and the attribution of a usage row.

  \<open>http::HeaderMap\<close> is the list of its lower-case names and byte values; \<open>HeaderValue::to_str\<close> is
  the parameter \<open>to_str\<close>. A body arrives as the list of results of its reads.
\<close>

section \<open>Reading a request\<close>

record session_head =
  sh_method :: string
  sh_path :: string
  sh_query :: "string option"
  sh_headers :: "(string \<times> bytes) list"

record inbound_head =
  ih_method :: string
  ih_path :: string
  ih_query :: string
  ih_host :: string
  ih_content_type :: string
  ih_client_ip :: string
  ih_content_length :: "nat option"

type_synonym to_str = "bytes \<Rightarrow> string option"

definition raw_header :: "to_str \<Rightarrow> (string \<times> bytes) list \<Rightarrow> string \<Rightarrow> string option" where
  "raw_header to_str hs name = Option.bind (map_option snd (find (\<lambda>h. fst h = name) hs)) to_str"

definition unwrap_or_empty :: "string option \<Rightarrow> string" where
  "unwrap_or_empty x = (case x of Some s \<Rightarrow> s | None \<Rightarrow> [])"

definition first_forwarded :: "string \<Rightarrow> string option" where
  "first_forwarded v = (let s = trim (hd (split_on (CHR '','') v)) in if s = [] then None else Some s)"

definition read_headers :: "to_str \<Rightarrow> session_head \<Rightarrow> inbound_head" where
  "read_headers to_str req =
     \<lparr>ih_method = sh_method req, ih_path = sh_path req, ih_query = unwrap_or_empty (sh_query req),
      ih_host = unwrap_or_empty (raw_header to_str (sh_headers req) ''host''),
      ih_content_type = unwrap_or_empty (raw_header to_str (sh_headers req) ''content-type''),
      ih_client_ip = unwrap_or_empty (or_else (raw_header to_str (sh_headers req) ''x-real-ip'')
        (Option.bind (raw_header to_str (sh_headers req) ''x-forwarded-for'') first_forwarded)),
      ih_content_length = Option.bind (raw_header to_str (sh_headers req) ''content-length'') (parse_uint u64_max)\<rparr>"

definition utf8_header_value :: "to_str \<Rightarrow> string \<times> bytes \<Rightarrow> (string \<times> string) option" where
  "utf8_header_value to_str h = map_option (\<lambda>v. (fst h, v)) (to_str (snd h))"

definition copy_headers_excluding :: "(string \<times> string) list \<Rightarrow> string list \<Rightarrow> (string \<times> string) list" where
  "copy_headers_excluding pairs skip = filter (\<lambda>(name, _). \<not> list_ex (\<lambda>s. eq_ignore_ascii_case name s) skip) pairs"

definition hdr_path :: string where [simp]: "hdr_path = '':path''"

definition materialize_headers :: "to_str \<Rightarrow> session_head \<Rightarrow> string \<Rightarrow> header_map" where
  "materialize_headers to_str req path =
     header_insert hdr_path path
       (foldl (\<lambda>h (name, value). header_append name value h) []
          (copy_headers_excluding (List.map_filter (utf8_header_value to_str) (sh_headers req)) []))"

datatype body_read_step = BodyEnd | BodyChunk | CapExceeded | ReadStepFailed

type_synonym read_result = "string + bytes option"

definition body_read_step :: "nat \<Rightarrow> nat \<Rightarrow> read_result \<Rightarrow> body_read_step" where
  "body_read_step buf_len max_body step =
     (case step of
        Inr None \<Rightarrow> BodyEnd
      | Inl _ \<Rightarrow> ReadStepFailed
      | Inr (Some chunk) \<Rightarrow> if buf_len + length chunk > max_body then CapExceeded else BodyChunk)"

fun read_body_loop :: "nat \<Rightarrow> bytes \<Rightarrow> read_result list \<Rightarrow> gateway_error + bytes" where
  "read_body_loop max_body buf [] = Inr buf"
| "read_body_loop max_body buf (step # steps) =
     (case body_read_step (length buf) max_body step of
        BodyEnd \<Rightarrow> Inr buf
      | BodyChunk \<Rightarrow>
          read_body_loop max_body (case step of Inr (Some chunk) \<Rightarrow> buf @ chunk | _ \<Rightarrow> buf) steps
      | CapExceeded \<Rightarrow>
          Inl (BodyTooLarge (case step of Inr (Some chunk) \<Rightarrow> length buf + length chunk | _ \<Rightarrow> length buf) max_body)
      | ReadStepFailed \<Rightarrow> Inl (BodyReadAborted (case step of Inl e \<Rightarrow> e | _ \<Rightarrow> [])))"

definition has_body_method :: "string \<Rightarrow> bool" where
  "has_body_method m \<longleftrightarrow> m \<in> {''POST'', ''PUT'', ''PATCH''}"

definition read_body :: "string \<Rightarrow> nat \<Rightarrow> read_result list \<Rightarrow> gateway_error + bytes option" where
  "read_body method max_body steps =
     (case (if has_body_method method then read_body_loop max_body [] steps else Inr []) of
        Inl e \<Rightarrow> Inl e
      | Inr buf \<Rightarrow> Inr (if buf = [] then None else Some buf))"

definition inbound_of :: "to_str \<Rightarrow> session_head \<Rightarrow> bytes option \<Rightarrow> inbound_request" where
  "inbound_of to_str req body =
     (let head = read_headers to_str req in
      \<lparr>ib_method = ih_method head, ib_path = ih_path head, ib_query = ih_query head,
       ib_headers = materialize_headers to_str req (ih_path head),
       ib_body = (case body of Some b \<Rightarrow> b | None \<Rightarrow> []), ib_content_type = ih_content_type head,
       ib_client_ip = ih_client_ip head, ib_host = ih_host head\<rparr>)"

text \<open>The reads up to the first one that is no chunk.\<close>

fun read_chunks :: "read_result list \<Rightarrow> bytes list \<times> read_result list" where
  "read_chunks (Inr (Some c) # steps) = (case read_chunks steps of (cs, rest) \<Rightarrow> (c # cs, rest))"
| "read_chunks steps = ([], steps)"

definition read_outcome :: "nat \<Rightarrow> bytes \<Rightarrow> read_result list \<Rightarrow> gateway_error + bytes" where
  "read_outcome max_body buf steps =
     (case read_chunks steps of
        (cs, rest) \<Rightarrow>
          (case find (\<lambda>k. length buf + length (concat (take k cs)) > max_body) [1..<Suc (length cs)] of
             Some k \<Rightarrow> Inl (BodyTooLarge (length buf + length (concat (take k cs))) max_body)
           | None \<Rightarrow>
               (case rest of Inl e # _ \<Rightarrow> Inl (BodyReadAborted e) | _ \<Rightarrow> Inr (buf @ concat cs))))"

lemma find_upt_Suc:
  "find P [Suc 0..<Suc (Suc n)] =
     (if P (Suc 0) then Some (Suc 0) else map_option Suc (find (\<lambda>k. P (Suc k)) [Suc 0..<Suc n]))"
proof -
  have "[Suc 0..<Suc (Suc n)] = Suc 0 # map Suc [Suc 0..<Suc n]" by (simp add: upt_conv_Cons map_Suc_upt del: upt_Suc)
  moreover have "find P (map Suc xs) = map_option Suc (find (\<lambda>k. P (Suc k)) xs)" for xs
    by (induction xs) auto
  ultimately show ?thesis by simp
qed

lemma read_body_loop_outcome: "read_body_loop max_body buf steps = read_outcome max_body buf steps"
proof (induction max_body buf steps rule: read_body_loop.induct)
  case (1 max_body buf)
  then show ?case by (simp add: read_outcome_def)
next
  case (2 max_body buf step steps)
  show ?case
  proof (cases step)
    case (Inl e)
    then show ?thesis by (simp add: body_read_step_def read_outcome_def)
  next
    case (Inr r)
    show ?thesis
    proof (cases r)
      case None
      then show ?thesis using Inr by (simp add: body_read_step_def read_outcome_def)
    next
      case (Some c)
      obtain cs rest where rc: "read_chunks steps = (cs, rest)" by fastforce
      then have rc': "read_chunks (step # steps) = (c # cs, rest)" using Inr Some by simp
      show ?thesis
      proof (cases "length buf + length c > max_body")
        case True
        then show ?thesis using Inr Some rc'
          by (simp add: body_read_step_def read_outcome_def find_upt_Suc del: upt_Suc)
      next
        case False
        then have "body_read_step (length buf) max_body step = BodyChunk"
          using Inr Some by (simp add: body_read_step_def)
        then have "read_body_loop max_body buf (step # steps) = read_outcome max_body (buf @ c) steps"
          using "2.IH" Inr Some by simp
        also have "\<dots> = read_outcome max_body buf (step # steps)"
          using False rc rc'
          by (auto simp: read_outcome_def find_upt_Suc add.assoc simp del: upt_Suc
                split: option.splits list.splits sum.splits)
        finally show ?thesis .
      qed
    qed
  qed
qed

section \<open>Responses\<close>

definition in_range :: "nat \<Rightarrow> nat \<Rightarrow> nat \<Rightarrow> bool" where
  "in_range lo hi n \<longleftrightarrow> lo \<le> n \<and> n \<le> hi"

definition response_framing :: "nat \<Rightarrow> nat option \<Rightarrow> nat option \<Rightarrow> (string \<times> string) option" where
  "response_framing status known_len upstream_cl =
     (if in_range 100 199 status \<or> status = 204 \<or> status = 304 then None
      else case or_else known_len upstream_cl of
             Some len \<Rightarrow> Some (''content-length'', dec_of_nat len)
           | None \<Rightarrow> Some (''transfer-encoding'', ''chunked''))"

definition json_escape_char :: "char \<Rightarrow> string" where
  "json_escape_char c =
     (if c = CHR 0x5C then [CHR 0x5C, CHR 0x5C] else if c = CHR 0x22 then [CHR 0x5C, CHR 0x22] else [c])"

definition json_escape :: "string \<Rightarrow> string" where
  "json_escape s = concat (map json_escape_char s)"

text \<open>A response header under construction: \<open>insert_header\<close> replaces, \<open>append_header\<close> adds.\<close>

record response_head =
  rh_status :: nat
  rh_headers :: header_map

definition frame :: "(string \<times> string) option \<Rightarrow> header_map \<Rightarrow> header_map" where
  "frame framing h = (case framing of Some (name, value) \<Rightarrow> header_append name value h | None \<Rightarrow> h)"

definition error_body :: "string \<Rightarrow> string \<Rightarrow> bytes" where
  "error_body err_type message =
     CHR ''{'' # dquoted ''error'' @ '':{'' @ dquoted ''message'' @ CHR '':'' # dquoted (json_escape message) @
     CHR '','' # dquoted ''type'' @ CHR '':'' # dquoted (json_escape err_type) @ ''}}''"

definition error_head :: "nat \<Rightarrow> bytes \<Rightarrow> header_map \<Rightarrow> response_head" where
  "error_head status body extra =
     (let base = header_insert ''content-type'' ''application/json; charset=utf-8'' [];
          pairs = List.map_filter (\<lambda>name. map_option (\<lambda>v. (name, v)) (header_get extra name)) (header_names extra);
          headers = foldl (\<lambda>h (name, v). header_insert name v h) base pairs
      in \<lparr>rh_status = status, rh_headers = frame (response_framing status (Some (length body)) None) headers\<rparr>)"

definition response_strip :: "string list" where
  "response_strip = [''server'', ''via'', ''transfer-encoding'', ''content-length'', ''connection'']"

definition content_length_of :: "to_str \<Rightarrow> (string \<times> bytes) list \<Rightarrow> nat option" where
  "content_length_of to_str hs = Option.bind (raw_header to_str hs ''content-length'') (parse_uint u64_max)"

definition response_is_usage_bearing :: "to_str \<Rightarrow> bytes option \<Rightarrow> bool" where
  "response_is_usage_bearing to_str content_type =
     (case Option.bind content_type to_str of
        Some ct \<Rightarrow> (let ct = to_ascii_lowercase ct in contains_str ''json'' ct \<or> contains_str ''event-stream'' ct)
      | None \<Rightarrow> False)"

text \<open>The head of a streamed response.\<close>

definition stream_head :: "to_str \<Rightarrow> nat \<Rightarrow> (string \<times> bytes) list \<Rightarrow> response_head" where
  "stream_head to_str status hs =
     (let forwarded = copy_headers_excluding (List.map_filter (utf8_header_value to_str) hs) response_strip;
          headers = foldl (\<lambda>h (name, value). header_append name value h) [] forwarded
      in \<lparr>rh_status = status, rh_headers = frame (response_framing status None (content_length_of to_str hs)) headers\<rparr>)"

section \<open>The body of a final error response\<close>

definition error_body_read_cap :: nat where "error_body_read_cap = 262144"

fun error_body_loop :: "nat \<Rightarrow> bytes \<Rightarrow> read_result list \<Rightarrow> bytes" where
  "error_body_loop cap buf steps =
     (if length buf \<ge> cap then buf
      else case steps of
             Inr (Some c) # rest \<Rightarrow> error_body_loop cap (buf @ take (min (length c) (cap - length buf)) c) rest
           | _ \<Rightarrow> buf)"

declare error_body_loop.simps [simp del]

definition read_error_body_capped :: "to_str \<Rightarrow> (string \<times> bytes) list \<Rightarrow> read_result list \<Rightarrow> bytes" where
  "read_error_body_capped to_str hs steps =
     (case content_length_of to_str hs of
        Some d \<Rightarrow> if d > error_body_read_cap then [] else error_body_loop error_body_read_cap [] steps
      | None \<Rightarrow> error_body_loop error_body_read_cap [] steps)"

lemma error_body_loop_take:
  "length buf \<le> cap \<Longrightarrow> error_body_loop cap buf steps = take cap (buf @ concat (fst (read_chunks steps)))"
proof (induction steps arbitrary: buf)
  case Nil
  then show ?case by (subst error_body_loop.simps) simp
next
  case (Cons step steps)
  show ?case
  proof (cases "length buf \<ge> cap \<or> \<not> (\<exists>c. step = Inr (Some c))")
    case True
    then show ?thesis using Cons.prems
      by (cases step rule: sum.exhaust; subst error_body_loop.simps) (auto split: option.splits)
  next
    case False
    then obtain c where c: "step = Inr (Some c)" and l: "length buf < cap" by auto
    let ?b = "buf @ take (min (length c) (cap - length buf)) c"
    have "error_body_loop cap buf (step # steps) = error_body_loop cap ?b steps"
      using c l by (subst error_body_loop.simps) simp
    also have "\<dots> = take cap (?b @ concat (fst (read_chunks steps)))" using Cons.IH l by simp
    also have "\<dots> = take cap (buf @ concat (fst (read_chunks (step # steps))))"
      using c l by (cases "length c \<le> cap - length buf") (simp_all add: case_prod_unfold)
    finally show ?thesis .
  qed
qed

section \<open>Attribution of a usage row\<close>

definition rfind_str :: "string \<Rightarrow> string \<Rightarrow> nat option" where
  "rfind_str p s = map_option (\<lambda>i. length s - i - length p) (find_str (rev p) (rev s))"

definition i64_max :: nat where "i64_max = 9223372036854775807"

definition parse_consumer :: "string \<Rightarrow> nat option \<times> string option" where
  "parse_consumer consumer =
     (if consumer = [] \<or> eq_ignore_ascii_case consumer ''none'' then (None, None)
      else case rfind_str ''.gpustack-'' consumer of
             Some i \<Rightarrow> (parse_uint u64_max (drop (i + length ''.gpustack-'') consumer), Some (take i consumer))
           | None \<Rightarrow>
               (case strip_prefix ''gpustack-'' consumer of
                  Some uid \<Rightarrow> (parse_uint u64_max uid, None)
                | None \<Rightarrow> (None, Some consumer)))"

definition parse_i64_digits :: "string \<Rightarrow> int option" where
  "parse_i64_digits s = map_option int (parse_uint i64_max s)"

definition parse_instance_ids :: "string \<Rightarrow> int option \<times> int option" where
  "parse_instance_ids service =
     (let name = last_segment (CHR ''/'') service;
          stem = hd (split_on (CHR ''.'') name) in
      case strip_prefix ''model-'' stem of
        Some rest \<Rightarrow>
          (let first = hd (split_on (CHR ''-'') rest)
           in (if first \<noteq> [] \<and> list_all is_ascii_digit first \<and> starts_with ''-'' (drop (length first) rest)
               then parse_i64_digits first else None, None))
      | None \<Rightarrow>
          (case strip_prefix ''provider-'' stem of
             Some rest \<Rightarrow>
               (let first = hd (split_on (CHR ''-'') rest)
                in (None, if first \<noteq> [] \<and> list_all is_ascii_digit first then parse_i64_digits first else None))
           | None \<Rightarrow> (None, None)))"

definition parse_model_route_id :: "string \<Rightarrow> int option" where
  "parse_model_route_id route_name =
     Option.bind (strip_prefix ''ai-route-route-'' (last_segment (CHR ''/'') route_name))
       (\<lambda>rest. parse_i64_digits (takeWhile is_ascii_digit rest))"

definition usage_fields :: "nat \<Rightarrow> usage_target \<Rightarrow> prepared_request \<Rightarrow> string \<Rightarrow> flush_fields" where
  "usage_fields now ut prepared service =
     (let (user_id, access_key) = parse_consumer (ut_mse_consumer ut);
          organization_id = (case header_get (pq_base_headers prepared) hdr_organization_id of
             Some org \<Rightarrow> org | None \<Rightarrow> ut_organization_id ut);
          (model_id, provider_id) = parse_instance_ids service
      in \<lparr>ff_model = ut_model ut, ff_user_id = user_id, ff_model_id = model_id,
          ff_model_route_id = parse_model_route_id (ut_route_name ut), ff_cluster_id = None,
          ff_provider_id = provider_id, ff_provider_name = None, ff_provider_type = None,
          ff_access_key = access_key, ff_operation = None,
          ff_organization_id = (if organization_id = [] then None else Some organization_id),
          ff_started_at_ms = Some (pq_started_at_ms prepared), ff_completed_at_ms = Some now,
          ff_request_content_bytes = length (pq_body prepared), ff_output_chunk_count = None\<rparr>)"

definition est_tokens :: "nat \<Rightarrow> nat \<Rightarrow> nat" where
  "est_tokens body_bytes k = (let k = max k 1 in (body_bytes + k - 1) div k)"

text \<open>The two forms GPUStack composes are read back.\<close>

lemma find_str_here_skip:
  "p \<noteq> [] \<Longrightarrow> hd p \<notin> set ds \<Longrightarrow> find_str p (ds @ p @ k) = Some (length ds)"
proof (induction ds)
  case Nil
  then show ?case by (cases p) (simp_all add: starts_with_def)
next
  case (Cons d ds)
  then have "\<not> starts_with p (d # ds @ p @ k)" by (cases p) (auto simp: starts_with_def)
  with Cons show ?case by simp
qed

lemma find_str_notin: "p \<noteq> [] \<Longrightarrow> hd p \<notin> set s \<Longrightarrow> find_str p s = None"
  by (induction s) (auto simp: starts_with_def neq_Nil_conv)

lemma dec_no_dash: "CHR ''-'' \<notin> set (dec_of_nat n)"
proof
  assume "CHR ''-'' \<in> set (dec_of_nat n)"
  then have "is_ascii_digit (CHR ''-'')" using dec_of_nat_digits by blast
  then show False by (simp add: is_ascii_digit_def)
qed

lemma consumer_with_key:
  assumes "uid \<le> u64_max"
  shows "parse_consumer (key @ ''.gpustack-'' @ dec_of_nat uid) = (Some uid, Some key)"
proof -
  let ?c = "key @ ''.gpustack-'' @ dec_of_nat uid"
  have "find_str (rev ''.gpustack-'') (rev ?c) =
      find_str (rev ''.gpustack-'') (rev (dec_of_nat uid) @ rev ''.gpustack-'' @ rev key)" by simp
  also have "\<dots> = Some (length (dec_of_nat uid))"
    using dec_no_dash by (subst find_str_here_skip) simp_all
  finally have r: "rfind_str ''.gpustack-'' ?c = Some (length key)" by (simp add: rfind_str_def)
  have "length (to_ascii_lowercase ?c) \<noteq> length (to_ascii_lowercase ''none'')" by simp
  then have "\<not> eq_ignore_ascii_case ?c ''none''"
    unfolding eq_ignore_ascii_case_def by metis
  then show ?thesis using assms r parse_uint_dec [OF assms]
    by (simp add: parse_consumer_def)
qed

lemma find_str_set: "find_str p s \<noteq> None \<Longrightarrow> set p \<subseteq> set s"
  by (auto simp: find_str_None_iff)

lemma consumer_without_key:
  assumes "uid \<le> u64_max"
  shows "parse_consumer (''gpustack-'' @ dec_of_nat uid) = (Some uid, None)"
proof -
  let ?c = "''gpustack-'' @ dec_of_nat uid"
  have "CHR ''.'' \<notin> set (dec_of_nat uid)"
  proof
    assume "CHR ''.'' \<in> set (dec_of_nat uid)"
    then have "is_ascii_digit (CHR ''.'')" using dec_of_nat_digits by blast
    then show False by (simp add: is_ascii_digit_def)
  qed
  then have "find_str (rev ''.gpustack-'') (rev ?c) = None"
    using find_str_set [of "rev ''.gpustack-''" "rev ?c"] by fastforce
  then have r: "rfind_str ''.gpustack-'' ?c = None" by (simp add: rfind_str_def)
  have "length (to_ascii_lowercase ?c) \<noteq> length (to_ascii_lowercase ''none'')" by simp
  then have "\<not> eq_ignore_ascii_case ?c ''none''"
    unfolding eq_ignore_ascii_case_def by metis
  then show ?thesis using assms r parse_uint_dec [OF assms] strip_prefix_append [of "''gpustack-''" "dec_of_nat uid"]
    by (simp add: parse_consumer_def)
qed

end
