(* ===== verification/Json_Value.thy ===== *)
theory Json_Value
  imports Prelude "HOL-Library.List_Lexorder" "HOL-Library.Char_ord"
begin

text \<open>
  \<open>serde_json::Value\<close> and the accessors the source calls on it. A number keeps its text; an object is
  an association list in any order, read in key order where the source iterates over its
  \<open>BTreeMap\<close>.
\<close>

datatype json =
  JNull | JBool bool | JNumber string | JString string | JArray "json list" | JObject "(string, json) hash_map"

definition json_get :: "json \<Rightarrow> string \<Rightarrow> json option" where
  "json_get v key = (case v of JObject obj \<Rightarrow> hm_get obj key | _ \<Rightarrow> None)"

text \<open>A chain of \<open>get\<close> and \<open>and_then\<close>.\<close>

fun json_at :: "json \<Rightarrow> string list \<Rightarrow> json option" where
  "json_at v [] = Some v"
| "json_at v (key # keys) = Option.bind (json_get v key) (\<lambda>w. json_at w keys)"

definition as_str :: "json \<Rightarrow> string option" where
  "as_str v = (case v of JString s \<Rightarrow> Some s | _ \<Rightarrow> None)"

definition as_bool :: "json \<Rightarrow> bool option" where
  "as_bool v = (case v of JBool b \<Rightarrow> Some b | _ \<Rightarrow> None)"

definition as_array :: "json \<Rightarrow> json list option" where
  "as_array v = (case v of JArray vs \<Rightarrow> Some vs | _ \<Rightarrow> None)"

definition as_object :: "json \<Rightarrow> (string, json) hash_map option" where
  "as_object v = (case v of JObject obj \<Rightarrow> Some obj | _ \<Rightarrow> None)"

text \<open>An integer literal that fits; one with a fraction or an exponent is a float.\<close>

definition all_digits :: "string \<Rightarrow> bool" where
  "all_digits t \<longleftrightarrow> t \<noteq> [] \<and> list_all is_ascii_digit t"

definition as_u64 :: "json \<Rightarrow> nat option" where
  "as_u64 v = (case v of JNumber t \<Rightarrow> if all_digits t then parse_uint u64_max t else None | _ \<Rightarrow> None)"

definition i64_limit :: nat where "i64_limit = 9223372036854775808"

definition as_i64 :: "json \<Rightarrow> int option" where
  "as_i64 v =
     (case v of
        JNumber t \<Rightarrow>
          if all_digits t then map_option int (parse_uint (i64_limit - 1) t)
          else (case strip_prefix ''-'' t of
                  Some ds \<Rightarrow>
                    if all_digits ds then
                      Option.bind (parse_uint i64_limit ds) (\<lambda>n. if n = 0 then None else Some (- int n))
                    else None
                | None \<Rightarrow> None)
      | _ \<Rightarrow> None)"

definition str_or :: "string \<Rightarrow> json option \<Rightarrow> string" where
  "str_or d v = (case Option.bind v as_str of Some s \<Rightarrow> s | None \<Rightarrow> d)"

definition items_of :: "json option \<Rightarrow> json list" where
  "items_of v = (case Option.bind v as_array of Some vs \<Rightarrow> vs | None \<Rightarrow> [])"

definition strings_of :: "json option \<Rightarrow> string list" where
  "strings_of v = List.map_filter as_str (items_of v)"

text \<open>\<open>values().next()\<close>: the value of the least key.\<close>

fun least_entry :: "(string, 'v) hash_map \<Rightarrow> (string \<times> 'v) option" where
  "least_entry [] = None"
| "least_entry ((k, v) # m) =
     (case least_entry m of Some (k', v') \<Rightarrow> if k' < k then Some (k', v') else Some (k, v) | None \<Rightarrow> Some (k, v))"

definition first_value :: "(string, 'v) hash_map \<Rightarrow> 'v option" where
  "first_value m = map_option snd (least_entry m)"

lemma as_u64_le: "as_u64 v = Some n \<Longrightarrow> n \<le> u64_max"
  by (auto simp: as_u64_def split: json.splits if_splits dest: parse_uint_le)

lemma least_entry_least:
  "least_entry m = Some (k, v) \<Longrightarrow> (k, v) \<in> set m \<and> (\<forall>(k', v') \<in> set m. k \<le> k')"
proof (induction m arbitrary: k v rule: least_entry.induct)
  case (2 k0 v0 m)
  show ?case
  proof (cases "least_entry m")
    case None
    then have "m = []" by (cases m rule: least_entry.cases) (auto split: option.splits if_splits)
    then show ?thesis using 2 None by simp
  next
    case (Some e)
    obtain k1 v1 where e: "e = (k1, v1)" by fastforce
    have IH: "(k1, v1) \<in> set m" "\<forall>(k', v') \<in> set m. k1 \<le> k'" using "2.IH" Some e by blast+
    show ?thesis
      using "2.prems" Some e IH by (auto split: if_splits)
  qed
qed simp

end
