(* ===== verification/Dial.thy ===== *)
theory Dial
  imports Proxy_Io Json_Value
begin

text \<open>
  Dialing an upstream: \<open>client_for\<close>, \<open>send_outbound\<close> and \<open>send_provider_outbound\<close> of
  \<open>hygress-gateway/src/pipe.rs\<close>, and the provider request of \<open>hygress-egress/src/provider.rs\<close>.

  What is asked of the crates \<open>http\<close>, \<open>url\<close>, \<open>reqwest\<close> and \<open>serde_json\<close> is the record \<open>http_ops\<close>: which
  methods, names, values and proxy addresses they accept, the operations of a parsed URL, and the
  text of a JSON value (\<open>Json_Value.json\<close>). An \<open>http::HeaderMap\<close> under construction is a \<open>header_map\<close>.
\<close>

record 'u http_ops =
  ho_to_str :: "bytes \<Rightarrow> string option"
  ho_method_ok :: "string \<Rightarrow> bool"
  ho_name :: "string \<Rightarrow> string option"
  ho_value_ok :: "bytes \<Rightarrow> bool"
  ho_str_ok :: "string \<Rightarrow> bool"
  ho_proxy_ok :: "string \<Rightarrow> bool"
  ho_url_parse :: "string \<Rightarrow> 'u option"
  ho_set_path :: "string \<Rightarrow> 'u \<Rightarrow> 'u"
  ho_set_query :: "string \<Rightarrow> 'u \<Rightarrow> 'u"
  ho_set_host :: "string \<Rightarrow> 'u \<Rightarrow> 'u option"
  ho_set_scheme :: "string \<Rightarrow> 'u \<Rightarrow> 'u option"
  ho_url_text :: "'u \<Rightarrow> string"
  ho_json_text :: "json \<Rightarrow> bytes"

section \<open>The provider request\<close>

datatype provider_body = JsonValue json | MultipartForm bytes string

record upstream_options =
  uo_method :: string
  uo_input_path :: string
  uo_capture_groups :: "string list"
  uo_path_rewrite :: "string option"
  uo_api_token :: string
  uo_host_override :: "string option"
  uo_model_mapping :: "model_mapping option"
  uo_destination_service :: "string option"
  uo_inbound_headers :: header_map
  uo_body :: "provider_body option"
  uo_query :: "string option"
  uo_scheme :: "string option"
  uo_proxy :: "string option"

record 'u upstream_request =
  ur_url :: 'u
  ur_method :: string
  ur_headers :: header_map
  ur_body :: bytes
  ur_proxy :: "string option"

definition forward_inbound_headers :: "'u http_ops \<Rightarrow> header_map \<Rightarrow> header_map" where
  "forward_inbound_headers ops inbound =
     foldl (\<lambda>out name.
       if starts_with '':'' name \<or> eq_ignore_ascii_case name ''host'' then out
       else case ho_name ops name of
              None \<Rightarrow> out
            | Some n \<Rightarrow>
                foldl (\<lambda>out value. if ho_value_ok ops value then header_append n value out else out)
                  out (header_get_all inbound n))
       [] (header_names inbound)"

definition apply_json :: "model_mapping \<Rightarrow> string \<Rightarrow> json \<Rightarrow> json \<times> bool" where
  "apply_json m service body =
     (case mapping_lookup m service of
        None \<Rightarrow> (body, False)
      | Some model \<Rightarrow>
          (case body of
             JObject obj \<Rightarrow>
               (case hm_get obj ''model'' of
                  Some (JString _) \<Rightarrow> (JObject (hm_insert ''model'' (JString model) obj), True)
                | _ \<Rightarrow> (body, False))
           | _ \<Rightarrow> (body, False)))"

definition mapped_service :: "upstream_options \<Rightarrow> (model_mapping \<times> string) option" where
  "mapped_service opts =
     (case (uo_model_mapping opts, uo_destination_service opts) of
        (Some m, Some svc) \<Rightarrow> if mapping_lookup m svc \<noteq> None then Some (m, svc) else None
      | _ \<Rightarrow> None)"

definition build_body :: "'u http_ops \<Rightarrow> upstream_options \<Rightarrow> header_map \<Rightarrow> bytes \<times> header_map" where
  "build_body ops opts headers =
     (case uo_body opts of
        None \<Rightarrow> ([], headers)
      | Some (JsonValue v) \<Rightarrow>
          (let v = (case mapped_service opts of Some (m, svc) \<Rightarrow> fst (apply_json m svc v) | None \<Rightarrow> v)
           in (ho_json_text ops v,
               if header_contains headers ''content-type'' then headers
               else header_insert ''content-type'' ''application/json'' headers))
      | Some (MultipartForm bs boundary) \<Rightarrow>
          (let bs = (case mapped_service opts of Some (m, svc) \<Rightarrow> fst (apply_multipart m svc bs boundary) | None \<Rightarrow> bs);
               ct = ''multipart/form-data; boundary='' @ boundary
           in (bs,
               if \<not> header_contains headers ''content-type'' \<and> ho_str_ok ops ct
               then header_insert ''content-type'' ct headers else headers)))"

definition or_keep :: "'u option \<Rightarrow> 'u \<Rightarrow> 'u" where
  "or_keep x y = (case x of Some z \<Rightarrow> z | None \<Rightarrow> y)"

definition upstream_url :: "'u http_ops \<Rightarrow> 'u \<Rightarrow> upstream_options \<Rightarrow> 'u" where
  "upstream_url ops base opts =
     (let new_path = (case uo_path_rewrite opts of
            Some template \<Rightarrow> rewrite (uo_capture_groups opts) template | None \<Rightarrow> uo_input_path opts);
          url = ho_set_path ops new_path base;
          url = (case uo_query opts of
            Some q \<Rightarrow> (let q = dropWhile (\<lambda>c. c = CHR ''?'') (trim q) in if q = [] then url else ho_set_query ops q url)
          | None \<Rightarrow> url);
          url = (case uo_host_override opts of Some host \<Rightarrow> or_keep (ho_set_host ops host url) url | None \<Rightarrow> url)
      in (case uo_scheme opts of Some scheme \<Rightarrow> or_keep (ho_set_scheme ops scheme url) url | None \<Rightarrow> url))"

definition upstream_headers :: "'u http_ops \<Rightarrow> upstream_options \<Rightarrow> header_map" where
  "upstream_headers ops opts =
     (let headers = forward_inbound_headers ops (uo_inbound_headers opts);
          bearer = ''Bearer '' @ uo_api_token opts;
          headers = (if uo_api_token opts \<noteq> [] \<and> ho_str_ok ops bearer
                     then header_insert ''authorization'' bearer headers else headers)
      in (case uo_host_override opts of
            Some host \<Rightarrow> if ho_str_ok ops host then header_insert ''host'' host headers else headers
          | None \<Rightarrow> headers))"

definition build_upstream_request :: "'u http_ops \<Rightarrow> 'u \<Rightarrow> upstream_options \<Rightarrow> 'u upstream_request" where
  "build_upstream_request ops base opts =
     (case build_body ops opts (upstream_headers ops opts) of
        (body, headers) \<Rightarrow>
          \<lparr>ur_url = upstream_url ops base opts, ur_method = uo_method opts, ur_headers = headers,
           ur_body = body, ur_proxy = uo_proxy opts\<rparr>)"

section \<open>The dial\<close>

text \<open>What reaches \<open>reqwest\<close>: the proxy of the chosen client, and the request.\<close>

record dial_request =
  dr_via :: "string option"
  dr_method :: string
  dr_url :: string
  dr_timeout_ms :: "nat option"
  dr_headers :: "(string \<times> string) list"
  dr_body :: bytes

definition client_for :: "'u http_ops \<Rightarrow> candidate_target \<Rightarrow> string option" where
  "client_for ops candidate =
     (case ct_proxy candidate of
        None \<Rightarrow> None
      | Some proxy \<Rightarrow>
          (let proxy_url = (if contains_str ''://'' proxy then proxy else ''http://'' @ proxy)
           in if ho_proxy_ok ops proxy_url then Some proxy_url else None))"

definition dial_skip :: "string list" where
  "dial_skip = [''content-type'']"

definition origin_of :: "candidate_target \<Rightarrow> string" where
  "origin_of candidate = scheme_as_str (ct_scheme candidate) @ ''://'' @ ct_address candidate"

definition method_or_post :: "'u http_ops \<Rightarrow> string \<Rightarrow> string" where
  "method_or_post ops m = (if ho_method_ok ops m then m else ''POST'')"

definition direct_headers :: "outbound_request \<Rightarrow> (string \<times> string) list" where
  "direct_headers out =
     filter (\<lambda>(name, _). \<not> starts_with '':'' name \<and> \<not> list_ex (\<lambda>s. eq_ignore_ascii_case name s) dial_skip)
       (oh_into_pairs (ob_headers out)) @
     (if ob_host out \<noteq> [] then [(''host'', ob_host out)] else []) @
     (if ob_content_type out \<noteq> [] then [(''content-type'', ob_content_type out)] else [])"

definition direct_dial :: "'u http_ops \<Rightarrow> prepared_request \<Rightarrow> outbound_request \<Rightarrow> candidate_target \<Rightarrow> dial_request" where
  "direct_dial ops prepared out candidate =
     \<lparr>dr_via = client_for ops candidate, dr_method = method_or_post ops (ob_method out),
      dr_url = origin_of candidate @ ob_path out, dr_timeout_ms = pq_override_timeout_ms prepared,
      dr_headers = direct_headers out, dr_body = ob_body out\<rparr>"

definition provider_api_token :: "outbound_request \<Rightarrow> string" where
  "provider_api_token out =
     unwrap_or_empty (Option.bind (oh_get (ob_headers out) hdr_authorization) (strip_prefix ''Bearer ''))"

definition provider_options :: "'u http_ops \<Rightarrow> prepared_request \<Rightarrow> outbound_request \<Rightarrow> candidate_target \<Rightarrow> upstream_options" where
  "provider_options ops prepared out candidate =
     \<lparr>uo_method = method_or_post ops (ob_method out), uo_input_path = pq_upstream_path prepared,
      uo_capture_groups = [], uo_path_rewrite = None, uo_api_token = provider_api_token out,
      uo_host_override = (if ob_host out = [] then None else Some (ob_host out)),
      uo_model_mapping = None, uo_destination_service = None,
      uo_inbound_headers = oh_materialize (ob_headers out), uo_body = None,
      uo_query = (if pq_query prepared = [] then None else Some (pq_query prepared)),
      uo_scheme = None, uo_proxy = ct_proxy candidate\<rparr>"

text \<open>An origin that does not parse gives an error without a dial.\<close>

definition provider_dial :: "'u http_ops \<Rightarrow> prepared_request \<Rightarrow> outbound_request \<Rightarrow> candidate_target \<Rightarrow> dial_request option" where
  "provider_dial ops prepared out candidate =
     map_option (\<lambda>base.
       let upstream = build_upstream_request ops base (provider_options ops prepared out candidate)
       in \<lparr>dr_via = client_for ops candidate, dr_method = ur_method upstream,
           dr_url = ho_url_text ops (ur_url upstream), dr_timeout_ms = pq_override_timeout_ms prepared,
           dr_headers =
             copy_headers_excluding
               (List.map_filter (utf8_header_value (ho_to_str ops)) (header_into_pairs (ur_headers upstream))) dial_skip @
             (if ob_content_type out \<noteq> [] then [(''content-type'', ob_content_type out)] else []),
           dr_body = ob_body out\<rparr>)
       (ho_url_parse ops (origin_of candidate))"

definition dial_of :: "'u http_ops \<Rightarrow> prepared_request \<Rightarrow> outbound_request \<Rightarrow> candidate_target \<Rightarrow> dial_request option" where
  "dial_of ops prepared out candidate =
     (if starts_with ''provider-'' (ct_service_name candidate) then provider_dial ops prepared out candidate
      else Some (direct_dial ops prepared out candidate))"

end
