(* ===== verification/Egress.thy ===== *)
theory Egress
  imports Dial Usage "HOL-Library.Sublist"
begin

text \<open>
  The HTTP clients of \<open>hygress-egress\<close>: forward authentication (\<open>forward_auth.rs\<close>), the guardrail client
  with its verdict cache (\<open>guardrail.rs\<close>), the usage sink with its queue and retries
  (\<open>usage_sink.rs\<close>) and the gateway token (\<open>token.rs\<close>). What the network answers is an argument of
  each function.
\<close>

definition trim_end_slashes :: "string \<Rightarrow> string" where
  "trim_end_slashes s = rev (dropWhile (\<lambda>c. c = CHR ''/'') (rev s))"

section \<open>Forward authentication\<close>

definition default_timeout_ms :: nat where "default_timeout_ms = 30000"

definition ext_auth_timeout_ms :: "string option \<Rightarrow> nat" where
  "ext_auth_timeout_ms value =
     (case value of
        None \<Rightarrow> default_timeout_ms
      | Some raw \<Rightarrow>
          (case parse_uint u64_max (trim raw) of
             Some ms \<Rightarrow> if ms > 0 then ms else default_timeout_ms
           | None \<Rightarrow> default_timeout_ms))"

record auth_client =
  ac_base_url :: string
  ac_auth_token :: "string option"
  ac_timeout_ms :: nat

definition auth_client_new :: "string \<Rightarrow> string option \<Rightarrow> auth_client" where
  "auth_client_new base_url timeout_env =
     \<lparr>ac_base_url = trim_end_slashes base_url, ac_auth_token = None, ac_timeout_ms = ext_auth_timeout_ms timeout_env\<rparr>"

definition with_auth_token :: "string \<Rightarrow> auth_client \<Rightarrow> auth_client" where
  "with_auth_token token client = client\<lparr>ac_auth_token := Some token\<rparr>"

definition with_timeout :: "nat \<Rightarrow> auth_client \<Rightarrow> auth_client" where
  "with_timeout timeout client = client\<lparr>ac_timeout_ms := timeout\<rparr>"

definition token_auth_url :: "auth_client \<Rightarrow> string" where
  "token_auth_url client = ac_base_url client @ ''/token-auth''"

definition auth_allowlist :: "string list" where
  "auth_allowlist =
     [''authorization'', ''x-real-ip'', ''x-forwarded-for'', ''x-higress-llm-model'', ''x-api-key'', ''cookie'',
      ''x-gpustack-auth-cache'']"

text \<open>The pipe rebuilds the typed header map; an entry that is no valid header is dropped.\<close>

definition typed_headers :: "'u http_ops \<Rightarrow> header_map \<Rightarrow> header_map" where
  "typed_headers ops headers =
     foldl (\<lambda>out name.
       foldl (\<lambda>out value.
         case ho_name ops name of
           Some n \<Rightarrow> if ho_value_ok ops value then header_append n value out else out
         | None \<Rightarrow> out) out (header_get_all headers name))
       [] (header_names headers)"

definition auth_request :: "'u http_ops \<Rightarrow> auth_client \<Rightarrow> header_map \<Rightarrow> dial_request" where
  "auth_request ops client headers =
     \<lparr>dr_via = None, dr_method = ''GET'', dr_url = token_auth_url client, dr_timeout_ms = Some (ac_timeout_ms client),
      dr_headers =
        List.map_filter (\<lambda>name. map_option (\<lambda>v. (name, v)) (header_get headers name)) auth_allowlist @
        (case ac_auth_token client of
           Some token \<Rightarrow> if ho_str_ok ops token then [(hdr_gpustack_auth_token, token)] else []
         | None \<Rightarrow> []),
      dr_body = []\<rparr>"

text \<open>A response: the status and the headers.\<close>

type_synonym http_answer = "string + nat \<times> (string \<times> bytes) list"

definition raw_get :: "(string \<times> bytes) list \<Rightarrow> string \<Rightarrow> bytes option" where
  "raw_get hs name = map_option snd (find (\<lambda>h. fst h = name) hs)"

definition auth_verdict :: "'u http_ops \<Rightarrow> http_answer \<Rightarrow> forward_auth_verdict option" where
  "auth_verdict ops answer =
     (case answer of
        Inl _ \<Rightarrow> None
      | Inr (status, hs) \<Rightarrow>
          if in_range 500 599 status then None
          else
            let value = (\<lambda>v. Option.bind v (ho_to_str ops))
            in Some \<lparr>fv_authenticated = in_range 200 299 status,
                     fv_consumer = value (raw_get hs ''x-mse-consumer''),
                     fv_authorization = value (raw_get hs ''authorization''),
                     fv_set_cookie = value (or_else (raw_get hs ''cookie'') (raw_get hs ''set-cookie'')),
                     fv_auth_cache = value (raw_get hs ''x-gpustack-auth-cache'')\<rparr>)"

definition authenticate :: "'u http_ops \<Rightarrow> (dial_request \<Rightarrow> http_answer) \<Rightarrow> auth_client \<Rightarrow> header_map \<Rightarrow> auth_outcome" where
  "authenticate ops net client headers =
     auth_outcome_of (Inr (auth_verdict ops (net (auth_request ops client (typed_headers ops headers)))))"

lemma map_filter_names:
  "set (map fst (List.map_filter (\<lambda>name. map_option (\<lambda>v. (name, v)) (f name)) names)) \<subseteq> set names"
  by (auto simp: List.map_filter_def)

lemma write_back_values:
  "header_get_all (write_back v) name \<noteq> [] \<Longrightarrow>
     header_key name \<in> {''x-mse-consumer'', ''authorization'', ''cookie'', ''x-gpustack-auth-cache''}"
proof -
  have keys: "header_key hdr_mse_consumer = ''x-mse-consumer''" "header_key hdr_authorization = ''authorization''"
    "header_key hdr_cookie = ''cookie''" "header_key hdr_auth_cache = ''x-gpustack-auth-cache''" by code_simp+
  have step: "header_get_all (insert_nonempty n x h) name \<noteq> [] \<Longrightarrow>
      header_key name = header_key n \<or> header_get_all h name \<noteq> []" for n x h
    by (auto simp: insert_nonempty_def header_get_all_def header_insert_def hm.get_insert
          split: option.splits if_splits)
  assume "header_get_all (write_back v) name \<noteq> []"
  then show ?thesis
    unfolding write_back_def Let_def
    by (elim step [THEN disjE]; (simp only: keys)?) (auto simp: header_get_all_def hm.get_empty dest!: step)
qed

text \<open>
  Property C38. The authentication exchange: only the allowlisted headers and the gateway's own token
  are sent to the auth service; the answer is a refusal exactly for a status outside 2xx and 5xx, a
  permission exactly for a 2xx, and no verdict for a transport error or a 5xx; and a permission can
  write back only the consumer, the credential, the cookie and the auth cache.
\<close>

theorem auth_exchange:
  "fst ` set (dr_headers (auth_request ops client h)) \<subseteq> insert hdr_gpustack_auth_token (set auth_allowlist) \<and>
   (authenticate ops net client h = AuthDenied \<longleftrightarrow>
      (\<exists>status hs. net (auth_request ops client (typed_headers ops h)) = Inr (status, hs) \<and>
         \<not> in_range 200 299 status \<and> \<not> in_range 500 599 status)) \<and>
   (authenticate ops net client h = AuthServiceUnavailable \<longleftrightarrow>
      (\<exists>e. net (auth_request ops client (typed_headers ops h)) = Inl e) \<or>
      (\<exists>status hs. net (auth_request ops client (typed_headers ops h)) = Inr (status, hs) \<and> in_range 500 599 status)) \<and>
   {header_key name | name wb. authenticate ops net client h = AuthAllowed wb \<and> header_get_all wb name \<noteq> []}
     \<subseteq> {''x-mse-consumer'', ''authorization'', ''cookie'', ''x-gpustack-auth-cache''}"
proof (intro conjI)
  show "fst ` set (dr_headers (auth_request ops client h)) \<subseteq> insert hdr_gpustack_auth_token (set auth_allowlist)"
    using map_filter_names [of "header_get h" auth_allowlist]
    by (auto simp: auth_request_def split: option.splits if_splits)
next
  let ?a = "net (auth_request ops client (typed_headers ops h))"
  show "authenticate ops net client h = AuthDenied \<longleftrightarrow>
      (\<exists>status hs. ?a = Inr (status, hs) \<and> \<not> in_range 200 299 status \<and> \<not> in_range 500 599 status)"
    by (cases ?a) (auto simp: authenticate_def auth_outcome_of_def auth_verdict_def Let_def split: if_splits option.splits)
  show "authenticate ops net client h = AuthServiceUnavailable \<longleftrightarrow> (\<exists>e. ?a = Inl e) \<or>
      (\<exists>status hs. ?a = Inr (status, hs) \<and> in_range 500 599 status)"
    by (cases ?a) (auto simp: authenticate_def auth_outcome_of_def auth_verdict_def Let_def split: if_splits option.splits)
  have "\<exists>v. wb = write_back v" if "authenticate ops net client h = AuthAllowed wb" for wb
    using that by (auto simp: authenticate_def auth_outcome_of_def split: option.splits if_splits)
  then show "{header_key name | name wb. authenticate ops net client h = AuthAllowed wb \<and> header_get_all wb name \<noteq> []}
     \<subseteq> {''x-mse-consumer'', ''authorization'', ''cookie'', ''x-gpustack-auth-cache''}"
    using write_back_values by blast
qed

section \<open>The guardrail client\<close>

record guard_verdict =
  vd_blocked :: bool
  vd_reason :: string

type_synonym verdict_cache = "(string, guard_verdict \<times> nat) hash_map"

definition max_cache_entries :: nat where "max_cache_entries = 4096"

fun take_word :: "string \<Rightarrow> string" where
  "take_word [] = []"
| "take_word (c # s) = (if leading_ws ws_encodings (c # s) > 0 then [] else c # take_word s)"

lemma take_word_prefix: "\<exists>r. s = take_word s @ r"
  by (induction s) auto

lemma strip_leading_stop: "leading_ws ws (strip_leading ws s) = 0"
proof (induction ws s rule: strip_leading.induct)
  case (1 ws s)
  have "leading_ws ws [] = 0"
    by (auto simp: leading_ws_def starts_with_def find_Some_iff split: option.splits)
  then show ?case using 1 by (subst strip_leading.simps) auto
qed

lemma take_word_trimmed: "trim_start s \<noteq> [] \<Longrightarrow> take_word (trim_start s) \<noteq> []"
proof -
  assume ne: "trim_start s \<noteq> []"
  have "leading_ws ws_encodings (trim_start s) = 0"
    unfolding trim_start_def by (rule strip_leading_stop)
  with ne show ?thesis by (cases "trim_start s") simp_all
qed

function split_whitespace :: "string \<Rightarrow> string list" where
  "split_whitespace s =
     (if trim_start s = [] then []
      else take_word (trim_start s) # split_whitespace (drop (length (take_word (trim_start s))) (trim_start s)))"
  by pat_completeness auto
termination
proof (relation "measure length")
  fix s :: string
  assume ne: "trim_start s \<noteq> []"
  have "length (take_word (trim_start s)) > 0" using take_word_trimmed [OF ne] by simp
  moreover obtain p where "s = p @ trim_start s" using strip_leading_suffix by (auto simp: trim_start_def)
  then have "length (trim_start s) \<le> length s" by (metis length_append le_add2)
  ultimately show "(drop (length (take_word (trim_start s))) (trim_start s), s) \<in> measure length"
    using ne by (auto intro: less_le_trans [OF diff_less])
qed simp

declare split_whitespace.simps [simp del]

definition guard_normalize :: "string \<Rightarrow> string" where
  "guard_normalize text = join_with (CHR '' '') (split_whitespace text)"

definition guard_lookup :: "nat \<Rightarrow> string \<Rightarrow> verdict_cache \<Rightarrow> guard_verdict option \<times> verdict_cache" where
  "guard_lookup now text cache =
     (let key = guard_normalize text in
      case hm_get cache key of
        Some (verdict, expiry) \<Rightarrow> if now < expiry then (Some verdict, cache) else (None, hm_remove key cache)
      | None \<Rightarrow> (None, cache))"

definition guard_store :: "nat \<Rightarrow> nat \<Rightarrow> string \<Rightarrow> guard_verdict \<Rightarrow> verdict_cache \<Rightarrow> verdict_cache" where
  "guard_store ttl now text verdict cache =
     (let cache = (if length cache \<ge> max_cache_entries then hm_retain (\<lambda>_ (_, expiry). now < expiry) cache else cache)
      in if length cache < max_cache_entries then hm_insert (guard_normalize text) (verdict, now + ttl) cache else cache)"

text \<open>The answer of the service, with the parser of a verdict as a parameter.\<close>

type_synonym guard_answer = "string + nat \<times> (string + bytes)"

definition guard_post :: "(bytes \<Rightarrow> guard_verdict option) \<Rightarrow> guard_answer \<Rightarrow> string + guard_verdict option" where
  "guard_post parse answer =
     (case answer of
        Inl e \<Rightarrow> Inl (''transport: '' @ e)
      | Inr (status, body) \<Rightarrow>
          if \<not> in_range 200 299 status then Inl (''HTTP '' @ dec_of_nat status @ '' from guardrail endpoint'')
          else case body of
                 Inl e \<Rightarrow> Inl (''reading response body: '' @ e)
               | Inr bs \<Rightarrow>
                   if bs = [] then Inr None
                   else (case parse bs of Some v \<Rightarrow> Inr (Some v) | None \<Rightarrow> Inl ''malformed verdict body''))"

definition classify ::
  "(bytes \<Rightarrow> guard_verdict option) \<Rightarrow> nat \<Rightarrow> nat \<Rightarrow> nat \<Rightarrow> guard_answer \<Rightarrow> string \<Rightarrow> verdict_cache
     \<Rightarrow> (string + guard_verdict option) \<times> verdict_cache" where
  "classify parse ttl asked answered answer text cache =
     (case guard_lookup asked text cache of
        (Some v, cache) \<Rightarrow> (Inr (Some v), cache)
      | (None, cache) \<Rightarrow>
          (case guard_post parse answer of
             Inr (Some v) \<Rightarrow> (Inr (Some v), guard_store ttl answered text v cache)
           | r \<Rightarrow> (r, cache)))"

text \<open>Requests share the cache: the lookups and the stores of any number of them, in any order.\<close>

datatype cache_event = CacheLookup nat string | CacheStore nat string guard_verdict

fun cache_event_run :: "nat \<Rightarrow> cache_event \<Rightarrow> verdict_cache \<Rightarrow> verdict_cache" where
  "cache_event_run ttl (CacheLookup now text) cache = snd (guard_lookup now text cache)"
| "cache_event_run ttl (CacheStore now text verdict) cache = guard_store ttl now text verdict cache"

definition cache_run :: "nat \<Rightarrow> cache_event list \<Rightarrow> verdict_cache" where
  "cache_run ttl es = foldl (\<lambda>c e. cache_event_run ttl e c) [] es"

definition cache_ok :: "nat \<Rightarrow> cache_event list \<Rightarrow> verdict_cache \<Rightarrow> bool" where
  "cache_ok ttl es cache \<longleftrightarrow> length cache \<le> max_cache_entries \<and> hm_wf cache \<and>
     (\<forall>(key, verdict, expiry) \<in> set cache.
        \<exists>now text. CacheStore now text verdict \<in> set es \<and> guard_normalize text = key \<and> expiry = now + ttl)"

lemma hm_remove_subset: "set (hm_remove k m) \<subseteq> set m" "length (hm_remove k m) \<le> length m"
  by (auto simp: hm_remove_def)

lemma hm_retain_subset: "set (hm_retain P m) \<subseteq> set m" "length (hm_retain P m) \<le> length m"
  by (auto simp: hm_retain_def)

lemma hm_insert_bound:
  "length (hm_insert k v m) \<le> Suc (length m)" "hm_wf m \<Longrightarrow> set (hm_insert k v m) \<subseteq> insert (k, v) (set m)"
  unfolding hm_insert_def by (induction m) (auto simp: hm_wf_def)

lemma cache_ok_mono: "cache_ok ttl es c \<Longrightarrow> set es \<subseteq> set es' \<Longrightarrow> cache_ok ttl es' c"
  unfolding cache_ok_def by fast

lemma cache_ok_sub:
  "cache_ok ttl es c \<Longrightarrow> set c' \<subseteq> set c \<Longrightarrow> length c' \<le> length c \<Longrightarrow> hm_wf c' \<Longrightarrow> cache_ok ttl es c'"
  unfolding cache_ok_def by fastforce

lemma cache_ok_insert:
  assumes ok: "cache_ok ttl es d" and room: "length d < max_cache_entries"
    and mem: "CacheStore now q v \<in> set es"
  shows "cache_ok ttl es (hm_insert (guard_normalize q) (v, now + ttl) d)"
  unfolding cache_ok_def
proof (intro conjI ballI)
  let ?d = "hm_insert (guard_normalize q) (v, now + ttl) d"
  have wf: "hm_wf d" using ok by (simp add: cache_ok_def)
  show "length ?d \<le> max_cache_entries"
    using hm_insert_bound(1) [of "guard_normalize q" "(v, now + ttl)" d] room by linarith
  show "hm_wf ?d" using wf by (rule hm.wf_insert)
  fix x assume "x \<in> set ?d"
  then have "x = (guard_normalize q, v, now + ttl) \<or> x \<in> set d" using hm_insert_bound(2) [OF wf] by blast
  then show "case x of (key, verdict, expiry) \<Rightarrow>
      \<exists>now text. CacheStore now text verdict \<in> set es \<and> guard_normalize text = key \<and> expiry = now + ttl"
  proof
    assume "x = (guard_normalize q, v, now + ttl)"
    then show ?thesis using mem by auto
  next
    assume "x \<in> set d"
    then show ?thesis using ok unfolding cache_ok_def by blast
  qed
qed

lemma cache_event_ok:
  assumes "cache_ok ttl es c"
  shows "cache_ok ttl (es @ [e]) (cache_event_run ttl e c)"
proof (cases e)
  case (CacheLookup now q)
  have "cache_ok ttl (es @ [e]) c" using assms by (rule cache_ok_mono) auto
  moreover have "cache_ok ttl (es @ [e]) (hm_remove k c)" for k
  proof (rule cache_ok_sub)
    show "cache_ok ttl (es @ [e]) c" by fact
    show "hm_wf (hm_remove k c)" using assms by (simp add: cache_ok_def hm.wf_remove)
  qed (rule hm_remove_subset)+
  ultimately show ?thesis
    by (simp add: CacheLookup guard_lookup_def Let_def split: option.splits)
next
  case (CacheStore now q v)
  let ?d = "if length c \<ge> max_cache_entries then hm_retain (\<lambda>_ (_, expiry). now < expiry) c else c"
  have wf: "hm_wf c" using assms by (simp add: cache_ok_def)
  have "cache_ok ttl es (hm_retain P c)" for P
  proof (rule cache_ok_sub)
    show "cache_ok ttl es c" by fact
    show "hm_wf (hm_retain P c)" using wf by (rule hm.wf_retain)
  qed (rule hm_retain_subset)+
  then have "cache_ok ttl es ?d" using assms by simp
  then have d: "cache_ok ttl (es @ [e]) ?d" by (rule cache_ok_mono) auto
  show ?thesis
  proof (cases "length ?d < max_cache_entries")
    case True
    have "cache_ok ttl (es @ [e]) (hm_insert (guard_normalize q) (v, now + ttl) ?d)"
      using d True by (rule cache_ok_insert) (simp add: CacheStore)
    then show ?thesis using True by (simp add: CacheStore guard_store_def Let_def)
  next
    case False
    then show ?thesis using d by (simp add: CacheStore guard_store_def Let_def)
  qed
qed

lemma cache_run_ok: "cache_ok ttl es (cache_run ttl es)"
proof (induction es rule: rev_induct)
  case Nil
  then show ?case by (simp add: cache_run_def cache_ok_def hm_wf_def)
next
  case (snoc e es)
  then show ?case using cache_event_ok by (simp add: cache_run_def)
qed

text \<open>
  Property C39. The verdict cache: however the lookups and stores of concurrent requests interleave, each
  taken as one step, it holds at most 4096 entries, and a verdict it returns is one the service gave for a text equal up
  to white space, less than the time to live before.
\<close>

theorem guard_cache_sound:
  "length (cache_run ttl es) \<le> max_cache_entries \<and>
   (fst (guard_lookup now text (cache_run ttl es)) = Some verdict \<longrightarrow>
      (\<exists>stored text'. CacheStore stored text' verdict \<in> set es \<and> guard_normalize text' = guard_normalize text \<and>
         now < stored + ttl))"
proof
  have ok: "cache_ok ttl es (cache_run ttl es)" by (rule cache_run_ok)
  then show "length (cache_run ttl es) \<le> max_cache_entries" by (simp add: cache_ok_def)
  show "fst (guard_lookup now text (cache_run ttl es)) = Some verdict \<longrightarrow>
      (\<exists>stored text'. CacheStore stored text' verdict \<in> set es \<and> guard_normalize text' = guard_normalize text \<and>
         now < stored + ttl)"
  proof
    assume "fst (guard_lookup now text (cache_run ttl es)) = Some verdict"
    then obtain expiry where "hm_get (cache_run ttl es) (guard_normalize text) = Some (verdict, expiry)" "now < expiry"
      by (auto simp: guard_lookup_def Let_def split: option.splits if_splits)
    then have "(guard_normalize text, verdict, expiry) \<in> set (cache_run ttl es)" "now < expiry"
      by (simp_all add: hm_get_def map_of_SomeD)
    then show "\<exists>stored text'. CacheStore stored text' verdict \<in> set es \<and> guard_normalize text' = guard_normalize text \<and>
         now < stored + ttl"
      using ok unfolding cache_ok_def by fast
  qed
qed

lemma guard_cache_sound_witness:
  "fst (guard_lookup 3 ''a  b'' (cache_run 5 [CacheStore 1 '' a b'' (guard_verdict.make True ''r'')])) =
     Some (guard_verdict.make True ''r'') \<and>
   (\<exists>stored text'. CacheStore stored text' (guard_verdict.make True ''r'') \<in>
        set [CacheStore 1 '' a b'' (guard_verdict.make True ''r'')] \<and>
      guard_normalize text' = guard_normalize ''a  b'' \<and> 3 < stored + 5)"
proof -
  have n: "guard_normalize ''a  b'' = ''a b''" "guard_normalize '' a b'' = ''a b''" by code_simp+
  have hit: "fst (guard_lookup 3 ''a  b'' (cache_run 5 [CacheStore 1 '' a b'' (guard_verdict.make True ''r'')])) =
      Some (guard_verdict.make True ''r'')"
    by (simp add: guard_lookup_def cache_run_def guard_store_def n max_cache_entries_def hm.get_insert)
  then show ?thesis
    using guard_cache_sound [of 5 "[CacheStore 1 '' a b'' (guard_verdict.make True ''r'')]" 3 "''a  b''"
        "guard_verdict.make True ''r''"] by blast
qed

section \<open>The usage sink\<close>

definition sink_buffer_size :: nat where "sink_buffer_size = 1024"
definition max_attempts :: nat where "max_attempts = 3"

datatype post_result = Posted | PostTransport string | PostStatus nat

definition post_retryable :: "post_result \<Rightarrow> bool" where
  "post_retryable r =
     (case r of PostTransport _ \<Rightarrow> True | PostStatus s \<Rightarrow> s = 429 \<or> in_range 500 599 s | Posted \<Rightarrow> False)"

definition post_of_answer :: "string + nat \<Rightarrow> post_result" where
  "post_of_answer answer =
     (case answer of Inl e \<Rightarrow> PostTransport e | Inr status \<Rightarrow> if in_range 200 299 status then Posted else PostStatus status)"

definition post_request :: "'u http_ops \<Rightarrow> string \<Rightarrow> string \<Rightarrow> bytes \<Rightarrow> dial_request" where
  "post_request ops endpoint token payload =
     \<lparr>dr_via = None, dr_method = ''POST'', dr_url = endpoint, dr_timeout_ms = Some 30000,
      dr_headers = (''content-type'', ''application/json'') #
        (if ho_str_ok ops token then [(hdr_gpustack_auth_token, token)] else []),
      dr_body = payload\<rparr>"

text \<open>The attempts from \<open>attempt\<close> on: how many posts were made, and whether one succeeded.\<close>

function post_loop :: "(nat \<Rightarrow> post_result) \<Rightarrow> nat \<Rightarrow> nat \<times> bool" where
  "post_loop net attempt =
     (if attempt > max_attempts then (0, False)
      else case net attempt of
             Posted \<Rightarrow> (1, True)
           | r \<Rightarrow> if \<not> post_retryable r then (1, False)
                  else (case post_loop net (Suc attempt) of (n, delivered) \<Rightarrow> (Suc n, delivered)))"
  by pat_completeness auto
termination by (relation "measure (\<lambda>(net, attempt). Suc max_attempts - attempt)") auto

declare post_loop.simps [simp del]

definition post_with_retry :: "(nat \<Rightarrow> post_result) \<Rightarrow> nat \<times> bool" where
  "post_with_retry net = post_loop net 1"

record usage_sink =
  sk_queue :: "bytes list"
  sk_delivered :: "bytes list"
  sk_dropped :: nat
  sk_closed :: bool

definition sink_new :: usage_sink where
  "sink_new = \<lparr>sk_queue = [], sk_delivered = [], sk_dropped = 0, sk_closed = False\<rparr>"

definition sink_push :: "bytes \<Rightarrow> usage_sink \<Rightarrow> usage_sink" where
  "sink_push payload s =
     (if sk_closed s \<or> length (sk_queue s) \<ge> sink_buffer_size then s\<lparr>sk_dropped := sk_dropped s + 1\<rparr>
      else s\<lparr>sk_queue := sk_queue s @ [payload]\<rparr>)"

text \<open>One turn of the flusher task.\<close>

definition sink_flush :: "(nat \<Rightarrow> post_result) \<Rightarrow> usage_sink \<Rightarrow> usage_sink" where
  "sink_flush net s =
     (case sk_queue s of
        [] \<Rightarrow> s
      | payload # rest \<Rightarrow>
          if snd (post_with_retry net) then s\<lparr>sk_queue := rest, sk_delivered := sk_delivered s @ [payload]\<rparr>
          else s\<lparr>sk_queue := rest, sk_dropped := sk_dropped s + 1\<rparr>)"

datatype sink_event = SinkPush bytes | SinkFlush "nat \<Rightarrow> post_result" | SinkClose

fun sink_event_run :: "sink_event \<Rightarrow> usage_sink \<Rightarrow> usage_sink" where
  "sink_event_run (SinkPush payload) s = sink_push payload s"
| "sink_event_run (SinkFlush net) s = sink_flush net s"
| "sink_event_run SinkClose s = s\<lparr>sk_closed := True\<rparr>"

definition sink_run :: "sink_event list \<Rightarrow> usage_sink" where
  "sink_run es = foldl (\<lambda>s e. sink_event_run e s) sink_new es"

fun pushed :: "sink_event list \<Rightarrow> bytes list" where
  "pushed [] = []"
| "pushed (SinkPush payload # es) = payload # pushed es"
| "pushed (_ # es) = pushed es"

lemma pushed_append [simp]: "pushed (es @ es') = pushed es @ pushed es'"
  by (induction es rule: pushed.induct) simp_all

lemma post_loop_attempts: "attempt \<le> max_attempts \<Longrightarrow> fst (post_loop net attempt) \<le> Suc max_attempts - attempt"
proof (induction net attempt rule: post_loop.induct)
  case (1 net attempt)
  have "fst (post_loop net (Suc attempt)) \<le> max_attempts - attempt"
    if "post_retryable (net attempt)" "net attempt \<noteq> Posted"
  proof (cases "Suc attempt \<le> max_attempts")
    case True
    then show ?thesis using "1.IH" that "1.prems" by (cases "net attempt") auto
  next
    case False
    then show ?thesis by (subst post_loop.simps) simp
  qed
  then show ?case using "1.prems"
    by (subst post_loop.simps) (auto split: post_result.splits prod.splits simp: Suc_diff_le)
qed

text \<open>
  Property C40. No usage row is lost unaccounted: after any sequence of pushes, flusher turns and a
  shutdown, every pushed row is queued, delivered or counted as dropped; the queue never exceeds
  1024 rows; delivered rows followed by queued rows keep the order of the pushes, each row at most
  once; and a row is posted at most three times.
\<close>

theorem usage_rows_conserved:
  "let s = sink_run es in
     length (pushed es) = length (sk_queue s) + length (sk_delivered s) + sk_dropped s \<and>
     length (sk_queue s) \<le> sink_buffer_size \<and>
     subseq (sk_delivered s @ sk_queue s) (pushed es) \<and>
     fst (post_with_retry net) \<le> 3"
proof -
  have attempts: "fst (post_with_retry net) \<le> 3"
    using post_loop_attempts [of 1 net] by (simp add: post_with_retry_def max_attempts_def)
  have "length (pushed es) = length (sk_queue s) + length (sk_delivered s) + sk_dropped s \<and>
     length (sk_queue s) \<le> sink_buffer_size \<and> subseq (sk_delivered s @ sk_queue s) (pushed es)"
    if "s = sink_run es" for s
    using that
  proof (induction es arbitrary: s rule: rev_induct)
    case Nil
    then show ?case by (simp add: sink_run_def sink_new_def)
  next
    case (snoc e es)
    let ?t = "sink_run es"
    have s: "s = sink_event_run e ?t" using snoc.prems by (simp add: sink_run_def)
    have IH: "length (pushed es) = length (sk_queue ?t) + length (sk_delivered ?t) + sk_dropped ?t"
      "length (sk_queue ?t) \<le> sink_buffer_size" "subseq (sk_delivered ?t @ sk_queue ?t) (pushed es)"
      using snoc.IH by blast+
    show ?case
    proof (cases e)
      case (SinkPush payload)
      have "subseq (sk_delivered ?t @ sk_queue ?t) (pushed es @ [payload])"
        using IH(3) by (rule list_emb_prefix)
      moreover have "subseq ((sk_delivered ?t @ sk_queue ?t) @ [payload]) (pushed es @ [payload])"
        using IH(3) by (rule list_emb_append_mono) simp
      ultimately show ?thesis using IH by (simp add: s SinkPush sink_push_def)
    next
      case (SinkFlush net)
      show ?thesis
      proof (cases "sk_queue ?t")
        case (Cons payload rest)
        have "subseq (sk_delivered ?t @ rest) (sk_delivered ?t @ payload # rest)"
          by (rule list_emb_append_mono) auto
        then have "subseq (sk_delivered ?t @ rest) (pushed es)"
          using IH(3) Cons subseq_order.order_trans by metis
        then show ?thesis using IH Cons by (simp add: s SinkFlush sink_flush_def)
      qed (use IH in \<open>simp add: s SinkFlush sink_flush_def\<close>)
    qed (use IH in \<open>simp add: s\<close>)
  qed
  then show ?thesis using attempts by (simp add: Let_def)
qed

section \<open>The gateway token\<close>

text \<open>\<open>HMAC-SHA256\<close> and the reading of the key file are parameters.\<close>

datatype egress_error = JwtKeyEmpty | JwtKeyNotFound string

definition gateway_metrics_push_message :: string where
  "gateway_metrics_push_message = ''gateway-metrics-push''"

definition lower_hex :: "bytes \<Rightarrow> string" where
  "lower_hex bs = concat (map (\<lambda>c. hex_digits 2 (of_char c)) bs)"

definition derive_gateway_token :: "(bytes \<Rightarrow> bytes \<Rightarrow> bytes) \<Rightarrow> bytes \<Rightarrow> string" where
  "derive_gateway_token hmac key = lower_hex (hmac key gateway_metrics_push_message)"

definition key_normalize :: "string \<Rightarrow> string" where
  "key_normalize s = trim (case strip_suffix [newline] s of Some r \<Rightarrow> r | None \<Rightarrow> s)"

definition path_join :: "string \<Rightarrow> string \<Rightarrow> string" where
  "path_join dir name = (if dir = [] \<or> last dir = CHR ''/'' then dir @ name else dir @ CHR ''/'' # name)"

definition resolve_jwt_key :: "string option \<Rightarrow> string \<Rightarrow> bytes option \<Rightarrow> egress_error + bytes" where
  "resolve_jwt_key env_val data_dir file =
     (case env_val of
        Some v \<Rightarrow> (let k = key_normalize v in if k = [] then Inl JwtKeyEmpty else Inr k)
      | None \<Rightarrow>
          (case file of
             None \<Rightarrow> Inl (JwtKeyNotFound (path_join data_dir ''jwt_secret_key''))
           | Some raw \<Rightarrow> (let k = key_normalize (utf8_lossy raw) in if k = [] then Inl JwtKeyEmpty else Inr k)))"

end
