(* ===== verification/Proxy.thy ===== *)
theory Proxy
  imports Dial Egress Usage Ratelimit Quota Retry
begin

text \<open>
  The request path of the proxy: \<open>request_filter\<close>, \<open>stream_back\<close>, \<open>report_incomplete_usage\<close>, the
  rate-limit and guardrail stages of \<open>hygress-gateway/src/pipe.rs\<close>, \<open>response_pipeline.rs\<close> and the
  shared state of \<open>context.rs\<close>.

  A request runs against a record of the world, \<open>gateway_env\<close>: clock readings, network answers and
  downstream writes are functions of the number of interactions so far, so the world may answer
  anything at any time; \<open>ge_others\<close> is what concurrent requests and reloads do to the shared state
  between two interactions. What a request does is its trace of events.
\<close>

section \<open>Shared state and environment\<close>

record guardrail_client_key =
  gk_url :: string
  gk_timeout_ms :: nat
  gk_max_rps :: nat
  gk_cache_ttl_secs :: nat

record 're gateway_shared =
  gw_config :: "'re shared_config"
  gw_buckets :: rate_table
  gw_quota :: quota_engine
  gw_guardrail_clients :: "(guardrail_client_key, verdict_cache) hash_map"

text \<open>The result of a dial: a transport error and whether it is a timeout, or status, headers and body reads.\<close>

datatype dial_result = DialFailed string bool | Answered nat "(string \<times> bytes) list" "read_result list"

record ('re, 'r, 'u, 'v) gateway_env =
  ge_path_rx :: "'re path_engine"
  ge_rule_rx :: "'r regex_engine"
  ge_rnd :: rounding
  ge_http :: "'u http_ops"
  ge_json :: "'v json_ops"
  ge_parse_verdict :: "bytes \<Rightarrow> guard_verdict option"
  ge_auth :: "auth_client option"
  ge_auth_fail_closed :: bool
  ge_sink :: bool
  ge_policy :: "(nat \<Rightarrow> 'r policy_handle) option"
  ge_quota_k :: nat
  ge_guardrail_url :: "string option"
  ge_clock :: "nat \<Rightarrow> nat"
  ge_dial :: "nat \<Rightarrow> dial_request \<Rightarrow> dial_result"
  ge_auth_net :: "nat \<Rightarrow> dial_request \<Rightarrow> http_answer"
  ge_guard_net :: "nat \<Rightarrow> string \<Rightarrow> guard_answer"
  ge_write :: "nat \<Rightarrow> bool"
  ge_others :: "nat \<Rightarrow> 're gateway_shared \<Rightarrow> 're gateway_shared"

section \<open>What a request does\<close>

datatype metric =
    ActiveInc | ActiveDec
  | Requests nat string
  | RequestDuration string
  | Tokens string nat
  | Ttft string
  | RetryTaken
  | UpstreamError string
  | FallbackArmed
  | FallbackExhausted
  | AuthResult string
  | PolicyApplied bool
  | RateLimitDenied string
  | QuotaDenied
  | QuotaSoftExceed
  | GuardrailBlocked string
  | GuardrailError
  | UsagePushed bool

datatype event =
    Count metric
  | Reserved quota_key nat
  | Settled quota_key "nat option"
  | AuthAsked dial_request
  | GuardAsked string
  | GuardSpawned string
  | Dialed string "dial_request option"
  | PushedUsage model_usage_metrics
  | WroteHead response_head
  | WroteChunk bytes
  | WroteEnd
  | KeepaliveOff
  | DrainedBody

record 're request_state =
  rq_shared :: "'re gateway_shared"
  rq_tick :: nat
  rq_trace :: "event list"
  rq_quota :: "quota_reservation option"
  rq_status :: nat

definition emit :: "event \<Rightarrow> 're request_state \<Rightarrow> 're request_state" where
  "emit ev st = st\<lparr>rq_trace := rq_trace st @ [ev]\<rparr>"

definition count :: "metric \<Rightarrow> 're request_state \<Rightarrow> 're request_state" where
  "count m st = emit (Count m) st"

definition pause :: "('re, 'r, 'u, 'v) gateway_env \<Rightarrow> 're request_state \<Rightarrow> 're request_state" where
  "pause env st = st\<lparr>rq_tick := Suc (rq_tick st), rq_shared := ge_others env (rq_tick st) (rq_shared st)\<rparr>"

definition now_millis :: "('re, 'r, 'u, 'v) gateway_env \<Rightarrow> 're request_state \<Rightarrow> nat \<times> 're request_state" where
  "now_millis env st = (ge_clock env (rq_tick st), pause env st)"

definition write_down :: "('re, 'r, 'u, 'v) gateway_env \<Rightarrow> event \<Rightarrow> 're request_state \<Rightarrow> bool \<times> 're request_state" where
  "write_down env ev st = (ge_write env (rq_tick st), pause env (emit ev st))"

text \<open>How \<open>request_filter\<close> ends: \<open>Ok(true)\<close>, or an error of a downstream write.\<close>

datatype filter_end = Finished | WriteFailed

definition write_all :: "('re, 'r, 'u, 'v) gateway_env \<Rightarrow> event list \<Rightarrow> 're request_state \<Rightarrow> filter_end \<times> 're request_state" where
  "write_all env evs st =
     fold (\<lambda>ev (r, st). if r = Finished then (case write_down env ev st of
             (ok, st) \<Rightarrow> (if ok then Finished else WriteFailed, st)) else (r, st)) evs (Finished, st)"

definition short_circuit_typed ::
  "('re, 'r, 'u, 'v) gateway_env \<Rightarrow> nat \<Rightarrow> string \<Rightarrow> string \<Rightarrow> header_map \<Rightarrow> 're request_state
     \<Rightarrow> filter_end \<times> 're request_state" where
  "short_circuit_typed env status err_type message extra st =
     (let body = error_body err_type message
      in write_all env [WroteHead (error_head status body extra), WroteChunk body] st)"

definition short_circuit ::
  "('re, 'r, 'u, 'v) gateway_env \<Rightarrow> nat \<Rightarrow> string \<Rightarrow> 're request_state \<Rightarrow> filter_end \<times> 're request_state" where
  "short_circuit env status reason st = short_circuit_typed env status ''proxy_error'' reason [] st"

definition record_short_circuit :: "nat \<Rightarrow> 're request_state \<Rightarrow> 're request_state" where
  "record_short_circuit status st =
     count (RequestDuration ''short_circuit'') (count (Requests status ''short_circuit'') st)"

text \<open>A counted terminal answer.\<close>

definition reject ::
  "('re, 'r, 'u, 'v) gateway_env \<Rightarrow> nat \<Rightarrow> string \<Rightarrow> string \<Rightarrow> header_map \<Rightarrow> 're request_state
     \<Rightarrow> filter_end \<times> 're request_state" where
  "reject env status err_type message extra st =
     short_circuit_typed env status err_type message extra (record_short_circuit status st)"

section \<open>Steps that may end the request\<close>

type_synonym ('re, 'a) step = "'re request_state \<Rightarrow> (filter_end + 'a) \<times> 're request_state"

definition ends_with_end :: "filter_end \<times> 're request_state \<Rightarrow> (filter_end + 'a) \<times> 're request_state" where
  "ends_with_end r = (Inl (fst r), snd r)"

definition and_then :: "('re, 'a) step \<Rightarrow> ('a \<Rightarrow> ('re, 'b) step) \<Rightarrow> ('re, 'b) step" where
  "and_then m f st = (case m st of (Inl r, st) \<Rightarrow> (Inl r, st) | (Inr a, st) \<Rightarrow> f a st)"

section \<open>Rate limiting\<close>

definition bump_bucket ::
  "('re, 'r, 'u, 'v) gateway_env \<Rightarrow> string \<Rightarrow> token_bucket_spec \<Rightarrow> 're request_state \<Rightarrow> bool \<times> 're request_state" where
  "bump_bucket env key spec st =
     (case now_millis env st of
        (now, st) \<Rightarrow>
          (case check_bucket (ge_rnd env) (gw_buckets (rq_shared st)) key spec now of
             (granted, buckets) \<Rightarrow> (granted, st\<lparr>rq_shared := rq_shared st\<lparr>gw_buckets := buckets\<rparr>\<rparr>)))"

definition deny_headers :: "('re, 'r, 'u, 'v) gateway_env \<Rightarrow> token_bucket_spec \<Rightarrow> header_map" where
  "deny_headers env spec = header_insert ''retry-after'' (retry_after (ge_rnd env) spec) []"

definition rate_limit_pre ::
  "('re, 'r, 'u, 'v) gateway_env \<Rightarrow> string \<Rightarrow> 're request_state \<Rightarrow> header_map option \<times> 're request_state" where
  "rate_limit_pre env client_ip st =
     (case Option.bind (ge_policy env)
             (\<lambda>h. Option.bind (gp_limits (pc_global (pr_config (ph_state (h (rq_tick st)))))) ls_ip) of
        None \<Rightarrow> (None, st)
      | Some spec \<Rightarrow>
          if client_ip = [] then (None, st)
          else (case bump_bucket env (''ip:'' @ client_ip) spec st of
                  (granted, st) \<Rightarrow>
                    if granted then (None, st)
                    else (Some (deny_headers env spec), count (RateLimitDenied ''ip'') st)))"

definition rate_limit_post ::
  "('re, 'r, 'u, 'v) gateway_env \<Rightarrow> merged_policy option \<Rightarrow> string \<Rightarrow> 're request_state
     \<Rightarrow> header_map option \<times> 're request_state" where
  "rate_limit_post env merged consumer st =
     (case Option.bind merged (\<lambda>m. Option.bind (mp_limits m) ls_consumer) of
        None \<Rightarrow> (None, st)
      | Some spec \<Rightarrow>
          if consumer = [] \<or> eq_ignore_ascii_case consumer ''none'' then (None, st)
          else (case bump_bucket env (''consumer:'' @ consumer) spec st of
                  (granted, st) \<Rightarrow>
                    if granted then (None, st)
                    else (Some (deny_headers env spec), count (RateLimitDenied ''consumer'') st)))"

section \<open>The request-side guardrail\<close>

datatype guardrail_hit = GuardBlock string | GuardUnavailable string

definition client_key :: "string \<Rightarrow> llm_guard_spec \<Rightarrow> guardrail_client_key" where
  "client_key url llm =
     \<lparr>gk_url = url, gk_timeout_ms = lg_timeout_ms llm, gk_max_rps = lg_max_rps llm,
      gk_cache_ttl_secs = lg_cache_ttl_secs llm\<rparr>"

definition client_cache :: "guardrail_client_key \<Rightarrow> 're request_state \<Rightarrow> verdict_cache" where
  "client_cache key st =
     (case hm_get (gw_guardrail_clients (rq_shared st)) key of Some c \<Rightarrow> c | None \<Rightarrow> [])"

definition put_client_cache :: "guardrail_client_key \<Rightarrow> verdict_cache \<Rightarrow> 're request_state \<Rightarrow> 're request_state" where
  "put_client_cache key cache st =
     st\<lparr>rq_shared := rq_shared st\<lparr>gw_guardrail_clients := hm_insert key cache (gw_guardrail_clients (rq_shared st))\<rparr>\<rparr>"

definition guardrail_client :: "guardrail_client_key \<Rightarrow> 're request_state \<Rightarrow> 're request_state" where
  "guardrail_client key st = put_client_cache key (client_cache key st) st"

text \<open>One \<open>classify\<close> call of the cached client: the service is asked on a miss.\<close>

definition guard_classify ::
  "('re, 'r, 'u, 'v) gateway_env \<Rightarrow> guardrail_client_key \<Rightarrow> string \<Rightarrow> 're request_state
     \<Rightarrow> (string + guard_verdict option) \<times> 're request_state" where
  "guard_classify env key body st =
     (case now_millis env st of
        (asked, st) \<Rightarrow>
          (case guard_lookup asked body (client_cache key st) of
             (Some v, cache) \<Rightarrow> (Inr (Some v), put_client_cache key cache st)
           | (None, cache) \<Rightarrow>
               (let st = emit (GuardAsked body) (put_client_cache key cache st);
                    answer = guard_post (ge_parse_verdict env) (ge_guard_net env (rq_tick st) body)
                in case now_millis env st of
                     (answered, st) \<Rightarrow>
                       (case answer of
                          Inr (Some v) \<Rightarrow>
                            (answer, put_client_cache key
                               (guard_store (1000 * gk_cache_ttl_secs key) answered body v (client_cache key st)) st)
                        | _ \<Rightarrow> (answer, st)))))"

definition static_hit :: "('re, 'r, 'u, 'v) gateway_env \<Rightarrow> 'r static_rule_set option \<Rightarrow> string \<Rightarrow> guardrail_hit option" where
  "static_hit env static_set body =
     Option.bind static_set (\<lambda>rules.
       Option.bind (rule_set_evaluate (ge_rule_rx env) rules body) (\<lambda>hit.
         if gd_action hit = Block then Some (GuardBlock (''static rule '' @ CHR 0x27 # gd_hit_name hit @ [CHR 0x27]))
         else None))"

definition llm_hit ::
  "('re, 'r, 'u, 'v) gateway_env \<Rightarrow> guardrail_spec \<Rightarrow> llm_guard_spec \<Rightarrow> string \<Rightarrow> string \<Rightarrow> 're request_state
     \<Rightarrow> guardrail_hit option \<times> 're request_state" where
  "llm_hit env g llm url body st =
     (let st = guardrail_client (client_key url llm) st in
      case lg_mode llm of
        LlmSync \<Rightarrow>
          (case guard_classify env (client_key url llm) body st of
             (Inr None, st) \<Rightarrow> (None, st)
           | (Inr (Some v), st) \<Rightarrow>
               (if vd_blocked v
                then Some (GuardBlock (if vd_reason v = [] then ''llm verdict: blocked'' else vd_reason v)) else None, st)
           | (Inl e, st) \<Rightarrow>
               (if gs_fail_mode g = FailClosed \<and> lg_on_error llm = LlmReject
                then Some (GuardUnavailable ''llm guardrail verdict failed (fail-closed)'') else None,
                count GuardrailError st))
      | LlmAsync \<Rightarrow> (None, emit (GuardSpawned body) st))"

definition guardrail_in ::
  "('re, 'r, 'u, 'v) gateway_env \<Rightarrow> guardrail_spec option \<Rightarrow> 'r static_rule_set option \<Rightarrow> bytes \<Rightarrow> 're request_state
     \<Rightarrow> guardrail_hit option \<times> 're request_state" where
  "guardrail_in env guardrail static_set body st =
     (case guardrail of
        None \<Rightarrow> (None, st)
      | Some g \<Rightarrow>
          (let body = utf8_lossy body in
           case static_hit env static_set body of
             Some hit \<Rightarrow> (Some hit, st)
           | None \<Rightarrow>
               (case (gs_llm g, ge_guardrail_url env) of
                  (Some llm, Some url) \<Rightarrow> llm_hit env g llm url body st
                | _ \<Rightarrow> (None, st))))"

section \<open>Usage rows and the quota reservation\<close>

definition push_usage ::
  "('re, 'r, 'u, 'v) gateway_env \<Rightarrow> model_usage_metrics \<Rightarrow> 're request_state \<Rightarrow> 're request_state" where
  "push_usage env row st = pause env (emit (PushedUsage row) (count (UsagePushed (mm_completed row)) st))"

definition report_incomplete_usage ::
  "('re, 'r, 'u, 'v) gateway_env \<Rightarrow> prepared_request \<Rightarrow> string \<Rightarrow> usage_snapshot option \<Rightarrow> 're request_state
     \<Rightarrow> 're request_state" where
  "report_incomplete_usage env prepared service observed st =
     (case pq_usage prepared of
        Some ut \<Rightarrow>
          if ge_sink env then
            (case now_millis env st of
               (now, st) \<Rightarrow>
                 push_usage env
                   (usage_flush (case observed of Some s \<Rightarrow> s | None \<Rightarrow> usage_new Generic)
                      (usage_fields now ut prepared service)) st)
          else st
      | None \<Rightarrow> st)"

text \<open>\<open>QuotaReservation::settle\<close>, which acts once, and the drop of the guard.\<close>

definition settle_quota ::
  "('re, 'r, 'u, 'v) gateway_env \<Rightarrow> nat option \<Rightarrow> 're request_state \<Rightarrow> 're request_state" where
  "settle_quota env actual st =
     (case rq_quota st of
        None \<Rightarrow> st
      | Some r \<Rightarrow>
          if res_settled r then st
          else (case now_millis env st of
                  (now, st) \<Rightarrow>
                    (case reservation_settle now actual r (gw_quota (rq_shared st)) of
                       (r, engine) \<Rightarrow>
                         emit (Settled (res_key r) actual)
                           (st\<lparr>rq_quota := Some r, rq_shared := rq_shared st\<lparr>gw_quota := engine\<rparr>\<rparr>))))"

definition drop_quota :: "('re, 'r, 'u, 'v) gateway_env \<Rightarrow> 're request_state \<Rightarrow> 're request_state" where
  "drop_quota env st =
     (case rq_quota st of
        None \<Rightarrow> st
      | Some r \<Rightarrow>
          if res_settled r then st\<lparr>rq_quota := None\<rparr>
          else (case now_millis env st of
                  (now, st) \<Rightarrow>
                    emit (Settled (res_key r) None)
                      (st\<lparr>rq_quota := None,
                          rq_shared := rq_shared st\<lparr>gw_quota := reservation_drop now r (gw_quota (rq_shared st))\<rparr>\<rparr>)))"

section \<open>Streaming a response back\<close>

definition max_tail :: nat where "max_tail = 4096"

definition response_from_compiled :: "'r static_rule_set option \<Rightarrow> 'r chunk_scanner option" where
  "response_from_compiled rules = map_option (\<lambda>r. scanner_new r max_tail) rules"

definition response_on_chunk ::
  "'r regex_engine \<Rightarrow> bytes \<Rightarrow> 'r chunk_scanner option \<Rightarrow> guard_decision option \<times> 'r chunk_scanner option" where
  "response_on_chunk rx chunk scanner =
     (case scanner of
        None \<Rightarrow> (None, None)
      | Some sc \<Rightarrow> (case scanner_feed rx chunk sc of (hit, sc) \<Rightarrow> (hit, Some sc)))"

datatype stream_end = StreamDone usage_snapshot bool | StreamCut usage_snapshot | StreamBroken "usage_snapshot option"

text \<open>The chunk loop; the flag says whether a chunk was seen.\<close>

fun stream_loop ::
  "('re, 'r, 'u, 'v) gateway_env \<Rightarrow> bool \<Rightarrow> usage_snapshot \<Rightarrow> 'r chunk_scanner option \<Rightarrow> bool \<Rightarrow> read_result list
     \<Rightarrow> 're request_state \<Rightarrow> stream_end \<times> 're request_state" where
  "stream_loop env feed usage scanner seen (Inl e # steps) st = (StreamBroken (Some usage), pause env st)"
| "stream_loop env feed usage scanner seen (Inr (Some chunk) # steps) st =
     (let st = pause env st;
          usage = (if feed then snd (usage_feed (ge_json env) chunk usage) else usage)
      in case response_on_chunk (ge_rule_rx env) chunk scanner of
           (Some hit, scanner) \<Rightarrow> (StreamCut usage, count (GuardrailBlocked ''out'') st)
         | (None, scanner) \<Rightarrow>
             (case write_down env (WroteChunk chunk) st of
                (ok, st) \<Rightarrow>
                  if ok then stream_loop env feed usage scanner True steps st
                  else (StreamBroken (Some usage), st)))"
| "stream_loop env feed usage scanner seen steps st =
     (case write_down env WroteEnd (pause env st) of
        (ok, st) \<Rightarrow> (if ok then StreamDone usage seen else StreamBroken (Some usage), st))"

definition record_request :: "nat \<Rightarrow> string \<Rightarrow> 're request_state \<Rightarrow> 're request_state" where
  "record_request status kind st = count (RequestDuration kind) (count (Requests status kind) st)"

definition count_tokens :: "string \<Rightarrow> nat \<Rightarrow> 're request_state \<Rightarrow> 're request_state" where
  "count_tokens direction n st = (if n > 0 then count (Tokens direction n) st else st)"

text \<open>The end of a stream: the counters, the usage row, the commit of the reservation.\<close>

definition stream_finish ::
  "('re, 'r, 'u, 'v) gateway_env \<Rightarrow> prepared_request \<Rightarrow> candidate_target \<Rightarrow> nat \<Rightarrow> string \<Rightarrow> usage_snapshot \<Rightarrow> bool
     \<Rightarrow> 're request_state \<Rightarrow> 're request_state" where
  "stream_finish env prepared candidate status kind usage seen st =
     (case usage_tokens usage of
        (input, output, cached) \<Rightarrow>
          let st = record_request status kind (st\<lparr>rq_status := status\<rparr>);
              st = count_tokens ''prompt'' input st;
              st = count_tokens ''completion'' output st;
              st = count_tokens ''cached'' cached st;
              st = (if seen then count (Ttft kind) st else st)
          in case pq_usage prepared of
               Some ut \<Rightarrow>
                 if ge_sink env then
                   (case now_millis env st of
                      (now, st) \<Rightarrow>
                        let row = usage_flush usage (usage_fields now ut prepared (ct_service_name candidate))
                        in push_usage env row (settle_quota env (Some (mm_total_token row)) st))
                 else settle_quota env (Some (sat_add input output)) st
             | None \<Rightarrow> settle_quota env (Some (sat_add input output)) st)"

definition stream_cut ::
  "('re, 'r, 'u, 'v) gateway_env \<Rightarrow> prepared_request \<Rightarrow> candidate_target \<Rightarrow> nat \<Rightarrow> string \<Rightarrow> usage_snapshot
     \<Rightarrow> 're request_state \<Rightarrow> 're request_state" where
  "stream_cut env prepared candidate status kind usage st =
     (let st = (record_request status kind st)\<lparr>rq_status := status\<rparr>;
          st = settle_quota env None st;
          st = report_incomplete_usage env prepared (ct_service_name candidate) (Some usage) st
      in emit KeepaliveOff st)"

definition stream_back ::
  "('re, 'r, 'u, 'v) gateway_env \<Rightarrow> prepared_request \<Rightarrow> candidate_target \<Rightarrow> nat \<Rightarrow> (string \<times> bytes) list
     \<Rightarrow> read_result list \<Rightarrow> string \<Rightarrow> 'r static_rule_set option \<Rightarrow> 're request_state
     \<Rightarrow> stream_end \<times> 're request_state" where
  "stream_back env prepared candidate status hs body kind static_set st =
     (let to_str = ho_to_str (ge_http env);
          feed = (pq_usage prepared \<noteq> None \<and> response_is_usage_bearing to_str (raw_get hs ''content-type''))
      in case write_down env (WroteHead (stream_head to_str status hs)) st of
           (False, st) \<Rightarrow> (StreamBroken None, st)
         | (True, st) \<Rightarrow>
             (case stream_loop env feed (usage_new Generic) (response_from_compiled static_set) False body st of
                (StreamDone usage seen, st) \<Rightarrow>
                  (StreamDone usage seen, stream_finish env prepared candidate status kind usage seen st)
              | (StreamCut usage, st) \<Rightarrow>
                  (StreamCut usage, stream_cut env prepared candidate status kind usage st)
              | (StreamBroken usage, st) \<Rightarrow> (StreamBroken usage, st)))"

text \<open>A 2xx answer: streamed, and the terminal of a stream that broke.\<close>

definition serve_success ::
  "('re, 'r, 'u, 'v) gateway_env \<Rightarrow> prepared_request \<Rightarrow> candidate_target \<Rightarrow> nat \<Rightarrow> (string \<times> bytes) list
     \<Rightarrow> read_result list \<Rightarrow> string \<Rightarrow> 'r static_rule_set option \<Rightarrow> 're request_state
     \<Rightarrow> filter_end \<times> 're request_state" where
  "serve_success env prepared candidate status hs body kind static_set st =
     (case stream_back env prepared candidate status hs body kind static_set st of
        (StreamBroken usage, st) \<Rightarrow>
          (let st = (emit KeepaliveOff st)\<lparr>rq_status := status\<rparr>;
               st = record_request status kind st
           in (Finished, report_incomplete_usage env prepared (ct_service_name candidate) usage st))
      | (_, st) \<Rightarrow> (Finished, st\<lparr>rq_status := status\<rparr>))"

section \<open>The failover loop\<close>

datatype final = FinalHttp nat bytes | FinalTransport string

definition request_kind :: "prepared_request \<Rightarrow> string" where
  "request_kind prepared = (if ri_is_model_route (pq_route prepared) then ''model_route'' else ''mirror'')"

definition retry_policy_of :: "prepared_request \<Rightarrow> retry_policy" where
  "retry_policy_of prepared =
     (case pq_override_retries prepared of
        Some tries \<Rightarrow> \<lparr>rp_conditions = rp_conditions (ri_retry (pq_route prepared)), rp_tries = tries\<rparr>
      | None \<Rightarrow> ri_retry (pq_route prepared))"

definition send_outbound ::
  "('re, 'r, 'u, 'v) gateway_env \<Rightarrow> prepared_request \<Rightarrow> outbound_request \<Rightarrow> candidate_target \<Rightarrow> 're request_state
     \<Rightarrow> dial_result \<times> 're request_state" where
  "send_outbound env prepared out candidate st =
     (case dial_of (ge_http env) prepared out candidate of
        None \<Rightarrow> (DialFailed ''invalid URL'' False, emit (Dialed (ct_service_name candidate) None) st)
      | Some req \<Rightarrow>
          (ge_dial env (rq_tick st) req, pause env (emit (Dialed (ct_service_name candidate) (Some req)) st)))"

text \<open>The result: the request ended with a streamed answer, or the final failure with its service.\<close>

fun failover ::
  "('re, 'r, 'u, 'v) gateway_env \<Rightarrow> string \<Rightarrow> prepared_request \<Rightarrow> header_map \<Rightarrow> provider_token list
     \<Rightarrow> 'r static_rule_set option \<Rightarrow> nat \<Rightarrow> candidate_target list \<Rightarrow> 're request_state
     \<Rightarrow> (filter_end + final option \<times> string option) \<times> 're request_state" where
  "failover env method prepared wb tokens static_set i [] st = (Inr (None, None), st)"
| "failover env method prepared wb tokens static_set i (candidate # rest) st =
     (let policy = retry_policy_of prepared;
          may_retry = (\<lambda>status transport timed_out. rest \<noteq> [] \<and> i < rp_tries policy \<and>
            should_retry policy status transport timed_out (has_body_method method));
          service = ct_service_name candidate
      in case send_outbound env prepared (build_outbound method prepared candidate wb tokens) candidate st of
           (Answered status hs body, st) \<Rightarrow>
             if in_range 200 299 status then
               (case serve_success env prepared candidate status hs body (request_kind prepared) static_set st of
                  (r, st) \<Rightarrow> (Inl r, st))
             else if may_retry (Some status) False False then
               failover env method prepared wb tokens static_set (Suc i) rest
                 (count (UpstreamError service) (count RetryTaken st))
             else
               (Inr (Some (FinalHttp status (read_error_body_capped (ho_to_str (ge_http env)) hs body)), Some service),
                pause env st)
         | (DialFailed detail timed_out, st) \<Rightarrow>
             let st = count (UpstreamError service) st
             in if may_retry None True timed_out then
                  failover env method prepared wb tokens static_set (Suc i) rest (count RetryTaken st)
                else (Inr (Some (FinalTransport detail), None), st))"

section \<open>The stages of a hop\<close>

definition merged_entry_of :: "('re, 'r, 'u, 'v) gateway_env \<Rightarrow> prepared_request \<Rightarrow> 're request_state \<Rightarrow> 'r merged_entry option" where
  "merged_entry_of env prepared st =
     map_option (\<lambda>h. merged_for (h (rq_tick st)) (bare_ingress_name (ri_ingress_name (pq_route prepared)))) (ge_policy env)"

definition prepare_stage ::
  "('re, 'r, 'u, 'v) gateway_env \<Rightarrow> 're pipeline_ctx \<Rightarrow> nat \<Rightarrow> inbound_request \<Rightarrow> ('re, prepared_request) step" where
  "prepare_stage env ctx redirects current st =
     (case now_millis env st of
        (now, st) \<Rightarrow>
          (case (if redirects = 0 then prepare (ge_path_rx env) now ctx current (gw_config (rq_shared st))
                 else prepare_fallback (ge_path_rx env) now ctx current (gw_config (rq_shared st))) of
             (result, config) \<Rightarrow>
               let st = st\<lparr>rq_shared := rq_shared st\<lparr>gw_config := config\<rparr>\<rparr>
               in case result of
                    Inl e \<Rightarrow> ends_with_end (reject env (error_status e) ''proxy_error'' (error_reason e) [] st)
                  | Inr prepared \<Rightarrow> (Inr prepared, st)))"

definition routing_stage :: "nat \<Rightarrow> 'r merged_entry option \<Rightarrow> prepared_request \<Rightarrow> ('re, prepared_request) step" where
  "routing_stage redirects merged prepared st =
     (case (if redirects = 0 \<and> ri_matched_by (pq_route prepared) = HeaderExact
            then Option.bind merged (\<lambda>e. mp_actions (me_policy e)) else None) of
        Some actions \<Rightarrow>
          (case routing_policy_apply actions prepared of
             (prepared, applied) \<Rightarrow> (Inr prepared, count (PolicyApplied (pa_applied applied)) st))
      | None \<Rightarrow> (Inr prepared, st))"

definition with_consumer :: "header_map \<Rightarrow> prepared_request \<Rightarrow> prepared_request" where
  "with_consumer wb prepared =
     (case header_get wb hdr_mse_consumer of
        Some v \<Rightarrow> prepared\<lparr>pq_usage := map_option (\<lambda>ut. ut\<lparr>ut_mse_consumer := v\<rparr>) (pq_usage prepared)\<rparr>
      | None \<Rightarrow> prepared)"

definition auth_stage ::
  "('re, 'r, 'u, 'v) gateway_env \<Rightarrow> prepared_request \<Rightarrow> ('re, prepared_request \<times> header_map) step" where
  "auth_stage env prepared st =
     (case (if ri_auth_required (pq_route prepared) then ge_auth env else None) of
        None \<Rightarrow> (Inr (prepared, []), st)
      | Some client \<Rightarrow>
          (let headers = pq_base_headers prepared;
               outcome = authenticate (ge_http env) (ge_auth_net env (rq_tick st)) client headers;
               st = pause env (emit (AuthAsked (auth_request (ge_http env) client (typed_headers (ge_http env) headers))) st)
           in case outcome of
                AuthAllowed wb \<Rightarrow> (Inr (with_consumer wb prepared, wb), count (AuthResult ''allowed'') st)
              | AuthDenied \<Rightarrow>
                  ends_with_end (reject env 401 ''proxy_error'' ''auth_denied'' [] (count (AuthResult ''denied'') st))
              | AuthServiceUnavailable \<Rightarrow>
                  if ge_auth_fail_closed env then
                    ends_with_end (reject env 403 ''ext_auth_unavailable'' ''external auth service unavailable'' []
                      (count (AuthResult ''auth_service_unavailable_denied'') st))
                  else (Inr (prepared, []), count (AuthResult ''auth_service_unavailable_allowed'') st)))"

definition rate_stage ::
  "('re, 'r, 'u, 'v) gateway_env \<Rightarrow> nat \<Rightarrow> 'r merged_entry option \<Rightarrow> header_map \<Rightarrow> ('re, unit) step" where
  "rate_stage env redirects merged wb st =
     (if redirects = 0 then
        (case rate_limit_post env (map_option me_policy merged) (unwrap_or_empty (header_get wb hdr_mse_consumer)) st of
           (Some extra, st) \<Rightarrow> ends_with_end (reject env 429 ''rate_limit_error'' ''rate limit exceeded'' extra st)
         | (None, st) \<Rightarrow> (Inr (), st))
      else (Inr (), st))"

definition hold_reservation ::
  "quota_key \<Rightarrow> limit_window_spec \<Rightarrow> nat \<Rightarrow> nat \<Rightarrow> 're request_state \<Rightarrow> 're request_state" where
  "hold_reservation key spec now est st =
     emit (Reserved key est) (st\<lparr>rq_quota := Some (reservation_new key spec now est)\<rparr>)"

definition quota_stage ::
  "('re, 'r, 'u, 'v) gateway_env \<Rightarrow> nat \<Rightarrow> 'r merged_entry option \<Rightarrow> prepared_request \<Rightarrow> ('re, unit) step" where
  "quota_stage env redirects merged prepared st =
     (case (if redirects = 0 then pq_usage prepared else None,
            Option.bind merged (\<lambda>e. Option.bind (mp_quota (me_policy e)) by_model_tokens)) of
        (Some ut, Some spec) \<Rightarrow>
          (let est = est_tokens (length (pq_body prepared)) (ge_quota_k env); key = (ut_mse_consumer ut, ut_model ut)
           in case now_millis env st of
                (now, st) \<Rightarrow>
                  (case quota_reserve now key spec est (gw_quota (rq_shared st)) of
                     (decision, engine) \<Rightarrow>
                       let st = st\<lparr>rq_shared := rq_shared st\<lparr>gw_quota := engine\<rparr>\<rparr>
                       in case decision of
                            HardDeny \<Rightarrow>
                              ends_with_end (reject env 429 ''quota_limit_error'' ''token quota exceeded'' [] (count QuotaDenied st))
                          | SoftExceed \<Rightarrow> (Inr (), hold_reservation key spec now est (count QuotaSoftExceed st))
                          | Allowed \<Rightarrow> (Inr (), hold_reservation key spec now est st)))
      | _ \<Rightarrow> (Inr (), st))"

definition guard_stage ::
  "('re, 'r, 'u, 'v) gateway_env \<Rightarrow> nat \<Rightarrow> 'r merged_entry option \<Rightarrow> prepared_request \<Rightarrow> ('re, unit) step" where
  "guard_stage env redirects merged prepared st =
     (case (if redirects = 0 then merged else None) of
        None \<Rightarrow> (Inr (), st)
      | Some e \<Rightarrow>
          (case guardrail_in env (mp_guardrail (me_policy e)) (me_static_set e) (pq_body prepared) st of
             (None, st) \<Rightarrow> (Inr (), st)
           | (Some hit, st) \<Rightarrow>
               (case (case hit of GuardBlock r \<Rightarrow> (r, count (GuardrailBlocked ''in'') st)
                      | GuardUnavailable r \<Rightarrow> (r, st)) of
                  (reason, st) \<Rightarrow>
                    ends_with_end (reject env 403 ''guardrail_blocked'' reason []
                      (report_incomplete_usage env prepared (pq_selected_service prepared) None st)))))"

section \<open>A hop, and the request\<close>

definition is_error_final :: "final option \<Rightarrow> bool" where
  "is_error_final outcome =
     (case outcome of Some (FinalHttp status _) \<Rightarrow> in_range 400 599 status | Some (FinalTransport _) \<Rightarrow> True | None \<Rightarrow> False)"

definition arm_fallback :: "inbound_request \<Rightarrow> fallback_plan \<Rightarrow> inbound_request" where
  "arm_fallback current plan = current\<lparr>ib_headers := fallback_arm plan (ib_headers current)\<rparr>"

definition next_hop :: "nat \<Rightarrow> inbound_request \<Rightarrow> prepared_request \<Rightarrow> final option \<Rightarrow> inbound_request option" where
  "next_hop redirects current prepared outcome =
     (case ri_fallback (pq_route prepared) of
        Some spec \<Rightarrow>
          if is_error_final outcome then
            (let original_path = (case header_get (pq_base_headers prepared) hdr_original_path of
                   Some p \<Rightarrow> p | None \<Rightarrow> ib_path current)
             in map_option (arm_fallback current) (fallback_plan_of spec original_path redirects))
          else None
      | None \<Rightarrow> None)"

definition forward_final ::
  "('re, 'r, 'u, 'v) gateway_env \<Rightarrow> prepared_request \<Rightarrow> final option \<Rightarrow> string option \<Rightarrow> 're request_state
     \<Rightarrow> filter_end \<times> 're request_state" where
  "forward_final env prepared outcome service st =
     (let kind = request_kind prepared in
      case outcome of
        Some (FinalHttp status body) \<Rightarrow>
          (let st = record_request status kind (st\<lparr>rq_status := status\<rparr>);
               st = (case service of Some s \<Rightarrow> report_incomplete_usage env prepared s None st | None \<Rightarrow> st);
               head = \<lparr>rh_status = status, rh_headers = frame (response_framing status (Some (length body)) None) []\<rparr>
           in write_all env [WroteHead head, WroteChunk body] st)
      | _ \<Rightarrow> short_circuit env 502 ''all_candidates_failed'' (record_request 502 kind (st\<lparr>rq_status := 502\<rparr>)))"

definition after_failover ::
  "('re, 'r, 'u, 'v) gateway_env \<Rightarrow> nat \<Rightarrow> inbound_request \<Rightarrow> prepared_request \<Rightarrow> final option \<times> string option
     \<Rightarrow> ('re, inbound_request) step" where
  "after_failover env redirects current prepared failure st =
     (case next_hop redirects current prepared (fst failure) of
        Some next_request \<Rightarrow> (Inr next_request, count FallbackArmed st)
      | None \<Rightarrow>
          (let st = (if redirects > 0 then count FallbackExhausted st else st)
           in ends_with_end (forward_final env prepared (fst failure) (snd failure) st)))"

definition request_hop ::
  "('re, 'r, 'u, 'v) gateway_env \<Rightarrow> 're pipeline_ctx \<Rightarrow> string \<Rightarrow> nat \<Rightarrow> inbound_request \<Rightarrow> ('re, inbound_request) step" where
  "request_hop env ctx method redirects current =
     and_then (prepare_stage env ctx redirects current) (\<lambda>prepared st.
       let merged = merged_entry_of env prepared st in
       and_then (routing_stage redirects merged prepared) (\<lambda>prepared.
       and_then (auth_stage env prepared) (\<lambda>(prepared, wb).
       and_then (rate_stage env redirects merged wb) (\<lambda>_.
       and_then (quota_stage env redirects merged prepared) (\<lambda>_.
       and_then (guard_stage env redirects merged prepared) (\<lambda>_.
       and_then (failover env method prepared wb (cd_provider_tokens (px_data ctx)) (Option.bind merged me_static_set) 0
                   (pq_candidates prepared))
         (after_failover env redirects current prepared)))))) st)"

partial_function (option) dispatch ::
  "('re, 'r, 'u, 'v) gateway_env \<Rightarrow> 're pipeline_ctx \<Rightarrow> string \<Rightarrow> nat \<Rightarrow> inbound_request \<Rightarrow> 're request_state
     \<Rightarrow> (filter_end \<times> 're request_state) option" where
  "dispatch env ctx method redirects current st =
     (case request_hop env ctx method redirects current st of
        (Inl r, st) \<Rightarrow> Some (r, st)
      | (Inr next_request, st) \<Rightarrow> dispatch env ctx method (Suc redirects) next_request st)"

definition context_of :: "'re snapshot \<Rightarrow> 're pipeline_ctx" where
  "context_of sn = \<lparr>px_data = sn_data sn, px_table = sn_table sn, px_router = sn_router sn\<rparr>"

text \<open>The body read and its rejections.\<close>

definition body_stage ::
  "('re, 'r, 'u, 'v) gateway_env \<Rightarrow> string \<Rightarrow> nat \<Rightarrow> read_result list \<Rightarrow> ('re, bytes option) step" where
  "body_stage env method max_body reads st =
     (let st = pause env st in
      case read_body method max_body reads of
        Inr body \<Rightarrow> (Inr body, st)
      | Inl e \<Rightarrow>
          (let st = (case e of BodyReadAborted _ \<Rightarrow> emit KeepaliveOff st
                     | _ \<Rightarrow> emit DrainedBody (emit KeepaliveOff st))
           in ends_with_end (reject env (error_status e) ''proxy_error'' (error_reason e) [] st)))"

definition pre_stage :: "('re, 'r, 'u, 'v) gateway_env \<Rightarrow> string \<Rightarrow> ('re, unit) step" where
  "pre_stage env client_ip st =
     (case rate_limit_pre env client_ip st of
        (Some extra, st) \<Rightarrow> ends_with_end (reject env 429 ''rate_limit_error'' ''rate limit exceeded'' extra st)
      | (None, st) \<Rightarrow> (Inr (), st))"

text \<open>What the guards do when \<open>request_filter\<close> returns.\<close>

definition leave ::
  "('re, 'r, 'u, 'v) gateway_env \<Rightarrow> filter_end \<times> 're request_state \<Rightarrow> filter_end \<times> 're request_state" where
  "leave env r = (fst r, count ActiveDec (drop_quota env (snd r)))"

definition request_run ::
  "('re pipeline_ctx \<Rightarrow> string \<Rightarrow> inbound_request \<Rightarrow> 're request_state \<Rightarrow> (filter_end \<times> 're request_state) option)
     \<Rightarrow> ('re, 'r, 'u, 'v) gateway_env \<Rightarrow> session_head \<Rightarrow> read_result list \<Rightarrow> 're request_state
     \<Rightarrow> (filter_end \<times> 're request_state) option" where
  "request_run hops env req reads st =
     (let st = count ActiveInc st;
          ctx = context_of (sc_snapshot (gw_config (rq_shared st)));
          to_str = ho_to_str (ge_http env);
          head = read_headers to_str req
      in map_option (leave env)
           (case and_then (pre_stage env (ih_client_ip head))
                   (\<lambda>_. body_stage env (ih_method head) (mr_max_body_bytes (px_router ctx)) reads) st of
              (Inl r, st) \<Rightarrow> Some (r, st)
            | (Inr body, st) \<Rightarrow> hops ctx (ih_method head) (inbound_of to_str req body) st))"

definition request_filter ::
  "('re, 'r, 'u, 'v) gateway_env \<Rightarrow> session_head \<Rightarrow> read_result list \<Rightarrow> 're request_state
     \<Rightarrow> (filter_end \<times> 're request_state) option" where
  "request_filter env = request_run (\<lambda>ctx method current st. dispatch env ctx method 0 current st) env"

definition fresh_request :: "'re gateway_shared \<Rightarrow> 're request_state" where
  "fresh_request shared = \<lparr>rq_shared = shared, rq_tick = 0, rq_trace = [], rq_quota = None, rq_status = 0\<rparr>"

end
