(* ===== verification/Proxy_Facts.thy ===== *)
theory Proxy_Facts
  imports Proxy
begin

text \<open>
  What every request does, whatever the world answers: the \<open>audit\<close> of a state is the part of its
  trace the accounts are about. Each function of the request path gets the audit it appends; the
  properties are read off these.
\<close>

section \<open>The audit\<close>

fun is_total :: "event \<Rightarrow> bool" where
  "is_total (Count (Requests _ _)) = True"
| "is_total _ = False"

fun is_head :: "event \<Rightarrow> bool" where
  "is_head (WroteHead _) = True"
| "is_head _ = False"

fun is_row :: "event \<Rightarrow> bool" where
  "is_row (PushedUsage _) = True"
| "is_row _ = False"

fun is_reserved :: "event \<Rightarrow> bool" where
  "is_reserved (Reserved _ _) = True"
| "is_reserved _ = False"

fun is_settled :: "event \<Rightarrow> bool" where
  "is_settled (Settled _ _) = True"
| "is_settled _ = False"

fun is_dial :: "event \<Rightarrow> bool" where
  "is_dial (Dialed _ _) = True"
| "is_dial _ = False"

definition relevant :: "event \<Rightarrow> bool" where
  "relevant e \<longleftrightarrow> is_total e \<or> is_head e \<or> is_row e \<or> is_reserved e \<or> is_settled e \<or> is_dial e"

definition number :: "(event \<Rightarrow> bool) \<Rightarrow> event list \<Rightarrow> nat" where
  "number P es = length (filter P es)"

definition audit :: "'re request_state \<Rightarrow> event list" where
  "audit st = filter relevant (rq_trace st)"

definition open_reservation :: "'re request_state \<Rightarrow> bool" where
  "open_reservation st = (case rq_quota st of Some r \<Rightarrow> \<not> res_settled r | None \<Rightarrow> False)"

named_theorems quiet "what leaves the audit and the reservation alone"

lemma number_simps [simp]:
  "number P [] = 0" "number P (e # es) = (if P e then Suc (number P es) else number P es)"
  "number P (es @ es') = number P es + number P es'"
  by (simp_all add: number_def)

lemma number_relevant:
  "(\<And>e. P e \<Longrightarrow> relevant e) \<Longrightarrow> number P (filter relevant es) = number P es"
  by (induction es) auto

lemma number_audit:
  "number is_total (audit st) = number is_total (rq_trace st)" "number is_head (audit st) = number is_head (rq_trace st)"
  "number is_row (audit st) = number is_row (rq_trace st)"
  "number is_reserved (audit st) = number is_reserved (rq_trace st)"
  "number is_settled (audit st) = number is_settled (rq_trace st)"
  "number is_dial (audit st) = number is_dial (rq_trace st)"
  unfolding audit_def by (rule number_relevant, simp add: relevant_def)+

lemma audit_updates [simp]:
  "audit (st\<lparr>rq_shared := s\<rparr>) = audit st" "audit (st\<lparr>rq_quota := q\<rparr>) = audit st" "audit (st\<lparr>rq_status := n\<rparr>) = audit st"
  "audit (st\<lparr>rq_tick := t\<rparr>) = audit st"
  by (simp_all add: audit_def)

lemma audit_emit [simp]:
  "audit (emit ev st) = audit st @ (if relevant ev then [ev] else [])" "rq_quota (emit ev st) = rq_quota st"
  by (simp_all add: audit_def emit_def)

lemma audit_count [simp]:
  "audit (count m st) = audit st @ (if is_total (Count m) then [Count m] else [])" "rq_quota (count m st) = rq_quota st"
  by (simp_all add: count_def relevant_def)

lemma audit_pause [simp]: "audit (pause env st) = audit st" "rq_quota (pause env st) = rq_quota st"
  by (simp_all add: pause_def)

lemma audit_now [simp]:
  "audit (snd (now_millis env st)) = audit st" "rq_quota (snd (now_millis env st)) = rq_quota st"
  by (simp_all add: now_millis_def)

lemma relevant_simps [simp]:
  "relevant (WroteHead h)" "\<not> relevant (WroteChunk b)" "\<not> relevant WroteEnd" "\<not> relevant KeepaliveOff"
  "\<not> relevant DrainedBody" "\<not> relevant (AuthAsked d)" "\<not> relevant (GuardAsked t)" "\<not> relevant (GuardSpawned t)"
  "relevant (Dialed s req)" "relevant (PushedUsage m)" "relevant (Reserved k n)" "relevant (Settled k a)"
  by (simp_all add: relevant_def)

lemma write_quiet [simp]:
  "audit (snd (write_down env ev st)) = audit (emit ev st)" "rq_quota (snd (write_down env ev st)) = rq_quota st"
  by (simp_all add: write_down_def)

lemma write_all_audit:
  "audit (snd (write_all env [WroteHead h, WroteChunk b] st)) = audit st @ [WroteHead h]"
  "rq_quota (snd (write_all env [WroteHead h, WroteChunk b] st)) = rq_quota st"
  by (simp_all add: write_all_def write_down_def)

lemma short_circuit_audit:
  "\<exists>h. audit (snd (short_circuit_typed env status t m extra st)) = audit st @ [WroteHead h]"
  "rq_quota (snd (short_circuit_typed env status t m extra st)) = rq_quota st"
  by (simp_all add: short_circuit_typed_def write_all_audit Let_def)

lemma reject_audit:
  "\<exists>h. audit (snd (reject env status t m extra st)) =
     audit st @ [Count (Requests status ''short_circuit''), WroteHead h]"
  "rq_quota (snd (reject env status t m extra st)) = rq_quota st"
  using short_circuit_audit [of env status t m extra "record_short_circuit status st"]
  by (auto simp: reject_def record_short_circuit_def)

section \<open>The quiet stages\<close>

lemma bump_quiet [simp]:
  "audit (snd (bump_bucket env key spec st)) = audit st" "rq_quota (snd (bump_bucket env key spec st)) = rq_quota st"
  by (simp_all add: bump_bucket_def now_millis_def split: prod.splits)

lemma rate_pre_quiet [simp]:
  "audit (snd (rate_limit_pre env ip st)) = audit st" "rq_quota (snd (rate_limit_pre env ip st)) = rq_quota st"
  by (simp_all add: rate_limit_pre_def case_prod_beta split: option.splits)

lemma rate_post_quiet [simp]:
  "audit (snd (rate_limit_post env m c st)) = audit st" "rq_quota (snd (rate_limit_post env m c st)) = rq_quota st"
  by (simp_all add: rate_limit_post_def case_prod_beta split: option.splits)

lemma cache_quiet [simp]:
  "audit (put_client_cache k c st) = audit st" "rq_quota (put_client_cache k c st) = rq_quota st"
  "audit (guardrail_client k st) = audit st" "rq_quota (guardrail_client k st) = rq_quota st"
  by (simp_all add: put_client_cache_def guardrail_client_def)

lemma classify_quiet [simp]:
  "audit (snd (guard_classify env key body st)) = audit st"
  "rq_quota (snd (guard_classify env key body st)) = rq_quota st"
  by (simp_all add: guard_classify_def case_prod_beta Let_def split: option.splits sum.splits)

lemma llm_quiet [simp]:
  "audit (snd (llm_hit env g llm url body st)) = audit st"
  "rq_quota (snd (llm_hit env g llm url body st)) = rq_quota st"
  by (simp_all add: llm_hit_def case_prod_beta Let_def split: option.splits sum.splits llm_guard_mode.splits)

lemma guardrail_quiet [simp]:
  "audit (snd (guardrail_in env g rules body st)) = audit st"
  "rq_quota (snd (guardrail_in env g rules body st)) = rq_quota st"
  by (simp_all add: guardrail_in_def Let_def split: option.splits)

section \<open>Rows and settlements\<close>

text \<open>A usage row is pushed or not; nothing else happens.\<close>

lemma report_audit:
  "\<exists>rows. audit (report_incomplete_usage env p service obs st) = audit st @ rows \<and>
     list_all is_row rows \<and> length rows \<le> 1"
  "rq_quota (report_incomplete_usage env p service obs st) = rq_quota st"
  by (auto simp: report_incomplete_usage_def push_usage_def case_prod_beta split: option.splits
      intro: exI [of _ "[]"])

text \<open>A settlement happens when, and only when, a reservation is open.\<close>

lemma settle_audit:
  "\<exists>es. audit (settle_quota env actual st) = audit st @ es \<and> list_all is_settled es \<and>
     length es = (if open_reservation st then 1 else 0)"
  "\<not> open_reservation (settle_quota env actual st)"
  by (auto simp: settle_quota_def open_reservation_def case_prod_beta reservation_settle_def split: option.splits)

lemma drop_audit:
  "\<exists>es. audit (drop_quota env st) = audit st @ es \<and> list_all is_settled es \<and>
     length es = (if open_reservation st then 1 else 0)"
  "\<not> open_reservation (drop_quota env st)"
  by (auto simp: drop_quota_def open_reservation_def case_prod_beta split: option.splits)

lemma number_all:
  "list_all is_row es \<Longrightarrow> number is_row es = length es" "list_all is_row es \<Longrightarrow> number is_settled es = 0"
  "list_all is_row es \<Longrightarrow> number is_total es = 0" "list_all is_row es \<Longrightarrow> number is_head es = 0"
  "list_all is_row es \<Longrightarrow> number is_dial es = 0" "list_all is_row es \<Longrightarrow> number is_reserved es = 0"
  "list_all is_settled es \<Longrightarrow> number is_row es = 0" "list_all is_settled es \<Longrightarrow> number is_settled es = length es"
  "list_all is_settled es \<Longrightarrow> number is_total es = 0" "list_all is_settled es \<Longrightarrow> number is_head es = 0"
  "list_all is_settled es \<Longrightarrow> number is_dial es = 0" "list_all is_settled es \<Longrightarrow> number is_reserved es = 0"
  "list_all is_dial es \<Longrightarrow> number is_row es = 0" "list_all is_dial es \<Longrightarrow> number is_settled es = 0"
  "list_all is_dial es \<Longrightarrow> number is_total es = 0" "list_all is_dial es \<Longrightarrow> number is_head es = 0"
  "list_all is_dial es \<Longrightarrow> number is_dial es = length es" "list_all is_dial es \<Longrightarrow> number is_reserved es = 0"
  by (induction es; auto elim: is_row.elims is_settled.elims is_dial.elims)+

text \<open>
  A request's end: one head, one total, at most one row, and the open reservation settled at most
  once; no dial and no new reservation.
\<close>

definition closing :: "'re request_state \<Rightarrow> 're request_state \<Rightarrow> bool" where
  "closing st st' \<longleftrightarrow>
     (\<exists>es. audit st' = audit st @ es \<and> number is_head es = 1 \<and> number is_total es = 1 \<and> number is_row es \<le> 1 \<and>
        number is_dial es = 0 \<and> number is_reserved es = 0 \<and>
        number is_settled es + (if open_reservation st' then 1 else 0) = (if open_reservation st then 1 else 0))"

lemma open_cong: "rq_quota st' = rq_quota st \<Longrightarrow> open_reservation st' = open_reservation st"
  by (simp add: open_reservation_def)

lemma closingI:
  assumes "audit st' = audit st @ es" "rq_quota st' = rq_quota st" "number is_head es = 1" "number is_total es = 1"
    "number is_row es \<le> 1" "number is_dial es = 0" "number is_reserved es = 0" "number is_settled es = 0"
  shows "closing st st'"
  unfolding closing_def using assms open_cong [OF assms(2)] by (intro exI [of _ es]) simp

lemma reject_closing: "closing st (snd (reject env status t m extra st))"
proof -
  obtain h where "audit (snd (reject env status t m extra st)) =
     audit st @ [Count (Requests status ''short_circuit''), WroteHead h]"
    using reject_audit(1) by blast
  then show ?thesis
    using open_cong [OF reject_audit(2) [of env status t m extra st]] unfolding closing_def by auto
qed

section \<open>Streaming\<close>

lemma stream_loop_quiet:
  "audit (snd (stream_loop env feed usage sc seen steps st)) = audit st \<and>
   rq_quota (snd (stream_loop env feed usage sc seen steps st)) = rq_quota st"
proof (induction env feed usage sc seen steps st rule: stream_loop.induct)
  case (2 env feed usage sc seen chunk steps st)
  obtain hit sc' where h: "response_on_chunk (ge_rule_rx env) chunk sc = (hit, sc')" by fastforce
  obtain ok st1 where w: "write_down env (WroteChunk chunk) (pause env st) = (ok, st1)" by fastforce
  then have "audit st1 = audit st \<and> rq_quota st1 = rq_quota st"
    using write_quiet [of env "WroteChunk chunk" "pause env st"] by simp
  then show ?case using "2.IH" h w by (cases hit; cases ok) (auto simp: Let_def)
qed (simp_all add: case_prod_beta)

lemma tokens_quiet [simp]:
  "audit (count_tokens d n st) = audit st" "rq_quota (count_tokens d n st) = rq_quota st"
  by (simp_all add: count_tokens_def)

lemma record_request_audit [simp]:
  "audit (record_request status kind st) = audit st @ [Count (Requests status kind)]"
  "rq_quota (record_request status kind st) = rq_quota st"
  by (simp_all add: record_request_def)

text \<open>After the head: one total, the settlement of an open reservation, at most one row.\<close>

definition booked :: "'re request_state \<Rightarrow> 're request_state \<Rightarrow> bool" where
  "booked st st' \<longleftrightarrow>
     (\<exists>es. audit st' = audit st @ es \<and> number is_head es = 0 \<and> number is_total es = 1 \<and> number is_row es \<le> 1 \<and>
        number is_dial es = 0 \<and> number is_reserved es = 0 \<and>
        number is_settled es + (if open_reservation st' then 1 else 0) = (if open_reservation st then 1 else 0))"

lemma bookedI:
  assumes "audit st' = audit st @ Count (Requests s k) # settled @ rows"
    and "list_all is_settled settled" "list_all is_row rows" "length rows \<le> 1"
    and "length settled + (if open_reservation st' then 1 else 0) = (if open_reservation st then 1 else 0)"
  shows "booked st st'"
  unfolding booked_def using assms by (intro exI [of _ "Count (Requests s k) # settled @ rows"]) (simp add: number_all)

lemma finish_booked: "booked st (stream_finish env p c status kind usage seen st)"
proof -
  obtain input out cached where t: "usage_tokens usage = (input, out, cached)" by (cases "usage_tokens usage") auto
  define st1 where "st1 = (let st = record_request status kind (st\<lparr>rq_status := status\<rparr>);
              st = count_tokens ''prompt'' input st;
              st = count_tokens ''completion'' out st;
              st = count_tokens ''cached'' cached st
      in (if seen then count (Ttft kind) st else st))"
  have st1: "audit st1 = audit st @ [Count (Requests status kind)]" "rq_quota st1 = rq_quota st"
    by (simp_all add: st1_def Let_def)
  have eq: "stream_finish env p c status kind usage seen st =
     (case pq_usage p of
        Some ut \<Rightarrow>
          if ge_sink env then
            (case now_millis env st1 of
               (now, st) \<Rightarrow>
                 let row = usage_flush usage (usage_fields now ut p (ct_service_name c))
                 in push_usage env row (settle_quota env (Some (mm_total_token row)) st))
          else settle_quota env (Some (sat_add input out)) st1
      | None \<Rightarrow> settle_quota env (Some (sat_add input out)) st1)"
    by (simp only: stream_finish_def t st1_def Let_def prod.case)
  have "\<exists>actual rows st0. list_all is_row rows \<and> length rows \<le> 1 \<and> audit st0 = audit st1 \<and> rq_quota st0 = rq_quota st1 \<and>
     audit (stream_finish env p c status kind usage seen st) = audit (settle_quota env actual st0) @ rows \<and>
     rq_quota (stream_finish env p c status kind usage seen st) = rq_quota (settle_quota env actual st0)"
  proof (cases "pq_usage p \<noteq> None \<and> ge_sink env")
    case True
    then obtain ut where ut: "pq_usage p = Some ut" and sink: "ge_sink env" by blast
    define row where "row = usage_flush usage (usage_fields (fst (now_millis env st1)) ut p (ct_service_name c))"
    have f: "stream_finish env p c status kind usage seen st =
        push_usage env row (settle_quota env (Some (mm_total_token row)) (snd (now_millis env st1)))"
      unfolding eq using ut sink by (simp add: row_def case_prod_beta Let_def)
    show ?thesis unfolding f
      by (rule exI [of _ "Some (mm_total_token row)"], rule exI [of _ "[PushedUsage row]"],
          rule exI [of _ "snd (now_millis env st1)"]) (simp add: push_usage_def)
  next
    case False
    then have f: "stream_finish env p c status kind usage seen st = settle_quota env (Some (sat_add input out)) st1"
      unfolding eq by (auto split: option.splits)
    show ?thesis unfolding f
      by (rule exI [of _ "Some (sat_add input out)"], rule exI [of _ "[]"], rule exI [of _ st1]) simp
  qed
  then obtain actual rows st0 where s: "list_all is_row rows" "length rows \<le> 1" "audit st0 = audit st1"
    "rq_quota st0 = rq_quota st1"
    "audit (stream_finish env p c status kind usage seen st) = audit (settle_quota env actual st0) @ rows"
    "rq_quota (stream_finish env p c status kind usage seen st) = rq_quota (settle_quota env actual st0)"
    by blast
  obtain settled where w: "audit (settle_quota env actual st0) = audit st0 @ settled" "list_all is_settled settled"
    "length settled = (if open_reservation st0 then 1 else 0)" using settle_audit(1) by blast
  have "\<not> open_reservation (stream_finish env p c status kind usage seen st)"
    using settle_audit(2) open_cong [OF s(6)] by metis
  moreover have "open_reservation st0 = open_reservation st" using open_cong s(4) st1(2) by metis
  ultimately show ?thesis
    using s w st1 by (intro bookedI [of _ _ status kind settled rows]) simp_all
qed

lemma cut_booked: "booked st (stream_cut env p c status kind usage st)"
proof -
  let ?a = "(record_request status kind st)\<lparr>rq_status := status\<rparr>"
  let ?b = "settle_quota env None ?a"
  let ?c = "report_incomplete_usage env p (ct_service_name c) (Some usage) ?b"
  obtain settled where w: "audit ?b = audit ?a @ settled" "list_all is_settled settled"
    "length settled = (if open_reservation ?a then 1 else 0)" using settle_audit(1) by blast
  obtain rows where r: "audit ?c = audit ?b @ rows" "list_all is_row rows" "length rows \<le> 1"
    using report_audit(1) by blast
  have c: "stream_cut env p c status kind usage st = emit KeepaliveOff ?c" by (simp add: stream_cut_def Let_def)
  have "open_reservation (emit KeepaliveOff ?c) = open_reservation ?b"
    by (rule open_cong) (simp add: report_audit(2))
  then have "\<not> open_reservation (emit KeepaliveOff ?c)" using settle_audit(2) [of env None ?a] by simp
  moreover have "open_reservation ?a = open_reservation st" by (rule open_cong) simp
  ultimately show ?thesis unfolding c using w r by (intro bookedI [of _ _ status kind settled rows]) simp_all
qed

lemma broken_booked:
  "booked st (report_incomplete_usage env p s u (record_request status kind ((emit KeepaliveOff st)\<lparr>rq_status := status\<rparr>)))"
  (is "booked st ?b")
proof -
  obtain rows where r: "audit ?b = audit st @ [Count (Requests status kind)] @ rows" "list_all is_row rows" "length rows \<le> 1"
    using report_audit(1) [of env p s u "record_request status kind ((emit KeepaliveOff st)\<lparr>rq_status := status\<rparr>)"] by auto
  have "open_reservation ?b = open_reservation st" by (rule open_cong) (simp add: report_audit(2))
  then show ?thesis using r by (intro bookedI [of _ _ status kind "[]" rows]) simp_all
qed

lemma booked_closing:
  "booked st1 st' \<Longrightarrow> audit st1 = audit st @ [WroteHead h] \<Longrightarrow> rq_quota st1 = rq_quota st \<Longrightarrow> closing st st'"
proof -
  assume b: "booked st1 st'" and a: "audit st1 = audit st @ [WroteHead h]" and q: "rq_quota st1 = rq_quota st"
  from b obtain es where es: "audit st' = audit st1 @ es" "number is_head es = 0" "number is_total es = 1"
    "number is_row es \<le> 1" "number is_dial es = 0" "number is_reserved es = 0"
    "number is_settled es + (if open_reservation st' then 1 else 0) = (if open_reservation st1 then 1 else 0)"
    unfolding booked_def by blast
  show ?thesis unfolding closing_def
    using es a open_cong [OF q] by (intro exI [of _ "WroteHead h # es"]) simp
qed

lemma booked_status: "booked st st' \<Longrightarrow> booked st (st'\<lparr>rq_status := n\<rparr>)"
  by (simp add: booked_def open_reservation_def)

lemma serve_closing: "closing st (snd (serve_success env p c status hs body kind rules st))"
proof -
  define h where "h = stream_head (ho_to_str (ge_http env)) status hs"
  obtain ok st1 where w: "write_down env (WroteHead h) st = (ok, st1)" by fastforce
  then have st1: "audit st1 = audit st @ [WroteHead h]" "rq_quota st1 = rq_quota st"
    using write_quiet [of env "WroteHead h" st] by simp_all
  show ?thesis
  proof (cases ok)
    case False
    then show ?thesis using w booked_closing [OF broken_booked st1]
      by (simp add: serve_success_def stream_back_def Let_def flip: h_def)
  next
    case True
    define feed where "feed = (pq_usage p \<noteq> None \<and>
      response_is_usage_bearing (ho_to_str (ge_http env)) (raw_get hs ''content-type''))"
    obtain r st2 where l: "stream_loop env feed (usage_new Generic) (response_from_compiled rules) False body st1 = (r, st2)"
      by fastforce
    then have st2: "audit st2 = audit st @ [WroteHead h]" "rq_quota st2 = rq_quota st"
      using st1 stream_loop_quiet [of env feed "usage_new Generic" "response_from_compiled rules" False body st1] by simp_all
    show ?thesis
      using True w l [unfolded feed_def] st2 finish_booked cut_booked broken_booked
      by (cases r) (auto simp: serve_success_def stream_back_def Let_def
          intro!: booked_closing [OF _ st2] booked_status simp flip: h_def)
  qed
qed

section \<open>The failover loop\<close>

lemma closing_append:
  "closing st1 st' \<Longrightarrow> audit st1 = audit st @ es \<Longrightarrow> rq_quota st1 = rq_quota st \<Longrightarrow>
   \<exists>st0. audit st0 = audit st @ es \<and> rq_quota st0 = rq_quota st \<and> closing st0 st'"
  by blast

lemma send_audit:
  "send_outbound env p out c st = (res, st') \<Longrightarrow>
     \<exists>req. audit st' = audit st @ [Dialed (ct_service_name c) req] \<and> rq_quota st' = rq_quota st"
  by (auto simp: send_outbound_def split: option.splits)

text \<open>The services of the dials, in order.\<close>

definition dial_services :: "event list \<Rightarrow> string list" where
  "dial_services es = List.map_filter (\<lambda>e. case e of Dialed s _ \<Rightarrow> Some s | _ \<Rightarrow> None) es"

lemma dial_services_simps [simp]:
  "dial_services [] = []" "dial_services (es @ es') = dial_services es @ dial_services es'"
  "dial_services (Dialed s req # es) = s # dial_services es"
  by (simp_all add: dial_services_def List.map_filter_def)

text \<open>
  The loop dials a prefix of the candidates, in their order, at most \<open>tries + 1\<close> of them, then
  either gives the failure to the caller or closes the request.
\<close>

definition dialed_prefix :: "prepared_request \<Rightarrow> nat \<Rightarrow> candidate_target list \<Rightarrow> event list \<Rightarrow> bool" where
  "dialed_prefix p i cs es \<longleftrightarrow>
     list_all is_dial es \<and> dial_services es = map ct_service_name (take (length es) cs) \<and>
     length es \<le> length cs \<and> length es \<le> Suc (rp_tries (retry_policy_of p) - i)"

lemma dialed_prefix_one: "dialed_prefix p i (c # cs) [Dialed (ct_service_name c) req]"
  by (simp add: dialed_prefix_def)

lemma dialed_prefix_Cons:
  "i < rp_tries (retry_policy_of p) \<Longrightarrow> dialed_prefix p (Suc i) cs es \<Longrightarrow>
   dialed_prefix p i (c # cs) (Dialed (ct_service_name c) req # es)"
  by (auto simp: dialed_prefix_def)

definition failover_result ::
  "prepared_request \<Rightarrow> nat \<Rightarrow> candidate_target list \<Rightarrow> 're request_state
     \<Rightarrow> (filter_end + final option \<times> string option) \<times> 're request_state \<Rightarrow> bool" where
  "failover_result p i cs st r \<longleftrightarrow>
     (\<exists>es st0. audit st0 = audit st @ es \<and> rq_quota st0 = rq_quota st \<and> dialed_prefix p i cs es \<and>
        (case fst r of
           Inr _ \<Rightarrow> audit (snd r) = audit st0 \<and> rq_quota (snd r) = rq_quota st0
         | Inl _ \<Rightarrow> closing st0 (snd r)))"

lemma failover_result_Cons:
  assumes "failover_result p (Suc i) cs st1 r" and "i < rp_tries (retry_policy_of p)"
    and "audit st1 = audit st @ [Dialed (ct_service_name c) req]" and "rq_quota st1 = rq_quota st"
  shows "failover_result p i (c # cs) st r"
proof -
  obtain es st0 where es: "audit st0 = audit st1 @ es" "rq_quota st0 = rq_quota st1" "dialed_prefix p (Suc i) cs es"
    and r: "case fst r of Inr _ \<Rightarrow> audit (snd r) = audit st0 \<and> rq_quota (snd r) = rq_quota st0
         | Inl _ \<Rightarrow> closing st0 (snd r)"
    using assms(1) unfolding failover_result_def by blast
  then show ?thesis unfolding failover_result_def
    using assms dialed_prefix_Cons [OF assms(2) es(3)]
    by (intro exI [of _ "Dialed (ct_service_name c) req # es"] exI [of _ st0]) simp
qed

lemma failover_audit: "failover_result p i cs st (failover env meth p wb tokens rules i cs st)"
proof (induction env meth p wb tokens rules i cs st rule: failover.induct)
  case (1 env meth p wb tokens rules i st)
  then show ?case unfolding failover_result_def
    by (intro exI [of _ "[]"] exI [of _ st]) (simp add: dialed_prefix_def)
next
  case (2 env meth p wb tokens rules i c rest st)
  obtain res st1 where s: "send_outbound env p (build_outbound meth p c wb tokens) c st = (res, st1)" by fastforce
  obtain req where a: "audit st1 = audit st @ [Dialed (ct_service_name c) req]" "rq_quota st1 = rq_quota st"
    using send_audit [OF s] by blast
  define may where "may = (\<lambda>status transport timed_out. rest \<noteq> [] \<and> i < rp_tries (retry_policy_of p) \<and>
            should_retry (retry_policy_of p) status transport timed_out (has_body_method meth))"
  have stop: "failover_result p i (c # rest) st (Inr x, st2)"
    if "audit st2 = audit st1" "rq_quota st2 = rq_quota st1" for x and st2
    unfolding failover_result_def using a that
    by (intro exI [of _ "[Dialed (ct_service_name c) req]"] exI [of _ st1]) (simp add: dialed_prefix_one)
  show ?case
  proof (cases res)
    case (Answered status hs body)
    let ?next = "count (UpstreamError (ct_service_name c)) (count RetryTaken st1)"
    consider (ok) "in_range 200 299 status" | (again) "\<not> in_range 200 299 status" "may (Some status) False False"
      | (no) "\<not> in_range 200 299 status" "\<not> may (Some status) False False" by blast
    then show ?thesis
    proof cases
      case ok
      obtain r st2 where v: "serve_success env p c status hs body (request_kind p) rules st1 = (r, st2)" by fastforce
      then have "closing st1 st2" using serve_closing [of st1 env p c status hs body "request_kind p" rules] by simp
      then have "failover_result p i (c # rest) st (Inl r, st2)" unfolding failover_result_def using a
        by (intro exI [of _ "[Dialed (ct_service_name c) req]"] exI [of _ st1]) (simp add: dialed_prefix_one)
      then show ?thesis using ok Answered s v by (simp add: Let_def)
    next
      case again
      then have i: "i < rp_tries (retry_policy_of p)" by (simp add: may_def)
      have "failover_result p (Suc i) rest ?next (failover env meth p wb tokens rules (Suc i) rest ?next)"
        using "2.IH"(2) [OF refl refl refl s [symmetric] Answered] again by (simp add: may_def)
      then have "failover_result p i (c # rest) st (failover env meth p wb tokens rules (Suc i) rest ?next)"
        using i by (rule failover_result_Cons) (simp_all add: a)
      then show ?thesis using again Answered s by (simp add: Let_def may_def)
    next
      case no
      then have "\<not> (rest \<noteq> [] \<and> i < rp_tries (retry_policy_of p) \<and>
          should_retry (retry_policy_of p) (Some status) False False (has_body_method meth))" by (simp add: may_def)
      then show ?thesis using no(1) Answered s stop by (simp only: failover.simps Let_def) auto
    qed
  next
    case (DialFailed detail timed_out)
    let ?next = "count RetryTaken (count (UpstreamError (ct_service_name c)) st1)"
    show ?thesis
    proof (cases "may None True timed_out")
      case True
      then have i: "i < rp_tries (retry_policy_of p)" by (simp add: may_def)
      have "failover_result p (Suc i) rest ?next (failover env meth p wb tokens rules (Suc i) rest ?next)"
        using "2.IH"(1) [OF refl refl refl s [symmetric] DialFailed refl] True by (simp add: may_def)
      then have "failover_result p i (c # rest) st (failover env meth p wb tokens rules (Suc i) rest ?next)"
        using i by (rule failover_result_Cons) (simp_all add: a)
      then show ?thesis using True DialFailed s by (simp add: Let_def may_def)
    next
      case False
      then have "\<not> (rest \<noteq> [] \<and> i < rp_tries (retry_policy_of p) \<and>
          should_retry (retry_policy_of p) None True timed_out (has_body_method meth))" by (simp add: may_def)
      then show ?thesis using DialFailed s stop by (simp only: failover.simps Let_def) auto
    qed
  qed
qed

section \<open>A hop\<close>

definition same :: "'re request_state \<Rightarrow> 're request_state \<Rightarrow> bool" where
  "same st st' \<longleftrightarrow> audit st' = audit st \<and> rq_quota st' = rq_quota st"

lemma same_refl [simp]: "same st st"
  by (simp add: same_def)

lemma same_trans: "same st st1 \<Longrightarrow> same st1 st2 \<Longrightarrow> same st st2"
  by (simp add: same_def)

lemma closing_same: "same st st1 \<Longrightarrow> closing st1 st' \<Longrightarrow> closing st st'"
  unfolding same_def closing_def by (simp add: open_reservation_def)

section \<open>The contract of a stage\<close>

text \<open>
  What the stages of a hop share: a stage goes on under one relation or ends the request under another.
  The two laws are what composing stages needs; the accounts below are one instance.
\<close>

lemma and_then_cases:
  assumes "and_then m f st = r"
  obtains e st1 where "m st = (Inl e, st1)" "r = (Inl e, st1)"
    | a st1 where "m st = (Inr a, st1)" "f a st1 = r"
  using assms by (cases "m st") (auto simp: and_then_def split: sum.splits)

locale stage_contract =
  fixes goes :: "'re request_state \<Rightarrow> 're request_state \<Rightarrow> bool"
    and ends :: "'re request_state \<Rightarrow> 're request_state \<Rightarrow> bool"
  assumes goes_trans: "goes st st1 \<Longrightarrow> goes st1 st2 \<Longrightarrow> goes st st2"
    and goes_ends: "goes st st1 \<Longrightarrow> ends st1 st2 \<Longrightarrow> ends st st2"
begin

definition obeys :: "'re request_state \<Rightarrow> (filter_end + 'a) \<times> 're request_state \<Rightarrow> bool" where
  "obeys st r \<longleftrightarrow> (case fst r of Inr _ \<Rightarrow> goes st (snd r) | Inl _ \<Rightarrow> ends st (snd r))"

lemma obeys_after: "goes st st1 \<Longrightarrow> obeys st1 r \<Longrightarrow> obeys st r"
  by (auto simp: obeys_def intro: goes_trans goes_ends split: sum.splits)

lemma obeys_then:
  assumes "obeys st (m st)" "\<And>a st1. obeys st1 (f a st1)"
  shows "obeys st (and_then m f st)"
proof (cases rule: and_then_cases [of m f st, OF refl])
  case (1 e st1)
  then show ?thesis using assms(1) by (simp add: obeys_def)
next
  case (2 a st1)
  then show ?thesis using assms(1) obeys_after [OF _ assms(2)] by (metis fst_conv obeys_def snd_conv sum.case(2))
qed

text \<open>A run that did not end the request here went through the first stage.\<close>

lemma obeys_peel:
  assumes "and_then m f st1 = (r, st')" and "goes st st1" and "obeys st1 (m st1)" and "\<not> ends st st'"
  shows "\<exists>a st2. m st1 = (Inr a, st2) \<and> f a st2 = (r, st') \<and> goes st st2"
  using assms(1)
proof (rule and_then_cases)
  fix e st0 assume "m st1 = (Inl e, st0)" "(r, st') = (Inl e, st0)"
  then show ?thesis using assms(2-4) goes_ends [of st st1 st'] by (simp add: obeys_def)
next
  fix a st2 assume a: "m st1 = (Inr a, st2)" "f a st2 = (r, st')"
  then show ?thesis using assms(2,3) goes_trans [of st st1 st2] by (simp add: obeys_def)
qed

end

interpretation stages: stage_contract same closing
  by unfold_locales (fact same_trans closing_same)+

text \<open>A stage goes on and leaves the accounts alone, or closes the request.\<close>

definition stage_ok :: "'re request_state \<Rightarrow> (filter_end + 'a) \<times> 're request_state \<Rightarrow> bool" where
  "stage_ok st r \<longleftrightarrow> (case fst r of Inr _ \<Rightarrow> same st (snd r) | Inl _ \<Rightarrow> closing st (snd r))"

lemma stage_ok_obeys: "stage_ok = stages.obeys"
  by (intro ext) (simp add: stage_ok_def stages.obeys_def)

lemma stage_rejects: "same st st1 \<Longrightarrow> stage_ok st (ends_with_end (reject env status t m extra st1))"
  by (simp add: stage_ok_def ends_with_end_def closing_same [OF _ reject_closing])

lemma stage_goes_on: "same st st1 \<Longrightarrow> stage_ok st (Inr x, st1)"
  by (simp add: stage_ok_def)

lemma prepare_stage_ok: "stage_ok st (prepare_stage env ctx n current st)"
  by (auto simp: same_def prepare_stage_def case_prod_beta Let_def split: sum.splits intro!: stage_rejects stage_goes_on)

lemma routing_stage_ok: "stage_ok st (routing_stage n merged p st)"
  by (auto simp: same_def routing_stage_def case_prod_beta split: option.splits intro!: stage_goes_on)

lemma auth_stage_ok: "stage_ok st (auth_stage env p st)"
  by (auto simp: same_def auth_stage_def Let_def split: option.splits auth_outcome.splits intro!: stage_rejects stage_goes_on)

lemma rate_stage_ok: "stage_ok st (rate_stage env n merged wb st)"
  by (auto simp: same_def rate_stage_def case_prod_beta split: option.splits intro!: stage_rejects stage_goes_on)

lemma pre_stage_ok: "stage_ok st (pre_stage env ip st)"
  by (auto simp: same_def pre_stage_def case_prod_beta split: option.splits intro!: stage_rejects stage_goes_on)

lemma body_stage_ok: "stage_ok st (body_stage env meth cap reads st)"
  by (auto simp: same_def body_stage_def Let_def split: sum.splits gateway_error.splits intro!: stage_rejects stage_goes_on)

lemma guard_stage_ok: "stage_ok st (guard_stage env n merged p st)"
proof (cases "if n = 0 then merged else None")
  case (Some e)
  obtain hit st1 where g: "guardrail_in env (mp_guardrail (me_policy e)) (me_static_set e) (pq_body p) st = (hit, st1)"
    by fastforce
  then have s1: "same st st1"
    using guardrail_quiet [of env "mp_guardrail (me_policy e)" "me_static_set e" "pq_body p" st] by (simp add: same_def)
  show ?thesis
  proof (cases hit)
    case None
    then show ?thesis using Some g s1 by (simp add: guard_stage_def stage_ok_def)
  next
    case (Some h)
    define st2 where "st2 = (case h of GuardBlock r \<Rightarrow> count (GuardrailBlocked ''in'') st1 | GuardUnavailable r \<Rightarrow> st1)"
    define reason where "reason = (case h of GuardBlock r \<Rightarrow> r | GuardUnavailable r \<Rightarrow> r)"
    define st3 where "st3 = report_incomplete_usage env p (pq_selected_service p) None st2"
    have s2: "same st st2" using s1 by (auto simp: st2_def same_def split: guardrail_hit.splits)
    obtain rows where rows: "audit st3 = audit st2 @ rows" "list_all is_row rows" "length rows \<le> 1"
      using report_audit(1) unfolding st3_def by blast
    have q3: "rq_quota st3 = rq_quota st2" by (simp add: st3_def report_audit(2))
    obtain h where h: "audit (snd (reject env 403 ''guardrail_blocked'' reason [] st3)) =
        audit st3 @ [Count (Requests 403 ''short_circuit''), WroteHead h]" using reject_audit(1) by blast
    have "closing st (snd (reject env 403 ''guardrail_blocked'' reason [] st3))"
      unfolding closing_def
      using rows h s2 q3 open_cong [OF reject_audit(2) [of env 403 "''guardrail_blocked''" reason "[]" st3]]
        open_cong [OF q3] open_cong [of st2 st]
      by (intro exI [of _ "rows @ [Count (Requests 403 ''short_circuit''), WroteHead h]"]) (simp add: number_all same_def)
    then have "stage_ok st (ends_with_end (reject env 403 ''guardrail_blocked'' reason [] st3))"
      by (simp add: stage_ok_def ends_with_end_def)
    moreover have "guard_stage env n merged p st = ends_with_end (reject env 403 ''guardrail_blocked'' reason [] st3)"
      using \<open>(if n = 0 then merged else None) = Some e\<close> g Some
      by (cases "the hit") (simp_all add: guard_stage_def st3_def st2_def reason_def)
    ultimately show ?thesis by simp
  qed
qed (simp add: guard_stage_def stage_ok_def)

text \<open>The quota stage may open a reservation, on the initial dispatch only.\<close>

definition quota_ok :: "nat \<Rightarrow> 're request_state \<Rightarrow> (filter_end + unit) \<times> 're request_state \<Rightarrow> bool" where
  "quota_ok n st r \<longleftrightarrow>
     (case fst r of
        Inl _ \<Rightarrow> closing st (snd r)
      | Inr _ \<Rightarrow> same st (snd r) \<or>
          n = 0 \<and> (\<exists>k est. audit (snd r) = audit st @ [Reserved k est]) \<and> open_reservation (snd r))"

lemma hold_audit:
  "audit (hold_reservation key spec now est st) = audit st @ [Reserved key est]"
  "open_reservation (hold_reservation key spec now est st)"
  by (simp_all add: hold_reservation_def open_reservation_def)

lemma stage_quota: "stage_ok st r \<Longrightarrow> quota_ok n st r"
  by (auto simp: stage_ok_def quota_ok_def split: sum.splits)

lemma quota_stage_ok: "quota_ok n st (quota_stage env n merged p st)"
proof (cases "(if n = 0 then pq_usage p else None,
    Option.bind merged (\<lambda>e. Option.bind (mp_quota (me_policy e)) by_model_tokens))")
  case (Pair ut spec)
  show ?thesis
  proof (cases "\<exists>u s. ut = Some u \<and> spec = Some s")
    case False
    then have "quota_stage env n merged p st = (Inr (), st)"
      unfolding quota_stage_def Pair by (auto split: option.splits)
    then show ?thesis by (simp add: quota_ok_def)
  next
    case True
    then obtain u s where us: "ut = Some u" "spec = Some s" by blast
    then have n: "n = 0" using Pair by (auto split: if_splits)
    define est where "est = est_tokens (length (pq_body p)) (ge_quota_k env)"
    define key where "key = (ut_mse_consumer u, ut_model u)"
    obtain now st1 where t: "now_millis env st = (now, st1)" by fastforce
    obtain d eng where r: "quota_reserve now key s est (gw_quota (rq_shared st1)) = (d, eng)" by fastforce
    define st2 where "st2 = st1\<lparr>rq_shared := rq_shared st1\<lparr>gw_quota := eng\<rparr>\<rparr>"
    have s2: "same st st2" using audit_now [of env st] t by (simp add: st2_def same_def)
    have eq: "quota_stage env n merged p st =
        (case d of
           HardDeny \<Rightarrow> ends_with_end (reject env 429 ''quota_limit_error'' ''token quota exceeded'' [] (count QuotaDenied st2))
         | SoftExceed \<Rightarrow> (Inr (), hold_reservation key s now est (count QuotaSoftExceed st2))
         | Allowed \<Rightarrow> (Inr (), hold_reservation key s now est st2))"
      unfolding quota_stage_def Pair us prod.case option.case Let_def
      unfolding est_def [symmetric] key_def [symmetric] t prod.case r st2_def [symmetric] by (rule refl)
    have "stage_ok st (ends_with_end (reject env 429 ''quota_limit_error'' ''token quota exceeded'' [] (count QuotaDenied st2)))"
      using s2 by (intro stage_rejects) (simp add: same_def)
    then have deny: "quota_ok n st (ends_with_end (reject env 429 ''quota_limit_error'' ''token quota exceeded'' [] (count QuotaDenied st2)))"
      by (rule stage_quota)
    have hold: "quota_ok n st (Inr (), hold_reservation key s now est st3)" if "same st st3" for st3
      using that n by (simp add: quota_ok_def hold_audit same_def)
    have "same st (count QuotaSoftExceed st2)" using s2 by (simp add: same_def)
    then show ?thesis unfolding eq using deny hold s2 by (cases d) simp_all
  qed
qed

text \<open>From the start of a hop: the reservation, if any, then dials.\<close>

definition begun :: "nat \<Rightarrow> 're request_state \<Rightarrow> 're request_state \<Rightarrow> event list \<Rightarrow> bool" where
  "begun n st st1 ds \<longleftrightarrow>
     (\<exists>held. audit st1 = audit st @ held @ ds \<and> list_all is_dial ds \<and>
        (held = [] \<and> rq_quota st1 = rq_quota st \<or>
         n = 0 \<and> (\<exists>k est. held = [Reserved k est]) \<and> open_reservation st1))"

definition hop_ok :: "nat \<Rightarrow> 're request_state \<Rightarrow> (filter_end + 'a) \<times> 're request_state \<Rightarrow> bool" where
  "hop_ok n st r \<longleftrightarrow>
     (\<exists>st1 ds. begun n st st1 ds \<and> (case fst r of Inr _ \<Rightarrow> same st1 (snd r) | Inl _ \<Rightarrow> closing st1 (snd r)))"

lemma begun_refl: "begun n st st []"
  by (simp add: begun_def)

lemma begun_same: "same st st0 \<Longrightarrow> begun n st0 st1 ds \<Longrightarrow> begun n st st1 ds"
  by (simp add: same_def begun_def)

lemma hop_ok_closing: "closing st st' \<Longrightarrow> hop_ok n st (Inl r, st')"
  unfolding hop_ok_def by (intro exI [of _ st] exI [of _ "[]"]) (simp add: begun_refl)

lemma hop_ok_same: "same st st0 \<Longrightarrow> hop_ok n st0 r \<Longrightarrow> hop_ok n st r"
  unfolding hop_ok_def using begun_same by blast

lemma hop_and_then:
  assumes "stage_ok st (m st)" and "\<And>a st1. m st = (Inr a, st1) \<Longrightarrow> hop_ok n st1 (f a st1)"
  shows "hop_ok n st (and_then m f st)"
proof (cases "m st")
  case (Pair r st1)
  then show ?thesis using assms
    by (cases r) (auto simp: and_then_def stage_ok_def intro: hop_ok_closing hop_ok_same)
qed

lemma forward_closing: "closing st (snd (forward_final env p outcome service st))"
proof (cases "\<exists>status body. outcome = Some (FinalHttp status body)")
  case True
  then obtain status body where o: "outcome = Some (FinalHttp status body)" by blast
  let ?k = "request_kind p"
  let ?a = "record_request status ?k (st\<lparr>rq_status := status\<rparr>)"
  define st1 where "st1 = (case service of Some s \<Rightarrow> report_incomplete_usage env p s None ?a | None \<Rightarrow> ?a)"
  have "\<exists>rows. audit st1 = audit st @ [Count (Requests status ?k)] @ rows \<and> list_all is_row rows \<and> length rows \<le> 1"
  proof (cases service)
    case None
    then show ?thesis by (intro exI [of _ "[]"]) (simp add: st1_def)
  next
    case (Some s)
    then show ?thesis using report_audit(1) [of env p s None ?a] by (auto simp: st1_def)
  qed
  then obtain rows where rows: "audit st1 = audit st @ [Count (Requests status ?k)] @ rows" "list_all is_row rows" "length rows \<le> 1"
    by blast
  have q: "rq_quota st1 = rq_quota st" by (simp add: st1_def report_audit(2) split: option.splits)
  let ?h = "\<lparr>rh_status = status, rh_headers = frame (response_framing status (Some (length body)) None) []\<rparr>"
  have f: "forward_final env p outcome service st = write_all env [WroteHead ?h, WroteChunk body] st1"
    by (simp only: forward_final_def o st1_def Let_def option.case final.case)
  show ?thesis unfolding f
    by (rule closingI [of _ _ "[Count (Requests status ?k)] @ rows @ [WroteHead ?h]"])
      (use rows q in \<open>simp_all add: number_all write_all_audit\<close>)
next
  case False
  let ?a = "record_request 502 (request_kind p) (st\<lparr>rq_status := 502\<rparr>)"
  have f: "forward_final env p outcome service st = short_circuit env 502 ''all_candidates_failed'' ?a"
    using False by (auto simp: forward_final_def Let_def split: option.splits final.splits)
  obtain h where h: "audit (snd (short_circuit env 502 ''all_candidates_failed'' ?a)) = audit ?a @ [WroteHead h]"
    using short_circuit_audit(1) unfolding short_circuit_def by blast
  have "rq_quota (snd (short_circuit env 502 ''all_candidates_failed'' ?a)) = rq_quota st"
    by (simp add: short_circuit_def short_circuit_audit(2))
  then show ?thesis unfolding f
    by (intro closingI [of _ _ "[Count (Requests 502 (request_kind p)), WroteHead h]"]) (simp_all add: h)
qed

lemma after_failover_ok: "stage_ok st (after_failover env n current p failure st)"
proof (cases "next_hop n current p (fst failure)")
  case None
  let ?st = "if n > 0 then count FallbackExhausted st else st"
  have "same st ?st" by (simp add: same_def)
  then show ?thesis using None closing_same [OF _ forward_closing]
    by (simp only: after_failover_def option.case Let_def stage_ok_def ends_with_end_def fst_conv snd_conv sum.case)
next
  case (Some r)
  then show ?thesis by (simp add: after_failover_def stage_ok_def same_def)
qed

lemma failover_hop:
  "hop_ok m st (and_then (failover env meth p wb tokens rules 0 cs) (after_failover env n current p) st)"
proof -
  obtain r st1 where f: "failover env meth p wb tokens rules 0 cs st = (r, st1)" by fastforce
  then have "failover_result p 0 cs st (r, st1)" using failover_audit by metis
  then obtain es st0 where es: "audit st0 = audit st @ es" "rq_quota st0 = rq_quota st" "dialed_prefix p 0 cs es"
    and r: "case r of Inr _ \<Rightarrow> audit st1 = audit st0 \<and> rq_quota st1 = rq_quota st0 | Inl _ \<Rightarrow> closing st0 st1"
    unfolding failover_result_def fst_conv snd_conv by blast
  have o: "begun m st st0 es" using es by (simp add: begun_def dialed_prefix_def)
  show ?thesis
  proof (cases r)
    case (Inl e)
    then show ?thesis using o r f unfolding hop_ok_def by (auto simp: and_then_def)
  next
    case (Inr x)
    have "same st0 st1" using r Inr by (simp add: same_def)
    moreover obtain a st2 where a: "after_failover env n current p x st1 = (a, st2)" by fastforce
    ultimately show ?thesis using o f Inr after_failover_ok [of st1 env n current p x] closing_same same_trans
      unfolding hop_ok_def
      by (intro exI [of _ st0] exI [of _ es]) (auto simp: and_then_def stage_ok_def split: sum.splits)
  qed
qed

lemma quota_and_then:
  assumes q: "quota_ok n st (m st)" and f: "\<And>st1. m st = (Inr (), st1) \<Longrightarrow> \<exists>k. hop_ok k st1 (f () st1) \<and> k > 0"
  shows "hop_ok n st (and_then m f st)"
proof (cases "m st")
  case (Pair r st1)
  show ?thesis
  proof (cases r)
    case (Inl e)
    then show ?thesis using q Pair by (auto simp: and_then_def quota_ok_def intro: hop_ok_closing)
  next
    case (Inr u)
    then obtain k where h: "hop_ok k st1 (f () st1)" "k > 0" using f Pair by auto
    then obtain st2 ds where o: "begun k st1 st2 ds"
      and e: "case fst (f () st1) of Inr _ \<Rightarrow> same st2 (snd (f () st1)) | Inl _ \<Rightarrow> closing st2 (snd (f () st1))"
      unfolding hop_ok_def by blast
    have "begun n st st2 ds"
      using o q Pair Inr h(2) open_cong [of st2 st1] unfolding begun_def quota_ok_def same_def by auto
    have eq: "and_then m f st = f () st1" using Pair Inr by (simp add: and_then_def)
    show ?thesis unfolding eq hop_ok_def using e \<open>begun n st st2 ds\<close> by blast
  qed
qed

lemma hop_ok_Suc: "hop_ok (Suc n) st r \<Longrightarrow> hop_ok m st r"
  unfolding hop_ok_def begun_def by blast

lemma request_hop_ok: "hop_ok n st (request_hop env ctx meth n current st)"
  unfolding request_hop_def Let_def case_prod_beta
  by (intro hop_and_then prepare_stage_ok routing_stage_ok auth_stage_ok rate_stage_ok quota_and_then quota_stage_ok
      guard_stage_ok failover_hop exI [of _ 1] conjI) simp

section \<open>The whole request\<close>

text \<open>Before the terminal: at most one reservation, held, then dials.\<close>

definition going :: "nat \<Rightarrow> 're request_state \<Rightarrow> bool" where
  "going n st \<longleftrightarrow>
     (\<exists>held ds. audit st = held @ ds \<and> list_all is_dial ds \<and>
        (held = [] \<and> \<not> open_reservation st \<or> (\<exists>k est. held = [Reserved k est]) \<and> open_reservation st)) \<and>
     (n = 0 \<longrightarrow> audit st = [] \<and> \<not> open_reservation st)"

lemma going_begun: "going n st \<Longrightarrow> begun n st st1 ds \<Longrightarrow> going (Suc n) st1"
proof -
  assume g: "going n st" and b: "begun n st st1 ds"
  from b obtain held where b': "audit st1 = audit st @ held @ ds" "list_all is_dial ds"
    "held = [] \<and> rq_quota st1 = rq_quota st \<or> n = 0 \<and> (\<exists>k est. held = [Reserved k est]) \<and> open_reservation st1"
    unfolding begun_def by blast
  show ?thesis
  proof (cases "held = []")
    case True
    then have q: "open_reservation st1 = open_reservation st" using b'(3) open_cong by auto
    from g obtain h d where "audit st = h @ d" "list_all is_dial d"
      "h = [] \<and> \<not> open_reservation st \<or> (\<exists>k est. h = [Reserved k est]) \<and> open_reservation st"
      unfolding going_def by blast
    then show ?thesis unfolding going_def using b' True q
      by (intro conjI exI [of _ h] exI [of _ "d @ ds"]) auto
  next
    case False
    then have "n = 0" "\<exists>k est. held = [Reserved k est]" "open_reservation st1" using b'(3) by auto
    then show ?thesis using g b' unfolding going_def by (intro conjI exI [of _ held] exI [of _ ds]) auto
  qed
qed

lemma going_same: "same st st1 \<Longrightarrow> going n st \<Longrightarrow> going n st1"
  by (simp add: going_def same_def open_reservation_def)

definition finished :: "'re request_state \<Rightarrow> bool" where
  "finished st' \<longleftrightarrow> (\<exists>st1 n. going n st1 \<and> closing st1 st')"

lemma dispatch_finished:
  assumes "dispatch env ctx meth n current st = Some (r, st')" and "going n st"
  shows "finished st'"
proof -
  have "going n st \<longrightarrow> finished (snd res)" if "dispatch env ctx meth n current st = Some res" for res
    using that
  proof (induction rule: dispatch.raw_induct [rotated 1, consumes 1, case_names step])
    case (step dispatch env ctx meth n current st res)
    show ?case
    proof
      assume g: "going n st"
      obtain e st1 where h: "request_hop env ctx meth n current st = (e, st1)" by fastforce
      then have "hop_ok n st (e, st1)" using request_hop_ok by metis
      then obtain st0 ds where b: "begun n st st0 ds" "case e of Inr _ \<Rightarrow> same st0 st1 | Inl _ \<Rightarrow> closing st0 st1"
        unfolding hop_ok_def fst_conv snd_conv by blast
      have g0: "going (Suc n) st0" using g b(1) by (rule going_begun)
      show "finished (snd res)"
      proof (cases e)
        case (Inl x)
        then have "res = (x, st1)" using step(2) h by simp
        then show ?thesis using g0 b(2) Inl unfolding finished_def by auto
      next
        case (Inr y)
        then have "dispatch env ctx meth (Suc n) y st1 = Some res" using step(2) h by simp
        moreover have "going (Suc n) st1" using g0 b(2) Inr going_same by auto
        ultimately show ?thesis using step(1) by blast
      qed
    qed
  qed
  then show ?thesis using assms by fastforce
qed

lemma number_dropWhile: "(\<And>e. Q e \<Longrightarrow> relevant e) \<Longrightarrow>
    filter relevant (dropWhile (\<lambda>e. \<not> Q e) es) = dropWhile (\<lambda>e. \<not> Q e) (filter relevant es)"
  by (induction es) auto

lemma number_sub: "number P es = 0 \<Longrightarrow> number P (dropWhile Q es) = 0"
  by (induction es) (auto split: if_splits)

lemma dial_not_head: "is_dial e \<Longrightarrow> \<not> is_head e"
  by (cases e) simp_all

lemma finished_counts:
  assumes "finished st"
  shows "number is_total (audit st) = 1" "number is_head (audit st) = 1" "number is_row (audit st) \<le> 1"
    "number is_reserved (audit st) \<le> 1"
    "number is_settled (audit st) + (if open_reservation st then 1 else 0) = number is_reserved (audit st)"
    "number is_dial (dropWhile (\<lambda>e. \<not> is_head e) (audit st)) = 0"
proof -
  obtain st1 n where g: "going n st1" and c: "closing st1 st" using assms unfolding finished_def by blast
  from g obtain held ds where gd: "audit st1 = held @ ds" "list_all is_dial ds"
    "held = [] \<and> \<not> open_reservation st1 \<or> (\<exists>k est. held = [Reserved k est]) \<and> open_reservation st1"
    unfolding going_def by blast
  from c obtain es where es: "audit st = audit st1 @ es" "number is_head es = 1" "number is_total es = 1"
    "number is_row es \<le> 1" "number is_dial es = 0" "number is_reserved es = 0"
    "number is_settled es + (if open_reservation st then 1 else 0) = (if open_reservation st1 then 1 else 0)"
    unfolding closing_def by blast
  have held: "number is_total held = 0" "number is_head held = 0" "number is_row held = 0" "number is_settled held = 0"
    "number is_reserved held = (if open_reservation st1 then 1 else 0)" using gd(3) by auto
  show "number is_total (audit st) = 1" "number is_head (audit st) = 1" "number is_row (audit st) \<le> 1"
    "number is_reserved (audit st) \<le> 1"
    "number is_settled (audit st) + (if open_reservation st then 1 else 0) = number is_reserved (audit st)"
    using es gd held by (simp_all add: number_all)
  have "\<forall>e \<in> set (held @ ds). \<not> is_head e"
    using gd dial_not_head by (auto simp: list_all_iff)
  then have "dropWhile (\<lambda>e. \<not> is_head e) (audit st) = dropWhile (\<lambda>e. \<not> is_head e) es"
    using es(1) gd(1) by (simp add: dropWhile_append1 dropWhile_append)
  then show "number is_dial (dropWhile (\<lambda>e. \<not> is_head e) (audit st)) = 0" using es(5) by (simp add: number_sub)
qed

text \<open>A request finishes its books, up to the reservation the last drop settles.\<close>

lemma request_filter_finished:
  assumes "request_filter env req reads (fresh_request shared) = Some (r, st')"
  shows "\<exists>st2. finished st2 \<and> st' = count ActiveDec (drop_quota env st2)"
proof -
  define st where "st = count ActiveInc (fresh_request shared)"
  define ctx where "ctx = context_of (sc_snapshot (gw_config (rq_shared st)))"
  define meth where "meth = ih_method (read_headers (ho_to_str (ge_http env)) req)"
  define stages where "stages = and_then (pre_stage env (ih_client_ip (read_headers (ho_to_str (ge_http env)) req)))
     (\<lambda>_. body_stage env meth (mr_max_body_bytes (px_router ctx)) reads)"
  have g: "going 0 st"
    by (auto simp: going_def st_def fresh_request_def audit_def open_reservation_def count_def emit_def relevant_def)
  obtain e st1 where e: "stages st = (e, st1)" by fastforce
  have "stage_ok st (stages st)"
    unfolding stages_def stage_ok_obeys by (rule stages.obeys_then) (simp_all add: pre_stage_ok body_stage_ok flip: stage_ok_obeys)
  then have s1: "case e of Inr _ \<Rightarrow> same st st1 | Inl _ \<Rightarrow> closing st st1"
    unfolding stage_ok_def e fst_conv snd_conv .
  have eq: "request_filter env req reads (fresh_request shared) = map_option (leave env)
      (case e of Inl r \<Rightarrow> Some (r, st1)
       | Inr body \<Rightarrow> dispatch env ctx meth 0 (inbound_of (ho_to_str (ge_http env)) req body) st1)"
    unfolding request_filter_def request_run_def Let_def meth_def [symmetric] st_def [symmetric] ctx_def [symmetric]
      stages_def [symmetric] e by (cases e) simp_all
  show ?thesis
  proof (cases e)
    case (Inl x)
    then have "finished st1" using s1 g unfolding finished_def by auto
    then show ?thesis using eq assms Inl by (auto simp: leave_def)
  next
    case (Inr body)
    then have g1: "going 0 st1" using s1 g going_same by auto
    obtain st2 where "dispatch env ctx meth 0 (inbound_of (ho_to_str (ge_http env)) req body) st1 = Some (r, st2)"
      "st' = count ActiveDec (drop_quota env st2)"
      using eq assms Inr by (auto simp: leave_def dest!: sym [of "Some _"])
    then show ?thesis using dispatch_finished [OF _ g1] by blast
  qed
qed

text \<open>
  Property C1. The books of a request, whatever the world answers and other requests do: it writes
  one response head and is counted in the request totals once, it reports at most one usage row, it
  takes at most one quota reservation and settles it exactly once, and it dials no upstream after
  the head was written.
\<close>

theorem request_accounts:
  assumes "request_filter env req reads (fresh_request shared) = Some (r, st')"
  shows "number is_total (rq_trace st') = 1 \<and> number is_head (rq_trace st') = 1 \<and> number is_row (rq_trace st') \<le> 1 \<and>
    number is_reserved (rq_trace st') \<le> 1 \<and> number is_settled (rq_trace st') = number is_reserved (rq_trace st') \<and>
    number is_dial (dropWhile (\<lambda>e. \<not> is_head e) (rq_trace st')) = 0"
proof -
  obtain st2 where st2: "finished st2" "st' = count ActiveDec (drop_quota env st2)"
    using request_filter_finished [OF assms] by blast
  obtain es where es: "audit st' = audit st2 @ es" "list_all is_settled es"
    "length es = (if open_reservation st2 then 1 else 0)"
    using drop_audit(1) [of env st2] st2(2) by auto
  have "dropWhile (\<lambda>e. \<not> is_head e) (audit st') = dropWhile (\<lambda>e. \<not> is_head e) (audit st2) @ es"
  proof -
    have "number is_head (audit st2) > 0" using finished_counts(2) [OF st2(1)] by simp
    then have "\<exists>e \<in> set (audit st2). is_head e" by (auto simp: number_def filter_empty_conv)
    then show ?thesis unfolding es(1) by (auto simp: dropWhile_append1)
  qed
  then have dials: "number is_dial (dropWhile (\<lambda>e. \<not> is_head e) (audit st')) = 0"
    using finished_counts(6) [OF st2(1)] es(2) by (simp add: number_all)
  have "number is_dial (dropWhile (\<lambda>e. \<not> is_head e) (rq_trace st')) =
      number is_dial (filter relevant (dropWhile (\<lambda>e. \<not> is_head e) (rq_trace st')))"
    by (rule number_relevant [symmetric]) (simp add: relevant_def)
  also have "\<dots> = 0"
    using dials number_dropWhile [of is_head "rq_trace st'"] unfolding audit_def by (simp add: relevant_def)
  finally have d: "number is_dial (dropWhile (\<lambda>e. \<not> is_head e) (rq_trace st')) = 0" .
  show ?thesis
    using finished_counts(1-5) [OF st2(1)] es d unfolding number_audit [symmetric] by (simp add: number_all)
qed

end
