(* ===== verification/Proxy_Ends.thy ===== *)
theory Proxy_Ends
  imports Proxy_Facts
begin

text \<open>
  Every request ends: the fallback chain is bounded by the hop budgets of the routes. And what must
  have been passed before an upstream is dialed.
\<close>

section \<open>Inversion of the steps\<close>

lemma and_then_Inr:
  "and_then m f st = (Inr b, st') \<longleftrightarrow> (\<exists>a st1. m st = (Inr a, st1) \<and> f a st1 = (Inr b, st'))"
  by (auto simp: and_then_def split: prod.splits sum.splits)

lemma ends_not_Inr [simp]: "ends_with_end r \<noteq> (Inr x, st)"
  by (simp add: ends_with_end_def)

section \<open>The hop budget\<close>

definition route_budget :: "route_rule \<Rightarrow> nat" where
  "route_budget r = (case rr_fallback r of Some link \<Rightarrow> fl_max_redirects link | None \<Rightarrow> 0)"

definition hop_budget :: "'re route_table \<Rightarrow> nat" where
  "hop_budget table = foldr max (map route_budget (rt_routes table)) 0"

lemma foldr_max_ge: "x \<in> set xs \<Longrightarrow> x \<le> foldr max xs (0 :: nat)"
  by (induction xs) (auto simp: max.coboundedI2)

lemma budget_le: "i < length (rt_routes table) \<Longrightarrow> route_budget (rt_routes table ! i) \<le> hop_budget table"
  unfolding hop_budget_def by (rule foldr_max_ge) simp

lemma match_index:
  assumes t: "table_for rx data t" and m: "mt = match_initial rx \<or> mt = match_fallback rx"
    and some: "mt t headers path = Some matched"
  shows "rm_index matched < length (rt_routes t)"
proof -
  have idx: "rm_index matched < length (cd_routes data)"
    if "match_correct rx kind mk (cd_routes data) key path (Some matched)" for kind mk key
    using that unfolding match_correct_def
    by (auto simp: find_Some_iff split: option.splits)
  have "rm_index matched < length (cd_routes data)"
    using m
  proof
    assume "mt = match_initial rx"
    then have "find_keyed rx t (key_index Main (cd_routes data)) HeaderExact (header_get headers ''x-higress-llm-model'') path = Some matched"
      using some t by (simp add: match_initial_def find_match_def table_for_def)
    then show ?thesis using idx find_keyed_correct [OF t, of Main] by (metis route_kind.distinct(3))
  next
    assume "mt = match_fallback rx"
    then have "find_keyed rx t (key_index Fallback (cd_routes data)) FallbackExact (header_get headers ''x-higress-fallback-from'') path = Some matched"
      using some t by (simp add: match_fallback_def find_match_fallback_def table_for_def)
    then show ?thesis using idx find_keyed_correct [OF t, of Fallback] by (metis route_kind.distinct(5))
  qed
  then show ?thesis using t by (simp add: table_for_def)
qed

lemma budget_of: "fallback_from_route r = Some spec \<Longrightarrow> route_budget r = fs_max_redirects spec"
  by (cases "rr_fallback r") (auto simp: fallback_from_route_def route_budget_def)

lemma finish_fallback:
  "ri_fallback (pq_route (finish_prepare now inbound route matched groups headers cs body bm memo)) = fallback_from_route route"
  by (simp add: finish_prepare_def Let_def)

lemma prepare_inner_route:
  assumes "prepare_inner rx mt now ctx current sc = (Inr p, sc')"
  shows "\<exists>headers matched. mt (px_table ctx) headers (ib_path current) = Some matched \<and>
    ri_fallback (pq_route p) = fallback_from_route (rt_routes (px_table ctx) ! rm_index matched)"
  using assms unfolding prepare_inner_def Let_def
  by (fastforce split: sum.splits prod.splits option.splits if_splits simp: finish_fallback)

lemma prepare_stage_route:
  assumes t: "table_for (ge_path_rx env) data (px_table ctx)"
    and p: "prepare_stage env ctx n current st = (Inr p, st1)" and spec: "ri_fallback (pq_route p) = Some spec"
  shows "fs_max_redirects spec \<le> hop_budget (px_table ctx)"
proof -
  obtain mt now sc sc' where "prepare_inner (ge_path_rx env) mt now ctx current sc = (Inr p, sc')"
    and mt: "mt = match_initial (ge_path_rx env) \<or> mt = match_fallback (ge_path_rx env)"
    using p unfolding prepare_stage_def Let_def prepare_def prepare_fallback_def
    by (fastforce split: prod.splits sum.splits if_splits)
  then obtain headers matched where m: "mt (px_table ctx) headers (ib_path current) = Some matched"
    and f: "ri_fallback (pq_route p) = fallback_from_route (rt_routes (px_table ctx) ! rm_index matched)"
    using prepare_inner_route by blast
  have "route_budget (rt_routes (px_table ctx) ! rm_index matched) \<le> hop_budget (px_table ctx)"
    using match_index [OF t mt m] by (rule budget_le)
  then show ?thesis using budget_of f spec by metis
qed

lemma apply_actions_route [simp]: "pq_route (fst (routing_policy_apply actions p)) = pq_route p"
proof -
  have o: "pq_route (fst (apply_override actions x)) = pq_route (fst x)" for x
    by (cases x) (auto simp: apply_override_def split: option.splits)
  have "pq_route (fst (apply_pin actions x)) = pq_route (fst x)" for x
    by (cases x) (auto simp: apply_pin_def split: option.splits list.splits)
  then show ?thesis using o by (simp add: routing_policy_apply_def Let_def case_prod_beta)
qed

lemma routing_stage_route: "routing_stage n merged p st = (Inr p', st') \<Longrightarrow> pq_route p' = pq_route p"
  using apply_actions_route
  by (auto simp: routing_stage_def split: option.splits prod.splits) (metis apply_actions_route fst_conv)

lemma with_consumer_route [simp]: "pq_route (with_consumer wb p) = pq_route p"
  by (simp add: with_consumer_def split: option.splits)

lemma auth_stage_route: "auth_stage env p st = (Inr (p', wb), st') \<Longrightarrow> pq_route p' = pq_route p"
  by (auto simp: auth_stage_def Let_def split: option.splits auth_outcome.splits if_splits)

lemma next_hop_budget:
  "next_hop n current p final = Some r \<Longrightarrow> \<exists>spec. ri_fallback (pq_route p) = Some spec \<and> n < fs_max_redirects spec"
  by (auto simp: next_hop_def fallback_plan_of_def budget_exhausted_def Let_def split: option.splits if_splits)

text \<open>A hop goes on only below the budget.\<close>

lemma request_hop_budget:
  assumes t: "table_for (ge_path_rx env) data (px_table ctx)"
    and h: "request_hop env ctx meth n current st = (Inr r, st')"
  shows "n < hop_budget (px_table ctx)"
proof -
  from h obtain p st1 p2 st2 p3 wb st3 st6 failure st7 st8 where
    p: "prepare_stage env ctx n current st = (Inr p, st1)"
    and p2: "routing_stage n (merged_entry_of env p st1) p st1 = (Inr p2, st2)"
    and p3: "auth_stage env p2 st2 = (Inr (p3, wb), st3)"
    and a: "after_failover env n current p3 failure st7 = (Inr r, st8)"
    unfolding request_hop_def Let_def case_prod_beta and_then_Inr by (metis prod.collapse)
  from a have "next_hop n current p3 (fst failure) = Some r"
    by (auto simp: after_failover_def Let_def split: option.splits)
  then obtain spec where "ri_fallback (pq_route p3) = Some spec" "n < fs_max_redirects spec"
    using next_hop_budget by blast
  moreover have "pq_route p3 = pq_route p"
    using routing_stage_route [OF p2] auth_stage_route [OF p3] by simp
  ultimately show ?thesis using prepare_stage_route [OF t p] by fastforce
qed

text \<open>The loop, cut off after a number of hops.\<close>

fun dispatch_within ::
  "nat \<Rightarrow> ('re, 'r, 'u, 'v) gateway_env \<Rightarrow> 're pipeline_ctx \<Rightarrow> string \<Rightarrow> nat \<Rightarrow> inbound_request \<Rightarrow> 're request_state
     \<Rightarrow> (filter_end \<times> 're request_state) option" where
  "dispatch_within 0 env ctx meth n current st = None"
| "dispatch_within (Suc k) env ctx meth n current st =
     (case request_hop env ctx meth n current st of
        (Inl r, st) \<Rightarrow> Some (r, st)
      | (Inr next_request, st) \<Rightarrow> dispatch_within k env ctx meth (Suc n) next_request st)"

lemma dispatch_bounded:
  assumes t: "table_for (ge_path_rx env) data (px_table ctx)"
  shows "hop_budget (px_table ctx) < n + k \<Longrightarrow>
    \<exists>res. dispatch env ctx meth n current st = Some res \<and> dispatch_within k env ctx meth n current st = Some res \<or>
      k = 0"
proof (induction k arbitrary: n current st)
  case (Suc k)
  obtain e st1 where h: "request_hop env ctx meth n current st = (e, st1)" by fastforce
  show ?case
  proof (cases e)
    case (Inl r)
    then show ?thesis using h by (auto simp: dispatch.simps)
  next
    case (Inr r)
    then have "n < hop_budget (px_table ctx)" using request_hop_budget [OF t] h by metis
    then have "k \<noteq> 0" using Suc.prems by simp
    moreover have "hop_budget (px_table ctx) < Suc n + k" using Suc.prems by simp
    ultimately obtain res where "dispatch env ctx meth (Suc n) r st1 = Some res"
      "dispatch_within k env ctx meth (Suc n) r st1 = Some res" using Suc.IH by blast
    then show ?thesis using h Inr dispatch.simps [of env ctx meth n current st] by auto
  qed
qed simp

text \<open>
  Property C2. Every request ends: in a gateway whose configuration was reached by the code's own
  operations, \<open>request_filter\<close> returns for every request and every behaviour of the world, after at
  most one hop more than the largest hop budget of a route.
\<close>

theorem request_terminates:
  assumes "shared_reachable (ge_path_rx env) (gw_config shared)"
  shows "\<exists>res. request_filter env req reads (fresh_request shared) = Some res \<and>
    request_run (\<lambda>ctx meth current st.
        dispatch_within (Suc (hop_budget (shared_route_table (gw_config shared)))) env ctx meth 0 current st)
      env req reads (fresh_request shared) = Some res"
proof -
  define st where "st = count ActiveInc (fresh_request shared)"
  define ctx where "ctx = context_of (sc_snapshot (gw_config (rq_shared st)))"
  have tbl: "px_table ctx = shared_route_table (gw_config shared)"
    by (simp add: ctx_def context_of_def st_def count_def emit_def fresh_request_def shared_route_table_def)
  have "shared_ok (ge_path_rx env) (gw_config shared)" using assms by (rule shared_reachable_ok)
  then have t: "table_for (ge_path_rx env) (shared_load (gw_config shared)) (px_table ctx)"
    unfolding tbl by (intro table_rebuild_for) (simp add: shared_ok_def)
  have d: "\<exists>res. dispatch env ctx meth 0 current st1 = Some res \<and>
      dispatch_within (Suc (hop_budget (px_table ctx))) env ctx meth 0 current st1 = Some res" for meth current st1
    using dispatch_bounded [OF t, of 0 "Suc (hop_budget (px_table ctx))" meth current st1] by auto
  obtain e st1 where e: "and_then (pre_stage env (ih_client_ip (read_headers (ho_to_str (ge_http env)) req)))
      (\<lambda>_. body_stage env (ih_method (read_headers (ho_to_str (ge_http env)) req)) (mr_max_body_bytes (px_router ctx)) reads)
      st = (e, st1)" by fastforce
  show ?thesis
  proof (cases e)
    case (Inl r)
    show ?thesis
      unfolding request_filter_def request_run_def Let_def st_def [symmetric] ctx_def [symmetric] e by (simp add: Inl)
  next
    case (Inr body)
    obtain res where "dispatch env ctx (ih_method (read_headers (ho_to_str (ge_http env)) req)) 0
        (inbound_of (ho_to_str (ge_http env)) req body) st1 = Some res"
      "dispatch_within (Suc (hop_budget (px_table ctx))) env ctx (ih_method (read_headers (ho_to_str (ge_http env)) req)) 0
        (inbound_of (ho_to_str (ge_http env)) req body) st1 = Some res" using d by blast
    then show ?thesis
      unfolding request_filter_def request_run_def Let_def st_def [symmetric] ctx_def [symmetric] e tbl [symmetric]
      by (simp add: Inr del: dispatch_within.simps)
  qed
qed

section \<open>What a dial has passed\<close>

lemma dial_services_relevant: "dial_services (filter relevant es) = dial_services es"
  by (induction es) (auto simp: dial_services_def List.map_filter_def relevant_def split: event.splits)

lemma dial_services_audit: "dial_services (audit st) = dial_services (rq_trace st)"
  by (simp add: audit_def dial_services_relevant)

lemma dial_services_none: "number is_dial es = 0 \<Longrightarrow> dial_services es = []"
  by (induction es) (auto simp: dial_services_def List.map_filter_def split: event.splits if_splits)

lemma closing_dials:
  "closing st st' \<Longrightarrow> number is_dial (rq_trace st') = number is_dial (rq_trace st) \<and>
     dial_services (rq_trace st') = dial_services (rq_trace st) \<and> number is_reserved (rq_trace st') = number is_reserved (rq_trace st)"
  unfolding closing_def number_audit [symmetric] dial_services_audit [symmetric] by (auto simp: dial_services_none)

lemma same_dials:
  "same st st' \<Longrightarrow> number is_dial (rq_trace st') = number is_dial (rq_trace st) \<and>
     dial_services (rq_trace st') = dial_services (rq_trace st) \<and> number is_reserved (rq_trace st') = number is_reserved (rq_trace st)"
  unfolding same_def number_audit [symmetric] dial_services_audit [symmetric] by simp

text \<open>
  What each gate asks, of the request as prepared and the state it is reached in: the verdict of the
  auth service, a token in the consumer's bucket, room in the quota window, and no finding of the
  static rules or of a synchronous verdict service.
\<close>

definition auth_admits :: "('re, 'r, 'u, 'v) gateway_env \<Rightarrow> prepared_request \<Rightarrow> 're request_state \<Rightarrow> bool" where
  "auth_admits env p st \<longleftrightarrow>
     (case (if ri_auth_required (pq_route p) then ge_auth env else None) of
        None \<Rightarrow> True
      | Some client \<Rightarrow>
          (case authenticate (ge_http env) (ge_auth_net env (rq_tick st)) client (pq_base_headers p) of
             AuthAllowed _ \<Rightarrow> True | AuthDenied \<Rightarrow> False | AuthServiceUnavailable \<Rightarrow> \<not> ge_auth_fail_closed env))"

lemma auth_stage_admits: "auth_stage env p st = (Inr (p', wb), st') \<Longrightarrow> auth_admits env p st"
  by (auto simp: auth_stage_def auth_admits_def Let_def ends_with_end_def
      split: option.splits auth_outcome.splits if_splits)

definition rate_admits :: "('re, 'r, 'u, 'v) gateway_env \<Rightarrow> 'r merged_entry option \<Rightarrow> header_map \<Rightarrow> 're request_state \<Rightarrow> bool" where
  "rate_admits env merged wb st \<longleftrightarrow>
     (let consumer = unwrap_or_empty (header_get wb hdr_mse_consumer) in
      case Option.bind merged (\<lambda>e. Option.bind (mp_limits (me_policy e)) ls_consumer) of
        None \<Rightarrow> True
      | Some spec \<Rightarrow> consumer = [] \<or> eq_ignore_ascii_case consumer ''none'' \<or>
          fst (check_bucket (ge_rnd env) (gw_buckets (rq_shared (pause env st))) (''consumer:'' @ consumer) spec
            (ge_clock env (rq_tick st))))"

lemma rate_stage_admits: "rate_stage env 0 merged wb st = (Inr (), st') \<Longrightarrow> rate_admits env merged wb st"
  by (cases merged) (auto simp: rate_stage_def rate_admits_def rate_limit_post_def bump_bucket_def now_millis_def Let_def
      ends_with_end_def split: option.splits prod.splits if_splits)

definition quota_spec_of :: "'r merged_entry option \<Rightarrow> limit_window_spec option" where
  "quota_spec_of merged = Option.bind merged (\<lambda>e. Option.bind (mp_quota (me_policy e)) by_model_tokens)"

definition quota_admits :: "('re, 'r, 'u, 'v) gateway_env \<Rightarrow> 'r merged_entry option \<Rightarrow> prepared_request \<Rightarrow> 're request_state \<Rightarrow> bool" where
  "quota_admits env merged p st \<longleftrightarrow>
     (case (pq_usage p, quota_spec_of merged) of
        (Some ut, Some spec) \<Rightarrow>
          fst (quota_reserve (ge_clock env (rq_tick st)) (ut_mse_consumer ut, ut_model ut) spec
            (est_tokens (length (pq_body p)) (ge_quota_k env)) (gw_quota (rq_shared (pause env st)))) \<noteq> HardDeny
      | _ \<Rightarrow> True)"

lemma quota_stage_admits: "quota_stage env 0 merged p st = (Inr (), st') \<Longrightarrow> quota_admits env merged p st"
  by (cases "pq_usage p"; cases "quota_spec_of merged")
    (auto simp: quota_stage_def quota_admits_def quota_spec_of_def now_millis_def Let_def ends_with_end_def
      split: prod.splits quota_decision.splits)

lemma quota_stage_reserves:
  assumes "quota_stage env 0 merged p st = (Inr (), st')"
  shows "number is_reserved (rq_trace st') = number is_reserved (rq_trace st) +
    (if pq_usage p \<noteq> None \<and> quota_spec_of merged \<noteq> None then 1 else 0)"
proof (cases "pq_usage p \<noteq> None \<and> quota_spec_of merged \<noteq> None")
  case False
  then have "st' = st" using assms by (auto simp: quota_stage_def quota_spec_of_def split: option.splits)
  then show ?thesis using False by simp
next
  case True
  then have "\<exists>k est st1. same st st1 \<and> audit st' = audit st1 @ [Reserved k est]"
    using assms unfolding quota_stage_def quota_spec_of_def Let_def
    by (auto simp: same_def now_millis_def hold_audit split: prod.splits quota_decision.splits
        intro!: exI [of _ "pause env st"])
  then show ?thesis using True unfolding number_audit [symmetric] by (auto simp: same_def)
qed

definition guard_admits :: "('re, 'r, 'u, 'v) gateway_env \<Rightarrow> 'r merged_entry option \<Rightarrow> prepared_request \<Rightarrow> 're request_state \<Rightarrow> bool" where
  "guard_admits env merged p st \<longleftrightarrow>
     (case Option.bind merged (\<lambda>e. map_option (Pair (me_static_set e)) (mp_guardrail (me_policy e))) of
        None \<Rightarrow> True
      | Some (rules, g) \<Rightarrow>
          static_hit env rules (utf8_lossy (pq_body p)) = None \<and>
          (case (gs_llm g, ge_guardrail_url env) of
             (Some llm, Some url) \<Rightarrow>
               lg_mode llm = LlmAsync \<or>
               (case fst (guard_classify env (client_key url llm) (utf8_lossy (pq_body p)) (guardrail_client (client_key url llm) st)) of
                  Inr None \<Rightarrow> True
                | Inr (Some v) \<Rightarrow> \<not> vd_blocked v
                | Inl _ \<Rightarrow> \<not> (gs_fail_mode g = FailClosed \<and> lg_on_error llm = LlmReject))
           | _ \<Rightarrow> True))"

lemma guardrail_in_admits:
  "guardrail_in env (mp_guardrail (me_policy e)) (me_static_set e) (pq_body p) st = (None, st') \<Longrightarrow>
     guard_admits env (Some e) p st"
  by (cases "mp_guardrail (me_policy e)")
    (auto simp: guard_admits_def guardrail_in_def llm_hit_def Let_def
      split: option.splits prod.splits sum.splits llm_guard_mode.splits if_splits)

lemma guard_stage_admits: "guard_stage env 0 merged p st = (Inr (), st') \<Longrightarrow> guard_admits env merged p st"
proof (cases merged)
  case (Some e)
  obtain hit st1 where g: "guardrail_in env (mp_guardrail (me_policy e)) (me_static_set e) (pq_body p) st = (hit, st1)" by fastforce
  moreover assume "guard_stage env 0 merged p st = (Inr (), st')"
  ultimately have "hit = None"
    using Some by (cases hit) (auto simp: guard_stage_def ends_with_end_def split: guardrail_hit.splits)
  then show ?thesis using guardrail_in_admits g Some by blast
qed (simp add: guard_admits_def)

text \<open>A run that dials has not ended the request where it started from.\<close>

lemma stage_peel:
  assumes "and_then m f st1 = (r, st')" and "same st st1" and "stage_ok st1 (m st1)"
    and "number is_dial (rq_trace st') > number is_dial (rq_trace st)"
  shows "\<exists>a st2. m st1 = (Inr a, st2) \<and> f a st2 = (r, st') \<and> same st st2"
  using assms closing_dials [of st st'] by (intro stages.obeys_peel) (auto simp: stage_ok_obeys)

lemma quota_stage_dials:
  assumes "quota_stage env n merged p st = (Inr (), st')"
  shows "number is_dial (rq_trace st') = number is_dial (rq_trace st)"
    "dial_services (rq_trace st') = dial_services (rq_trace st)"
proof -
  have "same st st' \<or> (\<exists>k est. audit st' = audit st @ [Reserved k est])"
    using quota_stage_ok [of n st env merged p] assms by (auto simp: quota_ok_def)
  then show "number is_dial (rq_trace st') = number is_dial (rq_trace st)"
    "dial_services (rq_trace st') = dial_services (rq_trace st)"
    unfolding number_audit [symmetric] dial_services_audit [symmetric]
    by (auto simp: same_def dial_services_none)
qed

lemma failover_dials:
  assumes "and_then (failover env meth p wb tokens rules 0 cs) (after_failover env n current p) st = (r, st')"
  shows "\<exists>k. dial_services (rq_trace st') = dial_services (rq_trace st) @ map ct_service_name (take k cs) \<and>
     k \<le> Suc (rp_tries (retry_policy_of p)) \<and> number is_reserved (rq_trace st') = number is_reserved (rq_trace st)"
proof -
  obtain x st1 where f: "failover env meth p wb tokens rules 0 cs st = (x, st1)" by fastforce
  then have "failover_result p 0 cs st (x, st1)" using failover_audit by metis
  then obtain es st0 where es: "audit st0 = audit st @ es" "dialed_prefix p 0 cs es"
    and x: "case x of Inr _ \<Rightarrow> audit st1 = audit st0 \<and> rq_quota st1 = rq_quota st0 | Inl _ \<Rightarrow> closing st0 st1"
    unfolding failover_result_def fst_conv snd_conv by blast
  have d0: "dial_services (rq_trace st0) = dial_services (rq_trace st) @ map ct_service_name (take (length es) cs)"
    "number is_reserved (rq_trace st0) = number is_reserved (rq_trace st)"
    using es unfolding number_audit [symmetric] dial_services_audit [symmetric]
    by (simp_all add: dialed_prefix_def number_all)
  have "closing st0 st' \<or> same st0 st'"
  proof (cases x)
    case (Inl e)
    then show ?thesis using assms f x by (simp add: and_then_def)
  next
    case (Inr failure)
    then have s: "same st0 st1" using x by (simp add: same_def)
    have "after_failover env n current p failure st1 = (r, st')" using assms f Inr by (simp add: and_then_def)
    then show ?thesis
      using after_failover_ok [of st1 env n current p failure] closing_same [OF s] same_trans [OF s]
      by (auto simp: stage_ok_def split: sum.splits)
  qed
  then have "dial_services (rq_trace st') = dial_services (rq_trace st0) \<and> number is_reserved (rq_trace st') = number is_reserved (rq_trace st0)"
    using closing_dials same_dials by blast
  then show ?thesis using d0 es(2) by (intro exI [of _ "length es"]) (simp add: dialed_prefix_def)
qed

text \<open>The part of a hop behind the rate limits, and what the gates before it leave behind.\<close>

definition gated_rest where
  "gated_rest env ctx meth n current merged p wb =
     and_then (quota_stage env n merged p) (\<lambda>_.
     and_then (guard_stage env n merged p) (\<lambda>_.
     and_then (failover env meth p wb (cd_provider_tokens (px_data ctx)) (Option.bind merged me_static_set) 0 (pq_candidates p))
       (after_failover env n current p)))"

lemma hop_gates:
  fixes env :: "('re, 'r, 'u, 'v) gateway_env"
  assumes hop: "request_hop env ctx meth n current st = (r, st')"
    and dial: "number is_dial (rq_trace st') > number is_dial (rq_trace st)"
  obtains p1 st1 p2 st2 p wb st3 st4 where "prepare_stage env ctx n current st = (Inr p1, st1)"
    "routing_stage n (merged_entry_of env p1 st1) p1 st1 = (Inr p2, st2)"
    "auth_stage env p2 st2 = (Inr (p, wb), st3)" "rate_stage env n (merged_entry_of env p1 st1) wb st3 = (Inr (), st4)"
    "same st st4" "gated_rest env ctx meth n current (merged_entry_of env p1 st1) p wb st4 = (r, st')"
proof -
  define t3 where "t3 = (\<lambda>(merged :: 'r merged_entry option) p wb.
    and_then (rate_stage env n merged wb) (\<lambda>_. gated_rest env ctx meth n current merged p wb))"
  define t2 where "t2 = (\<lambda>(merged :: 'r merged_entry option) p. and_then (auth_stage env p) (\<lambda>x. t3 merged (fst x) (snd x)))"
  define t1 where "t1 = (\<lambda>p st1. and_then (routing_stage n (merged_entry_of env p st1) p) (t2 (merged_entry_of env p st1)) st1)"
  have h: "and_then (prepare_stage env ctx n current) t1 st = (r, st')"
    using hop unfolding request_hop_def t1_def t2_def t3_def gated_rest_def Let_def case_prod_beta .
  obtain p1 st1 where p1: "prepare_stage env ctx n current st = (Inr p1, st1)" and r1: "t1 p1 st1 = (r, st')"
    and s1: "same st st1"
    using stage_peel [OF h same_refl prepare_stage_ok dial] by blast
  define merged where "merged = merged_entry_of env p1 st1"
  have h: "and_then (routing_stage n merged p1) (t2 merged) st1 = (r, st')" using r1 by (simp add: t1_def merged_def)
  obtain p2 st2 where p2: "routing_stage n merged p1 st1 = (Inr p2, st2)" and r2: "t2 merged p2 st2 = (r, st')"
    and s2: "same st st2"
    using stage_peel [OF h s1 routing_stage_ok dial] by blast
  obtain p wb st3 where p3: "auth_stage env p2 st2 = (Inr (p, wb), st3)" and r3: "t3 merged p wb st3 = (r, st')"
    and s3: "same st st3"
    using stage_peel [OF r2 [unfolded t2_def] s2 auth_stage_ok dial] by (metis prod.collapse)
  obtain st4 where p4: "rate_stage env n merged wb st3 = (Inr (), st4)"
    and r4: "gated_rest env ctx meth n current merged p wb st4 = (r, st')" and s4: "same st st4"
    using stage_peel [OF r3 [unfolded t3_def] s3 rate_stage_ok dial] by (metis old.unit.exhaust)
  show thesis by (rule that [OF p1 p2 [unfolded merged_def] p3 p4 [unfolded merged_def] s4 r4 [unfolded merged_def]])
qed

text \<open>Quota, static guardrail and candidates.\<close>

lemma gated_rest_dials:
  assumes run: "gated_rest env ctx meth n current merged p wb st = (r, st')"
    and dial: "number is_dial (rq_trace st') > number is_dial (rq_trace st)"
  obtains st5 k where "quota_stage env n merged p st = (Inr (), st5)"
    "n = 0 \<longrightarrow> quota_admits env merged p st \<and> guard_admits env merged p st5 \<and> number is_reserved (rq_trace st') =
      number is_reserved (rq_trace st) + (if pq_usage p \<noteq> None \<and> quota_spec_of merged \<noteq> None then 1 else 0)"
    "dial_services (rq_trace st') = dial_services (rq_trace st) @ map ct_service_name (take k (pq_candidates p))"
    "k \<le> Suc (rp_tries (retry_policy_of p))"
proof -
  define t6 where "t6 = and_then (failover env meth p wb (cd_provider_tokens (px_data ctx)) (Option.bind merged me_static_set) 0
    (pq_candidates p)) (after_failover env n current p)"
  define t5 where "t5 = and_then (guard_stage env n merged p) (\<lambda>_. t6)"
  have "and_then (quota_stage env n merged p) (\<lambda>_. t5) st = (r, st')" using run by (simp add: gated_rest_def t5_def t6_def)
  then obtain st5 where p5: "quota_stage env n merged p st = (Inr (), st5)" and r5: "t5 st5 = (r, st')"
  proof (rule and_then_cases)
    fix e st0 assume "quota_stage env n merged p st = (Inl e, st0)" "(r, st') = (Inl e, st0)"
    then have "closing st st'" using quota_stage_ok [of n st env merged p] by (simp add: quota_ok_def)
    then show thesis using closing_dials [of st st'] dial by simp
  qed (use that in auto)
  have dial5: "number is_dial (rq_trace st') > number is_dial (rq_trace st5)" using dial quota_stage_dials [OF p5] by simp
  obtain st6 where p6: "guard_stage env n merged p st5 = (Inr (), st6)" and r6: "t6 st6 = (r, st')" and s6: "same st5 st6"
    using stage_peel [OF r5 [unfolded t5_def] same_refl guard_stage_ok dial5] by (metis old.unit.exhaust)
  obtain k where k: "dial_services (rq_trace st') = dial_services (rq_trace st6) @ map ct_service_name (take k (pq_candidates p))"
    "k \<le> Suc (rp_tries (retry_policy_of p))" "number is_reserved (rq_trace st') = number is_reserved (rq_trace st6)"
    using failover_dials [OF r6 [unfolded t6_def]] by blast
  have gates: "n = 0 \<longrightarrow> quota_admits env merged p st \<and> guard_admits env merged p st5 \<and> number is_reserved (rq_trace st') =
      number is_reserved (rq_trace st) + (if pq_usage p \<noteq> None \<and> quota_spec_of merged \<noteq> None then 1 else 0)"
    using quota_stage_reserves quota_stage_admits p5 guard_stage_admits p6 k(3) same_dials [OF s6] by metis
  have "dial_services (rq_trace st') = dial_services (rq_trace st) @ map ct_service_name (take k (pq_candidates p))"
    using k(1) same_dials [OF s6] quota_stage_dials(2) [OF p5] by simp
  then show thesis by (rule that [OF p5 gates _ k(2)])
qed

text \<open>
  Property C3. An upstream is dialed only past every gate of its hop: whatever the services answer, a
  hop that dials has prepared and routed its request; the auth service, asked at that moment about the
  headers of that request, did not deny it (or the route needs none, no service is configured, or it is
  unavailable and the gateway fails open); on the initial dispatch, each where the policy asks for it,
  the consumer's bucket gave a token, the quota window of its model had room and its reservation is held,
  no static rule matches the body and no synchronous verdict blocks it; and the dials are the first candidates of that request in
  order, at most one more than the retries allowed.
\<close>

theorem dials_gated:
  fixes env :: "('re, 'r, 'u, 'v) gateway_env"
  assumes hop: "request_hop env ctx meth n current st = (r, st')"
    and dial: "number is_dial (rq_trace st') > number is_dial (rq_trace st)"
  shows "\<exists>p1 st1 p2 st2 p wb st3 st4 st5 k.
    (let merged = merged_entry_of env p1 st1 in
       prepare_stage env ctx n current st = (Inr p1, st1) \<and>
       routing_stage n merged p1 st1 = (Inr p2, st2) \<and>
       auth_admits env p2 st2 \<and> auth_stage env p2 st2 = (Inr (p, wb), st3) \<and>
       rate_stage env n merged wb st3 = (Inr (), st4) \<and> quota_stage env n merged p st4 = (Inr (), st5) \<and>
       (n = 0 \<longrightarrow> rate_admits env merged wb st3 \<and> quota_admits env merged p st4 \<and> guard_admits env merged p st5 \<and>
          number is_reserved (rq_trace st') =
            number is_reserved (rq_trace st) + (if pq_usage p \<noteq> None \<and> quota_spec_of merged \<noteq> None then 1 else 0)) \<and>
       dial_services (rq_trace st') = dial_services (rq_trace st) @ map ct_service_name (take k (pq_candidates p)) \<and>
       k \<le> Suc (rp_tries (retry_policy_of p)))"
proof -
  obtain p1 st1 p2 st2 p wb st3 st4 where s: "prepare_stage env ctx n current st = (Inr p1, st1)"
    "routing_stage n (merged_entry_of env p1 st1) p1 st1 = (Inr p2, st2)" "auth_stage env p2 st2 = (Inr (p, wb), st3)"
    "rate_stage env n (merged_entry_of env p1 st1) wb st3 = (Inr (), st4)" "same st st4"
    and run: "gated_rest env ctx meth n current (merged_entry_of env p1 st1) p wb st4 = (r, st')"
    by (rule hop_gates [OF hop dial])
  have "number is_dial (rq_trace st') > number is_dial (rq_trace st4)" using dial same_dials [OF s(5)] by simp
  then obtain st5 k where q: "quota_stage env n (merged_entry_of env p1 st1) p st4 = (Inr (), st5)"
    "n = 0 \<longrightarrow> quota_admits env (merged_entry_of env p1 st1) p st4 \<and> guard_admits env (merged_entry_of env p1 st1) p st5 \<and>
      number is_reserved (rq_trace st') = number is_reserved (rq_trace st4) +
        (if pq_usage p \<noteq> None \<and> quota_spec_of (merged_entry_of env p1 st1) \<noteq> None then 1 else 0)"
    "dial_services (rq_trace st') = dial_services (rq_trace st4) @ map ct_service_name (take k (pq_candidates p))"
    "k \<le> Suc (rp_tries (retry_policy_of p))"
    by (rule gated_rest_dials [OF run])
  have "n = 0 \<longrightarrow> rate_admits env (merged_entry_of env p1 st1) wb st3" using rate_stage_admits s(4) by metis
  then have gates: "n = 0 \<longrightarrow> rate_admits env (merged_entry_of env p1 st1) wb st3 \<and>
      quota_admits env (merged_entry_of env p1 st1) p st4 \<and> guard_admits env (merged_entry_of env p1 st1) p st5 \<and>
      number is_reserved (rq_trace st') = number is_reserved (rq_trace st) +
        (if pq_usage p \<noteq> None \<and> quota_spec_of (merged_entry_of env p1 st1) \<noteq> None then 1 else 0)"
    using q(2) same_dials [OF s(5)] by metis
  have dials: "dial_services (rq_trace st') = dial_services (rq_trace st) @ map ct_service_name (take k (pq_candidates p))"
    using q(3) same_dials [OF s(5)] by metis
  show ?thesis
    unfolding Let_def
    by (intro exI conjI) (fact s(1) s(2) auth_stage_admits [OF s(3)] s(3) s(4) q(1) gates dials q(4))+
qed

section \<open>A fallback chain that ends silently\<close>

text \<open>
  The comment at the end of the loop says the end of an engaged fallback chain without a successful
  hop is signalled exactly once. A hop that cannot be prepared, say because the fallback route is
  gone, returns before the signal.
\<close>

lemma fallback_failure_unsignalled:
  assumes "prepare_stage env ctx (Suc n) current st = (Inl r, st')"
  shows "request_hop env ctx meth (Suc n) current st = (Inl r, st') \<and>
    filter (\<lambda>e. e = Count FallbackExhausted) (rq_trace st') = filter (\<lambda>e. e = Count FallbackExhausted) (rq_trace st)"
proof
  show "request_hop env ctx meth (Suc n) current st = (Inl r, st')"
    using assms by (simp add: request_hop_def and_then_def)
  show "filter (\<lambda>e. e = Count FallbackExhausted) (rq_trace st') = filter (\<lambda>e. e = Count FallbackExhausted) (rq_trace st)"
    using assms
    by (auto simp: prepare_stage_def now_millis_def ends_with_end_def reject_def short_circuit_typed_def write_all_def
        write_down_def record_short_circuit_def count_def emit_def pause_def Let_def split: prod.splits sum.splits if_splits)
qed

end
