(* ===== verification/Proxy_Demo.thy ===== *)
theory Proxy_Demo
  imports Proxy_Ends
begin

text \<open>A request run through the proxy: a completion whose only upstream refuses the connection.\<close>


definition demo_http :: "string http_ops" where
  "demo_http = \<lparr>ho_to_str = Some, ho_method_ok = (\<lambda>_. True), ho_name = (\<lambda>n. Some (to_ascii_lowercase n)),
     ho_value_ok = (\<lambda>_. True), ho_str_ok = (\<lambda>_. True), ho_proxy_ok = (\<lambda>_. True), ho_url_parse = Some,
     ho_set_path = (\<lambda>p u. u @ p), ho_set_query = (\<lambda>q u. u @ CHR ''?'' # q), ho_set_host = (\<lambda>_ u. Some u),
     ho_set_scheme = (\<lambda>_ u. Some u), ho_url_text = (\<lambda>u. u), ho_json_text = (\<lambda>_. [])\<rparr>"

text \<open>A gateway without policy, authentication and sink whose upstreams refuse every connection.\<close>

definition demo_env :: "(string, string, string, nat) gateway_env" where
  "demo_env = \<lparr>ge_path_rx = slash_engine,
     ge_rule_rx = \<lparr>rx_compile = Inr, rx_is_match = (\<lambda>r t. contains_str r t)\<rparr>, ge_rnd = (\<lambda>x. x),
     ge_http = demo_http, ge_json = demo_ops, ge_parse_verdict = (\<lambda>_. None), ge_auth = None,
     ge_auth_fail_closed = True, ge_sink = False, ge_policy = None, ge_quota_k = 4, ge_guardrail_url = None,
     ge_clock = (\<lambda>_. 0), ge_dial = (\<lambda>_ _. DialFailed ''connection refused'' False),
     ge_auth_net = (\<lambda>_ _. Inl ''down''), ge_guard_net = (\<lambda>_ _. Inl ''down''), ge_write = (\<lambda>_. True),
     ge_others = (\<lambda>_ s. s)\<rparr>"

definition demo_gateway :: "string gateway_shared" where
  "demo_gateway = \<lparr>gw_config = demo_shared\<lparr>sc_snapshot := \<lparr>sn_data = split_config, sn_table = demo_table, sn_router = demo_router\<rparr>\<rparr>, gw_buckets = [], gw_quota = [], gw_guardrail_clients = []\<rparr>"

definition demo_session :: session_head where
  "demo_session = \<lparr>sh_method = ''POST'', sh_path = ''/v1/chat/completions'', sh_query = None,
     sh_headers = [(''content-type'', ''application/json'')]\<rparr>"

lemma demo_head: "read_headers Some demo_session =
   \<lparr>ih_method = ''POST'', ih_path = ''/v1/chat/completions'', ih_query = [], ih_host = [],
    ih_content_type = ''application/json'', ih_client_ip = [], ih_content_length = None\<rparr>"
  by code_simp

definition run_inbound :: inbound_request where
  "run_inbound = demo_inbound\<lparr>ib_headers := [(''content-type'', [''application/json'']), ('':path'', [''/v1/chat/completions''])],
     ib_client_ip := [], ib_host := []\<rparr>"

lemma run_inbound_eq: "inbound_of Some demo_session (Some stream_body) = run_inbound"
  by code_simp

lemma run_body: "read_body ''POST'' 99 [Inr (Some stream_body)] = Inr (Some stream_body)"
  by code_simp

definition run_headers :: header_map where
  "run_headers = transformer_apply header_map_ops inbound_rules (write_model_headers (px_router demo_ctx) (Some ''m'')
     (strip_untrusted (ib_headers run_inbound)))"

lemma run_steps:
  "scan_profile (ib_body run_inbound) (ib_content_type run_inbound) (px_router demo_ctx) = demo_profile"
  "resolve_request run_inbound demo_profile (px_router demo_ctx) = Inr \<lparr>mv_resolution = BodyModel ''m'', mv_model = Some ''m''\<rparr>"
  "rewrite_body (ib_body run_inbound) (ib_content_type run_inbound) (px_router demo_ctx) demo_profile (Some ''m'') =
     (stream_body, Some ''m'', 0)"
  "match_initial slash_engine (px_table demo_ctx) run_headers (ib_path run_inbound) =
     Some \<lparr>rm_index = 0, rm_matched_by = HeaderExact, rm_predicate = Some 0\<rparr>"
  by code_simp+

definition run_prepared :: prepared_request where
  "run_prepared = finish_prepare 0 run_inbound demo_route \<lparr>rm_index = 0, rm_matched_by = HeaderExact, rm_predicate = Some 0\<rparr>
     [] run_headers [demo_candidate] stream_body (Some ''m'') (Some (am2_memo_of stream_profile))"

lemma run_prepare: "prepare slash_engine 0 demo_ctx run_inbound sc = (Inr run_prepared, sc)"
  unfolding prepare_def prepare_inner_def Let_def run_steps(1,2) sum.case model_resolve.simps run_steps(3) prod.case
    run_headers_def [symmetric] run_steps(4) option.case route_match.simps demo_order demo_groups
    run_prepared_def demo_steps(4,5) by simp

lemma run_facts:
  "pq_candidates run_prepared = [demo_candidate]" "ri_auth_required (pq_route run_prepared) = False"
  "ri_fallback (pq_route run_prepared) = None" "ct_service_name demo_candidate = ''a.static''"
  "pq_override_retries run_prepared = None" "ri_is_model_route (pq_route run_prepared)"
proof -
  have "requires_auth demo_route = False" by code_simp
  then show "ri_auth_required (pq_route run_prepared) = False"
    by (simp add: run_prepared_def finish_prepare_def Let_def)
qed (simp_all add: run_prepared_def finish_prepare_def Let_def demo_route_def sample_route_def fallback_from_route_def
      demo_candidate_def)

lemma quota_stage_none: "quota_stage env n None p st = (Inr (), st)"
  by (simp add: quota_stage_def split: option.splits)

lemma run_env:
  "ge_policy demo_env = None" "ge_auth demo_env = None" "ge_sink demo_env = False" "ge_path_rx demo_env = slash_engine"
  "ge_clock demo_env t = 0" "ge_dial demo_env t d = DialFailed ''connection refused'' False" "ge_write demo_env t"
  "ge_http demo_env = demo_http" "ge_others demo_env t s = s"
  by (simp_all add: demo_env_def)

lemma run_hop:
  "\<exists>d h b st'. request_hop demo_env demo_ctx ''POST'' 0 run_inbound st = (Inl Finished, st') \<and>
     rq_trace st' = rq_trace st @ [Dialed ''a.static'' (Some d), Count (UpstreamError ''a.static''),
       Count (Requests 502 ''model_route''), Count (RequestDuration ''model_route''), WroteHead h, WroteChunk b] \<and>
     rq_quota st' = rq_quota st"
proof -
  have p: "prepare_stage demo_env demo_ctx 0 run_inbound st = (Inr run_prepared, pause demo_env st)"
    by (simp add: prepare_stage_def now_millis_def run_env run_prepare pause_def)
  have d: "dial_of demo_http run_prepared out demo_candidate = Some (direct_dial demo_http run_prepared out demo_candidate)" for out
    by (simp add: dial_of_def run_facts starts_with_def)
  show ?thesis
    by (simp add: request_hop_def and_then_def p merged_entry_of_def run_env routing_stage_def auth_stage_def run_facts
        rate_stage_def rate_limit_post_def quota_stage_none guard_stage_def send_outbound_def d Let_def
        after_failover_def next_hop_def forward_final_def short_circuit_def short_circuit_typed_def write_all_def
        write_down_def ends_with_end_def record_request_def request_kind_def count_def emit_def pause_def)
qed

text \<open>The hop dials its one candidate; the gates the gateway has no service or policy for are open.\<close>

lemma dials_gated_witness:
  "\<exists>st' p1 st1 p2 st2 k. request_hop demo_env demo_ctx ''POST'' 0 run_inbound (fresh_request demo_gateway) = (Inl Finished, st') \<and>
     prepare_stage demo_env demo_ctx 0 run_inbound (fresh_request demo_gateway) = (Inr p1, st1) \<and>
     auth_admits demo_env p2 st2 \<and> dial_services (rq_trace st') = [''a.static''] \<and>
     map ct_service_name (take k (pq_candidates p1)) = [''a.static'']"
proof -
  let ?st = "fresh_request demo_gateway"
  obtain d h b st' where r: "request_hop demo_env demo_ctx ''POST'' 0 run_inbound ?st = (Inl Finished, st')"
    "rq_trace st' = [Dialed ''a.static'' (Some d), Count (UpstreamError ''a.static''),
       Count (Requests 502 ''model_route''), Count (RequestDuration ''model_route''), WroteHead h, WroteChunk b]"
    using run_hop [of ?st] by (auto simp: fresh_request_def)
  have dial: "number is_dial (rq_trace st') > number is_dial (rq_trace ?st)" by (simp add: r(2) fresh_request_def)
  from dials_gated [OF r(1) dial] obtain p1 st1 p2 st2 p wb st3 k where
    p: "prepare_stage demo_env demo_ctx 0 run_inbound ?st = (Inr p1, st1)"
    "routing_stage 0 (merged_entry_of demo_env p1 st1) p1 st1 = (Inr p2, st2)"
    "auth_admits demo_env p2 st2" "auth_stage demo_env p2 st2 = (Inr (p, wb), st3)"
    "dial_services (rq_trace st') = dial_services (rq_trace ?st) @ map ct_service_name (take k (pq_candidates p))"
    unfolding Let_def by blast
  have "p2 = p1" using p(2) by (auto simp: routing_stage_def merged_entry_of_def run_env split: if_splits option.splits)
  then have "pq_candidates p = pq_candidates p1"
    using p(4) by (auto simp: auth_stage_def run_env with_consumer_def Let_def split: if_splits option.splits)
  moreover have "dial_services (rq_trace st') = [''a.static'']" by (simp add: r(2) dial_services_def List.map_filter_def)
  moreover have "dial_services (rq_trace ?st) = []" by (simp add: fresh_request_def dial_services_def List.map_filter_def)
  ultimately have "dial_services (rq_trace st') = [''a.static'']" "map ct_service_name (take k (pq_candidates p1)) = [''a.static'']"
    using p(5) by simp_all
  with r(1) p(1,3) show ?thesis by (intro exI conjI)
qed

lemma run_request:
  "\<exists>d h b st'. request_filter demo_env demo_session [Inr (Some stream_body)] (fresh_request demo_gateway) = Some (Finished, st') \<and>
     rq_trace st' = [Count ActiveInc, Dialed ''a.static'' (Some d), Count (UpstreamError ''a.static''),
       Count (Requests 502 ''model_route''), Count (RequestDuration ''model_route''), WroteHead h, WroteChunk b, Count ActiveDec]"
proof -
  define st where "st = pause demo_env (count ActiveInc (fresh_request demo_gateway))"
  obtain d h b st' where r: "request_hop demo_env demo_ctx ''POST'' 0 run_inbound st = (Inl Finished, st')"
    "rq_trace st' = rq_trace st @ [Dialed ''a.static'' (Some d), Count (UpstreamError ''a.static''),
       Count (Requests 502 ''model_route''), Count (RequestDuration ''model_route''), WroteHead h, WroteChunk b]"
    "rq_quota st' = rq_quota st"
    using run_hop [of st] by blast
  have st: "rq_trace st = [Count ActiveInc]" "rq_quota st = None"
    by (simp_all add: st_def pause_def count_def emit_def fresh_request_def)
  have c: "context_of (sc_snapshot (gw_config (rq_shared (count ActiveInc (fresh_request demo_gateway))))) = demo_ctx"
    by (simp add: context_of_def demo_gateway_def fresh_request_def count_def emit_def demo_ctx_def)
  have m: "mr_max_body_bytes (px_router demo_ctx) = 99" by (simp add: demo_ctx_def demo_router_def)
  have t: "ho_to_str (ge_http demo_env) = Some" by (simp add: run_env demo_http_def)
  have "request_filter demo_env demo_session [Inr (Some stream_body)] (fresh_request demo_gateway) =
      Some (leave demo_env (Finished, st'))"
    unfolding request_filter_def request_run_def Let_def c t demo_head m
    using r(1) by (simp add: and_then_def pre_stage_def rate_limit_pre_def run_env body_stage_def run_body run_inbound_eq
        dispatch.simps [of demo_env demo_ctx] st_def)
  then show ?thesis using r(2,3) st
    by (simp add: leave_def drop_quota_def count_def emit_def)
qed

lemma request_accounts_witness:
  "\<exists>st'. request_filter demo_env demo_session [Inr (Some stream_body)] (fresh_request demo_gateway) = Some (Finished, st') \<and>
     number is_total (rq_trace st') = 1 \<and> number is_head (rq_trace st') = 1 \<and> number is_dial (rq_trace st') = 1 \<and>
     number is_dial (dropWhile (\<lambda>e. \<not> is_head e) (rq_trace st')) = 0"
proof -
  obtain d h b st' where r: "request_filter demo_env demo_session [Inr (Some stream_body)] (fresh_request demo_gateway) = Some (Finished, st')"
    "rq_trace st' = [Count ActiveInc, Dialed ''a.static'' (Some d), Count (UpstreamError ''a.static''),
       Count (Requests 502 ''model_route''), Count (RequestDuration ''model_route''), WroteHead h, WroteChunk b, Count ActiveDec]"
    using run_request by blast
  have "number is_dial (rq_trace st') = 1" by (simp add: r(2))
  then show ?thesis using request_accounts [OF r(1)] r(1) by blast
qed

lemma request_terminates_witness:
  "\<exists>sc res. shared_new slash_engine split_config = Inr sc \<and>
     request_filter demo_env demo_session [Inr (Some stream_body)] (fresh_request (demo_gateway\<lparr>gw_config := sc\<rparr>)) = Some res"
proof -
  obtain sc where sc: "shared_new slash_engine split_config = Inr sc" using split_new by blast
  then have "shared_reachable (ge_path_rx demo_env) (gw_config (demo_gateway\<lparr>gw_config := sc\<rparr>))"
    by (auto simp: run_env intro: shared_reachable.new)
  from request_terminates [OF this] sc show ?thesis by blast
qed

end
