(* ===== verification/Translate.thy ===== *)
theory Translate
  imports Config Policy_Merge Utf8 Json_Value
begin

text \<open>
  The translation of cluster objects to a configuration snapshot,
  \<open>hygress-adapter/src/translate.rs\<close>: one definition per function, and the assembly
  \<open>build_config_data\<close> with the merge of the model mappings and the wiring of the fallbacks.

  Base64 and YAML are third-party: \<open>b64\<close> decodes a base64 text, and a record of three functions
  stands for a parsed YAML document.
\<close>

section \<open>Objects\<close>

definition managed_label :: string where [simp]: "managed_label = ''gpustack.ai/managed''"
definition mirror_name_default :: string where "mirror_name_default = ''gpustack''"
definition higress_config_map :: string where "higress_config_map = ''higress-config''"
definition tls_secret_prefix :: string where "tls_secret_prefix = ''gpustack-tls-''"

definition annot_destination :: string where "annot_destination = ''higress.io/destination''"
definition annot_rewrite_target :: string where "annot_rewrite_target = ''higress.io/rewrite-target''"
definition annot_ignore_path_case :: string where "annot_ignore_path_case = ''higress.io/ignore-path-case''"
definition annot_next_upstream :: string where "annot_next_upstream = ''higress.io/proxy-next-upstream''"
definition annot_next_upstream_tries :: string where
  "annot_next_upstream_tries = ''higress.io/proxy-next-upstream-tries''"
definition annot_match_llm_model :: string where
  "annot_match_llm_model = ''higress.io/exact-match-header-x-higress-llm-model''"
definition annot_match_fallback_from :: string where
  "annot_match_fallback_from = ''higress.io/exact-match-header-x-higress-fallback-from''"

definition model_mapper_name :: string where "model_mapper_name = ''gpustack-model-mapper''"
definition model_router_name :: string where "model_router_name = ''gpustack-model-router''"
definition ai_proxy_name :: string where "ai_proxy_name = ''gpustack-ai-proxy''"
definition custom_response_filter :: string where
  "custom_response_filter = ''envoy.filters.http.custom_response''"

datatype object_kind = McpBridgeKind | WasmPluginKind | EnvoyFilterKind | IngressKind | SecretKind | ConfigMapKind

record cluster_object =
  ob_kind :: object_kind
  ob_name :: string
  ob_namespace :: string
  ob_uid :: string
  ob_resource_version :: nat
  ob_value :: json

definition is_managed :: "cluster_object \<Rightarrow> bool" where
  "is_managed obj \<longleftrightarrow> json_at (ob_value obj) [''metadata'', ''labels'', managed_label] = Some (JString ''true'')"

definition annotation :: "json \<Rightarrow> string \<Rightarrow> string option" where
  "annotation v key = Option.bind (json_at v [''metadata'', ''annotations'', key]) as_str"

definition resource_version_of :: "json \<Rightarrow> nat" where
  "resource_version_of v =
     (case Option.bind (json_at v [''metadata'', ''resourceVersion''])
             (\<lambda>rv. or_else (Option.bind (as_str rv) (parse_uint u64_max)) (as_u64 rv)) of
        Some n \<Rightarrow> n | None \<Rightarrow> 0)"

definition uid_of :: "json \<Rightarrow> string" where
  "uid_of v = str_or [] (json_at v [''metadata'', ''uid''])"

definition name_of :: "json \<Rightarrow> string" where
  "name_of v = str_or [] (json_at v [''metadata'', ''name''])"

section \<open>Ingress to route\<close>

definition classify_ingress_name :: "string \<Rightarrow> string \<Rightarrow> route_kind option" where
  "classify_ingress_name name mirror_name =
     (if ends_with ''.fallback.internal'' name then Some Fallback
      else if starts_with ''ai-route-route-'' name \<and> ends_with ''.internal'' name then Some Main
      else if name = mirror_name then Some Mirror
      else None)"

definition rule_path_strings :: "json \<Rightarrow> string list" where
  "rule_path_strings rule =
     filter (\<lambda>p. p \<noteq> [])
       (List.map_filter (\<lambda>path. Option.bind (json_get path ''path'') as_str) (items_of (json_at rule [''http'', ''paths''])))"

text \<open>The first occurrence of each path, in order.\<close>

fun keep_unseen :: "string list \<Rightarrow> string list \<Rightarrow> string list" where
  "keep_unseen seen [] = []"
| "keep_unseen seen (p # ps) = (if p \<in> set seen then keep_unseen seen ps else p # keep_unseen (p # seen) ps)"

definition ingress_path_predicates :: "json \<Rightarrow> path_pred list" where
  "ingress_path_predicates v =
     (let ignore_case = (annotation v annot_ignore_path_case = Some ''true'')
      in map (\<lambda>p. \<lparr>pp_regex = p, pp_ignore_case = ignore_case\<rparr>)
           (keep_unseen [] (concat (map rule_path_strings (items_of (json_at v [''spec'', ''rules'']))))))"

definition ingress_match_key :: "cluster_object \<Rightarrow> route_kind \<Rightarrow> error + string" where
  "ingress_match_key obj kind =
     (let required = (\<lambda>label annot. case annotation (ob_value obj) annot of
            Some key \<Rightarrow> Inr key
          | None \<Rightarrow> Inl (Invalid (''ingress '' @ quoted (ob_name obj) @ '' ('' @ label @ '') is missing the '' @ annot @ '' annotation'')))
      in case kind of
           Main \<Rightarrow> required ''Main'' annot_match_llm_model
         | Fallback \<Rightarrow> required ''Fallback'' annot_match_fallback_from
         | Mirror \<Rightarrow> Inr (ob_name obj))"

definition ingress_destinations :: "cluster_object \<Rightarrow> error + destination list" where
  "ingress_destinations obj =
     (case annotation (ob_value obj) annot_destination of
        None \<Rightarrow> Inl (Invalid (''ingress '' @ quoted (ob_name obj) @ '' has no destination annotation''))
      | Some block \<Rightarrow>
          (case parse_destinations block of
             Inl e \<Rightarrow> Inl e
           | Inr ds \<Rightarrow>
               if ds = [] then Inl (Invalid (''ingress '' @ quoted (ob_name obj) @ '' has an empty destination list''))
               else Inr ds))"

definition origin_name :: "string \<Rightarrow> cluster_object \<Rightarrow> string" where
  "origin_name gateway_namespace obj =
     (let ns = (if ob_namespace obj = [] then gateway_namespace else ob_namespace obj)
      in if ns = [] \<or> ns = gateway_namespace then ob_name obj else ns @ CHR ''/'' # ob_name obj)"

definition ingress_to_route :: "cluster_object \<Rightarrow> route_kind \<Rightarrow> string \<Rightarrow> error + route_rule" where
  "ingress_to_route obj kind gateway_namespace =
     (case ingress_match_key obj kind of
        Inl e \<Rightarrow> Inl e
      | Inr key \<Rightarrow>
          (case ingress_destinations obj of
             Inl e \<Rightarrow> Inl e
           | Inr destinations \<Rightarrow>
               (let v = ob_value obj;
                    retry = pd_policy (retry_parse (annotation v annot_next_upstream) (annotation v annot_next_upstream_tries));
                    ingress_name = origin_name gateway_namespace obj
                in case route_new key kind (ingress_path_predicates v) destinations of
                     Inl e \<Rightarrow> Inl e
                   | Inr rule \<Rightarrow>
                       (let rule = rule\<lparr>rr_ingress_name := ingress_name, rr_retry := retry,
                              rr_sources := rr_sources rule @
                                [\<lparr>src_uid = ob_uid obj, src_resource_version = ob_resource_version obj,
                                  src_ingress_name = ingress_name\<rparr>]\<rparr>;
                            rule = (case annotation v annot_rewrite_target of
                              Some r \<Rightarrow> rule\<lparr>rr_rewrite_target := Some r\<rparr> | None \<Rightarrow> rule)
                        in case route_validate rule of Inl e \<Rightarrow> Inl e | Inr _ \<Rightarrow> Inr rule))))"

section \<open>McpBridge to registries and proxies\<close>

definition bridge_proxy :: "json \<Rightarrow> outbound_proxy option" where
  "bridge_proxy p =
     (let name = str_or [] (json_get p ''name'')
      in if name = [] then None
         else
           let port = (case Option.bind (json_get p ''serverPort'') as_u64 of Some n \<Rightarrow> n | None \<Rightarrow> 80) mod 65536;
               proxy = proxy_new name (str_or [] (json_get p ''serverAddress'')) port;
               proxy = (case Option.bind (json_get p ''connectTimeout'') as_u64 of
                   Some ms \<Rightarrow> proxy\<lparr>op_connect_timeout_secs := Some (max (ms div 1000) 1 mod 4294967296)\<rparr> | None \<Rightarrow> proxy);
               proxy = (case Option.bind (json_get p ''type'') as_str of
                   Some k \<Rightarrow> proxy\<lparr>op_kind := Some k\<rparr> | None \<Rightarrow> proxy)
           in Some (proxy\<lparr>op_listener_port :=
                map_option (\<lambda>n. n mod 65536) (Option.bind (json_get p ''listenerPort'') as_u64)\<rparr>))"

text \<open>\<open>None\<close>: a row without a name or a type, which is skipped.\<close>

definition bridge_registry :: "json \<Rightarrow> (error + registry) option" where
  "bridge_registry r =
     (let rname = str_or [] (json_get r ''name''); rtype = str_or [] (json_get r ''type'')
      in if rname = [] \<or> rtype = [] then None
         else
           let port = map_option (\<lambda>n. n mod 65536) (Option.bind (json_get r ''port'') as_u64);
               service = rname @ CHR ''.'' # rtype @ (case port of Some p \<Rightarrow> CHR '':'' # dec_of_nat p | None \<Rightarrow> [])
           in Some (case registry_new service (str_or [] (json_get r ''domain'')) of
                      Inl e \<Rightarrow> Inl e
                    | Inr reg \<Rightarrow>
                        Inr (case Option.bind (json_get r ''proxyName'') as_str of
                               Some p \<Rightarrow> with_proxy_ref p reg | None \<Rightarrow> reg)))"

definition mcpbridge_to_registries :: "cluster_object \<Rightarrow> error + registry list \<times> outbound_proxy list" where
  "mcpbridge_to_registries obj =
     (let spec = (case json_get (ob_value obj) ''spec'' of Some s \<Rightarrow> s | None \<Rightarrow> JNull);
          proxies = List.map_filter bridge_proxy (items_of (json_get spec ''proxies''))
      in case collect_results (List.map_filter bridge_registry (items_of (json_get spec ''registries''))) of
           Inl e \<Rightarrow> Inl e
         | Inr registries \<Rightarrow> Inr (registries, proxies))"

section \<open>WasmPlugins\<close>

definition wasmplugin_to_feature :: "cluster_object \<Rightarrow> gateway_feature_config" where
  "wasmplugin_to_feature obj =
     (let spec = (case json_get (ob_value obj) ''spec'' of Some s \<Rightarrow> s | None \<Rightarrow> JNull)
      in \<lparr>gf_plugin = ob_name obj,
          gf_phase = str_or ''UNSPECIFIED_PHASE'' (json_get spec ''phase''),
          gf_priority = i32_wrap (case Option.bind (json_get spec ''priority'') as_i64 of Some n \<Rightarrow> n | None \<Rightarrow> 0),
          gf_fail_open = (Option.bind (json_get spec ''failStrategy'') as_str = Some ''FAIL_OPEN''),
          gf_default_config_disable =
            (case Option.bind (json_get spec ''defaultConfigDisable'') as_bool of Some b \<Rightarrow> b | None \<Rightarrow> False)\<rparr>)"

record model_mapping_rule =
  mmr_ingress :: "string list"
  mmr_services :: "string list"
  mmr_model :: string

definition mapping_rule_of :: "json \<Rightarrow> model_mapping_rule option" where
  "mapping_rule_of rule =
     (case Option.bind (Option.bind (Option.bind (json_at rule [''config'', ''modelMapping'']) as_object) first_value) as_str of
        None \<Rightarrow> None
      | Some model \<Rightarrow>
          if model = [] then None
          else
            let services = strings_of (json_get rule ''service'')
            in if services = [] then None
               else Some \<lparr>mmr_ingress = strings_of (json_get rule ''ingress''), mmr_services = services, mmr_model = model\<rparr>)"

definition wasmplugin_model_mapping :: "cluster_object \<Rightarrow> model_mapping_rule list" where
  "wasmplugin_model_mapping obj =
     (if ob_name obj \<noteq> model_mapper_name then []
      else List.map_filter mapping_rule_of (items_of (json_at (ob_value obj) [''spec'', ''matchRules''])))"

text \<open>The derived deserialisation of \<open>ModelRouterSettings\<close>: a field is absent, well typed, or an error.\<close>

definition string_field :: "json \<Rightarrow> string \<Rightarrow> string \<Rightarrow> string option" where
  "string_field cfg key d = (case json_get cfg key of None \<Rightarrow> Some d | Some v \<Rightarrow> as_str v)"

fun all_strings :: "json list \<Rightarrow> string list option" where
  "all_strings [] = Some []"
| "all_strings (v # vs) = (case (as_str v, all_strings vs) of (Some s, Some ss) \<Rightarrow> Some (s # ss) | _ \<Rightarrow> None)"

fun string_entries :: "(string, json) hash_map \<Rightarrow> (string, string) hash_map option" where
  "string_entries [] = Some []"
| "string_entries ((k, v) # m) = (case (as_str v, string_entries m) of (Some s, Some r) \<Rightarrow> Some ((k, s) # r) | _ \<Rightarrow> None)"

definition usize_field :: "json \<Rightarrow> string \<Rightarrow> nat option option" where
  "usize_field cfg key =
     (case json_get cfg key of
        None \<Rightarrow> Some None
      | Some JNull \<Rightarrow> Some None
      | Some v \<Rightarrow> map_option Some (as_u64 v))"

definition settings_from_value :: "json \<Rightarrow> model_router_settings option" where
  "settings_from_value cfg =
     (case (string_field cfg ''prefix'' (ms_prefix model_router_settings_default),
            string_field cfg ''targetHeader'' (ms_target_header model_router_settings_default),
            (case json_get cfg ''enableOnPathSuffix'' of None \<Rightarrow> Some [] | Some v \<Rightarrow> Option.bind (as_array v) all_strings),
            (case json_get cfg ''aliasNameMapping'' of None \<Rightarrow> Some [] | Some v \<Rightarrow> Option.bind (as_object v) string_entries),
            usize_field cfg ''maxBodyBytes'') of
        (Some pfx, Some target, Some sfxs, Some aliases, Some max_body) \<Rightarrow>
          Some \<lparr>ms_prefix = pfx, ms_target_header = target, ms_enable_on_path_suffix = sfxs,
                ms_alias_name_mapping = aliases, ms_max_body_bytes = max_body\<rparr>
      | _ \<Rightarrow> None)"

definition translate_model_router_config :: "json option \<Rightarrow> model_router_settings" where
  "translate_model_router_config default_config =
     (case default_config of
        None \<Rightarrow> model_router_settings_default
      | Some cfg \<Rightarrow>
          if as_object cfg = None then model_router_settings_default
          else case settings_from_value cfg of Some s \<Rightarrow> s | None \<Rightarrow> model_router_settings_default)"

definition wasmplugin_model_router :: "cluster_object \<Rightarrow> model_router_settings option" where
  "wasmplugin_model_router obj =
     (if ob_name obj \<noteq> model_router_name then None
      else Some (translate_model_router_config (json_at (ob_value obj) [''spec'', ''defaultConfig''])))"

definition provider_table :: "json \<Rightarrow> (string, string list) hash_map" where
  "provider_table spec =
     foldl (\<lambda>m p.
         let id = str_or [] (json_get p ''id'')
         in if id = [] then m else hm_insert id (strings_of (json_get p ''apiTokens'')) m)
       [] (items_of (json_at spec [''defaultConfig'', ''providers'']))"

definition match_rule_tokens :: "(string, string list) hash_map \<Rightarrow> json \<Rightarrow> provider_token list" where
  "match_rule_tokens table rule =
     (let active = str_or [] (json_at rule [''config'', ''activeProviderId''])
      in case hm_get table active of
           None \<Rightarrow> []
         | Some tokens \<Rightarrow>
             if tokens = [] then []
             else
               let ingress = strings_of (json_get rule ''ingress'');
                   scopes = (if ingress = [] then [None] else map Some ingress)
               in concat (map (\<lambda>service.
                    if service = [] then []
                    else map (\<lambda>scope. \<lparr>pt_service = service, pt_ingress_scope = scope, pt_api_tokens = tokens\<rparr>) scopes)
                  (strings_of (json_get rule ''service''))))"

definition wasmplugin_ai_proxy :: "cluster_object \<Rightarrow> provider_token list" where
  "wasmplugin_ai_proxy obj =
     (if ob_name obj \<noteq> ai_proxy_name then []
      else case json_get (ob_value obj) ''spec'' of
             None \<Rightarrow> []
           | Some spec \<Rightarrow> concat (map (match_rule_tokens (provider_table spec)) (items_of (json_get spec ''matchRules''))))"

section \<open>EnvoyFilter to fallback parameters\<close>

record envoyfilter_fallback =
  ef_ingress_name :: string
  ef_fallback_from :: string
  ef_max_redirects :: nat
  ef_use_original_request :: bool

text \<open>The policy of the first matcher whose value is an object, in one patch.\<close>

definition matcher_policy :: "json \<Rightarrow> (string, json) hash_map option" where
  "matcher_policy m = Option.bind (json_at m [''on_match'', ''action'', ''typed_config'', ''value'']) as_object"

definition patch_policy :: "json \<Rightarrow> (string, json) hash_map option" where
  "patch_policy patch =
     (case List.map_filter matcher_policy
             (items_of (json_at patch [''patch'', ''value'', ''typed_per_filter_config'', custom_response_filter, ''value'',
                ''custom_response_matcher'', ''matcher_list'', ''matchers''])) of
        [] \<Rightarrow> None
      | policy # _ \<Rightarrow> Some policy)"

text \<open>The last patch with a policy wins.\<close>

definition redirect_policy :: "json \<Rightarrow> (string, json) hash_map option" where
  "redirect_policy v =
     foldl (\<lambda>found patch. case patch_policy patch of Some p \<Rightarrow> Some p | None \<Rightarrow> found) None
       (items_of (json_at v [''spec'', ''configPatches'']))"

definition injected_fallback_from :: "(string, json) hash_map \<Rightarrow> string option" where
  "injected_fallback_from policy =
     Option.bind
       (find (\<lambda>h. Option.bind (json_at h [''header'', ''key'']) as_str = Some ''x-higress-fallback-from'')
          (items_of (or_else (hm_get policy ''request_headers_to_add'') (hm_get policy ''response_headers_to_add''))))
       (\<lambda>h. Option.bind (json_at h [''header'', ''value'']) as_str)"

definition envoyfilter_fallback_of :: "cluster_object \<Rightarrow> envoyfilter_fallback option" where
  "envoyfilter_fallback_of obj =
     (case redirect_policy (ob_value obj) of
        None \<Rightarrow> None
      | Some policy \<Rightarrow>
          (let flag = (\<lambda>key. case Option.bind (hm_get policy key) as_bool of Some b \<Rightarrow> b | None \<Rightarrow> True)
           in Some \<lparr>ef_ingress_name = ob_name obj,
                    ef_fallback_from = (case injected_fallback_from policy of Some s \<Rightarrow> s | None \<Rightarrow> ob_name obj),
                    ef_max_redirects =
                      (case Option.bind (hm_get policy ''max_internal_redirects'') as_u64 of Some n \<Rightarrow> n | None \<Rightarrow> 10) mod 4294967296,
                    ef_use_original_request =
                      (flag ''use_original_request_body'' \<and> flag ''use_original_request_uri'')\<rparr>))"

section \<open>Secret to certificate, ConfigMap to timing\<close>

text \<open>\<open>trim_start_matches\<close>, which strips the pattern as often as it occurs.\<close>

function trim_start_matches :: "string \<Rightarrow> string \<Rightarrow> string" where
  "trim_start_matches p s =
     (if p = [] then s else case strip_prefix p s of Some r \<Rightarrow> trim_start_matches p r | None \<Rightarrow> s)"
  by pat_completeness auto
termination
  by (relation "measure (length \<circ> snd)") (auto simp: strip_prefix_Some_iff)

declare trim_start_matches.simps [simp del]

function utf8_valid :: "bytes \<Rightarrow> bool" where
  "utf8_valid [] = True"
| "utf8_valid (c # cs) = (case utf8_head c cs of (n, valid) \<Rightarrow> valid \<and> utf8_valid (drop (n - 1) cs))"
  by pat_completeness auto
termination by (relation "measure length") auto

definition from_utf8 :: "bytes \<Rightarrow> string option" where
  "from_utf8 bs = (if utf8_valid bs then Some bs else None)"

definition secret_field :: "(string \<Rightarrow> bytes option) \<Rightarrow> json \<Rightarrow> string \<Rightarrow> string option" where
  "secret_field b64 v key =
     (case Option.bind (json_at v [''stringData'', key]) as_str of
        Some d \<Rightarrow> Some d
      | None \<Rightarrow> Option.bind (Option.bind (Option.bind (json_at v [''data'', key]) as_str) b64) from_utf8)"

definition secret_to_tls_host :: "(string \<Rightarrow> bytes option) \<Rightarrow> cluster_object \<Rightarrow> tls_host option" where
  "secret_to_tls_host b64 obj =
     (if \<not> starts_with tls_secret_prefix (ob_name obj) then None
      else case (secret_field b64 (ob_value obj) ''tls.crt'', secret_field b64 (ob_value obj) ''tls.key'') of
             (Some cert, Some key) \<Rightarrow>
               Some \<lparr>th_host = trim_start_matches tls_secret_prefix (ob_name obj),
                     th_is_default = (ob_name obj = tls_secret_prefix @ ''default''),
                     th_cert_pem = cert, th_key_pem = key\<rparr>
           | _ \<Rightarrow> None)"

record 'y yaml_ops =
  ym_parse :: "string \<Rightarrow> 'y option"
  ym_get :: "'y \<Rightarrow> string \<Rightarrow> 'y option"
  ym_u64 :: "'y \<Rightarrow> nat option"

definition yaml_field :: "'y yaml_ops \<Rightarrow> 'y option \<Rightarrow> string \<Rightarrow> string \<Rightarrow> nat option" where
  "yaml_field ym doc outer inner =
     Option.bind doc (\<lambda>m. Option.bind (ym_get ym m outer) (\<lambda>d. Option.bind (ym_get ym d inner) (ym_u64 ym)))"

definition flat_field :: "(string, json) hash_map \<Rightarrow> string \<Rightarrow> nat option" where
  "flat_field data key = Option.bind (Option.bind (hm_get data key) as_str) (parse_uint u64_max)"

definition configmap_to_timing :: "'y yaml_ops \<Rightarrow> cluster_object \<Rightarrow> timing_config option" where
  "configmap_to_timing ym obj =
     (case Option.bind (json_get (ob_value obj) ''data'') as_object of
        None \<Rightarrow> None
      | Some data \<Rightarrow>
          (let doc = Option.bind (Option.bind (hm_get data ''higress'') as_str) (ym_parse ym);
               down = or_else (yaml_field ym doc ''downstream'' ''idleTimeout'') (flat_field data ''downstream.idleTimeout'');
               up = or_else (yaml_field ym doc ''upstream'' ''idleTimeout'') (flat_field data ''upstream.idleTimeout'');
               max_kb = or_else (yaml_field ym doc ''downstream'' ''maxRequestHeadersKb'') (flat_field data ''maxRequestHeadersKb'')
           in Some \<lparr>downstream_idle_timeout_secs =
                      (case down of Some v \<Rightarrow> v | None \<Rightarrow> downstream_idle_timeout_secs timing_default),
                    upstream_idle_timeout_secs =
                      (case up of Some v \<Rightarrow> v | None \<Rightarrow> upstream_idle_timeout_secs timing_default),
                    max_request_headers_kb = max_kb\<rparr>))"

section \<open>Assembly\<close>

definition config_empty :: config_data where
  "config_empty = \<lparr>cd_routes = [], cd_registries = [], cd_proxies = [], cd_features = [], cd_tls = [],
     cd_timing = timing_default, cd_model_router = model_router_settings_default, cd_provider_tokens = []\<rparr>"

text \<open>One turn of the translation loop; an object that does not translate leaves the data alone.\<close>

definition translate_object ::
  "(string \<Rightarrow> bytes option) \<Rightarrow> 'y yaml_ops \<Rightarrow> string \<Rightarrow> string \<Rightarrow> config_data \<Rightarrow> cluster_object \<Rightarrow> config_data" where
  "translate_object b64 ym gateway_namespace mirror_name cd obj =
     (case ob_kind obj of
        IngressKind \<Rightarrow>
          (case classify_ingress_name (ob_name obj) mirror_name of
             Some kind \<Rightarrow>
               (case ingress_to_route obj kind gateway_namespace of
                  Inr route \<Rightarrow> cd\<lparr>cd_routes := cd_routes cd @ [route]\<rparr>
                | Inl _ \<Rightarrow> cd)
           | None \<Rightarrow> cd)
      | McpBridgeKind \<Rightarrow>
          (case mcpbridge_to_registries obj of
             Inr (regs, proxies) \<Rightarrow> cd\<lparr>cd_registries := cd_registries cd @ regs, cd_proxies := cd_proxies cd @ proxies\<rparr>
           | Inl _ \<Rightarrow> cd)
      | WasmPluginKind \<Rightarrow>
          (let cd = cd\<lparr>cd_features := cd_features cd @ [wasmplugin_to_feature obj]\<rparr>;
               cd = (case wasmplugin_model_router obj of Some mr \<Rightarrow> cd\<lparr>cd_model_router := mr\<rparr> | None \<Rightarrow> cd)
           in if ob_name obj = ai_proxy_name then cd\<lparr>cd_provider_tokens := wasmplugin_ai_proxy obj\<rparr> else cd)
      | SecretKind \<Rightarrow>
          (case secret_to_tls_host b64 obj of
             Some host \<Rightarrow> cd\<lparr>cd_tls := cd_tls cd @ [host]\<rparr>
           | None \<Rightarrow> cd)
      | ConfigMapKind \<Rightarrow>
          (if ob_name obj = higress_config_map
           then (case configmap_to_timing ym obj of Some t \<Rightarrow> cd\<lparr>cd_timing := t\<rparr> | None \<Rightarrow> cd)
           else cd)
      | EnvoyFilterKind \<Rightarrow> cd)"

text \<open>The model-mapping rules that cover a route, the first rule of a service kept.\<close>

definition rule_covers :: "string \<Rightarrow> model_mapping_rule \<Rightarrow> bool" where
  "rule_covers route_bare rule \<longleftrightarrow> list_ex (\<lambda>ing. bare_ingress_name ing = route_bare) (mmr_ingress rule)"

definition add_service :: "string \<Rightarrow> model_mapping \<Rightarrow> string \<Rightarrow> model_mapping" where
  "add_service model m service = (if mapping_lookup m service = None then m @ [(service, model)] else m)"

definition add_rule :: "string \<Rightarrow> model_mapping \<Rightarrow> model_mapping_rule \<Rightarrow> model_mapping" where
  "add_rule route_bare m rule =
     (if rule_covers route_bare rule then foldl (add_service (mmr_model rule)) m (mmr_services rule) else m)"

definition merge_model_mapping :: "model_mapping_rule list \<Rightarrow> route_rule list \<Rightarrow> route_rule list" where
  "merge_model_mapping rules routes =
     map (\<lambda>r. r\<lparr>rr_model_mapping := foldl (add_rule (bare_ingress_name (rr_ingress_name r))) (rr_model_mapping r) rules\<rparr>) routes"

definition envoy_table :: "cluster_object list \<Rightarrow> (string, envoyfilter_fallback) hash_map" where
  "envoy_table objects =
     foldl (\<lambda>m fb. hm_insert (ef_ingress_name fb) fb m) []
       (List.map_filter envoyfilter_fallback_of (filter (\<lambda>obj. ob_kind obj = EnvoyFilterKind) objects))"

definition wire_fallback :: "string list \<Rightarrow> (string, envoyfilter_fallback) hash_map \<Rightarrow> route_rule \<Rightarrow> route_rule" where
  "wire_fallback keys envoy r =
     (let main_bare = bare_ingress_name (rr_ingress_name r) in
      if rr_kind r = Main \<and> main_bare \<in> set keys then
        (case (case hm_get envoy main_bare of Some fb \<Rightarrow> (ef_max_redirects fb, ef_use_original_request fb) | None \<Rightarrow> (10, True)) of
           (max_redirects, use_original) \<Rightarrow>
             r\<lparr>rr_fallback := Some \<lparr>fl_target_key = main_bare, fl_main_ingress_name = rr_ingress_name r,
                fl_max_redirects = max_redirects, fl_use_original_request = use_original\<rparr>\<rparr>)
      else r)"

definition wire_fallbacks :: "cluster_object list \<Rightarrow> route_rule list \<Rightarrow> route_rule list" where
  "wire_fallbacks objects routes = map (wire_fallback (fallback_keys routes) (envoy_table objects)) routes"

definition mapping_rules_of :: "cluster_object list \<Rightarrow> model_mapping_rule list" where
  "mapping_rules_of objects =
     concat (map wasmplugin_model_mapping (filter (\<lambda>obj. ob_kind obj = WasmPluginKind) objects))"

definition build_config_data ::
  "(string \<Rightarrow> bytes option) \<Rightarrow> 'y yaml_ops \<Rightarrow> cluster_object list \<Rightarrow> string \<Rightarrow> string \<Rightarrow> config_data" where
  "build_config_data b64 ym objects gateway_namespace mirror_name =
     (let cd = foldl (translate_object b64 ym gateway_namespace mirror_name) config_empty objects;
          rules = mapping_rules_of objects;
          routes = (if rules = [] then cd_routes cd else merge_model_mapping rules (cd_routes cd))
      in cd\<lparr>cd_routes := wire_fallbacks objects routes\<rparr>)"

section \<open>What a translated ingress is\<close>

definition ingress_route :: "string \<Rightarrow> string \<Rightarrow> cluster_object \<Rightarrow> route_rule option" where
  "ingress_route gateway_namespace mirror_name obj =
     (if ob_kind obj = IngressKind then
        Option.bind (classify_ingress_name (ob_name obj) mirror_name)
          (\<lambda>kind. case ingress_to_route obj kind gateway_namespace of Inr r \<Rightarrow> Some r | Inl _ \<Rightarrow> None)
      else None)"

lemma translate_object_routes:
  "cd_routes (translate_object b64 ym gw mirror cd obj) =
     cd_routes cd @ (case ingress_route gw mirror obj of Some r \<Rightarrow> [r] | None \<Rightarrow> [])"
  by (cases "ob_kind obj")
    (simp_all add: translate_object_def ingress_route_def Let_def split: option.splits sum.splits prod.splits)

lemma translate_routes:
  "cd_routes (foldl (translate_object b64 ym gw mirror) cd objs) =
     cd_routes cd @ List.map_filter (ingress_route gw mirror) objs"
proof (induction objs arbitrary: cd)
  case (Cons obj objs)
  then show ?case
    by (cases "ingress_route gw mirror obj") (simp_all add: translate_object_routes List.map_filter_simps)
qed (simp add: List.map_filter_simps)

lemma translate_object_tokens:
  "cd_provider_tokens (translate_object b64 ym gw mirror cd obj) \<in>
     {cd_provider_tokens cd, wasmplugin_ai_proxy obj}"
  by (cases "ob_kind obj")
    (simp_all add: translate_object_def Let_def split: option.splits sum.splits prod.splits)

lemma translate_tokens:
  assumes "\<And>obj t. t \<in> set (wasmplugin_ai_proxy obj) \<Longrightarrow> P t"
  shows "\<forall>t \<in> set (cd_provider_tokens cd). P t \<Longrightarrow>
    \<forall>t \<in> set (cd_provider_tokens (foldl (translate_object b64 ym gw mirror) cd objs)). P t"
proof (induction objs arbitrary: cd)
  case (Cons obj objs)
  have "\<forall>t \<in> set (cd_provider_tokens (translate_object b64 ym gw mirror cd obj)). P t"
    using translate_object_tokens [of b64 ym gw mirror cd obj] Cons.prems assms by auto
  then show ?case using Cons.IH by simp
qed simp

definition fresh_route :: "route_rule \<Rightarrow> bool" where
  "fresh_route r \<longleftrightarrow> route_validate r = Inr () \<and> rr_auth_scope r = auth_scope_for_kind (rr_kind r) \<and>
     rr_fallback r = None \<and> rr_model_mapping r = []"

lemma route_validate_frame:
  "route_validate (r\<lparr>rr_model_mapping := m\<rparr>) = route_validate r"
  "route_validate (r\<lparr>rr_fallback := f\<rparr>) = route_validate r"
  by (simp_all add: route_validate_def)

lemma ingress_to_route_InrD:
  assumes "ingress_to_route obj kind gw = Inr r"
  shows "fresh_route r \<and> rr_kind r = kind \<and> rr_ingress_name r = origin_name gw obj"
  using assms
  by (auto simp: ingress_to_route_def route_new_def fresh_route_def Let_def split: sum.splits option.splits)

lemma ai_proxy_token:
  "t \<in> set (wasmplugin_ai_proxy obj) \<Longrightarrow> pt_service t \<noteq> [] \<and> pt_api_tokens t \<noteq> []"
  by (auto simp: wasmplugin_ai_proxy_def match_rule_tokens_def Let_def split: option.splits if_splits)

section \<open>The merge and the wiring, by their lookups\<close>

lemma mapping_lookup_snoc:
  "mapping_lookup (m @ [(s, x)]) t =
     (case mapping_lookup m t of Some y \<Rightarrow> Some y | None \<Rightarrow> if s = t then Some x else None)"
  by (induction m) (auto simp: mapping_lookup_def)

lemma add_services_lookup:
  "mapping_lookup (foldl (add_service model) m ss) t =
     (case mapping_lookup m t of Some y \<Rightarrow> Some y | None \<Rightarrow> if t \<in> set ss then Some model else None)"
  by (induction ss arbitrary: m) (auto simp: add_service_def mapping_lookup_snoc split: option.splits)

lemma add_rules_lookup:
  "mapping_lookup (foldl (add_rule bare) m rules) t =
     (case mapping_lookup m t of Some y \<Rightarrow> Some y
      | None \<Rightarrow> map_option mmr_model (find (\<lambda>r. rule_covers bare r \<and> t \<in> set (mmr_services r)) rules))"
  by (induction rules arbitrary: m) (auto simp: add_rule_def add_services_lookup split: option.splits)

lemma mapping_lookup_Nil [simp]: "mapping_lookup [] t = None"
  by (simp add: mapping_lookup_def)

definition envoy_filters :: "cluster_object list \<Rightarrow> envoyfilter_fallback list" where
  "envoy_filters objects = List.map_filter envoyfilter_fallback_of (filter (\<lambda>obj. ob_kind obj = EnvoyFilterKind) objects)"

lemma envoy_table_get:
  "hm_get (envoy_table objects) name = find (\<lambda>fb. ef_ingress_name fb = name) (rev (envoy_filters objects))"
  unfolding envoy_table_def envoy_filters_def
  by (simp add: foldl_insert_get [of ef_ingress_name "\<lambda>fb. fb"] hm.get_empty split: option.splits)

lemma fallback_keys_iff: "k \<in> set (fallback_keys rs) \<longleftrightarrow> has_fallback_route rs k"
  by (auto simp: fallback_keys_def has_fallback_route_def list_ex_iff)

text \<open>The link a main route gets.\<close>

definition fallback_spec :: "cluster_object list \<Rightarrow> route_rule list \<Rightarrow> route_rule \<Rightarrow> fallback_link option" where
  "fallback_spec objects routes r =
     (let bare = bare_ingress_name (rr_ingress_name r);
          filter_of = find (\<lambda>fb. ef_ingress_name fb = bare) (rev (envoy_filters objects))
      in if rr_kind r = Main \<and> has_fallback_route routes bare
         then Some \<lparr>fl_target_key = bare, fl_main_ingress_name = rr_ingress_name r,
                    fl_max_redirects = (case filter_of of Some fb \<Rightarrow> ef_max_redirects fb | None \<Rightarrow> 10),
                    fl_use_original_request = (case filter_of of Some fb \<Rightarrow> ef_use_original_request fb | None \<Rightarrow> True)\<rparr>
         else rr_fallback r)"

lemma wire_fallback_spec:
  "wire_fallback (fallback_keys routes) (envoy_table objects) r = r\<lparr>rr_fallback := fallback_spec objects routes r\<rparr>"
  by (auto simp: wire_fallback_def fallback_spec_def envoy_table_get fallback_keys_iff Let_def split: option.splits)

lemma fallback_spec_cong:
  assumes "rr_kind r = rr_kind r'" "rr_ingress_name r = rr_ingress_name r'" "rr_fallback r = rr_fallback r'"
    and "fallback_keys routes = fallback_keys routes'"
  shows "fallback_spec objects routes r = fallback_spec objects routes' r'"
  using assms by (auto simp: fallback_spec_def Let_def fallback_keys_iff [symmetric])

text \<open>The routes of a built snapshot: the fresh routes with a mapping and a fallback added.\<close>

definition finish_route :: "cluster_object list \<Rightarrow> route_rule list \<Rightarrow> route_rule \<Rightarrow> route_rule" where
  "finish_route objects routes r =
     r\<lparr>rr_model_mapping := foldl (add_rule (bare_ingress_name (rr_ingress_name r))) [] (mapping_rules_of objects),
       rr_fallback := fallback_spec objects routes r\<rparr>"

lemma ingress_route_SomeD:
  "ingress_route gw mirror obj = Some r \<Longrightarrow>
     \<exists>kind. classify_ingress_name (ob_name obj) mirror = Some kind \<and> ingress_to_route obj kind gw = Inr r"
  by (cases "classify_ingress_name (ob_name obj) mirror")
    (auto simp: ingress_route_def split: if_splits sum.splits)

lemma map_filter_in: "y \<in> set (List.map_filter f xs) \<longleftrightarrow> (\<exists>x \<in> set xs. f x = Some y)"
  by (force simp: List.map_filter_def)

lemma fresh_routes: "r \<in> set (List.map_filter (ingress_route gw mirror) objects) \<Longrightarrow> fresh_route r"
  using ingress_route_SomeD ingress_to_route_InrD unfolding map_filter_in by blast

lemma built_routes:
  "cd_routes (build_config_data b64 ym objects gw mirror) =
     (let base = List.map_filter (ingress_route gw mirror) objects in map (finish_route objects base) base)"
proof -
  define base where "base = List.map_filter (ingress_route gw mirror) objects"
  define merged where "merged = (if mapping_rules_of objects = [] then base else merge_model_mapping (mapping_rules_of objects) base)"
  have fresh: "fresh_route r" if "r \<in> set base" for r using that by (simp add: base_def fresh_routes)
  have m: "merged = map (\<lambda>r. r\<lparr>rr_model_mapping :=
      foldl (add_rule (bare_ingress_name (rr_ingress_name r))) [] (mapping_rules_of objects)\<rparr>) base"
    unfolding merged_def merge_model_mapping_def
    using fresh by (auto simp: fresh_route_def intro!: map_idI [symmetric])
  then have keys: "fallback_keys merged = fallback_keys base"
    by (simp add: fallback_keys_def filter_map comp_def)
  have "cd_routes (build_config_data b64 ym objects gw mirror) = wire_fallbacks objects merged"
    by (simp add: build_config_data_def Let_def translate_routes config_empty_def merged_def base_def)
  also have "\<dots> = map (\<lambda>r. r\<lparr>rr_fallback := fallback_spec objects merged r\<rparr>) merged"
    unfolding wire_fallbacks_def by (simp add: wire_fallback_spec)
  also have "\<dots> = map (finish_route objects base) base"
  proof -
    have "fallback_spec objects merged (r\<lparr>rr_model_mapping := x\<rparr>) = fallback_spec objects base r" for r x
      by (rule fallback_spec_cong) (simp_all add: keys)
    then show ?thesis by (subst (2) m) (simp add: finish_route_def)
  qed
  finally show ?thesis by (simp add: base_def Let_def)
qed

lemma built_tokens:
  "t \<in> set (cd_provider_tokens (build_config_data b64 ym objects gw mirror)) \<Longrightarrow>
     pt_service t \<noteq> [] \<and> pt_api_tokens t \<noteq> []"
  using translate_tokens [of "\<lambda>t. pt_service t \<noteq> [] \<and> pt_api_tokens t \<noteq> []" config_empty b64 ym gw mirror objects]
    ai_proxy_token
  by (auto simp: build_config_data_def Let_def config_empty_def)

section \<open>The correctness of the translation\<close>

text \<open>
  Property C4. The routes of a snapshot are the translations of the ingress objects, in their order;
  a route maps a service to the model of the first mapper rule that covers its ingress and lists the
  service; and a main route is linked to the fallback route keyed by its bare ingress name exactly
  when there is one, with the limits of the last filter of that name, 10 hops and the original
  request where there is none.
\<close>

theorem translated_routes:
  "let cd = build_config_data b64 ym objects gw mirror;
       base = List.map_filter (ingress_route gw mirror) objects
   in map (\<lambda>r. r\<lparr>rr_model_mapping := [], rr_fallback := None\<rparr>) (cd_routes cd) = base \<and>
      (\<forall>r \<in> set (cd_routes cd).
         (\<forall>service. mapping_lookup (rr_model_mapping r) service =
            map_option mmr_model
              (find (\<lambda>rule. rule_covers (bare_ingress_name (rr_ingress_name r)) rule \<and> service \<in> set (mmr_services rule))
                 (mapping_rules_of objects))) \<and>
         rr_fallback r = fallback_spec objects base (r\<lparr>rr_fallback := None\<rparr>))"
proof -
  define base where "base = List.map_filter (ingress_route gw mirror) objects"
  have routes: "cd_routes (build_config_data b64 ym objects gw mirror) = map (finish_route objects base) base"
    by (simp add: built_routes base_def Let_def)
  have fresh: "r\<lparr>rr_model_mapping := [], rr_fallback := None\<rparr> = r" "rr_fallback r = None" if "r \<in> set base" for r
    using fresh_routes that by (auto simp: base_def fresh_route_def)
  have one: "(finish_route objects base r)\<lparr>rr_model_mapping := [], rr_fallback := None\<rparr> = r" if "r \<in> set base" for r
    using fresh(1) [OF that] by (simp add: finish_route_def)
  have spec: "fallback_spec objects base (r\<lparr>rr_model_mapping := m, rr_fallback := None\<rparr>) = fallback_spec objects base r"
    if "r \<in> set base" for r m
    using fresh(2) [OF that] by (intro fallback_spec_cong) simp_all
  show ?thesis
    unfolding Let_def base_def [symmetric] routes
    using one spec by (auto simp: map_idI finish_route_def add_rules_lookup)
qed

lemma sanitized_routes_keeps:
  assumes "routes_ok (cd_routes cd)" shows "sanitized_routes cd = cd_routes cd"
proof -
  have ok: "config_ok (cd\<lparr>cd_registries := [], cd_provider_tokens := []\<rparr>)" using assms by (simp add: config_ok_def)
  have "sanitized_routes (cd\<lparr>cd_registries := [], cd_provider_tokens := []\<rparr>) = cd_routes cd"
    using sanitize_fst [of "cd\<lparr>cd_registries := [], cd_provider_tokens := []\<rparr>"] sanitize_keeps [OF ok]
    by (cases cd) auto
  then show ?thesis by (simp add: sanitized_routes_def)
qed

lemma weight_sum_percent:
  "sum_list (map dest_weight ds) = 100 \<Longrightarrow> d \<in> set ds \<Longrightarrow> dest_percent d = Some p \<Longrightarrow> p \<le> 100"
  using member_le_sum_list [of "dest_weight d" "map dest_weight ds", OF imageI [of d "set ds" dest_weight, folded set_map]]
  by (simp add: dest_weight_def)

text \<open>What the translation leaves for the validation to check.\<close>

definition weights_complete :: "route_rule \<Rightarrow> bool" where
  "weights_complete r \<longleftrightarrow> (is_weighted r \<longrightarrow> sum_list (map dest_weight (rr_destinations r)) = 100)"

lemma valid_route_ok:
  assumes "route_validate r = Inr ()" "rr_auth_scope r = auth_scope_for_kind (rr_kind r)" "weights_complete r"
  shows "route_ok r"
proof -
  have "\<forall>p. dest_percent d = Some p \<longrightarrow> p \<le> 100" if "d \<in> set (rr_destinations r)" for d
  proof (cases "is_weighted r")
    case True
    then show ?thesis using assms(3) weight_sum_percent that unfolding weights_complete_def by blast
  next
    case False
    then show ?thesis using that by (auto simp: is_weighted_def list_ex_iff)
  qed
  then show ?thesis
    using assms
    by (auto simp: route_ok_def route_validate_def weights_complete_def auth_scope_for_kind_def validate_destinations_Inr
        default_scope_root_def split: if_splits route_kind.splits)
qed

lemma origin_segment: "CHR ''/'' \<notin> set (ob_name obj) \<Longrightarrow> last_segment CHR ''/'' (origin_name gw obj) = ob_name obj"
  by (simp add: origin_name_def Let_def last_segment_append)
    (simp add: last_segment_def rfind_byte_None_iff [THEN iffD2])

text \<open>
  Property C5. A translated snapshot is valid up to what only the whole of the cluster can break:
  every route passes its own validation; a main route always requires authentication and a mirror
  never does; every fallback link names a fallback route of the snapshot; every provider token has
  a service and a key; and when the route keys are distinct, at most one route is a mirror and the
  weights are complete, the validation of the store drops no route.
\<close>

theorem translation_accepted:
  assumes names: "\<forall>obj \<in> set objects. CHR ''/'' \<notin> set (ob_name obj)"
  shows "let cd = build_config_data b64 ym objects gw mirror in
     (\<forall>r \<in> set (cd_routes cd). route_validate r = Inr () \<and>
        (rr_kind r = Main \<longrightarrow> requires_auth r) \<and> (rr_kind r = Mirror \<longrightarrow> \<not> requires_auth r) \<and>
        (\<forall>fl. rr_fallback r = Some fl \<longrightarrow> rr_kind r = Main \<and> has_fallback_route (cd_routes cd) (fl_target_key fl))) \<and>
     (\<forall>t \<in> set (cd_provider_tokens cd). pt_service t \<noteq> [] \<and> pt_api_tokens t \<noteq> []) \<and>
     (distinct (map (\<lambda>r. (rr_kind r, rr_key r)) (cd_routes cd)) \<and>
        length (filter (\<lambda>r. rr_kind r = Mirror) (cd_routes cd)) \<le> 1 \<and>
        (\<forall>r \<in> set (cd_routes cd). weights_complete r) \<longrightarrow> cd_routes (fst (sanitize cd)) = cd_routes cd)"
proof -
  define cd where "cd = build_config_data b64 ym objects gw mirror"
  define base where "base = List.map_filter (ingress_route gw mirror) objects"
  have routes: "cd_routes cd = map (finish_route objects base) base"
    by (simp add: cd_def built_routes base_def Let_def)
  have keys: "has_fallback_route (cd_routes cd) k = has_fallback_route base k" for k
    unfolding routes by (simp add: has_fallback_route_def list_ex_iff finish_route_def)
  have r: "route_validate r = Inr () \<and> rr_auth_scope r = auth_scope_for_kind (rr_kind r) \<and>
      (rr_kind r = Main \<longrightarrow> requires_auth r) \<and> (rr_kind r = Mirror \<longrightarrow> \<not> requires_auth r) \<and>
      (\<forall>fl. rr_fallback r = Some fl \<longrightarrow> rr_kind r = Main \<and> has_fallback_route (cd_routes cd) (fl_target_key fl))"
    if member: "r \<in> set (cd_routes cd)" for r
  proof -
    obtain r0 where r0: "r0 \<in> set base" "r = finish_route objects base r0" using member unfolding routes image_iff set_map by blast
    then obtain obj kind where obj: "obj \<in> set objects" "classify_ingress_name (ob_name obj) mirror = Some kind"
      "ingress_to_route obj kind gw = Inr r0"
      unfolding base_def map_filter_in using ingress_route_SomeD by blast
    have f: "fresh_route r0" "rr_kind r0 = kind" "rr_ingress_name r0 = origin_name gw obj"
      using ingress_to_route_InrD [OF obj(3)] by simp_all
    have seg: "last_segment CHR ''/'' (rr_ingress_name r0) = ob_name obj"
      unfolding f(3) using names obj(1) by (intro origin_segment) blast
    have "kind = Main \<longrightarrow> starts_with default_scope_root (ob_name obj)"
      using obj(2) by (auto simp: classify_ingress_name_def default_scope_root_def split: if_splits)
    then show ?thesis
      unfolding keys r0(2) using f seg
      by (auto simp: finish_route_def fresh_route_def route_validate_frame requires_auth_def should_auth_def
          auth_scope_for_kind_def fallback_spec_def Let_def default_scope_root_def split: if_splits)
  qed
  have "cd_routes (fst (sanitize cd)) = cd_routes cd"
    if "distinct (map (\<lambda>r. (rr_kind r, rr_key r)) (cd_routes cd))"
      "length (filter (\<lambda>r. rr_kind r = Mirror) (cd_routes cd)) \<le> 1" "\<forall>r \<in> set (cd_routes cd). weights_complete r"
  proof -
    have "routes_ok (cd_routes cd)" unfolding routes_ok_def using that r valid_route_ok by blast
    then show ?thesis by (simp add: sanitize_fst sanitized_routes_keeps)
  qed
  then show ?thesis unfolding Let_def cd_def [symmetric] using r built_tokens unfolding cd_def by blast
qed

end
