(* ===== verification/Controller.thy ===== *)
theory Controller
  imports Translate Shared_Config "HOL-Library.Multiset" "HOL-Library.Product_Lexorder"
begin

text \<open>
  The control-plane loop, \<open>hygress-adapter/src/lib.rs\<close> and \<open>snapshot.rs\<close>: one pass lists the
  cluster, compares the fingerprint with that of the last stored snapshot, translates and stores.

  The cluster's answer to the six LIST calls of a pass is a \<open>listing\<close>, or the error of the first
  call that failed.
\<close>

section \<open>Listings and fingerprints\<close>

record listed =
  li_name :: string
  li_namespace :: "string option"
  li_uid :: "string option"
  li_version :: "string option"
  li_value :: json

record listing =
  ls_mcpbridges :: "listed list"
  ls_wasmplugins :: "listed list"
  ls_envoyfilters :: "listed list"
  ls_ingresses :: "listed list"
  ls_secrets :: "listed list"
  ls_configmaps :: "listed list"

definition kind_rank :: "object_kind \<Rightarrow> nat" where
  "kind_rank k = (case k of McpBridgeKind \<Rightarrow> 0 | WasmPluginKind \<Rightarrow> 1 | EnvoyFilterKind \<Rightarrow> 2 | IngressKind \<Rightarrow> 3
     | SecretKind \<Rightarrow> 4 | ConfigMapKind \<Rightarrow> 5)"

lemma kind_rank_inj: "kind_rank k = kind_rank k' \<Longrightarrow> k = k'"
  by (cases k; cases k') (simp_all add: kind_rank_def)

text \<open>The derived order of the kinds.\<close>

instantiation object_kind :: linorder
begin

definition less_eq_object_kind :: "object_kind \<Rightarrow> object_kind \<Rightarrow> bool" where
  "less_eq_object_kind k k' \<longleftrightarrow> kind_rank k \<le> kind_rank k'"

definition less_object_kind :: "object_kind \<Rightarrow> object_kind \<Rightarrow> bool" where
  "less_object_kind k k' \<longleftrightarrow> kind_rank k < kind_rank k'"

instance
  by standard (auto simp: less_eq_object_kind_def less_object_kind_def intro: kind_rank_inj)

end

type_synonym fingerprint = "(object_kind \<times> string \<times> string \<times> nat) list"

definition version_number :: "listed \<Rightarrow> nat" where
  "version_number it = (case Option.bind (li_version it) (parse_uint u64_max) of Some n \<Rightarrow> n | None \<Rightarrow> 0)"

definition namespace_or :: "string \<Rightarrow> listed \<Rightarrow> string" where
  "namespace_or ns it = (case li_namespace it of Some n \<Rightarrow> n | None \<Rightarrow> ns)"

definition fingerprint_of :: "object_kind \<Rightarrow> string \<Rightarrow> listed \<Rightarrow> object_kind \<times> string \<times> string \<times> nat" where
  "fingerprint_of kind ns it = (kind, namespace_or ns it, li_name it, version_number it)"

definition to_object :: "object_kind \<Rightarrow> string \<Rightarrow> listed \<Rightarrow> cluster_object" where
  "to_object kind ns it =
     \<lparr>ob_kind = kind, ob_name = li_name it, ob_namespace = namespace_or ns it,
      ob_uid = (case li_uid it of Some u \<Rightarrow> u | None \<Rightarrow> []), ob_resource_version = version_number it,
      ob_value = li_value it\<rparr>"

text \<open>The six lists in the order of the calls.\<close>

definition per_kind :: "(object_kind \<Rightarrow> listed \<Rightarrow> 'a) \<Rightarrow> listing \<Rightarrow> 'a list" where
  "per_kind f ls =
     map (f McpBridgeKind) (ls_mcpbridges ls) @ map (f WasmPluginKind) (ls_wasmplugins ls) @
     map (f EnvoyFilterKind) (ls_envoyfilters ls) @ map (f IngressKind) (ls_ingresses ls) @
     map (f SecretKind) (ls_secrets ls) @ map (f ConfigMapKind) (ls_configmaps ls)"

definition listing_fingerprint :: "string \<Rightarrow> listing \<Rightarrow> fingerprint" where
  "listing_fingerprint ns ls = sort (per_kind (\<lambda>k. fingerprint_of k ns) ls)"

definition listing_objects :: "string \<Rightarrow> listing \<Rightarrow> cluster_object list" where
  "listing_objects ns ls = per_kind (\<lambda>k. to_object k ns) ls"

section \<open>A pass\<close>

record 'y control_env =
  ce_b64 :: "string \<Rightarrow> bytes option"
  ce_yaml :: "'y yaml_ops"
  ce_namespace :: string
  ce_mirror :: string

definition translate_listing :: "'y control_env \<Rightarrow> listing \<Rightarrow> config_data" where
  "translate_listing ce ls =
     build_config_data (ce_b64 ce) (ce_yaml ce) (listing_objects (ce_namespace ce) ls) (ce_namespace ce) (ce_mirror ce)"

definition versioned :: "fingerprint \<Rightarrow> bool" where
  "versioned fp \<longleftrightarrow> list_all (\<lambda>(_, _, _, rv). rv \<noteq> 0) fp"

definition build_snapshot ::
  "'y control_env \<Rightarrow> fingerprint option \<Rightarrow> string + listing \<Rightarrow> string + fingerprint \<times> config_data option" where
  "build_snapshot ce prev answer =
     (case answer of
        Inl e \<Rightarrow> Inl e
      | Inr ls \<Rightarrow>
          (let fp = listing_fingerprint (ce_namespace ce) ls
           in if prev = Some fp \<and> versioned fp then Inr (fp, None)
              else Inr (fp, Some (translate_listing ce ls))))"

datatype hook = SyncFailure string | SyncOk | SnapshotStored | ReadyNotified

record 're controller =
  ct_shared :: "'re shared_config"
  ct_fingerprint :: "fingerprint option"
  ct_failure_warned :: bool
  ct_ready_notified :: bool
  ct_hooks :: "hook list"

definition controller_new :: "'re shared_config \<Rightarrow> 're controller" where
  "controller_new sc = \<lparr>ct_shared = sc, ct_fingerprint = None, ct_failure_warned = False, ct_ready_notified = False,
     ct_hooks = []\<rparr>"

text \<open>\<open>Controller::new\<close>: the checks of its arguments, and the name of the mirror ingress.\<close>

definition controller_create ::
  "'re shared_config \<Rightarrow> string \<Rightarrow> string \<Rightarrow> nat \<Rightarrow> string option \<Rightarrow> string + 're controller \<times> string" where
  "controller_create sc gateway_namespace ingress_class poll_interval mirror_env =
     (if trim gateway_namespace = [] then Inl ''gateway_namespace must be non-empty''
      else if trim ingress_class = [] then Inl ''ingress_class must be non-empty''
      else if poll_interval = 0 then Inl ''poll_interval must be > 0''
      else Inr (controller_new sc,
             (case mirror_env of Some s \<Rightarrow> if trim s \<noteq> [] then s else mirror_name_default | None \<Rightarrow> mirror_name_default)))"

definition call_hook :: "hook \<Rightarrow> 're controller \<Rightarrow> 're controller" where
  "call_hook h c = c\<lparr>ct_hooks := ct_hooks c @ [h]\<rparr>"

text \<open>The failure latch: the hook of the first failure of an episode.\<close>

definition pass_failed :: "string \<Rightarrow> 're controller \<Rightarrow> 're controller" where
  "pass_failed cause c =
     (if ct_failure_warned c then c else call_hook (SyncFailure cause) (c\<lparr>ct_failure_warned := True\<rparr>))"

definition sync_once :: "'re path_engine \<Rightarrow> 'y control_env \<Rightarrow> string + listing \<Rightarrow> 're controller \<Rightarrow> 're controller" where
  "sync_once rx ce answer c =
     (case build_snapshot ce (ct_fingerprint c) answer of
        Inl e \<Rightarrow> pass_failed ''list'' c
      | Inr (fp, None) \<Rightarrow> call_hook SyncOk (c\<lparr>ct_failure_warned := False\<rparr>)
      | Inr (fp, Some data) \<Rightarrow>
          (case shared_store rx data (ct_shared c) of
             (Inr dropped, sc) \<Rightarrow>
               (let c = call_hook SnapshotStored (call_hook SyncOk (c\<lparr>ct_shared := sc, ct_failure_warned := False\<rparr>));
                    c = c\<lparr>ct_fingerprint := Some fp\<rparr>
                in if ct_ready_notified c then c
                   else call_hook ReadyNotified (c\<lparr>ct_ready_notified := True\<rparr>))
           | (Inl issues, sc) \<Rightarrow> pass_failed ''rejected'' (c\<lparr>ct_shared := sc\<rparr>)))"

text \<open>The passes of a run, between which the data plane selects on the same holder.\<close>

datatype 're control_event = Pass "string + listing" | Selection "'re route_table" nat

fun control_step :: "'re path_engine \<Rightarrow> 'y control_env \<Rightarrow> 're control_event \<Rightarrow> 're controller \<Rightarrow> 're controller" where
  "control_step rx ce (Pass answer) c = sync_once rx ce answer c"
| "control_step rx ce (Selection t i) c = c\<lparr>ct_shared := snd (order_route t i (ct_shared c))\<rparr>"

definition control_run :: "'re path_engine \<Rightarrow> 'y control_env \<Rightarrow> 're control_event list \<Rightarrow> 're controller \<Rightarrow> 're controller" where
  "control_run rx ce es c = foldl (\<lambda>c e. control_step rx ce e c) c es"

fun listings :: "'re control_event list \<Rightarrow> listing list" where
  "listings [] = []"
| "listings (Pass (Inr ls) # es) = ls # listings es"
| "listings (_ # es) = listings es"

section \<open>Convergence\<close>

lemma listings_append: "listings (es @ es') = listings es @ listings es'"
  by (induction es rule: listings.induct) auto

definition object_id :: "cluster_object \<Rightarrow> object_kind \<times> string \<times> string \<times> nat" where
  "object_id obj = (ob_kind obj, ob_namespace obj, ob_name obj, ob_resource_version obj)"

lemma fingerprint_ids: "listing_fingerprint ns ls = sort (map object_id (listing_objects ns ls))"
proof -
  have "object_id \<circ> to_object k ns = fingerprint_of k ns" for k
    by (rule ext) (simp add: object_id_def to_object_def fingerprint_of_def)
  then show ?thesis by (simp add: listing_fingerprint_def listing_objects_def per_kind_def)
qed

text \<open>
  What the cluster promises: a non-zero resource version names one state of an object of its kind,
  namespace and name.
\<close>

definition versions_name_states :: "string \<Rightarrow> listing list \<Rightarrow> bool" where
  "versions_name_states ns lss \<longleftrightarrow>
     (\<forall>ls \<in> set lss. \<forall>obj \<in> set (listing_objects ns ls). \<forall>ls' \<in> set lss. \<forall>obj' \<in> set (listing_objects ns ls').
        ob_resource_version obj \<noteq> 0 \<and> object_id obj = object_id obj' \<longrightarrow> obj = obj')"

lemma image_mset_cancel:
  assumes "inj_on f (set_mset A \<union> set_mset B)" "image_mset f A = image_mset f B"
  shows "A = B"
proof -
  define g where "g = inv_into (set_mset A \<union> set_mset B) f"
  have "image_mset g (image_mset f M) = M" if "M = A \<or> M = B" for M
    unfolding g_def multiset.map_comp comp_def using that assms(1)
    by (intro multiset.map_ident_strong) (auto intro: inv_into_f_f)
  then show ?thesis using assms(2) by metis
qed

lemma same_fingerprint_same_objects:
  assumes "versions_name_states ns lss" "ls \<in> set lss" "ls' \<in> set lss"
    and fp: "listing_fingerprint ns ls = listing_fingerprint ns ls'" and v: "versioned (listing_fingerprint ns ls)"
  shows "mset (listing_objects ns ls) = mset (listing_objects ns ls')"
proof (rule image_mset_cancel)
  show "image_mset object_id (mset (listing_objects ns ls)) = image_mset object_id (mset (listing_objects ns ls'))"
    using fp unfolding fingerprint_ids by (metis mset_map mset_sort)
  have nz: "ob_resource_version obj \<noteq> 0" if "obj \<in> set (listing_objects ns l)" "l = ls \<or> l = ls'" for obj l
  proof -
    have "versioned (listing_fingerprint ns l)" using that(2) v fp by auto
    then show ?thesis using that(1) by (auto simp: versioned_def fingerprint_ids list_all_iff object_id_def)
  qed
  show "inj_on object_id (set_mset (mset (listing_objects ns ls)) \<union> set_mset (mset (listing_objects ns ls')))"
    using assms(1-3) nz unfolding versions_name_states_def inj_on_def set_mset_mset by blast
qed

lemma not_isl_iff: "\<not> isl x \<longleftrightarrow> (\<exists>b. x = Inr b)"
  by (cases x) simp_all

lemma shared_store_load:
  "shared_load (snd (shared_store rx data sc)) =
     (case table_rebuild rx (fst (sanitize data)) of Inr _ \<Rightarrow> fst (sanitize data) | Inl _ \<Rightarrow> shared_load sc)"
  "(\<exists>n. fst (shared_store rx data sc) = Inr n) \<longleftrightarrow> (\<exists>t. table_rebuild rx (fst (sanitize data)) = Inr t)"
  using shared_lkg.replaced [of rx data sc] shared_lkg.accepted [of rx data sc]
  by (auto simp: store_attempt_def store_outcome_def not_isl_iff split: sum.splits)

lemma hook_frame [simp]:
  "ct_shared (call_hook h c) = ct_shared c" "ct_fingerprint (call_hook h c) = ct_fingerprint c"
  "ct_shared (pass_failed cause c) = ct_shared c" "ct_fingerprint (pass_failed cause c) = ct_fingerprint c"
  by (simp_all add: call_hook_def pass_failed_def)

text \<open>The configuration and the fingerprint after a pass.\<close>

definition skipped :: "'y control_env \<Rightarrow> listing \<Rightarrow> 're controller \<Rightarrow> bool" where
  "skipped ce ls c \<longleftrightarrow> (let fp = listing_fingerprint (ce_namespace ce) ls in ct_fingerprint c = Some fp \<and> versioned fp)"

lemma sync_once_result:
  "shared_load (ct_shared (sync_once rx ce (Inr ls) c)) =
     (if skipped ce ls c then shared_load (ct_shared c)
      else case table_rebuild rx (fst (sanitize (translate_listing ce ls))) of
             Inr _ \<Rightarrow> fst (sanitize (translate_listing ce ls)) | Inl _ \<Rightarrow> shared_load (ct_shared c))"
  "ct_fingerprint (sync_once rx ce (Inr ls) c) =
     (if skipped ce ls c then ct_fingerprint c
      else case table_rebuild rx (fst (sanitize (translate_listing ce ls))) of
             Inr _ \<Rightarrow> Some (listing_fingerprint (ce_namespace ce) ls) | Inl _ \<Rightarrow> ct_fingerprint c)"
  "ct_shared (sync_once rx ce (Inl e) c) = ct_shared c" "ct_fingerprint (sync_once rx ce (Inl e) c) = ct_fingerprint c"
  using shared_store_load [of rx "translate_listing ce ls" "ct_shared c"]
  by (auto simp: sync_once_def build_snapshot_def skipped_def Let_def split: sum.splits prod.splits)

definition control_inv :: "'y control_env \<Rightarrow> listing list \<Rightarrow> 're controller \<Rightarrow> bool" where
  "control_inv ce lss c \<longleftrightarrow>
     (\<forall>fp. ct_fingerprint c = Some fp \<longrightarrow>
        (\<exists>ls \<in> set lss. fp = listing_fingerprint (ce_namespace ce) ls \<and>
           shared_load (ct_shared c) = fst (sanitize (translate_listing ce ls))))"

lemma control_run_inv: "control_inv ce (listings es) (control_run rx ce es (controller_new sc))"
proof (induction es rule: rev_induct)
  case (snoc e es)
  let ?c = "control_run rx ce es (controller_new sc)"
  have run: "control_run rx ce (es @ [e]) (controller_new sc) = control_step rx ce e ?c" by (simp add: control_run_def)
  show ?case
  proof (cases "(rx, ce, e, ?c)" rule: control_step.cases)
    case (1 _ _ answer _)
    show ?thesis
    proof (cases answer)
      case (Inl a)
      then show ?thesis using 1 snoc unfolding run by (simp add: control_inv_def sync_once_result listings_append)
    next
      case (Inr ls)
      then show ?thesis using 1 snoc unfolding run
        by (auto simp: control_inv_def sync_once_result listings_append split: sum.splits)
    qed
  next
    case (2 _ _ t i _)
    then show ?thesis using snoc unfolding run
      by (simp add: control_inv_def listings_append shared_load_def order_route_frame)
  qed
qed (simp add: control_inv_def control_run_def controller_new_def)

text \<open>
  Property C6. The control loop converges in one pass: after any history of passes, failures and
  selections, a pass that lists a cluster leaves the configuration a translation and a validation of
  exactly the listed objects gives, in some order of them, although unchanged listings are not
  translated again; a listing the store rejects leaves the configuration and the fingerprint as they
  were, so the next pass tries it again.
\<close>

theorem sync_converges:
  assumes "versions_name_states (ce_namespace ce) (listings es @ [ls])"
  shows "let c = control_run rx ce es (controller_new sc); c' = sync_once rx ce (Inr ls) c in
    case table_rebuild rx (fst (sanitize (translate_listing ce ls))) of
      Inr _ \<Rightarrow> (\<exists>objects. mset objects = mset (listing_objects (ce_namespace ce) ls) \<and>
        shared_load (ct_shared c') =
          fst (sanitize (build_config_data (ce_b64 ce) (ce_yaml ce) objects (ce_namespace ce) (ce_mirror ce))))
    | Inl _ \<Rightarrow> shared_load (ct_shared c') = shared_load (ct_shared c) \<and> ct_fingerprint c' = ct_fingerprint c"
proof -
  let ?c = "control_run rx ce es (controller_new sc)" and ?ns = "ce_namespace ce"
  have inv: "control_inv ce (listings es) ?c" by (rule control_run_inv)
  have "\<exists>objects. mset objects = mset (listing_objects ?ns ls) \<and> shared_load (ct_shared ?c) =
      fst (sanitize (build_config_data (ce_b64 ce) (ce_yaml ce) objects ?ns (ce_mirror ce)))" if s: "skipped ce ls ?c"
  proof -
    have fp: "ct_fingerprint ?c = Some (listing_fingerprint ?ns ls)" "versioned (listing_fingerprint ?ns ls)"
      using s by (simp_all add: skipped_def Let_def)
    then obtain ls' where ls': "ls' \<in> set (listings es)" "listing_fingerprint ?ns ls = listing_fingerprint ?ns ls'"
      "shared_load (ct_shared ?c) = fst (sanitize (translate_listing ce ls'))"
      using inv unfolding control_inv_def by blast
    have "mset (listing_objects ?ns ls) = mset (listing_objects ?ns ls')"
      using ls' fp(2) by (intro same_fingerprint_same_objects [OF assms]) auto
    then show ?thesis using ls'(3) unfolding translate_listing_def by metis
  qed
  then show ?thesis
    by (auto simp: Let_def sync_once_result translate_listing_def split: sum.splits)
qed

section \<open>What the gateway is told\<close>

text \<open>The failure latch as the hooks show it, and the discipline it enforces.\<close>

fun latch :: "bool \<Rightarrow> hook list \<Rightarrow> bool" where
  "latch w [] = w"
| "latch w (SyncFailure cause # hs) = latch True hs"
| "latch w (SyncOk # hs) = latch False hs"
| "latch w (h # hs) = latch w hs"

fun episodes_ok :: "bool \<Rightarrow> hook list \<Rightarrow> bool" where
  "episodes_ok w [] = True"
| "episodes_ok w (SyncFailure cause # hs) = (\<not> w \<and> episodes_ok True hs)"
| "episodes_ok w (SyncOk # hs) = episodes_ok False hs"
| "episodes_ok w (h # hs) = episodes_ok w hs"

lemma latch_append: "latch w (hs @ hs') = latch (latch w hs) hs'"
  by (induction w hs rule: latch.induct) auto

lemma episodes_append: "episodes_ok w (hs @ hs') \<longleftrightarrow> episodes_ok w hs \<and> episodes_ok (latch w hs) hs'"
  by (induction w hs rule: latch.induct) auto

definition hooks_inv :: "'re controller \<Rightarrow> bool" where
  "hooks_inv c \<longleftrightarrow> episodes_ok False (ct_hooks c) \<and> latch False (ct_hooks c) = ct_failure_warned c \<and>
     ct_ready_notified c = (SnapshotStored \<in> set (ct_hooks c)) \<and>
     count_list (ct_hooks c) ReadyNotified = (if SnapshotStored \<in> set (ct_hooks c) then 1 else 0)"

lemma pass_failed_hooks: "hooks_inv c \<Longrightarrow> hooks_inv (pass_failed cause c)"
  by (simp add: hooks_inv_def pass_failed_def call_hook_def latch_append episodes_append)

lemma hooks_inv_shared: "hooks_inv (c\<lparr>ct_shared := sc\<rparr>) = hooks_inv c"
  by (simp add: hooks_inv_def)

lemma sync_once_hooks: "hooks_inv c \<Longrightarrow> hooks_inv (sync_once rx ce answer c)"
  unfolding sync_once_def Let_def
  by (auto simp: pass_failed_hooks hooks_inv_shared split: sum.splits option.splits prod.splits)
    (auto simp: hooks_inv_def call_hook_def latch_append episodes_append)

lemma control_run_hooks: "hooks_inv (control_run rx ce es (controller_new sc))"
proof (induction es rule: rev_induct)
  case (snoc e es)
  then show ?case by (cases e) (simp_all add: control_run_def sync_once_hooks hooks_inv_shared)
qed (simp add: hooks_inv_def control_run_def controller_new_def)

text \<open>
  Property C7. The hooks: between two failures the gateway is told of, a pass succeeded; the data
  plane is told to bind once when a first snapshot was stored and never before; and a pass whose
  listing fails leaves the configuration and the fingerprint as they were and is told unless a
  failure was told since the last success.
\<close>

theorem hooks_disciplined:
  "let c = control_run rx ce es (controller_new sc); c' = sync_once rx ce (Inl cause) c in
     episodes_ok False (ct_hooks c) \<and>
     count_list (ct_hooks c) ReadyNotified = (if SnapshotStored \<in> set (ct_hooks c) then 1 else 0) \<and>
     ct_shared c' = ct_shared c \<and> ct_fingerprint c' = ct_fingerprint c \<and>
     ct_hooks c' = ct_hooks c @ (if latch False (ct_hooks c) then [] else [SyncFailure ''list''])"
proof -
  have "hooks_inv (control_run rx ce es (controller_new sc))" by (rule control_run_hooks)
  then show ?thesis
    by (simp add: Let_def hooks_inv_def sync_once_def build_snapshot_def pass_failed_def call_hook_def)
qed

end
