(* ===== verification/Typed_Config.thy ===== *)
theory Typed_Config
  imports Controller Retry
begin

text \<open>
  The machine widths of the configuration. The model reads a Rust integer as a number; here every
  such field of a configuration is shown to stay within its Rust type, whatever the cluster holds. This
  justifies reading the fields as numbers; it says nothing of the code, whose types see to it.
\<close>

section \<open>Well-typed data\<close>

definition opt_le :: "nat \<Rightarrow> nat option \<Rightarrow> bool" where
  "opt_le m x \<longleftrightarrow> (\<forall>n. x = Some n \<longrightarrow> n \<le> m)"

definition retry_typed :: "retry_policy \<Rightarrow> bool" where
  "retry_typed p \<longleftrightarrow> rp_tries p \<le> u32_max \<and> (\<forall>n. RStatus n \<in> set (rp_conditions p) \<longrightarrow> n \<le> u16_max)"

definition route_typed :: "route_rule \<Rightarrow> bool" where
  "route_typed r \<longleftrightarrow>
     (\<forall>d \<in> set (rr_destinations r). opt_le u32_max (dest_percent d)) \<and> retry_typed (rr_retry r) \<and>
     opt_le u32_max (map_option fl_max_redirects (rr_fallback r)) \<and>
     (\<forall>s \<in> set (rr_sources r). src_resource_version s \<le> u64_max)"

definition registry_typed :: "registry \<Rightarrow> bool" where
  "registry_typed r \<longleftrightarrow> opt_le u16_max (reg_port r)"

definition proxy_typed :: "outbound_proxy \<Rightarrow> bool" where
  "proxy_typed p \<longleftrightarrow> op_server_port p \<le> u16_max \<and> opt_le u32_max (op_connect_timeout_secs p) \<and>
     opt_le u16_max (op_listener_port p)"

definition feature_typed :: "gateway_feature_config \<Rightarrow> bool" where
  "feature_typed f \<longleftrightarrow> - 2147483648 \<le> gf_priority f \<and> gf_priority f < 2147483648"

definition timing_typed :: "timing_config \<Rightarrow> bool" where
  "timing_typed t \<longleftrightarrow> downstream_idle_timeout_secs t \<le> u64_max \<and> upstream_idle_timeout_secs t \<le> u64_max \<and>
     opt_le u64_max (max_request_headers_kb t)"

definition config_typed :: "config_data \<Rightarrow> bool" where
  "config_typed cd \<longleftrightarrow>
     (\<forall>r \<in> set (cd_routes cd). route_typed r) \<and> (\<forall>r \<in> set (cd_registries cd). registry_typed r) \<and>
     (\<forall>p \<in> set (cd_proxies cd). proxy_typed p) \<and> (\<forall>f \<in> set (cd_features cd). feature_typed f) \<and>
     timing_typed (cd_timing cd) \<and> opt_le u64_max (ms_max_body_bytes (cd_model_router cd))"

definition yaml_typed :: "'y yaml_ops \<Rightarrow> bool" where
  "yaml_typed ym \<longleftrightarrow> (\<forall>y. opt_le u64_max (ym_u64 ym y))"

lemma opt_le_simps [simp]: "opt_le m None" "opt_le m (Some n) \<longleftrightarrow> n \<le> m"
  by (simp_all add: opt_le_def)

lemma opt_le_mod: "k \<le> Suc m \<Longrightarrow> 0 < k \<Longrightarrow> opt_le m (map_option (\<lambda>n. n mod k) x)"
  by (auto simp: opt_le_def less_Suc_eq_le [symmetric] intro: less_le_trans [OF mod_less_divisor])

lemma opt_le_or_else: "opt_le m x \<Longrightarrow> opt_le m y \<Longrightarrow> opt_le m (or_else x y)"
  by (cases x) (simp_all add: or_else_def)

section \<open>Each translation is well typed\<close>

lemma destination_parse_typed: "destination_parse s = Inr d \<Longrightarrow> opt_le u32_max (dest_percent d)"
  by (auto simp: destination_parse_def Let_def opt_le_def dest: parse_uint_le split: if_splits option.splits)

lemma collect_results_InrD: "collect_results rs = Inr xs \<Longrightarrow> x \<in> set xs \<Longrightarrow> Inr x \<in> set rs"
  by (induction rs arbitrary: xs rule: collect_results.induct) (auto split: sum.splits)

lemma parse_destinations_typed:
  assumes "parse_destinations block = Inr ds" "d \<in> set ds" shows "opt_le u32_max (dest_percent d)"
proof -
  obtain line where "destination_parse line = Inr d"
    using collect_results_InrD [OF assms [unfolded parse_destinations_def]] by auto
  then show ?thesis by (rule destination_parse_typed)
qed

lemma parse_cond_tokens_typed: "RStatus n \<in> set (fst (parse_cond_tokens ts)) \<Longrightarrow> n \<le> u16_max"
  by (induction ts rule: parse_cond_tokens.induct)
    (auto simp: Let_def parse_cond_token_def case_prod_beta dest: parse_uint_le split: if_splits option.splits)

lemma retry_parse_typed: "retry_typed (pd_policy (retry_parse conditions tries))"
  using parse_cond_tokens_typed
  by (auto simp: retry_typed_def retry_parse_def Let_def case_prod_beta u32_max_def u16_max_def default_conditions_def
      split: option.splits)

lemma ingress_to_route_typed:
  assumes "ingress_to_route obj kind gw = Inr r" "ob_resource_version obj \<le> u64_max"
  shows "route_typed r"
proof -
  have d: "opt_le u32_max (dest_percent d)" if "ingress_destinations obj = Inr ds" "d \<in> set ds" for ds d
    using that by (auto simp: ingress_destinations_def split: option.splits sum.splits if_splits
        intro: parse_destinations_typed)
  show ?thesis
    using assms d retry_parse_typed
    by (auto simp: ingress_to_route_def route_new_def route_typed_def Let_def split: sum.splits option.splits)
qed

lemma bridge_proxy_typed: "bridge_proxy v = Some p \<Longrightarrow> proxy_typed p"
  by (auto simp: bridge_proxy_def proxy_typed_def proxy_new_def Let_def u16_max_def u32_max_def opt_le_mod less_Suc_eq_le [symmetric]
      split: if_splits option.splits)

lemma registry_new_typed: "registry_new service domain = Inr r \<Longrightarrow> registry_typed r"
  by (auto simp: registry_new_def registry_typed_def parse_service_with_port_def split_port_def Let_def opt_le_def
      split: sum.splits if_splits option.splits) (erule parse_uint_le)

lemma bridge_registry_typed: "bridge_registry v = Some (Inr r) \<Longrightarrow> registry_typed r"
  by (auto simp: bridge_registry_def Let_def registry_typed_def with_proxy_ref_def dest!: registry_new_typed
      split: if_splits sum.splits option.splits)

lemma mcpbridge_typed:
  assumes "mcpbridge_to_registries obj = Inr (regs, proxies)"
  shows "(\<forall>r \<in> set regs. registry_typed r) \<and> (\<forall>p \<in> set proxies. proxy_typed p)"
proof -
  define spec where "spec = (case json_get (ob_value obj) ''spec'' of Some s \<Rightarrow> s | None \<Rightarrow> JNull)"
  have regs: "collect_results (List.map_filter bridge_registry (items_of (json_get spec ''registries''))) = Inr regs"
    and proxies: "proxies = List.map_filter bridge_proxy (items_of (json_get spec ''proxies''))"
    using assms by (auto simp: mcpbridge_to_registries_def spec_def Let_def split: sum.splits)
  have "registry_typed r" if "r \<in> set regs" for r
    using collect_results_InrD [OF regs that] bridge_registry_typed unfolding map_filter_in by blast
  moreover have "proxy_typed p" if "p \<in> set proxies" for p
    using that bridge_proxy_typed unfolding proxies map_filter_in by blast
  ultimately show ?thesis by blast
qed

lemma i32_wrap_typed: "- 2147483648 \<le> i32_wrap n \<and> i32_wrap n < 2147483648"
  by (simp add: i32_wrap_def)

lemma feature_typed: "feature_typed (wasmplugin_to_feature obj)"
  by (simp add: feature_typed_def wasmplugin_to_feature_def Let_def i32_wrap_typed)

lemma settings_typed: "opt_le u64_max (ms_max_body_bytes (translate_model_router_config dc))"
proof -
  have "opt_le u64_max (ms_max_body_bytes s)" if "settings_from_value cfg = Some s" for cfg s
    using that as_u64_le
    by (auto simp: settings_from_value_def usize_field_def opt_le_def split: option.splits json.splits)
  then show ?thesis
    by (auto simp: translate_model_router_config_def model_router_settings_default_def split: option.splits)
qed

lemma timing_typed: "yaml_typed ym \<Longrightarrow> configmap_to_timing ym obj = Some t \<Longrightarrow> timing_typed t"
proof -
  assume ym: "yaml_typed ym" and t: "configmap_to_timing ym obj = Some t"
  have y: "opt_le u64_max (yaml_field ym doc a b)" for doc a b
    using ym by (auto simp: yaml_field_def yaml_typed_def opt_le_def bind_eq_Some_conv)
  have f: "opt_le u64_max (flat_field data key)" for data key
    by (auto simp: flat_field_def opt_le_def bind_eq_Some_conv dest: parse_uint_le)
  have o: "opt_le u64_max (or_else (yaml_field ym doc a b) (flat_field data key))" for doc a b data key
    using y f by (rule opt_le_or_else)
  have d: "(case x of Some v \<Rightarrow> v | None \<Rightarrow> n) \<le> u64_max" if "opt_le u64_max x" "n \<le> u64_max" for x n
    using that by (cases x) simp_all
  obtain data where data: "Option.bind (json_get (ob_value obj) ''data'') as_object = Some data"
    using t by (auto simp: configmap_to_timing_def split: option.splits)
  have "(1800 :: nat) \<le> u64_max" "(10 :: nat) \<le> u64_max" by (simp_all add: u64_max_def)
  then show ?thesis
    using t by (auto simp: configmap_to_timing_def data timing_typed_def timing_default_def Let_def intro!: d o)
qed

section \<open>The assembly and the store keep the widths\<close>

lemma config_empty_typed: "config_typed config_empty"
  by (simp add: config_typed_def config_empty_def timing_typed_def timing_default_def u64_max_def
      model_router_settings_default_def)

lemma translate_object_typed:
  assumes "config_typed cd" "ob_resource_version obj \<le> u64_max" "yaml_typed ym"
  shows "config_typed (translate_object b64 ym gw mirror cd obj)"
proof (cases "ob_kind obj")
  case IngressKind
  then show ?thesis
    using assms ingress_to_route_typed
    by (auto simp: translate_object_def config_typed_def split: option.splits sum.splits)
next
  case McpBridgeKind
  then show ?thesis
    using assms(1) mcpbridge_typed [of obj]
    by (auto simp: translate_object_def config_typed_def split: sum.splits prod.splits)
next
  case WasmPluginKind
  then show ?thesis
    using assms(1) settings_typed feature_typed
    by (auto simp: translate_object_def config_typed_def wasmplugin_model_router_def Let_def split: option.splits)
next
  case ConfigMapKind
  then show ?thesis
    using assms(1) timing_typed [OF assms(3)]
    by (auto simp: translate_object_def config_typed_def split: option.splits)
qed (use assms(1) in \<open>auto simp: translate_object_def config_typed_def split: option.splits\<close>)

lemma translate_typed:
  "config_typed cd \<Longrightarrow> \<forall>obj \<in> set objects. ob_resource_version obj \<le> u64_max \<Longrightarrow> yaml_typed ym \<Longrightarrow>
     config_typed (foldl (translate_object b64 ym gw mirror) cd objects)"
  by (induction objects arbitrary: cd) (simp_all add: translate_object_typed)

lemma envoyfilter_typed: "envoyfilter_fallback_of obj = Some fb \<Longrightarrow> ef_max_redirects fb \<le> u32_max"
proof -
  assume fb: "envoyfilter_fallback_of obj = Some fb"
  have wrap: "n mod 4294967296 \<le> u32_max" for n :: nat by (simp add: u32_max_def less_Suc_eq_le [symmetric])
  show ?thesis
    using fb by (cases "redirect_policy (ob_value obj)") (auto simp: envoyfilter_fallback_of_def Let_def wrap)
qed

lemma find_Some_in: "find P xs = Some y \<Longrightarrow> y \<in> set xs"
  by (auto simp: find_Some_iff)

lemma envoy_max_typed: "find P (rev (envoy_filters objects)) = Some fb \<Longrightarrow> ef_max_redirects fb \<le> u32_max"
  using find_Some_in [of P "rev (envoy_filters objects)" fb] envoyfilter_typed
  by (auto simp: envoy_filters_def map_filter_in)

lemma fallback_spec_typed:
  assumes "rr_fallback r = None"
  shows "opt_le u32_max (map_option fl_max_redirects (fallback_spec objects routes r))"
proof -
  define found where
    "found = find (\<lambda>fb. ef_ingress_name fb = bare_ingress_name (rr_ingress_name r)) (rev (envoy_filters objects))"
  have found: "(case found of Some fb \<Rightarrow> ef_max_redirects fb | None \<Rightarrow> 10) \<le> u32_max"
    using envoy_max_typed [of _ objects] by (cases found) (simp_all add: found_def u32_max_def)
  then show ?thesis using assms by (simp add: fallback_spec_def Let_def found_def)
qed

lemma build_typed:
  assumes "\<forall>obj \<in> set objects. ob_resource_version obj \<le> u64_max" "yaml_typed ym"
  shows "config_typed (build_config_data b64 ym objects gw mirror)"
proof -
  define base where "base = List.map_filter (ingress_route gw mirror) objects"
  have t: "config_typed (foldl (translate_object b64 ym gw mirror) config_empty objects)"
    using assms config_empty_typed by (intro translate_typed)
  have base: "route_typed r" "rr_fallback r = None" if "r \<in> set base" for r
  proof -
    show "rr_fallback r = None" using fresh_routes that unfolding base_def fresh_route_def by blast
    show "route_typed r" using t that by (simp add: config_typed_def translate_routes config_empty_def base_def)
  qed
  have "route_typed r" if "r \<in> set (cd_routes (build_config_data b64 ym objects gw mirror))" for r
    using that base fallback_spec_typed unfolding built_routes base_def [symmetric] Let_def
    by (auto simp: finish_route_def route_typed_def)
  then show ?thesis using t by (simp add: config_typed_def build_config_data_def Let_def)
qed

lemma sanitize_typed: "config_typed cd \<Longrightarrow> config_typed (fst (sanitize cd))"
  using sanitized_routes_ok [of cd] subseq_set [of "sanitized_routes cd" "cd_routes cd"]
  by (auto simp: sanitize_fst config_typed_def)

lemma listing_versions: "obj \<in> set (listing_objects ns ls) \<Longrightarrow> ob_resource_version obj \<le> u64_max"
proof -
  have "version_number it \<le> u64_max" for it
    by (auto simp: version_number_def bind_eq_Some_conv dest: parse_uint_le split: option.splits)
  then show "obj \<in> set (listing_objects ns ls) \<Longrightarrow> ob_resource_version obj \<le> u64_max"
    by (auto simp: listing_objects_def per_kind_def to_object_def)
qed

text \<open>
  Machine widths: whatever the cluster lists, in whatever order passes, failures and
  selections come, every integer of the configuration in use fits its Rust type: ports are 16 bits,
  percents, timeouts, tries and hop limits 32, versions and byte caps 64, priorities signed 32.
\<close>

theorem config_widths:
  assumes "yaml_typed (ce_yaml ce)" and "config_typed (shared_load sc)"
  shows "config_typed (shared_load (ct_shared (control_run rx ce es (controller_new sc))))"
proof (induction es rule: rev_induct)
  case Nil
  then show ?case using assms(2) by (simp add: control_run_def controller_new_def)
next
  case (snoc e es)
  let ?c = "control_run rx ce es (controller_new sc)"
  have run: "control_run rx ce (es @ [e]) (controller_new sc) = control_step rx ce e ?c" by (simp add: control_run_def)
  have new: "config_typed (fst (sanitize (translate_listing ce ls)))" for ls
    unfolding translate_listing_def using listing_versions assms(1) by (intro sanitize_typed build_typed) auto
  show ?case
  proof (cases "(rx, ce, e, ?c)" rule: control_step.cases)
    case (1 _ _ answer _)
    then show ?thesis using snoc new unfolding run
      by (cases answer) (auto simp: sync_once_result split: sum.splits)
  next
    case (2 _ _ t i _)
    then show ?thesis using snoc unfolding run by (simp add: shared_load_def order_route_frame)
  qed
qed

end
