(* ===== verification/Translate_Demo.thy ===== *)
theory Translate_Demo
  imports Typed_Config
begin

text \<open>
  A small cluster: a main ingress with its fallback, a mapper plugin, a filter and a bridge. The
  properties of the translation and of the control loop are applied to it.
\<close>

definition demo_ingress :: "string \<Rightarrow> (string \<times> string) list \<Rightarrow> json" where
  "demo_ingress name annotations =
     JObject [(''metadata'', JObject [(''name'', JString name),
       (''annotations'', JObject (map (\<lambda>(k, v). (k, JString v)) annotations))])]"

definition demo_main_name :: string where "demo_main_name = ''ai-route-route-1.internal''"
definition demo_fallback_name :: string where "demo_fallback_name = ''ai-route-route-1.fallback.internal''"

definition demo_object :: "object_kind \<Rightarrow> string \<Rightarrow> json \<Rightarrow> cluster_object" where
  "demo_object kind name v =
     \<lparr>ob_kind = kind, ob_name = name, ob_namespace = [], ob_uid = ''u'', ob_resource_version = 1, ob_value = v\<rparr>"

definition demo_main :: cluster_object where
  "demo_main = demo_object IngressKind demo_main_name
     (demo_ingress demo_main_name [(annot_destination, ''model-1.static''), (annot_match_llm_model, ''qwen'')])"

definition demo_fallback :: cluster_object where
  "demo_fallback = demo_object IngressKind demo_fallback_name
     (demo_ingress demo_fallback_name [(annot_destination, ''model-2.static''), (annot_match_fallback_from, demo_main_name)])"

definition demo_mapper :: cluster_object where
  "demo_mapper = demo_object WasmPluginKind model_mapper_name
     (JObject [(''spec'', JObject [(''matchRules'', JArray [JObject
        [(''ingress'', JArray [JString demo_main_name]), (''service'', JArray [JString ''model-1.static'']),
         (''config'', JObject [(''modelMapping'', JObject [(''qwen'', JString ''qwen-7b'')])])]])])])"

definition demo_objects :: "cluster_object list" where
  "demo_objects = [demo_mapper, demo_main, demo_fallback]"

definition demo_route :: "string \<Rightarrow> string \<Rightarrow> route_kind \<Rightarrow> string \<Rightarrow> route_rule" where
  "demo_route key name kind service =
     \<lparr>rr_key = key, rr_ingress_name = name, rr_kind = kind, rr_path_predicates = [], rr_rewrite_target = None,
      rr_destinations = [destination_new service], rr_retry = retry_default, rr_fallback = None,
      rr_auth_scope = auth_scope_for_kind kind, rr_model_mapping = [],
      rr_sources = [\<lparr>src_uid = ''u'', src_resource_version = 1, src_ingress_name = name\<rparr>]\<rparr>"

definition demo_main_route :: route_rule where
  "demo_main_route = demo_route ''qwen'' demo_main_name Main ''model-1.static''"

definition demo_fallback_route :: route_rule where
  "demo_fallback_route = demo_route demo_main_name demo_fallback_name Fallback ''model-2.static''"

definition no_yaml :: "unit yaml_ops" where
  "no_yaml = \<lparr>ym_parse = (\<lambda>_. None), ym_get = (\<lambda>_ _. None), ym_u64 = (\<lambda>_. None)\<rparr>"

definition demo_build :: "cluster_object list \<Rightarrow> config_data" where
  "demo_build objects = build_config_data (\<lambda>_. None) no_yaml objects ''gw'' ''m''"

lemma demo_base: "List.map_filter (ingress_route ''gw'' ''m'') demo_objects = [demo_main_route, demo_fallback_route]"
  by code_simp

lemma demo_wiring:
  "find (\<lambda>rule. rule_covers (bare_ingress_name demo_main_name) rule \<and> ''model-1.static'' \<in> set (mmr_services rule))
     (mapping_rules_of demo_objects) =
   Some \<lparr>mmr_ingress = [demo_main_name], mmr_services = [''model-1.static''], mmr_model = ''qwen-7b''\<rparr>"
  "fallback_spec demo_objects [demo_main_route, demo_fallback_route] demo_main_route =
     Some \<lparr>fl_target_key = demo_main_name, fl_main_ingress_name = demo_main_name, fl_max_redirects = 10,
       fl_use_original_request = True\<rparr>"
  by code_simp+

theorem translated_routes_witness:
  "\<exists>r r'. cd_routes (demo_build demo_objects) = [r, r'] \<and> rr_ingress_name r = demo_main_name \<and>
     mapping_lookup (rr_model_mapping r) ''model-1.static'' = Some ''qwen-7b'' \<and>
     map_option fl_target_key (rr_fallback r) = Some demo_main_name"
proof -
  have t: "map (\<lambda>r. r\<lparr>rr_model_mapping := [], rr_fallback := None\<rparr>) (cd_routes (demo_build demo_objects)) =
      [demo_main_route, demo_fallback_route]"
    and w: "\<And>r. r \<in> set (cd_routes (demo_build demo_objects)) \<Longrightarrow>
      mapping_lookup (rr_model_mapping r) ''model-1.static'' =
        map_option mmr_model (find (\<lambda>rule. rule_covers (bare_ingress_name (rr_ingress_name r)) rule \<and>
          ''model-1.static'' \<in> set (mmr_services rule)) (mapping_rules_of demo_objects)) \<and>
      rr_fallback r = fallback_spec demo_objects [demo_main_route, demo_fallback_route] (r\<lparr>rr_fallback := None\<rparr>)"
    using translated_routes [of "\<lambda>_. None" no_yaml demo_objects "''gw''" "''m''"]
    unfolding Let_def demo_base demo_build_def by blast+
  obtain r r' where rs: "cd_routes (demo_build demo_objects) = [r, r']"
    and r: "r\<lparr>rr_model_mapping := [], rr_fallback := None\<rparr> = demo_main_route"
    using t by (auto simp: map_eq_Cons_conv)
  have fields: "rr_ingress_name r = demo_main_name" "rr_kind r = Main"
    using arg_cong [OF r, of rr_ingress_name] arg_cong [OF r, of rr_kind]
    by (simp_all add: demo_main_route_def demo_route_def)
  have "fallback_spec demo_objects [demo_main_route, demo_fallback_route] (r\<lparr>rr_fallback := None\<rparr>) =
      fallback_spec demo_objects [demo_main_route, demo_fallback_route] demo_main_route"
    using fields by (intro fallback_spec_cong) (simp_all add: demo_main_route_def demo_route_def)
  then show ?thesis using rs w [of r] fields by (simp add: demo_wiring)
qed

theorem translation_accepted_witness:
  "cd_routes (fst (sanitize (demo_build demo_objects))) = cd_routes (demo_build demo_objects) \<and>
   list_all (\<lambda>r. rr_kind r = Main \<longrightarrow> requires_auth r) (cd_routes (demo_build demo_objects))"
proof -
  have names: "\<forall>obj \<in> set demo_objects. CHR ''/'' \<notin> set (ob_name obj)" by code_simp
  have "distinct (map (\<lambda>r. (rr_kind r, rr_key r)) (cd_routes (demo_build demo_objects)))"
    "length (filter (\<lambda>r. rr_kind r = Mirror) (cd_routes (demo_build demo_objects))) \<le> 1"
    "\<forall>r \<in> set (cd_routes (demo_build demo_objects)). weights_complete r"
    by code_simp+
  then show ?thesis
    using translation_accepted [OF names, of "\<lambda>_. None" no_yaml "''gw''" "''m''"]
    unfolding Let_def demo_build_def list_all_iff by blast
qed

section \<open>The loop over the cluster\<close>

definition demo_listing :: listing where
  "demo_listing = \<lparr>ls_mcpbridges = [], ls_wasmplugins = [], ls_envoyfilters = [],
     ls_ingresses = [\<lparr>li_name = demo_main_name, li_namespace = None, li_uid = Some ''u'', li_version = Some ''1'',
       li_value = ob_value demo_main\<rparr>], ls_secrets = [], ls_configmaps = []\<rparr>"

definition demo_control :: "unit control_env" where
  "demo_control = \<lparr>ce_b64 = (\<lambda>_. None), ce_yaml = no_yaml, ce_namespace = ''gw'', ce_mirror = ''m''\<rparr>"

lemma demo_listed: "listing_objects ''gw'' demo_listing = [demo_main\<lparr>ob_namespace := ''gw''\<rparr>]"
  by (simp add: listing_objects_def per_kind_def to_object_def demo_listing_def namespace_or_def version_number_def
      demo_main_def demo_object_def parse_uint_def u64_max_def is_ascii_digit_def)

lemma demo_translated:
  "cd_routes (translate_listing demo_control demo_listing) = [demo_main_route]"
  "cd_registries (translate_listing demo_control demo_listing) = []"
proof -
  have "cd_routes (demo_build [demo_main\<lparr>ob_namespace := ''gw''\<rparr>]) = [demo_main_route]"
    "cd_registries (demo_build [demo_main\<lparr>ob_namespace := ''gw''\<rparr>]) = []" by code_simp+
  then show "cd_routes (translate_listing demo_control demo_listing) = [demo_main_route]"
    "cd_registries (translate_listing demo_control demo_listing) = []"
    by (simp_all add: translate_listing_def demo_control_def demo_listed demo_build_def)
qed

lemma demo_rebuilt: "\<exists>t. table_rebuild slash_engine (fst (sanitize (translate_listing demo_control demo_listing))) = Inr t"
proof -
  have "route_validate demo_main_route = Inr ()" "rr_auth_scope demo_main_route = auth_scope_for_kind (rr_kind demo_main_route)"
    "weights_complete demo_main_route" by code_simp+
  then have "route_ok demo_main_route" by (rule valid_route_ok)
  then have "routes_ok [demo_main_route]" by (simp add: routes_ok_def demo_main_route_def demo_route_def)
  then have "cd_routes (fst (sanitize (translate_listing demo_control demo_listing))) = [demo_main_route]"
    by (simp add: sanitize_fst sanitized_routes_keeps demo_translated)
  then show ?thesis
    by (simp add: table_rebuild_def demo_main_route_def demo_route_def slash_engine_def Let_def)
qed

definition demo_events :: "string control_event list" where
  "demo_events = [Pass (Inr demo_listing), Pass (Inl ''timeout'')]"

theorem sync_converges_witness:
  "\<exists>sc. shared_new slash_engine split_config = Inr sc \<and>
     (\<exists>objects. mset objects = mset [demo_main\<lparr>ob_namespace := ''gw''\<rparr>] \<and>
       shared_load (ct_shared (sync_once slash_engine demo_control (Inr demo_listing)
         (control_run slash_engine demo_control demo_events (controller_new sc)))) = fst (sanitize (demo_build objects)))"
proof -
  obtain sc where sc: "shared_new slash_engine split_config = Inr sc" using split_new by blast
  have v: "versions_name_states (ce_namespace demo_control) (listings demo_events @ [demo_listing])"
    by (simp add: versions_name_states_def demo_control_def demo_events_def demo_listed)
  obtain t where t: "table_rebuild slash_engine (fst (sanitize (translate_listing demo_control demo_listing))) = Inr t"
    using demo_rebuilt by blast
  show ?thesis
    using sync_converges [OF v, of slash_engine sc] sc
    by (simp add: Let_def t) (simp add: demo_control_def demo_listed demo_build_def)
qed

theorem config_widths_witness:
  "\<exists>sc. shared_new slash_engine split_config = Inr sc \<and>
     config_typed (shared_load (ct_shared (control_run slash_engine demo_control demo_events (controller_new sc))))"
proof -
  obtain sc where sc: "shared_new slash_engine split_config = Inr sc" "shared_load sc = split_config"
    using split_new by blast
  have y: "yaml_typed (ce_yaml demo_control)" by (simp add: yaml_typed_def demo_control_def no_yaml_def)
  have "config_typed split_config"
    by (simp add: config_typed_def split_config_def sample_config_def split_route_def gateway_route_def sample_route_def
        route_typed_def retry_typed_def retry_default_def default_conditions_def timing_typed_def timing_default_def
        destination_with_percent_def destination_new_def model_router_settings_default_def
        u16_max_def u32_max_def u64_max_def)
  then show ?thesis using config_widths [OF y, of sc slash_engine demo_events] sc by auto
qed

end
