(* ===== verification/Admin.thy ===== *)
theory Admin
  imports Shared_Config Policy_Merge Json_Value Headers "HOL-Library.Word"
begin

text \<open>
  The admin and the stats listener, \<open>hygress-gateway/src/admin.rs\<close> and \<open>stats.rs\<close>: routing behind the
  bearer token, the policy reload, and the redacted summary of the configuration.

  A request runs against the process: the state the reload hook acts on is threaded through. The
  rendered metrics text, the text of a JSON value, the hash and \<open>HeaderValue::to_str\<close> are parameters.
\<close>

unbundle bit_operations_syntax

section \<open>The token\<close>

record ('re, 's) admin_state =
  ad_metrics :: string
  ad_token :: "string option"
  ad_reloader :: "('s \<Rightarrow> bool \<times> 's) option"
  ad_shared :: "'re shared_config option"

definition bearer_token :: "header_map \<Rightarrow> string option" where
  "bearer_token headers =
     Option.bind (header_get headers ''authorization'')
       (\<lambda>s. or_else (strip_prefix ''Bearer '' s) (strip_prefix ''bearer '' s))"

definition byte_word :: "char \<Rightarrow> 8 word" where
  "byte_word c = of_char c"

definition tokens_eq :: "bytes \<Rightarrow> bytes \<Rightarrow> bool" where
  "tokens_eq a b \<longleftrightarrow>
     length a = length b \<and>
     foldl (\<lambda>acc (x, y). acc OR (byte_word x XOR byte_word y)) 0 (zip a b) = 0"

definition authorized :: "('re, 's) admin_state \<Rightarrow> header_map \<Rightarrow> bool" where
  "authorized ad headers =
     (case ad_token ad of
        None \<Rightarrow> False
      | Some token \<Rightarrow>
          (case bearer_token headers of
             None \<Rightarrow> False
           | Some provided \<Rightarrow> tokens_eq provided token))"

section \<open>The summary of a snapshot\<close>

definition dec_of_int :: "int \<Rightarrow> string" where
  "dec_of_int i = (if i < 0 then CHR ''-'' # dec_of_nat (nat (- i)) else dec_of_nat (nat i))"

definition jnat :: "nat \<Rightarrow> json" where
  "jnat n = JNumber (dec_of_nat n)"

definition jopt :: "('a \<Rightarrow> json) \<Rightarrow> 'a option \<Rightarrow> json" where
  "jopt f v = (case v of Some x \<Rightarrow> f x | None \<Rightarrow> JNull)"

definition sha256_short :: "(bytes \<Rightarrow> string) \<Rightarrow> bytes \<Rightarrow> string" where
  "sha256_short sha bs = take 12 (sha bs)"

definition route_json :: "route_rule \<Rightarrow> json" where
  "route_json r = JObject
     [(''kind'', JString (case rr_kind r of Main \<Rightarrow> ''main'' | Fallback \<Rightarrow> ''fallback'' | Mirror \<Rightarrow> ''mirror'')),
      (''key'', JString (rr_key r)), (''ingress_name'', JString (rr_ingress_name r)),
      (''path_predicates'', jnat (length (rr_path_predicates r))), (''destinations'', jnat (length (rr_destinations r))),
      (''auth'', JBool (as_enabled (rr_auth_scope r))),
      (''fallback'', jopt (\<lambda>f. JString (fl_target_key f)) (rr_fallback r))]"

definition registry_json :: "registry \<Rightarrow> json" where
  "registry_json r = JObject [(''id'', JString (reg_id r)), (''domain'', JString (reg_domain r)), (''port'', jopt jnat (reg_port r))]"

definition proxy_json :: "outbound_proxy \<Rightarrow> json" where
  "proxy_json p = JObject [(''name'', JString (op_name p)), (''server_address'', JString (op_server_address p)),
     (''server_port'', jnat (op_server_port p))]"

definition tls_json :: "(bytes \<Rightarrow> string) \<Rightarrow> tls_host \<Rightarrow> json" where
  "tls_json sha h = JObject [(''host'', JString (th_host h)), (''is_default'', JBool (th_is_default h)),
     (''cert_sha256_prefix12'', JString (sha256_short sha (th_cert_pem h)))]"

definition feature_json :: "gateway_feature_config \<Rightarrow> json" where
  "feature_json f = JObject [(''plugin'', JString (gf_plugin f)), (''phase'', JString (gf_phase f)),
     (''priority'', JNumber (dec_of_int (gf_priority f))), (''fail_open'', JBool (gf_fail_open f)),
     (''default_config_disable'', JBool (gf_default_config_disable f))]"

definition token_json :: "provider_token \<Rightarrow> json" where
  "token_json t = JObject [(''service'', JString (pt_service t)), (''ingress_scope'', jopt JString (pt_ingress_scope t))]"

definition config_summary :: "(bytes \<Rightarrow> string) \<Rightarrow> 're shared_config \<Rightarrow> json" where
  "config_summary sha sc =
     (let data = shared_load sc in JObject
        [(''routes'', JArray (map route_json (cd_routes data))),
         (''registries'', JArray (map registry_json (cd_registries data))),
         (''proxies'', JArray (map proxy_json (cd_proxies data))),
         (''tls_hosts'', JArray (map (tls_json sha) (cd_tls data))),
         (''features'', JArray (map feature_json (cd_features data))),
         (''provider_tokens'', JArray (map token_json (cd_provider_tokens data))),
         (''timing'', JObject
            [(''downstream_idle_timeout_secs'', jnat (downstream_idle_timeout_secs (cd_timing data))),
             (''upstream_idle_timeout_secs'', jnat (upstream_idle_timeout_secs (cd_timing data)))]),
         (''model_router'', JObject
            [(''prefix'', JString (ms_prefix (cd_model_router data))),
             (''target_header'', JString (ms_target_header (cd_model_router data))),
             (''alias_count'', jnat (length (ms_alias_name_mapping (cd_model_router data)))),
             (''suffix_count'', jnat (length (ms_enable_on_path_suffix (cd_model_router data))))]),
         (''snapshot_counters'', JObject
            [(''reject_total'', jnat (unat (sc_reject_total sc))), (''object_skipped_total'', jnat (unat (sc_skipped_total sc)))])])"

section \<open>Routing\<close>

record admin_resp =
  ar_status :: nat
  ar_content_type :: string
  ar_body :: string

definition admin_json :: "nat \<Rightarrow> string \<Rightarrow> string \<Rightarrow> admin_resp" where
  "admin_json status reason message =
     \<lparr>ar_status = status, ar_content_type = ''application/json; charset=utf-8'',
      ar_body = ''{'' @ quoted ''reason'' @ '':'' @ quoted reason @ '','' @ quoted ''message'' @ '':'' @ quoted message @ ''}''\<rparr>"

definition plain_type :: string where "plain_type = ''text/plain; charset=utf-8''"
definition metrics_type :: string where "metrics_type = ''text/plain; version=0.0.4; charset=utf-8''"
definition json_type :: string where "json_type = ''application/json; charset=utf-8''"

definition unauthorized :: admin_resp where
  "unauthorized = admin_json 401 ''unauthorized'' ''missing or invalid admin token''"

record summary_ops =
  so_text :: "json \<Rightarrow> string option"
  so_sha :: "bytes \<Rightarrow> string"

definition config_summary_json :: "summary_ops \<Rightarrow> 're shared_config \<Rightarrow> string" where
  "config_summary_json ops sc =
     (case so_text ops (config_summary (so_sha ops) sc) of
        Some t \<Rightarrow> t
      | None \<Rightarrow> ''{'' @ quoted ''error'' @ '':'' @ quoted ''serialize'' @ ''}'')"

definition reload_response :: "('re, 's) admin_state \<Rightarrow> 's \<Rightarrow> admin_resp \<times> 's" where
  "reload_response ad s =
     (case ad_reloader ad of
        None \<Rightarrow> (admin_json 501 ''not_implemented'' ''reload is not wired'', s)
      | Some reload \<Rightarrow>
          (case reload s of
             (True, s') \<Rightarrow> (admin_json 200 ''ok'' ''policy reloaded'', s')
           | (False, s') \<Rightarrow>
               (admin_json 500 ''reload_failed''
                  (''reload failed; no new policy applied '' @ [CHR 0xE2, CHR 0x80, CHR 0x94] @
                    '' keeping the last-known-good policy (the built-in all-pass default when none was ever loaded)''), s')))"

definition admin_route ::
  "summary_ops \<Rightarrow> ('re, 's) admin_state \<Rightarrow> string \<Rightarrow> string \<Rightarrow> header_map \<Rightarrow> 's \<Rightarrow> admin_resp \<times> 's" where
  "admin_route ops ad verb path headers s =
     (if verb = ''GET'' \<and> path = ''/healthz'' then
        (\<lparr>ar_status = 200, ar_content_type = plain_type, ar_body = ''ok'' @ [CHR 0x0A]\<rparr>, s)
      else if verb = ''GET'' \<and> path = ''/metrics'' then
        (\<lparr>ar_status = 200, ar_content_type = metrics_type, ar_body = ad_metrics ad\<rparr>, s)
      else if verb = ''POST'' \<and> path = ''/reload'' then
        (if \<not> authorized ad headers then (unauthorized, s) else reload_response ad s)
      else if verb = ''GET'' \<and> path = ''/stats/usage'' then
        (if \<not> authorized ad headers then (unauthorized, s)
         else (\<lparr>ar_status = 200, ar_content_type = metrics_type, ar_body = ad_metrics ad\<rparr>, s))
      else if verb = ''GET'' \<and> path = ''/config'' then
        (if \<not> authorized ad headers then (unauthorized, s)
         else case ad_shared ad of
                Some sc \<Rightarrow> (\<lparr>ar_status = 200, ar_content_type = json_type, ar_body = config_summary_json ops sc\<rparr>, s)
              | None \<Rightarrow> (admin_json 503 ''config_unavailable'' ''config introspection not wired'', s))
      else (admin_json 404 ''not_found'' ''unknown path'', s))"

text \<open>\<open>StatsState::route\<close> of the stats listener.\<close>

definition stats_route :: "string \<Rightarrow> string \<Rightarrow> string \<Rightarrow> admin_resp" where
  "stats_route metrics verb path =
     (if verb = ''GET'' \<and> path = ''/stats/prometheus'' then
        \<lparr>ar_status = 200, ar_content_type = metrics_type, ar_body = metrics\<rparr>
      else if verb = ''GET'' \<and> path = ''/stats'' then
        \<lparr>ar_status = 200, ar_content_type = json_type,
         ar_body = ''{'' @ quoted ''state'' @ '':'' @ quoted ''LIVE'' @ ''}'' @ [CHR 0x0A]\<rparr>
      else \<lparr>ar_status = 404, ar_content_type = json_type,
            ar_body = ''{'' @ quoted ''error'' @ '':'' @ quoted ''not_found'' @ ''}'' @ [CHR 0x0A]\<rparr>)"

text \<open>The services around them: the headers that read as text, and a response of a fixed length.\<close>

definition session_headers :: "(bytes \<Rightarrow> string option) \<Rightarrow> (string \<times> bytes) list \<Rightarrow> header_map" where
  "session_headers to_str raw =
     foldl (\<lambda>m (name, v). case to_str v of Some s \<Rightarrow> header_append name s m | None \<Rightarrow> m) [] raw"

record http_response =
  hr_status :: nat
  hr_headers :: "(string \<times> string) list"
  hr_body :: bytes

definition framed :: "admin_resp \<Rightarrow> http_response" where
  "framed r = \<lparr>hr_status = ar_status r,
     hr_headers = [(''content-type'', ar_content_type r), (''content-length'', dec_of_nat (length (ar_body r)))],
     hr_body = ar_body r\<rparr>"

definition admin_response ::
  "summary_ops \<Rightarrow> (bytes \<Rightarrow> string option) \<Rightarrow> ('re, 's) admin_state \<Rightarrow> string \<Rightarrow> string \<Rightarrow> (string \<times> bytes) list \<Rightarrow> 's
     \<Rightarrow> http_response \<times> 's" where
  "admin_response ops to_str ad verb path raw s =
     (case admin_route ops ad verb path (session_headers to_str raw) s of (r, s') \<Rightarrow> (framed r, s'))"

section \<open>The comparison is equality\<close>

lemma byte_word_inj: "byte_word x = byte_word y \<longleftrightarrow> x = y"
proof
  have u: "unat (byte_word c) = of_char c" for c
  proof -
    have "byte_word c = word_of_nat (of_char c)" by (simp add: byte_word_def of_nat_of_char)
    then show ?thesis by (simp add: unat_of_nat)
  qed
  assume "byte_word x = byte_word y"
  then have "(of_char x :: nat) = of_char y" using u by metis
  then show "x = y" by simp
qed simp

lemma xor_eq_0_iff: "(a :: 8 word) XOR b = 0 \<longleftrightarrow> a = b"
proof
  assume "a XOR b = 0"
  then have "(a XOR b) XOR b = b" by simp
  then show "a = b" by (simp add: xor.assoc)
qed simp

lemma xor_fold_0:
  "foldl (\<lambda>acc (x, y). acc OR (byte_word x XOR byte_word y)) acc ps = 0 \<longleftrightarrow> acc = 0 \<and> list_all (\<lambda>(x, y). x = y) ps"
proof (induction ps arbitrary: acc)
  case (Cons p ps)
  obtain x y where p: "p = (x, y)" by (cases p)
  show ?case
    by (simp only: p foldl_Cons prod.case Cons.IH or_eq_0_iff xor_eq_0_iff byte_word_inj list.pred_inject conj_assoc)
qed simp

lemma zip_same: "length a = length b \<Longrightarrow> list_all (\<lambda>(x, y). x = y) (zip a b) \<longleftrightarrow> a = b"
  by (induction rule: list_induct2) simp_all

lemma tokens_eq_iff: "tokens_eq a b \<longleftrightarrow> a = b"
proof (cases "length a = length b")
  case True
  then show ?thesis by (simp add: tokens_eq_def xor_fold_0 zip_same)
qed (auto simp: tokens_eq_def)

lemma authorized_iff:
  "authorized ad headers \<longleftrightarrow> (\<exists>token. ad_token ad = Some token \<and> bearer_token headers = Some token)"
  by (auto simp: authorized_def tokens_eq_iff split: option.splits)

section \<open>The gate and the redaction\<close>

definition gated :: "string \<Rightarrow> string \<Rightarrow> bool" where
  "gated verb path \<longleftrightarrow> (verb, path) \<in> {(''POST'', ''/reload''), (''GET'', ''/stats/usage''), (''GET'', ''/config'')}"

lemma admin_route_denied: "gated verb path \<Longrightarrow> \<not> authorized ad headers \<Longrightarrow> admin_route ops ad verb path headers s = (unauthorized, s)"
  by (auto simp: gated_def admin_route_def)

lemma admin_route_state:
  "snd (admin_route ops ad verb path headers s) =
     (if verb = ''POST'' \<and> path = ''/reload'' \<and> authorized ad headers then snd (reload_response ad s) else s)"
  by (auto simp: admin_route_def split: option.splits)

text \<open>
  Property C9. The admin listener over the policy handle: without the configured bearer token, byte
  for byte, a gated path answers 401 and touches nothing, and with no token configured it always
  does; the policy changes only by an authorised reload, which then answers 200, and a failed reload
  answers 500 and keeps the policy.
\<close>

theorem admin_gated:
  assumes "ad_reloader ad = Some (policy_reload rx parse_yaml fv)"
  shows "let (r, h') = admin_route ops ad verb path headers h in
     (gated verb path \<and> (ad_token ad = None \<or> bearer_token headers \<noteq> ad_token ad) \<longrightarrow> r = unauthorized \<and> h' = h) \<and>
     (h' \<noteq> h \<longrightarrow> verb = ''POST'' \<and> path = ''/reload'' \<and> bearer_token headers = ad_token ad \<and> ad_token ad \<noteq> None \<and>
        ar_status r = 200) \<and>
     (verb = ''POST'' \<and> path = ''/reload'' \<and> authorized ad headers \<longrightarrow>
        (ar_status r, h') = (if fst (policy_reload rx parse_yaml fv h) then 200 else 500, snd (policy_reload rx parse_yaml fv h)))"
proof -
  let ?r = "admin_route ops ad verb path headers h"
  have rel: "(ar_status (fst (reload_response ad h)), snd (reload_response ad h)) =
      (if fst (policy_reload rx parse_yaml fv h) then 200 else 500, snd (policy_reload rx parse_yaml fv h))"
    using assms by (auto simp: reload_response_def admin_json_def split: prod.splits bool.splits)
  have failed: "fst (policy_reload rx parse_yaml fv h) \<or> snd (policy_reload rx parse_yaml fv h) = h"
    by (auto simp: policy_reload_def split: sum.splits)
  have r: "admin_route ops ad ''POST'' ''/reload'' headers h = reload_response ad h" if "authorized ad headers"
    using that by (simp add: admin_route_def)
  have "gated verb path \<and> (ad_token ad = None \<or> bearer_token headers \<noteq> ad_token ad) \<longrightarrow> ?r = (unauthorized, h)"
    using admin_route_denied [of verb path ad headers ops h] unfolding authorized_iff by (cases "ad_token ad") auto
  moreover have "(snd ?r \<noteq> h \<longrightarrow> verb = ''POST'' \<and> path = ''/reload'' \<and> bearer_token headers = ad_token ad \<and>
       ad_token ad \<noteq> None \<and> ar_status (fst ?r) = 200) \<and>
     (verb = ''POST'' \<and> path = ''/reload'' \<and> authorized ad headers \<longrightarrow>
       (ar_status (fst ?r), snd ?r) =
         (if fst (policy_reload rx parse_yaml fv h) then 200 else 500, snd (policy_reload rx parse_yaml fv h)))"
  proof (cases "verb = ''POST'' \<and> path = ''/reload'' \<and> authorized ad headers")
    case True
    then have "?r = reload_response ad h" using r by simp
    moreover have "bearer_token headers = ad_token ad \<and> ad_token ad \<noteq> None" using True by (auto simp: authorized_iff)
    moreover have "ar_status (fst (reload_response ad h)) = (if fst (policy_reload rx parse_yaml fv h) then 200 else 500)"
      "snd (reload_response ad h) = snd (policy_reload rx parse_yaml fv h)"
      using rel by simp_all
    ultimately show ?thesis using True failed by auto
  next
    case False
    then have "snd ?r = h" unfolding admin_route_state by (simp only: if_False)
    then show ?thesis using False by blast
  qed
  ultimately show ?thesis unfolding case_prod_beta Let_def prod_eq_iff fst_conv snd_conv by blast
qed

text \<open>What the summary may depend on: the secrets and the contents only counted are erased.\<close>

definition redact_host :: "(bytes \<Rightarrow> string) \<Rightarrow> tls_host \<Rightarrow> tls_host" where
  "redact_host sha h = h\<lparr>th_cert_pem := sha256_short sha (th_cert_pem h), th_key_pem := []\<rparr>"

definition redact_route :: "route_rule \<Rightarrow> route_rule" where
  "redact_route r = r\<lparr>rr_model_mapping := [], rr_sources := [], rr_rewrite_target := None\<rparr>"

definition redacted :: "(bytes \<Rightarrow> string) \<Rightarrow> config_data \<Rightarrow> config_data" where
  "redacted sha cd = cd\<lparr>cd_routes := map redact_route (cd_routes cd), cd_tls := map (redact_host sha) (cd_tls cd),
     cd_provider_tokens := map (\<lambda>t. t\<lparr>pt_api_tokens := []\<rparr>) (cd_provider_tokens cd),
     cd_model_router := (cd_model_router cd)\<lparr>ms_alias_name_mapping :=
       map (\<lambda>_. ([], [])) (ms_alias_name_mapping (cd_model_router cd)), ms_max_body_bytes := None\<rparr>\<rparr>"

lemma map_factor:
  assumes "map f xs = map f ys" "\<And>x. g x = k (f x)" shows "map g xs = map g ys"
proof -
  have "map g zs = map k (map f zs)" for zs using assms(2) by simp
  then show ?thesis using assms(1) by metis
qed

lemma config_summary_redacted:
  assumes d: "redacted sha (shared_load sc) = redacted sha (shared_load sc')"
    and "sc_reject_total sc = sc_reject_total sc'" "sc_skipped_total sc = sc_skipped_total sc'"
  shows "config_summary sha sc = config_summary sha sc'"
proof -
  note f = d [unfolded redacted_def]
  have "map route_json (cd_routes (shared_load sc)) = map route_json (cd_routes (shared_load sc'))"
    using arg_cong [OF f, of cd_routes]
    by (intro map_factor [where f = redact_route and k = route_json]) (simp_all add: route_json_def redact_route_def)
  moreover have "map (tls_json sha) (cd_tls (shared_load sc)) = map (tls_json sha) (cd_tls (shared_load sc'))"
    using arg_cong [OF f, of cd_tls]
    by (intro map_factor [where f = "redact_host sha" and k = "\<lambda>h. JObject [(''host'', JString (th_host h)),
        (''is_default'', JBool (th_is_default h)), (''cert_sha256_prefix12'', JString (th_cert_pem h))]"])
      (simp_all add: tls_json_def redact_host_def)
  moreover have "map token_json (cd_provider_tokens (shared_load sc)) = map token_json (cd_provider_tokens (shared_load sc'))"
    using arg_cong [OF f, of cd_provider_tokens]
    by (intro map_factor [where f = "\<lambda>t. t\<lparr>pt_api_tokens := []\<rparr>" and k = token_json]) (simp_all add: token_json_def)
  moreover have "cd_registries (shared_load sc) = cd_registries (shared_load sc')" "cd_proxies (shared_load sc) = cd_proxies (shared_load sc')"
    "cd_features (shared_load sc) = cd_features (shared_load sc')" "cd_timing (shared_load sc) = cd_timing (shared_load sc')"
    using arg_cong [OF f, of cd_registries] arg_cong [OF f, of cd_proxies] arg_cong [OF f, of cd_features]
      arg_cong [OF f, of cd_timing] by simp_all
  moreover have "ms_prefix (cd_model_router (shared_load sc)) = ms_prefix (cd_model_router (shared_load sc'))"
    "ms_target_header (cd_model_router (shared_load sc)) = ms_target_header (cd_model_router (shared_load sc'))"
    "length (ms_enable_on_path_suffix (cd_model_router (shared_load sc))) = length (ms_enable_on_path_suffix (cd_model_router (shared_load sc')))"
    using arg_cong [OF f, of "ms_prefix \<circ> cd_model_router"] arg_cong [OF f, of "ms_target_header \<circ> cd_model_router"]
      arg_cong [OF f, of "ms_enable_on_path_suffix \<circ> cd_model_router"] by simp_all
  moreover have "length (ms_alias_name_mapping (cd_model_router (shared_load sc))) = length (ms_alias_name_mapping (cd_model_router (shared_load sc')))"
    using arg_cong [OF f, of "length \<circ> ms_alias_name_mapping \<circ> cd_model_router"] by simp
  ultimately show ?thesis using assms(2,3) by (simp add: config_summary_def Let_def)
qed

text \<open>
  Property C10. The admin listener leaks no secret: two processes whose configurations agree once the
  provider keys, the private keys, the certificates beyond their hash prefix, the model mappings and
  the alias names are erased answer every request with the same bytes.
\<close>

theorem admin_redacts:
  assumes "redacted (so_sha ops) (shared_load sc) = redacted (so_sha ops) (shared_load sc')"
    and "sc_reject_total sc = sc_reject_total sc'" and "sc_skipped_total sc = sc_skipped_total sc'"
  shows "admin_response ops to_str (ad\<lparr>ad_shared := Some sc\<rparr>) verb path raw s =
    admin_response ops to_str (ad\<lparr>ad_shared := Some sc'\<rparr>) verb path raw s"
proof -
  have a: "authorized (ad\<lparr>ad_shared := x\<rparr>) headers = authorized ad headers" for x headers
    by (simp add: authorized_iff)
  have r: "reload_response (ad\<lparr>ad_shared := x\<rparr>) s = reload_response ad s" for x by (simp add: reload_response_def)
  have "config_summary_json ops sc = config_summary_json ops sc'"
    using config_summary_redacted [OF assms] by (simp add: config_summary_json_def)
  then show ?thesis by (simp add: admin_response_def admin_route_def a r)
qed

definition summary_demo :: summary_ops where
  "summary_demo = \<lparr>so_text = (\<lambda>v. case v of JObject ms \<Rightarrow> Some (concat (map fst ms)) | _ \<Rightarrow> None), so_sha = (\<lambda>_. ''0123456789abcdef'')\<rparr>"

definition secret_config :: "string \<Rightarrow> config_data" where
  "secret_config key = split_config\<lparr>cd_provider_tokens := [\<lparr>pt_service = ''s'', pt_ingress_scope = None, pt_api_tokens = [key]\<rparr>],
     cd_tls := [\<lparr>th_host = ''h'', th_is_default = True, th_cert_pem = ''cert'', th_key_pem = key\<rparr>]\<rparr>"

theorem admin_redacts_witness:
  "\<exists>(sc :: string shared_config) (sc' :: string shared_config). shared_load sc = secret_config ''k1'' \<and> shared_load sc' = secret_config ''k2'' \<and>
     admin_response summary_demo Some \<lparr>ad_metrics = [], ad_token = Some ''t'', ad_reloader = None, ad_shared = Some sc\<rparr>
       ''GET'' ''/config'' [(''authorization'', ''Bearer t'')] () =
     admin_response summary_demo Some \<lparr>ad_metrics = [], ad_token = Some ''t'', ad_reloader = None, ad_shared = Some sc'\<rparr>
       ''GET'' ''/config'' [(''authorization'', ''Bearer t'')] ()"
proof -
  obtain sc :: "string shared_config" where "shared_new slash_engine split_config = Inr sc" using split_new by blast
  define sc1 where "sc1 = sc\<lparr>sc_snapshot := (sc_snapshot sc)\<lparr>sn_data := secret_config ''k1''\<rparr>\<rparr>"
  define sc2 where "sc2 = sc\<lparr>sc_snapshot := (sc_snapshot sc)\<lparr>sn_data := secret_config ''k2''\<rparr>\<rparr>"
  have l: "shared_load sc1 = secret_config ''k1''" "shared_load sc2 = secret_config ''k2''"
    by (simp_all add: sc1_def sc2_def shared_load_def)
  have same: "redacted (so_sha summary_demo) (shared_load sc1) = redacted (so_sha summary_demo) (shared_load sc2)"
    "sc_reject_total sc1 = sc_reject_total sc2" "sc_skipped_total sc1 = sc_skipped_total sc2"
    unfolding l by (simp_all add: redacted_def secret_config_def redact_host_def sc1_def sc2_def)
  have "admin_response summary_demo Some (\<lparr>ad_metrics = [], ad_token = Some ''t'', ad_reloader = None, ad_shared = None\<rparr>\<lparr>ad_shared := Some sc1\<rparr>)
       ''GET'' ''/config'' [(''authorization'', ''Bearer t'')] () =
     admin_response summary_demo Some (\<lparr>ad_metrics = [], ad_token = Some ''t'', ad_reloader = None, ad_shared = None\<rparr>\<lparr>ad_shared := Some sc2\<rparr>)
       ''GET'' ''/config'' [(''authorization'', ''Bearer t'')] ()"
    by (rule admin_redacts [OF same])
  then show ?thesis using l by (intro exI [of _ sc1] exI [of _ sc2]) simp
qed

theorem admin_gated_witness:
  "\<exists>ad h. ad_reloader ad = Some (policy_reload word_engine (\<lambda>_. Inl ''bad yaml'')
       \<lparr>fv_is_file = True, fv_read = ReadBytes ''x'', fv_mtime = Some 1\<rparr>) \<and> ad_token ad = Some ''t'' \<and>
     admin_route summary_demo (ad :: (unit, string policy_handle) admin_state) ''POST'' ''/reload''
       [(''authorization'', [''Bearer u''])] h = (unauthorized, h)"
proof -
  define fv where "fv = \<lparr>fv_is_file = True, fv_read = ReadBytes ''x'', fv_mtime = Some 1\<rparr>"
  define ad :: "(unit, string policy_handle) admin_state" where
    "ad = \<lparr>ad_metrics = [], ad_token = Some ''t'', ad_reloader = Some (policy_reload word_engine (\<lambda>_. Inl ''bad yaml'') fv), ad_shared = None\<rparr>"
  have r: "ad_reloader ad = Some (policy_reload word_engine (\<lambda>_. Inl ''bad yaml'') fv)" "ad_token ad = Some ''t''"
    by (simp_all add: ad_def)
  have b: "bearer_token [(''authorization'', [''Bearer u''])] = Some ''u''" by code_simp
  have g: "gated ''POST'' ''/reload''" by (simp add: gated_def)
  have "admin_route summary_demo ad ''POST'' ''/reload'' [(''authorization'', [''Bearer u''])] h = (unauthorized, h)" for h
    using admin_gated [OF r(1), of summary_demo "''POST''" "''/reload''" "[(''authorization'', [''Bearer u''])]" h] b g r(2)
    by (auto simp: case_prod_beta Let_def prod_eq_iff)
  then show ?thesis using r unfolding fv_def by blast
qed

end
