(* ===== verification/Probe.thy ===== *)
theory Probe
  imports Prelude
begin

text \<open>
  The two bounded probes: \<open>readiness_wait\<close> of \<open>hygress-gateway/src/bootstrap.rs\<close>, which waits for the
  API port, and \<open>wait_for_apiserver_ready\<close> of \<open>hygress-adapter/src/reconcile.rs\<close>. Which call succeeds
  and the clock in milliseconds after each call are functions of the number of the call.
\<close>

section \<open>The readiness probe\<close>

text \<open>\<open>Inr n\<close>: reachable on attempt \<open>n\<close>; \<open>Inl n\<close>: given up after \<open>n\<close>; \<open>None\<close>: never ends.\<close>

partial_function (option) readiness_loop :: "(nat \<Rightarrow> bool) \<Rightarrow> (nat \<Rightarrow> nat) \<Rightarrow> nat \<Rightarrow> nat \<Rightarrow> (nat + nat) option" where
  "readiness_loop reach clock deadline attempt =
     (if reach attempt then Some (Inr attempt)
      else if clock attempt \<ge> deadline then Some (Inl attempt)
      else readiness_loop reach clock deadline (Suc attempt))"

definition readiness_wait :: "(nat \<Rightarrow> bool) \<Rightarrow> (nat \<Rightarrow> nat) \<Rightarrow> nat \<Rightarrow> nat \<Rightarrow> (nat + nat) option" where
  "readiness_wait reach clock start timeout = readiness_loop reach clock (start + timeout) 1"

text \<open>A clock that moves on by at least the sleep between two attempts.\<close>

definition clock_ticks :: "(nat \<Rightarrow> nat) \<Rightarrow> nat \<Rightarrow> nat \<Rightarrow> bool" where
  "clock_ticks clock start interval \<longleftrightarrow> 0 < interval \<and> start \<le> clock 1 \<and> (\<forall>n. clock n + interval \<le> clock (Suc n))"

lemma clock_ticks_ge: "clock_ticks clock start interval \<Longrightarrow> start + n * interval \<le> clock (Suc n)"
proof (induction n)
  case (Suc n)
  then have "clock (Suc n) + interval \<le> clock (Suc (Suc n))" by (simp add: clock_ticks_def)
  then show ?case using Suc by simp
qed (simp add: clock_ticks_def)

definition first_try :: "(nat \<Rightarrow> bool) \<Rightarrow> nat \<Rightarrow> bool" where
  "first_try reach n \<longleftrightarrow> 1 \<le> n \<and> reach n \<and> (\<forall>k. 1 \<le> k \<and> k < n \<longrightarrow> \<not> reach k)"

lemma readiness_loop_ends:
  assumes "clock_ticks clock start interval"
    and "1 \<le> attempt" and "\<forall>k. 1 \<le> k \<and> k < attempt \<longrightarrow> \<not> reach k"
    and "attempt = 1 \<or> clock (attempt - 1) < deadline"
  shows "\<exists>r. readiness_loop reach clock deadline attempt = Some r \<and>
    (case r of
       Inr n \<Rightarrow> first_try reach n \<and> (n = 1 \<or> clock (n - 1) < deadline)
     | Inl n \<Rightarrow> 1 \<le> n \<and> (\<forall>k. 1 \<le> k \<and> k \<le> n \<longrightarrow> \<not> reach k) \<and> deadline \<le> clock n \<and> (n = 1 \<or> clock (n - 1) < deadline))"
  using assms(2-4)
proof (induction "deadline - clock attempt" arbitrary: attempt rule: less_induct)
  case less
  show ?case
  proof (cases "reach attempt")
    case True
    then show ?thesis using less.prems by (subst readiness_loop.simps) (simp add: first_try_def)
  next
    case no: False
    show ?thesis
    proof (cases "clock attempt \<ge> deadline")
      case True
      then show ?thesis using less.prems no
        by (subst readiness_loop.simps) (auto simp: le_less)
    next
      case False
      have "clock attempt + interval \<le> clock (Suc attempt)" "0 < interval" using assms(1) by (simp_all add: clock_ticks_def)
      then have "deadline - clock (Suc attempt) < deadline - clock attempt" using False by simp
      moreover have "\<forall>k. 1 \<le> k \<and> k < Suc attempt \<longrightarrow> \<not> reach k" using less.prems(2) no by (auto simp: less_Suc_eq)
      ultimately have "\<exists>r. readiness_loop reach clock deadline (Suc attempt) = Some r \<and>
        (case r of
           Inr n \<Rightarrow> first_try reach n \<and> (n = 1 \<or> clock (n - 1) < deadline)
         | Inl n \<Rightarrow> 1 \<le> n \<and> (\<forall>k. 1 \<le> k \<and> k \<le> n \<longrightarrow> \<not> reach k) \<and> deadline \<le> clock n \<and> (n = 1 \<or> clock (n - 1) < deadline))"
        using less.hyps [of "Suc attempt"] False by simp
      then show ?thesis using no False by (subst readiness_loop.simps) simp
    qed
  qed
qed

lemma readiness_probe [consumes 1, case_names up down]:
  assumes "clock_ticks clock start interval"
  obtains (up) n where "readiness_wait reach clock start timeout = Some (Inr n)" "first_try reach n" "n = 1 \<or> clock (n - 1) < start + timeout"
  | (down) n where "readiness_wait reach clock start timeout = Some (Inl n)" "1 \<le> n" "\<forall>k. 1 \<le> k \<and> k \<le> n \<longrightarrow> \<not> reach k"
      "start + timeout \<le> clock n" "n = 1 \<or> clock (n - 1) < start + timeout"
proof -
  obtain r where r: "readiness_wait reach clock start timeout = Some r"
    "case r of Inr n \<Rightarrow> first_try reach n \<and> (n = 1 \<or> clock (n - 1) < start + timeout)
     | Inl n \<Rightarrow> 1 \<le> n \<and> (\<forall>k. 1 \<le> k \<and> k \<le> n \<longrightarrow> \<not> reach k) \<and> start + timeout \<le> clock n \<and> (n = 1 \<or> clock (n - 1) < start + timeout)"
    using readiness_loop_ends [OF assms, of 1 reach "start + timeout"] unfolding readiness_wait_def by force
  show thesis using r up down by (cases r) auto
qed

text \<open>
  Property C12. The readiness probe is bounded: with a clock that moves on by the poll interval it
  always returns, after at most \<open>timeout / interval + 2\<close> attempts; it reports the first attempt that
  connects, and gives up only when no attempt did and the timeout has passed.
\<close>

theorem readiness_bounded:
  assumes "clock_ticks clock start interval"
  shows "\<exists>r. readiness_wait reach clock start timeout = Some r \<and>
    (case r of
       Inr n \<Rightarrow> first_try reach n \<and> n \<le> timeout div interval + 2
     | Inl n \<Rightarrow> (\<forall>k. 1 \<le> k \<and> k \<le> n \<longrightarrow> \<not> reach k) \<and> start + timeout \<le> clock n \<and> n \<le> timeout div interval + 2)"
proof -
  have bound: "n \<le> timeout div interval + 2" if "n = 1 \<or> clock (n - 1) < start + timeout" for n
  proof (cases "n \<le> 2")
    case False
    then obtain m where m: "n = Suc (Suc m)" by (metis Suc_le_D less_Suc_eq_le not_less_eq_eq numeral_2_eq_2)
    have "start + m * interval \<le> clock (Suc m)" by (rule clock_ticks_ge [OF assms])
    also have "\<dots> < start + timeout" using that m False by auto
    finally have "m * interval \<le> timeout" by simp
    then have "m \<le> timeout div interval" using assms by (simp add: clock_ticks_def less_eq_div_iff_mult_less_eq)
    then show ?thesis by (simp add: m)
  qed simp
  show ?thesis
    using assms
  proof (cases rule: readiness_probe [where reach = reach and timeout = timeout])
    case (up n)
    then show ?thesis using bound by simp
  next
    case (down n)
    then show ?thesis using bound by simp
  qed
qed

section \<open>The discovery probe\<close>

text \<open>
  \<open>wait_for_apiserver_ready\<close> of \<open>reconcile.rs\<close>: \<open>reach n\<close> tells whether call \<open>n\<close> is answered; the
  result carries the number of failed calls before the last one, which is what the error reports.
\<close>

partial_function (option) discovery_loop :: "(nat \<Rightarrow> bool) \<Rightarrow> (nat \<Rightarrow> nat) \<Rightarrow> nat \<Rightarrow> nat \<Rightarrow> (nat + nat) option" where
  "discovery_loop reach clock deadline attempts =
     (if reach (Suc attempts) then Some (Inr attempts)
      else if clock (Suc attempts) \<ge> deadline then Some (Inl attempts)
      else discovery_loop reach clock deadline (Suc attempts))"

definition discovery_timeout :: nat where "discovery_timeout = 60000"

definition wait_for_apiserver_ready :: "(nat \<Rightarrow> bool) \<Rightarrow> (nat \<Rightarrow> nat) \<Rightarrow> nat \<Rightarrow> (nat + nat) option" where
  "wait_for_apiserver_ready reach clock start = discovery_loop reach clock (start + discovery_timeout) 0"

text \<open>The two probes are one loop, up to what they count.\<close>

lemma discovery_of_readiness:
  "readiness_loop reach clock deadline n = Some r \<Longrightarrow> n = Suc m \<Longrightarrow>
     discovery_loop reach clock deadline m = Some (map_sum (\<lambda>k. k - 1) (\<lambda>k. k - 1) r)"
proof (induction arbitrary: m rule: readiness_loop.raw_induct [rotated, consumes 1, case_names step])
  case (step loop reach clock deadline n r)
  show ?case
    using step by (subst discovery_loop.simps) (auto split: if_splits)
qed

text \<open>Discovery always returns; what it reports as attempts is one less than the calls it made.\<close>

lemma discovery_bounded:
  assumes "clock_ticks clock start interval"
  shows "\<exists>r. wait_for_apiserver_ready reach clock start = Some r \<and>
    (case r of
       Inr n \<Rightarrow> first_try reach (Suc n)
     | Inl n \<Rightarrow> (\<forall>k. 1 \<le> k \<and> k \<le> Suc n \<longrightarrow> \<not> reach k) \<and> start + discovery_timeout \<le> clock (Suc n))"
proof -
  have start: "wait_for_apiserver_ready reach clock start = Some (map_sum (\<lambda>k. k - 1) (\<lambda>k. k - 1) r)"
    if "readiness_wait reach clock start discovery_timeout = Some r" for r
    using discovery_of_readiness [OF that [unfolded readiness_wait_def] One_nat_def]
    unfolding wait_for_apiserver_ready_def .
  show ?thesis
    using assms
  proof (cases rule: readiness_probe [where reach = reach and timeout = discovery_timeout])
    case (up n)
    then have "Suc (n - 1) = n" by (simp add: first_try_def)
    then show ?thesis using start [OF up(1)] up(2) by simp
  next
    case (down n)
    then have "Suc (n - 1) = n" by simp
    then show ?thesis using start [OF down(1)] down(3,4) by simp
  qed
qed

section \<open>A concrete probe\<close>

lemma even_clock: "clock_ticks (\<lambda>n. 500 * n) 0 500"
  by (simp add: clock_ticks_def)

theorem readiness_bounded_witness: "readiness_wait (\<lambda>n. n = 2) (\<lambda>n. 500 * n) 0 30000 = Some (Inr 2)"
proof -
  obtain r where r: "readiness_wait (\<lambda>n. n = 2) (\<lambda>n. 500 * n) 0 30000 = Some r"
    "case r of Inr n \<Rightarrow> first_try (\<lambda>n. n = 2) n \<and> n \<le> 30000 div 500 + 2
     | Inl n \<Rightarrow> (\<forall>k. 1 \<le> k \<and> k \<le> n \<longrightarrow> k \<noteq> 2) \<and> 0 + 30000 \<le> 500 * n \<and> n \<le> 30000 div 500 + 2"
    using readiness_bounded [OF even_clock, of "\<lambda>n. n = 2" 30000] by blast
  show ?thesis
  proof (cases r)
    case (Inl n)
    then have "\<forall>k. 1 \<le> k \<and> k \<le> n \<longrightarrow> k \<noteq> 2" and n: "60 \<le> n" using r(2) by simp_all
    from this(1) [rule_format, of 2] n show ?thesis by simp
  qed (use r in \<open>simp add: first_try_def\<close>)
qed

end
