(* ===== verification/Watch.thy ===== *)
theory Watch
  imports Probe Controller
begin

text \<open>
  The run of the control plane around its passes, \<open>Controller::run\<close> and \<open>spawn_watcher\<close> of
  \<open>hygress-adapter/src/lib.rs\<close> with \<open>reconcile.rs\<close>: connection, discovery, the seed of the ingress class,
  the first pass, then watchers that wake the loop.

  The cluster's API is a parameter: what \<open>get_opt\<close> and \<open>create\<close> of the ingress classes answer, and the
  items each watch stream yields, with the time in milliseconds at which it does.
\<close>

section \<open>The seed\<close>

record ingress_class =
  ic_name :: string
  ic_controller :: "string option"

definition ingress_class_controller :: string where
  "ingress_class_controller = ''higress.io/ingress-controller''"

definition build_ingress_class :: "string \<Rightarrow> string \<Rightarrow> ingress_class" where
  "build_ingress_class name contr = \<lparr>ic_name = name, ic_controller = Some contr\<rparr>"

record 's class_api =
  ca_get :: "string \<Rightarrow> 's \<Rightarrow> string + ingress_class option"
  ca_create :: "ingress_class \<Rightarrow> 's \<Rightarrow> (string + unit) \<times> 's"

definition ensure_ingress_class :: "'s class_api \<Rightarrow> string \<Rightarrow> 's \<Rightarrow> (string + unit) \<times> 's" where
  "ensure_ingress_class api name s =
     (case ca_get api name s of
        Inl e \<Rightarrow> (Inl e, s)
      | Inr (Some _) \<Rightarrow> (Inr (), s)
      | Inr None \<Rightarrow> ca_create api (build_ingress_class name ingress_class_controller) s)"

text \<open>The seed is idempotent where a created class is found again, and an existing class is not written.\<close>

lemma seed_idempotent:
  assumes "\<And>c s s'. ca_create api c s = (Inr (), s') \<Longrightarrow> \<exists>c'. ca_get api (ic_name c) s' = Inr (Some c')"
    and "ensure_ingress_class api name s = (Inr (), s')"
  shows "ensure_ingress_class api name s' = (Inr (), s')"
proof (cases "ca_get api name s")
  case (Inr found)
  show ?thesis
  proof (cases found)
    case None
    then have c: "ca_create api (build_ingress_class name ingress_class_controller) s = (Inr (), s')"
      using assms(2) Inr by (simp add: ensure_ingress_class_def)
    from assms(1) [OF c] show ?thesis by (auto simp: build_ingress_class_def ensure_ingress_class_def)
  next
    case (Some c)
    then have "s' = s" using assms(2) Inr by (simp add: ensure_ingress_class_def)
    then show ?thesis using Some Inr by (simp add: ensure_ingress_class_def)
  qed
qed (use assms(2) in \<open>simp add: ensure_ingress_class_def\<close>)

section \<open>A watcher\<close>

definition permanent_retry :: nat where "permanent_retry = 60000"
definition transient_retry :: nat where "transient_retry = 5000"
definition log_interval :: nat where "log_interval = 30000"
definition converge_min_tick :: nat where "converge_min_tick = 1000"

definition kind_label :: "object_kind \<Rightarrow> string" where
  "kind_label k = (case k of McpBridgeKind \<Rightarrow> ''mcpbridge'' | WasmPluginKind \<Rightarrow> ''wasmplugin''
     | EnvoyFilterKind \<Rightarrow> ''envoyfilter'' | IngressKind \<Rightarrow> ''ingress'' | SecretKind \<Rightarrow> ''secret''
     | ConfigMapKind \<Rightarrow> ''configmap'')"

definition managed_selector :: string where "managed_selector = ''gpustack.ai/managed=true''"

text \<open>The label selector of a watch: the bridges are watched without one.\<close>

definition watch_selector :: "object_kind \<Rightarrow> string option" where
  "watch_selector k = (if k = McpBridgeKind then None else Some managed_selector)"

text \<open>An item of a stream: an event, or an error that is permanent or not. \<open>wt_last_log\<close> is \<open>None\<close> at the
  start, where the log gate is open. \<open>wt_resume\<close> is the time at which the sleep after an error ends.\<close>

datatype watch_item = Event | Failed bool

record watcher =
  wt_last_log :: "nat option"
  wt_degraded_logged :: bool
  wt_resume :: nat

definition watcher_start :: "nat \<Rightarrow> watcher" where
  "watcher_start now = \<lparr>wt_last_log = None, wt_degraded_logged = False, wt_resume = now\<rparr>"

datatype watch_effect = ErrorHook object_kind string | WarnLogged object_kind nat | DegradedLogged object_kind

definition retry_pause :: "bool \<Rightarrow> nat" where
  "retry_pause permanent = (if permanent then permanent_retry else transient_retry)"

definition log_open :: "watcher \<Rightarrow> nat \<Rightarrow> bool" where
  "log_open w now = (case wt_last_log w of None \<Rightarrow> True | Some t \<Rightarrow> t + log_interval \<le> now)"

definition watch_failed :: "object_kind \<Rightarrow> nat \<Rightarrow> bool \<Rightarrow> watcher \<Rightarrow> watch_effect list \<times> watcher" where
  "watch_failed k now permanent w =
     (let called = [ErrorHook k (if permanent then ''permanent'' else ''transient'')];
          (logged, w) =
            (if log_open w now then
               (WarnLogged k now # (if permanent \<and> \<not> wt_degraded_logged w then [DegradedLogged k] else []),
                w\<lparr>wt_last_log := Some now, wt_degraded_logged := wt_degraded_logged w \<or> permanent\<rparr>)
             else ([], w))
      in (called @ logged, w\<lparr>wt_resume := now + retry_pause permanent\<rparr>))"

section \<open>The loop\<close>

text \<open>\<open>dirty\<close>, the permit of \<open>Notify\<close>, the watchers, and what they did to the outside.\<close>

record 're watch_loop =
  wl_controller :: "'re controller"
  wl_dirty :: bool
  wl_permit :: bool
  wl_watchers :: "object_kind \<Rightarrow> watcher"
  wl_now :: nat
  wl_woken :: nat
  wl_effects :: "watch_effect list"

definition watch_start :: "nat \<Rightarrow> 're controller \<Rightarrow> 're watch_loop" where
  "watch_start now c = \<lparr>wl_controller = c, wl_dirty = False, wl_permit = False,
     wl_watchers = (\<lambda>_. watcher_start now), wl_now = now, wl_woken = now, wl_effects = []\<rparr>"

definition watch_item_step :: "object_kind \<Rightarrow> nat \<Rightarrow> watch_item \<Rightarrow> 're watch_loop \<Rightarrow> 're watch_loop" where
  "watch_item_step k now item s =
     (case item of
        Event \<Rightarrow> s\<lparr>wl_dirty := True, wl_permit := True, wl_now := now\<rparr>
      | Failed permanent \<Rightarrow>
          (case watch_failed k now permanent (wl_watchers s k) of
             (effects, w) \<Rightarrow> s\<lparr>wl_watchers := (wl_watchers s)(k := w), wl_now := now, wl_effects := wl_effects s @ effects\<rparr>))"

text \<open>A wake swaps the flag without looking at it, and runs a pass.\<close>

definition reconcile_wake ::
  "'re path_engine \<Rightarrow> 'y control_env \<Rightarrow> nat \<Rightarrow> string + listing \<Rightarrow> 're watch_loop \<Rightarrow> 're watch_loop" where
  "reconcile_wake rx ce now answer s =
     s\<lparr>wl_dirty := False, wl_now := now, wl_woken := now, wl_controller := sync_once rx ce answer (wl_controller s)\<rparr>"

text \<open>The period of the tick, the \<open>tick\<close> of the relations below.\<close>

definition poll_tick :: "nat \<Rightarrow> nat" where
  "poll_tick poll_interval = max poll_interval converge_min_tick"

datatype 're loop_event =
    Watched object_kind nat watch_item
  | StreamEnded object_kind
  | Woken nat "string + listing"
  | Ticked nat "string + listing"
  | Served "'re route_table" nat

text \<open>
  What can happen next: a stream yields an item, not before the sleep after its last error is over; a
  stream ends; the loop is woken by the permit, which that consumes, or by the tick, counted from its last
  wake; the data plane selects.
\<close>

inductive loop_step ::
  "'re path_engine \<Rightarrow> 'y control_env \<Rightarrow> nat \<Rightarrow> 're watch_loop \<Rightarrow> 're loop_event \<Rightarrow> 're watch_loop \<Rightarrow> bool"
  for rx ce tick where
  watched: "wl_now s \<le> now \<Longrightarrow> wt_resume (wl_watchers s k) \<le> now \<Longrightarrow>
    loop_step rx ce tick s (Watched k now item) (watch_item_step k now item s)"
| ended: "loop_step rx ce tick s (StreamEnded k) (s\<lparr>wl_dirty := True, wl_permit := True\<rparr>)"
| woken: "wl_now s \<le> now \<Longrightarrow> wl_permit s \<Longrightarrow>
    loop_step rx ce tick s (Woken now answer) (reconcile_wake rx ce now answer (s\<lparr>wl_permit := False\<rparr>))"
| ticked: "wl_now s \<le> now \<Longrightarrow> wl_woken s + tick \<le> now \<Longrightarrow>
    loop_step rx ce tick s (Ticked now answer) (reconcile_wake rx ce now answer s)"
| served: "loop_step rx ce tick s (Served t i)
    (s\<lparr>wl_controller := control_step rx ce (Selection t i) (wl_controller s)\<rparr>)"

inductive loop_run ::
  "'re path_engine \<Rightarrow> 'y control_env \<Rightarrow> nat \<Rightarrow> 're watch_loop \<Rightarrow> 're loop_event list \<Rightarrow> 're watch_loop \<Rightarrow> bool"
  for rx ce tick s where
  start: "loop_run rx ce tick s [] s"
| step: "loop_run rx ce tick s es t \<Longrightarrow> loop_step rx ce tick t e u \<Longrightarrow> loop_run rx ce tick s (es @ [e]) u"

inductive_cases loop_watched: "loop_step rx ce tick s (Watched k now item) t"
inductive_cases loop_woken: "loop_step rx ce tick s (Woken now answer) t"

text \<open>The start of the run, up to the watchers; \<open>NotReady\<close> carries what the error reports.\<close>

datatype run_error = KubeError string | NotReady nat

record ('s, 're) cluster =
  cl_connect :: "string + unit"
  cl_reach :: "nat \<Rightarrow> bool"
  cl_clock :: "nat \<Rightarrow> nat"
  cl_started :: nat
  cl_classes :: "'s class_api"
  cl_first :: "string + listing"
  cl_watching :: nat

definition controller_start ::
  "'re path_engine \<Rightarrow> 'y control_env \<Rightarrow> ('s, 're) cluster \<Rightarrow> bool \<Rightarrow> string \<Rightarrow> 're controller \<Rightarrow> 's
     \<Rightarrow> (run_error + 're watch_loop \<times> 's) option" where
  "controller_start rx ce cl seed_ingress_class class_name c s =
     (case cl_connect cl of
        Inl e \<Rightarrow> Some (Inl (KubeError e))
      | Inr _ \<Rightarrow>
          map_option (\<lambda>probe. case probe of
              Inl n \<Rightarrow> Inl (NotReady n)
            | Inr _ \<Rightarrow>
                Inr (watch_start (cl_watching cl) (sync_once rx ce (cl_first cl) c),
                     if seed_ingress_class then snd (ensure_ingress_class (cl_classes cl) class_name s) else s))
            (wait_for_apiserver_ready (cl_reach cl) (cl_clock cl) (cl_started cl)))"

text \<open>The passes of a run.\<close>

fun control_events :: "'re loop_event list \<Rightarrow> 're control_event list" where
  "control_events [] = []"
| "control_events (Woken now answer # es) = Pass answer # control_events es"
| "control_events (Ticked now answer # es) = Pass answer # control_events es"
| "control_events (Served t i # es) = Selection t i # control_events es"
| "control_events (_ # es) = control_events es"

lemma control_events_append: "control_events (es @ es') = control_events es @ control_events es'"
  by (induction es rule: control_events.induct) simp_all

text \<open>The errors a stream yielded.\<close>

fun failures :: "object_kind \<Rightarrow> 're loop_event list \<Rightarrow> string list" where
  "failures k [] = []"
| "failures k (Watched k' now (Failed permanent) # es) =
     (if k' = k then (if permanent then ''permanent'' else ''transient'') # failures k es else failures k es)"
| "failures k (_ # es) = failures k es"

lemma failures_append: "failures k (es @ es') = failures k es @ failures k es'"
  by (induction es rule: failures.induct) simp_all

text \<open>What the effects say of a kind.\<close>

fun hooked :: "object_kind \<Rightarrow> watch_effect list \<Rightarrow> string list" where
  "hooked k [] = []"
| "hooked k (ErrorHook k' c # es) = (if k' = k then c # hooked k es else hooked k es)"
| "hooked k (_ # es) = hooked k es"

fun warned :: "object_kind \<Rightarrow> watch_effect list \<Rightarrow> nat list" where
  "warned k [] = []"
| "warned k (WarnLogged k' t # es) = (if k' = k then t # warned k es else warned k es)"
| "warned k (_ # es) = warned k es"

fun degraded :: "object_kind \<Rightarrow> watch_effect list \<Rightarrow> nat" where
  "degraded k [] = 0"
| "degraded k (DegradedLogged k' # es) = (if k' = k then Suc (degraded k es) else degraded k es)"
| "degraded k (_ # es) = degraded k es"

lemma hooked_append [simp]: "hooked k (es @ es') = hooked k es @ hooked k es'"
  by (induction k es rule: hooked.induct) simp_all

lemma warned_append [simp]: "warned k (es @ es') = warned k es @ warned k es'"
  by (induction k es rule: warned.induct) simp_all

lemma degraded_append [simp]: "degraded k (es @ es') = degraded k es + degraded k es'"
  by (induction k es rule: degraded.induct) simp_all

section \<open>The discipline of the watchers\<close>

text \<open>Something changed, or a stream ended, since the last pass.\<close>

fun is_pass :: "'re loop_event \<Rightarrow> bool" where
  "is_pass (Woken now answer) = True"
| "is_pass (Ticked now answer) = True"
| "is_pass _ = False"

fun is_news :: "'re loop_event \<Rightarrow> bool" where
  "is_news (Watched k now Event) = True"
| "is_news (StreamEnded k) = True"
| "is_news _ = False"

definition ticks :: "'re loop_event list \<Rightarrow> nat" where
  "ticks es = length (filter (\<lambda>e. case e of Ticked _ _ \<Rightarrow> True | _ \<Rightarrow> False) es)"

definition news :: "'re loop_event list \<Rightarrow> bool" where
  "news es \<longleftrightarrow> (\<exists>e \<in> set (takeWhile (\<lambda>e. \<not> is_pass e) (rev es)). is_news e)"

lemma news_snoc: "news (es @ [e]) \<longleftrightarrow> \<not> is_pass e \<and> (is_news e \<or> news es)"
  unfolding news_def by auto

text \<open>What holds of one watcher: the errors it yielded are spaced by its pauses, its warnings by the interval.\<close>

definition watcher_inv :: "nat \<Rightarrow> nat \<Rightarrow> watcher \<Rightarrow> nat \<Rightarrow> nat list \<Rightarrow> nat \<Rightarrow> bool" where
  "watcher_inv t0 now w errors warnings degradations \<longleftrightarrow>
     t0 + transient_retry * errors \<le> wt_resume w \<and>
     (0 < errors \<longrightarrow> t0 + transient_retry * (errors - 1) \<le> now) \<and>
     sorted_wrt (\<lambda>a b. a + log_interval \<le> b) warnings \<and>
     (warnings = [] \<longleftrightarrow> wt_last_log w = None) \<and> (\<forall>t \<in> set warnings. \<exists>l. wt_last_log w = Some l \<and> t \<le> l) \<and>
     degradations = (if wt_degraded_logged w then 1 else 0)"

lemma watcher_inv_start: "watcher_inv now now (watcher_start now) 0 [] 0"
  by (simp add: watcher_inv_def watcher_start_def)

lemma watcher_inv_later: "watcher_inv t0 now w n ws d \<Longrightarrow> now \<le> now' \<Longrightarrow> watcher_inv t0 now' w n ws d"
  by (auto simp: watcher_inv_def)

lemma retry_pause_ge: "transient_retry \<le> retry_pause permanent"
  by (simp add: retry_pause_def transient_retry_def permanent_retry_def)

lemma watch_failed_inv:
  assumes inv: "watcher_inv t0 now w n ws d" and "now \<le> now'" "wt_resume w \<le> now'"
    and f: "watch_failed k now' permanent w = (effects, w')"
  shows "watcher_inv t0 now' w' (Suc n) (ws @ warned k effects) (d + degraded k effects)"
    and "hooked k effects = [if permanent then ''permanent'' else ''transient'']"
    and "k' \<noteq> k \<Longrightarrow> hooked k' effects = [] \<and> warned k' effects = [] \<and> degraded k' effects = 0"
proof -
  have r: "t0 + transient_retry * n \<le> now'" using assms(1,3) by (simp add: watcher_inv_def)
  have r': "t0 + transient_retry * Suc n \<le> now' + retry_pause permanent"
    using r retry_pause_ge [of permanent] by simp
  show "hooked k effects = [if permanent then ''permanent'' else ''transient'']"
    using f by (auto simp: watch_failed_def split: if_splits)
  show "hooked k' effects = [] \<and> warned k' effects = [] \<and> degraded k' effects = 0" if "k' \<noteq> k"
    using f that by (auto simp: watch_failed_def split: if_splits)
  show "watcher_inv t0 now' w' (Suc n) (ws @ warned k effects) (d + degraded k effects)"
  proof (cases "log_open w now'")
    case True
    have last: "\<forall>t \<in> set ws. t + log_interval \<le> now'"
    proof
      fix t assume "t \<in> set ws"
      then obtain l where "wt_last_log w = Some l" "t \<le> l" using inv by (auto simp: watcher_inv_def)
      then show "t + log_interval \<le> now'" using True by (simp add: log_open_def)
    qed
    have eqs: "warned k effects = [now']" "wt_last_log w' = Some now'" "wt_resume w' = now' + retry_pause permanent"
      "wt_degraded_logged w' = (wt_degraded_logged w \<or> permanent)"
      "degraded k effects = (if permanent \<and> \<not> wt_degraded_logged w then 1 else 0)"
      using f True by (auto simp: watch_failed_def Let_def)
    have ge: "t \<le> now'" if "t \<in> set ws" for t using last that by fastforce
    show ?thesis
      using inv r r' last ge unfolding watcher_inv_def eqs by (simp add: sorted_wrt_append)
  next
    case False
    then have "warned k effects = []" "degraded k effects = 0" "w' = w\<lparr>wt_resume := now' + retry_pause permanent\<rparr>"
      using f by (auto simp: watch_failed_def Let_def)
    then show ?thesis using r r' inv by (simp add: watcher_inv_def)
  qed
qed

definition watch_inv where
  "watch_inv rx ce tick t0 c es s \<longleftrightarrow>
     wl_controller s = control_run rx ce (control_events es) c \<and>
     (wl_dirty s \<longleftrightarrow> news es) \<and> (wl_dirty s \<longrightarrow> wl_permit s) \<and>
     t0 + tick * ticks es \<le> wl_woken s \<and> wl_woken s \<le> wl_now s \<and>
     (\<forall>k. hooked k (wl_effects s) = failures k es \<and>
        watcher_inv t0 (wl_now s) (wl_watchers s k) (length (failures k es)) (warned k (wl_effects s)) (degraded k (wl_effects s)))"

lemma control_run_snoc: "control_run rx ce (es @ [e]) c = control_step rx ce e (control_run rx ce es c)"
  by (simp add: control_run_def)

lemma watch_inv_step:
  assumes "watch_inv rx ce tick t0 c es s" and "loop_step rx ce tick s e t"
  shows "watch_inv rx ce tick t0 c (es @ [e]) t"
  using assms(2,1)
proof cases
  case (watched now k item)
  show ?thesis
  proof (cases item)
    case Event
    then show ?thesis using assms(1) watched
      by (auto simp: watch_inv_def watch_item_step_def news_snoc control_events_append failures_append ticks_def
          intro: watcher_inv_later)
  next
    case (Failed permanent)
    obtain effects w where f: "watch_failed k now permanent (wl_watchers s k) = (effects, w)" by fastforce
    have inv: "watcher_inv t0 (wl_now s) (wl_watchers s j) (length (failures j es)) (warned j (wl_effects s)) (degraded j (wl_effects s))"
      "hooked j (wl_effects s) = failures j es" for j
      using assms(1) by (simp_all add: watch_inv_def)
    note after = watch_failed_inv [OF inv(1) [of k] watched(3,4) f]
    show ?thesis using assms(1) watched(1,2,3) Failed f inv after watcher_inv_later [OF inv(1) watched(3)]
      by (simp add: watch_inv_def watch_item_step_def news_snoc control_events_append failures_append ticks_def)
  qed
qed (use assms(1) in \<open>auto simp: watch_inv_def reconcile_wake_def news_snoc control_events_append failures_append
    control_run_snoc ticks_def algebra_simps intro: watcher_inv_later\<close>)

lemma loop_run_inv: "loop_run rx ce tick (watch_start t0 c) es s \<Longrightarrow> watch_inv rx ce tick t0 c es s"
proof (induction rule: loop_run.induct)
  case start
  then show ?case
    by (simp add: watch_inv_def watch_start_def control_run_def news_def ticks_def watcher_inv_start)
qed (blast intro: watch_inv_step)

text \<open>After an error a watcher sleeps its pause out before it looks at its stream again.\<close>

definition paused :: "object_kind \<Rightarrow> 're loop_event \<Rightarrow> 're loop_event \<Rightarrow> bool" where
  "paused k e e' \<longleftrightarrow>
     (\<forall>now permanent now' item. e = Watched k now (Failed permanent) \<and> e' = Watched k now' item \<longrightarrow>
        now + retry_pause permanent \<le> now')"

definition pause_inv :: "object_kind \<Rightarrow> 're loop_event list \<Rightarrow> 're watch_loop \<Rightarrow> bool" where
  "pause_inv k es s \<longleftrightarrow> sorted_wrt (paused k) es \<and>
     (\<forall>now permanent. Watched k now (Failed permanent) \<in> set es \<longrightarrow> now + retry_pause permanent \<le> wt_resume (wl_watchers s k))"

lemma watch_item_resume:
  "wt_resume (wl_watchers (watch_item_step j now item s) k) =
     (case item of Failed permanent \<Rightarrow> if j = k then now + retry_pause permanent else wt_resume (wl_watchers s k)
      | Event \<Rightarrow> wt_resume (wl_watchers s k))"
  by (auto simp: watch_item_step_def watch_failed_def split: watch_item.splits prod.splits)

lemma pause_inv_step:
  assumes inv: "pause_inv k es s" and step: "loop_step rx ce tick s e t"
  shows "pause_inv k (es @ [e]) t"
  using step
proof cases
  case (watched now j item)
  have "paused k e' e" if "e' \<in> set es" for e'
    using that inv watched unfolding paused_def pause_inv_def by fastforce
  moreover have "n + retry_pause permanent \<le> wt_resume (wl_watchers t k)" if "Watched k n (Failed permanent) \<in> set es" for n permanent
  proof -
    have "n + retry_pause permanent \<le> wt_resume (wl_watchers s k)" using that inv by (simp add: pause_inv_def)
    then show ?thesis using watched by (auto simp: watch_item_resume split: watch_item.split)
  qed
  ultimately show ?thesis
    using inv watched by (auto simp: pause_inv_def sorted_wrt_append watch_item_resume split: watch_item.splits)
qed (use inv in \<open>auto simp: pause_inv_def sorted_wrt_append paused_def reconcile_wake_def\<close>)

lemma loop_run_paused: "loop_run rx ce tick (watch_start t0 c) es s \<Longrightarrow> pause_inv k es s"
  by (induction rule: loop_run.induct) (auto simp: pause_inv_def [of _ "[]"] intro: pause_inv_step)

text \<open>
  Property C15. The watched control plane, whatever the streams yield and however the wakes fall: the
  controller has run exactly the passes of its wakes; after an event or the end of a stream the loop
  can be woken at once until a pass has run, so no change waits for the poll tick; the tick runs at most
  one pass per period; every error of a stream reaches the error hook with its class, in order; between
  an error of a kind and anything that kind yields later lies the pause of the error's class, a minute
  after a permanent error and five seconds after a transient one, so that the errors are also bounded
  by the time passed; its warnings are the log interval apart and it reports the degradation once.
\<close>

theorem watch_disciplined:
  assumes "loop_run rx ce tick (watch_start t0 c) es s"
  shows "wl_controller s = control_run rx ce (control_events es) c \<and>
    (news es \<longrightarrow> (\<forall>answer. \<exists>t. loop_step rx ce tick s (Woken (wl_now s) answer) t)) \<and>
    t0 + tick * ticks es \<le> wl_now s \<and>
    hooked k (wl_effects s) = failures k es \<and>
    (\<forall>es1 now permanent es2 now' item.
       es = es1 @ Watched k now (Failed permanent) # es2 \<and> Watched k now' item \<in> set es2 \<longrightarrow>
         now + (if permanent then 60000 else 5000) \<le> now') \<and>
    (failures k es \<noteq> [] \<longrightarrow> t0 + 5000 * (length (failures k es) - 1) \<le> wl_now s) \<and>
    sorted_wrt (\<lambda>t t'. t + 30000 \<le> t') (warned k (wl_effects s)) \<and> degraded k (wl_effects s) \<le> 1"
proof -
  have inv: "watch_inv rx ce tick t0 c es s" by (rule loop_run_inv [OF assms])
  then have "news es \<longrightarrow> wl_permit s" by (simp add: watch_inv_def)
  then have "news es \<longrightarrow> (\<forall>answer. \<exists>t. loop_step rx ce tick s (Woken (wl_now s) answer) t)"
    using loop_step.woken [OF order_refl] by blast
  moreover have "\<forall>es1 now permanent es2 now' item.
       es = es1 @ Watched k now (Failed permanent) # es2 \<and> Watched k now' item \<in> set es2 \<longrightarrow>
         now + (if permanent then 60000 else 5000) \<le> now'"
    using loop_run_paused [OF assms, of k]
    by (auto simp: pause_inv_def sorted_wrt_append paused_def retry_pause_def permanent_retry_def transient_retry_def)
  ultimately show ?thesis
    using inv by (auto simp: watch_inv_def watcher_inv_def transient_retry_def log_interval_def)
qed

section \<open>A watch that is not served\<close>

text \<open>The stream of the ingresses fails twice, and a secret changes.\<close>

definition troubled :: "'re loop_event list" where
  "troubled = [Watched IngressKind 7 (Failed True), Watched IngressKind 60007 (Failed False), Watched SecretKind 60008 Event]"

lemma troubled_run: "\<exists>s. loop_run rx ce 1000 (watch_start 0 c) troubled s"
proof -
  let ?s1 = "watch_item_step IngressKind 7 (Failed True) (watch_start 0 c)"
  let ?s2 = "watch_item_step IngressKind 60007 (Failed False) ?s1"
  have s1: "wl_now ?s1 = 7" "wt_resume (wl_watchers ?s1 IngressKind) = 60007"
    by (simp_all add: watch_item_step_def watch_failed_def watch_start_def watcher_start_def log_open_def
        retry_pause_def permanent_retry_def)
  have s2: "wl_now ?s2 = 60007" "wt_resume (wl_watchers ?s2 SecretKind) = 0"
    by (simp_all add: watch_item_step_def watch_failed_def watch_start_def watcher_start_def log_open_def
        retry_pause_def permanent_retry_def log_interval_def)
  have "loop_run rx ce 1000 (watch_start 0 c) ([] @ [Watched IngressKind 7 (Failed True)]) ?s1"
    by (rule loop_run.step [OF loop_run.start]) (rule loop_step.watched; simp add: watch_start_def watcher_start_def)
  then have "loop_run rx ce 1000 (watch_start 0 c) ([] @ [Watched IngressKind 7 (Failed True)] @ [Watched IngressKind 60007 (Failed False)]) ?s2"
    unfolding append_assoc [symmetric] by (rule loop_run.step) (rule loop_step.watched; simp add: s1)
  then have "loop_run rx ce 1000 (watch_start 0 c)
      ([] @ [Watched IngressKind 7 (Failed True)] @ [Watched IngressKind 60007 (Failed False)] @ [Watched SecretKind 60008 Event])
      (watch_item_step SecretKind 60008 Event ?s2)"
    unfolding append_assoc [symmetric] by (rule loop_run.step) (rule loop_step.watched; simp add: s2)
  then show ?thesis unfolding troubled_def append.simps by blast
qed

theorem watch_disciplined_witness:
  "\<forall>rx (ce :: 'y control_env) (c :: 're controller). \<exists>s. loop_run rx ce 1000 (watch_start 0 c) troubled s \<and>
     hooked IngressKind (wl_effects s) = [''permanent'', ''transient''] \<and> 5000 \<le> wl_now s \<and>
     wl_controller s = c \<and> (\<forall>answer. \<exists>t. loop_step rx ce 1000 s (Woken (wl_now s) answer) t)"
proof (intro allI)
  fix rx and ce :: "'y control_env" and c :: "'re controller"
  obtain s where run: "loop_run rx ce 1000 (watch_start 0 c) troubled s" using troubled_run by blast
  have "failures IngressKind (troubled :: 're loop_event list) = [''permanent'', ''transient'']"
    "news (troubled :: 're loop_event list)" "control_events (troubled :: 're loop_event list) = []"
    by (simp_all add: troubled_def news_def)
  with watch_disciplined [OF run, of IngressKind] run
  show "\<exists>s. loop_run rx ce 1000 (watch_start 0 c) troubled s \<and>
     hooked IngressKind (wl_effects s) = [''permanent'', ''transient''] \<and> 5000 \<le> wl_now s \<and>
     wl_controller s = c \<and> (\<forall>answer. \<exists>t. loop_step rx ce 1000 s (Woken (wl_now s) answer) t)"
    by (intro exI [of _ s]) (simp add: control_run_def)
qed

end
