(* ===== verification/Metrics.thy ===== *)
theory Metrics
  imports Proxy Controller
begin

text \<open>
  The counters, \<open>hygress-gateway/src/metrics.rs\<close>, and the wiring of the control loop's hooks to them
  in \<open>bootstrap.rs\<close>. The hot families keep the handles of their label values in caches.

  The crate \<open>prometheus\<close> is the record \<open>counter_ops\<close>: the handle of some label values, adding to a
  handle, the value of the cell of label values, and the label values a handle stands for. A cell is
  an atomic 64-bit integer: adding wraps around, and the text of a scrape is the cell as a float, which
  is exact below \<open>2 ^ 53\<close> and is left to the crate. A histogram is here the number of its observations.
\<close>

section \<open>Families and handles\<close>

record ('v, 'h) counter_ops =
  co_new :: 'v
  co_handle :: "'v \<Rightarrow> string list \<Rightarrow> 'h \<times> 'v"
  co_add :: "'h \<Rightarrow> 64 word \<Rightarrow> 'v \<Rightarrow> 'v"
  co_value :: "'v \<Rightarrow> string list \<Rightarrow> 64 word"
  co_labels :: "'v \<Rightarrow> 'h \<Rightarrow> string list option"

text \<open>
  What the crate documents: handles of the same label values share one counter, from 0; adding is the
  wrapping addition of the atomic.
\<close>

definition counter_laws :: "('v, 'h) counter_ops \<Rightarrow> bool" where
  "counter_laws co \<longleftrightarrow>
     (\<forall>ls. co_value co (co_new co) ls = 0) \<and>
     (\<forall>v ls. co_labels co (snd (co_handle co v ls)) (fst (co_handle co v ls)) = Some ls) \<and>
     (\<forall>v ls ls'. co_value co (snd (co_handle co v ls)) ls' = co_value co v ls') \<and>
     (\<forall>v ls h ls'. co_labels co v h = Some ls' \<longrightarrow> co_labels co (snd (co_handle co v ls)) h = Some ls') \<and>
     (\<forall>v h ls n ls'. co_labels co v h = Some ls \<longrightarrow>
        co_value co (co_add co h n v) ls' = co_value co v ls' + (if ls' = ls then n else 0)) \<and>
     (\<forall>v h n h'. co_labels co (co_add co h n v) h' = co_labels co v h')"

text \<open>The families that are recorded through the handle; the two read off the configuration come below.\<close>

datatype family =
    RequestsTotal | RequestDurationSeconds | TokensTotal | TtftSeconds | RetriesTotal | UpstreamErrorsTotal
  | FallbackTotal | FallbackExhaustedTotal | UsagePushDroppedTotal | UsagePushedTotal | ControlWatchErrorTotal
  | ControlSnapshotStoreTotal | ControlReconcileErrorTotal | PolicyReloadTotal | AuthDecisions | RateLimitDeniedTotal
  | QuotaDeniedTotal | QuotaSoftExceedTotal | PolicyAppliedTotal | GuardrailBlockedTotal | GuardrailErrorTotal
  | TlsCertChangeDetected | TlsCertRequiresRestart

type_synonym 'h label_cache = "(string, 'h) hash_map"

record ('v, 'h) metrics =
  mt_vec :: "family \<Rightarrow> 'v"
  mt_requests_cache :: "(nat, 'h label_cache) hash_map"
  mt_duration_cache :: "'h label_cache"
  mt_tokens_cache :: "'h label_cache"
  mt_ttft_cache :: "'h label_cache"
  mt_active :: "64 word"
  mt_last_store :: int
  mt_last_sync :: int

definition metrics_new :: "('v, 'h) counter_ops \<Rightarrow> ('v, 'h) metrics" where
  "metrics_new co = \<lparr>mt_vec = (\<lambda>_. co_new co), mt_requests_cache = [], mt_duration_cache = [], mt_tokens_cache = [],
     mt_ttft_cache = [], mt_active = 0, mt_last_store = 0, mt_last_sync = 0\<rparr>"

definition add_to :: "('v, 'h) counter_ops \<Rightarrow> family \<Rightarrow> 'h \<Rightarrow> 64 word \<Rightarrow> ('v, 'h) metrics \<Rightarrow> ('v, 'h) metrics" where
  "add_to co fam h n m = m\<lparr>mt_vec := (mt_vec m)(fam := co_add co h n (mt_vec m fam))\<rparr>"

text \<open>\<open>with_label_values\<close> and \<open>inc_by\<close>, uncached.\<close>

definition bump :: "('v, 'h) counter_ops \<Rightarrow> family \<Rightarrow> string list \<Rightarrow> 64 word \<Rightarrow> ('v, 'h) metrics \<Rightarrow> ('v, 'h) metrics" where
  "bump co fam labels n m =
     (case co_handle co (mt_vec m fam) labels of
        (h, v) \<Rightarrow> add_to co fam h n (m\<lparr>mt_vec := (mt_vec m)(fam := v)\<rparr>))"

section \<open>The cached families\<close>

definition cached_request_counter ::
  "('v, 'h) counter_ops \<Rightarrow> nat \<Rightarrow> string \<Rightarrow> ('v, 'h) metrics \<Rightarrow> 'h \<times> ('v, 'h) metrics" where
  "cached_request_counter co status kind m =
     (let by_status = (case hm_get (mt_requests_cache m) status of Some c \<Rightarrow> c | None \<Rightarrow> [])
      in case hm_get by_status kind of
           Some h \<Rightarrow> (h, m\<lparr>mt_requests_cache := hm_insert status by_status (mt_requests_cache m)\<rparr>)
         | None \<Rightarrow>
             (case co_handle co (mt_vec m RequestsTotal) [dec_of_nat status, kind] of
                (h, v) \<Rightarrow> (h, m\<lparr>mt_vec := (mt_vec m)(RequestsTotal := v),
                  mt_requests_cache := hm_insert status (hm_insert kind h by_status) (mt_requests_cache m)\<rparr>)))"

definition count_request :: "('v, 'h) counter_ops \<Rightarrow> nat \<Rightarrow> string \<Rightarrow> ('v, 'h) metrics \<Rightarrow> ('v, 'h) metrics" where
  "count_request co status kind m =
     (case cached_request_counter co status kind m of (h, m) \<Rightarrow> add_to co RequestsTotal h 1 m)"

text \<open>A lookup in one of the caches keyed by a single label: the handle, the family, the cache.\<close>

definition cached_handle ::
  "('v, 'h) counter_ops \<Rightarrow> 'v \<Rightarrow> 'h label_cache \<Rightarrow> string \<Rightarrow> 'h \<times> 'v \<times> 'h label_cache" where
  "cached_handle co v cache label =
     (case hm_get cache label of
        Some h \<Rightarrow> (h, v, cache)
      | None \<Rightarrow> (case co_handle co v [label] of (h, v') \<Rightarrow> (h, v', hm_insert label h cache)))"

definition record_request_duration :: "('v, 'h) counter_ops \<Rightarrow> string \<Rightarrow> ('v, 'h) metrics \<Rightarrow> ('v, 'h) metrics" where
  "record_request_duration co kind m =
     (case cached_handle co (mt_vec m RequestDurationSeconds) (mt_duration_cache m) kind of
        (h, v, cache) \<Rightarrow> add_to co RequestDurationSeconds h 1
          (m\<lparr>mt_vec := (mt_vec m)(RequestDurationSeconds := v), mt_duration_cache := cache\<rparr>))"

definition record_tokens :: "('v, 'h) counter_ops \<Rightarrow> string \<Rightarrow> 64 word \<Rightarrow> ('v, 'h) metrics \<Rightarrow> ('v, 'h) metrics" where
  "record_tokens co direction n m =
     (case cached_handle co (mt_vec m TokensTotal) (mt_tokens_cache m) direction of
        (h, v, cache) \<Rightarrow> add_to co TokensTotal h n
          (m\<lparr>mt_vec := (mt_vec m)(TokensTotal := v), mt_tokens_cache := cache\<rparr>))"

definition record_ttft :: "('v, 'h) counter_ops \<Rightarrow> string \<Rightarrow> ('v, 'h) metrics \<Rightarrow> ('v, 'h) metrics" where
  "record_ttft co kind m =
     (case cached_handle co (mt_vec m TtftSeconds) (mt_ttft_cache m) kind of
        (h, v, cache) \<Rightarrow> add_to co TtftSeconds h 1
          (m\<lparr>mt_vec := (mt_vec m)(TtftSeconds := v), mt_ttft_cache := cache\<rparr>))"

section \<open>The recording functions\<close>

definition record_metric :: "('v, 'h) counter_ops \<Rightarrow> metric \<Rightarrow> ('v, 'h) metrics \<Rightarrow> ('v, 'h) metrics" where
  "record_metric co e m =
     (case e of
        ActiveInc \<Rightarrow> m\<lparr>mt_active := mt_active m + 1\<rparr>
      | ActiveDec \<Rightarrow> m\<lparr>mt_active := mt_active m - 1\<rparr>
      | Requests status kind \<Rightarrow> count_request co status kind m
      | RequestDuration kind \<Rightarrow> record_request_duration co kind m
      | Tokens direction n \<Rightarrow> record_tokens co direction (of_nat n) m
      | Ttft kind \<Rightarrow> record_ttft co kind m
      | RetryTaken \<Rightarrow> bump co RetriesTotal [] 1 m
      | UpstreamError destination \<Rightarrow> bump co UpstreamErrorsTotal [destination] 1 m
      | FallbackArmed \<Rightarrow> bump co FallbackTotal [] 1 m
      | FallbackExhausted \<Rightarrow> bump co FallbackExhaustedTotal [] 1 m
      | AuthResult result \<Rightarrow> bump co AuthDecisions [result] 1 m
      | PolicyApplied applied \<Rightarrow> bump co PolicyAppliedTotal [if applied then ''true'' else ''false''] 1 m
      | RateLimitDenied dimension \<Rightarrow> bump co RateLimitDeniedTotal [dimension] 1 m
      | QuotaDenied \<Rightarrow> bump co QuotaDeniedTotal [] 1 m
      | QuotaSoftExceed \<Rightarrow> bump co QuotaSoftExceedTotal [] 1 m
      | GuardrailBlocked side \<Rightarrow> bump co GuardrailBlockedTotal [side] 1 m
      | GuardrailError \<Rightarrow> bump co GuardrailErrorTotal [] 1 m
      | UsagePushed completed \<Rightarrow> bump co UsagePushedTotal [if completed then ''true'' else ''false''] 1 m)"

text \<open>The hooks of the control loop as \<open>run\<close> wires them; \<open>now\<close> is the wall clock in seconds.\<close>

definition record_hook :: "('v, 'h) counter_ops \<Rightarrow> hook \<Rightarrow> int \<Rightarrow> ('v, 'h) metrics \<Rightarrow> ('v, 'h) metrics" where
  "record_hook co h now m =
     (case h of
        SyncFailure cause \<Rightarrow> bump co ControlReconcileErrorTotal [cause] 1 m
      | SyncOk \<Rightarrow> m\<lparr>mt_last_sync := now\<rparr>
      | SnapshotStored \<Rightarrow> (bump co ControlSnapshotStoreTotal [] 1 m)\<lparr>mt_last_store := now\<rparr>
      | ReadyNotified \<Rightarrow> m)"

datatype signal =
    Request metric
  | Control hook int
  | WatchError string string
  | PolicyReloaded bool
  | UsagePushDropped
  | TlsChanged
  | TlsRestartRequired

definition record_signal :: "('v, 'h) counter_ops \<Rightarrow> ('v, 'h) metrics \<Rightarrow> signal \<Rightarrow> ('v, 'h) metrics" where
  "record_signal co m s =
     (case s of
        Request e \<Rightarrow> record_metric co e m
      | Control h now \<Rightarrow> record_hook co h now m
      | WatchError kind cause \<Rightarrow> bump co ControlWatchErrorTotal [kind, cause] 1 m
      | PolicyReloaded ok \<Rightarrow> bump co PolicyReloadTotal [if ok then ''success'' else ''failure''] 1 m
      | UsagePushDropped \<Rightarrow> bump co UsagePushDroppedTotal [] 1 m
      | TlsChanged \<Rightarrow> bump co TlsCertChangeDetected [] 1 m
      | TlsRestartRequired \<Rightarrow> bump co TlsCertRequiresRestart [] 1 m)"

section \<open>What a scrape shows\<close>

text \<open>The abstract counters: what a signal adds, without handles or caches.\<close>

definition metric_adds :: "metric \<Rightarrow> (family \<times> string list \<times> 64 word) option" where
  "metric_adds e =
     (case e of
        Requests status kind \<Rightarrow> Some (RequestsTotal, [dec_of_nat status, kind], 1)
      | RequestDuration kind \<Rightarrow> Some (RequestDurationSeconds, [kind], 1)
      | Tokens direction n \<Rightarrow> Some (TokensTotal, [direction], of_nat n)
      | Ttft kind \<Rightarrow> Some (TtftSeconds, [kind], 1)
      | RetryTaken \<Rightarrow> Some (RetriesTotal, [], 1)
      | UpstreamError destination \<Rightarrow> Some (UpstreamErrorsTotal, [destination], 1)
      | FallbackArmed \<Rightarrow> Some (FallbackTotal, [], 1)
      | FallbackExhausted \<Rightarrow> Some (FallbackExhaustedTotal, [], 1)
      | AuthResult result \<Rightarrow> Some (AuthDecisions, [result], 1)
      | PolicyApplied applied \<Rightarrow> Some (PolicyAppliedTotal, [if applied then ''true'' else ''false''], 1)
      | RateLimitDenied dimension \<Rightarrow> Some (RateLimitDeniedTotal, [dimension], 1)
      | QuotaDenied \<Rightarrow> Some (QuotaDeniedTotal, [], 1)
      | QuotaSoftExceed \<Rightarrow> Some (QuotaSoftExceedTotal, [], 1)
      | GuardrailBlocked side \<Rightarrow> Some (GuardrailBlockedTotal, [side], 1)
      | GuardrailError \<Rightarrow> Some (GuardrailErrorTotal, [], 1)
      | UsagePushed completed \<Rightarrow> Some (UsagePushedTotal, [if completed then ''true'' else ''false''], 1)
      | ActiveInc \<Rightarrow> None
      | ActiveDec \<Rightarrow> None)"

definition signal_adds :: "signal \<Rightarrow> (family \<times> string list \<times> 64 word) option" where
  "signal_adds s =
     (case s of
        Request e \<Rightarrow> metric_adds e
      | Control (SyncFailure cause) now \<Rightarrow> Some (ControlReconcileErrorTotal, [cause], 1)
      | Control SnapshotStored now \<Rightarrow> Some (ControlSnapshotStoreTotal, [], 1)
      | Control _ now \<Rightarrow> None
      | WatchError kind cause \<Rightarrow> Some (ControlWatchErrorTotal, [kind, cause], 1)
      | PolicyReloaded ok \<Rightarrow> Some (PolicyReloadTotal, [if ok then ''success'' else ''failure''], 1)
      | UsagePushDropped \<Rightarrow> Some (UsagePushDroppedTotal, [], 1)
      | TlsChanged \<Rightarrow> Some (TlsCertChangeDetected, [], 1)
      | TlsRestartRequired \<Rightarrow> Some (TlsCertRequiresRestart, [], 1))"

definition amount :: "(family \<times> string list \<times> 64 word) option \<Rightarrow> family \<Rightarrow> string list \<Rightarrow> 64 word" where
  "amount a fam labels = (case a of Some (f, ls, n) \<Rightarrow> if f = fam \<and> ls = labels then n else 0 | None \<Rightarrow> 0)"

definition gauge :: "signal \<Rightarrow> 64 word" where
  "gauge s = (case s of Request ActiveInc \<Rightarrow> 1 | Request ActiveDec \<Rightarrow> - 1 | _ \<Rightarrow> 0)"

definition handles_ok :: "('v, 'h) counter_ops \<Rightarrow> 'v \<Rightarrow> 'h label_cache \<Rightarrow> bool" where
  "handles_ok co v cache \<longleftrightarrow> (\<forall>label h. hm_get cache label = Some h \<longrightarrow> co_labels co v h = Some [label])"

text \<open>The caches hold handles of their labels, and every counter has the value the signals give it.\<close>

definition metrics_rel :: "('v, 'h) counter_ops \<Rightarrow> ('v, 'h) metrics \<Rightarrow> (family \<Rightarrow> string list \<Rightarrow> 64 word) \<Rightarrow> bool" where
  "metrics_rel co m F \<longleftrightarrow>
     (\<forall>fam labels. co_value co (mt_vec m fam) labels = F fam labels) \<and>
     (\<forall>status cache label h. hm_get (mt_requests_cache m) status = Some cache \<and> hm_get cache label = Some h \<longrightarrow>
        co_labels co (mt_vec m RequestsTotal) h = Some [dec_of_nat status, label]) \<and>
     handles_ok co (mt_vec m RequestDurationSeconds) (mt_duration_cache m) \<and>
     handles_ok co (mt_vec m TokensTotal) (mt_tokens_cache m) \<and>
     handles_ok co (mt_vec m TtftSeconds) (mt_ttft_cache m)"

text \<open>A family that only gains handles, and whose counter of some label values grows.\<close>

definition grows :: "('v, 'h) counter_ops \<Rightarrow> 'v \<Rightarrow> 'v \<Rightarrow> string list \<Rightarrow> 64 word \<Rightarrow> bool" where
  "grows co v v' ls n \<longleftrightarrow>
     (\<forall>h l. co_labels co v h = Some l \<longrightarrow> co_labels co v' h = Some l) \<and>
     (\<forall>l. co_value co v' l = co_value co v l + (if l = ls then n else 0))"

lemma laws_handle:
  assumes "counter_laws co" "co_handle co v ls = (h, v')"
  shows "co_labels co v' h = Some ls" "grows co v v' ls 0"
  using assms unfolding counter_laws_def grows_def by (metis fst_conv snd_conv, metis add.right_neutral snd_conv)

lemma laws_add:
  assumes "counter_laws co" "co_labels co v h = Some ls" shows "grows co v (co_add co h n v) ls n"
  using assms by (simp add: counter_laws_def grows_def)

lemma grows_trans: "grows co v v' ls 0 \<Longrightarrow> grows co v' v'' ls n \<Longrightarrow> grows co v v'' ls n"
  unfolding grows_def by (metis add.right_neutral)

lemma grows_cache: "grows co v v' ls n \<Longrightarrow> handles_ok co v cache \<Longrightarrow> handles_ok co v' cache"
  unfolding grows_def handles_ok_def by blast

lemma rel_grows:
  assumes "metrics_rel co m F" "grows co (mt_vec m fam) v ls n"
  shows "metrics_rel co (m\<lparr>mt_vec := (mt_vec m)(fam := v)\<rparr>) (\<lambda>f l. F f l + amount (Some (fam, ls, n)) f l)"
proof -
  have "handles_ok co (((mt_vec m)(fam := v)) f) cache" if "handles_ok co (mt_vec m f) cache" for f cache
    using that grows_cache [OF assms(2)] by (cases "f = fam") simp_all
  then show ?thesis
    using assms unfolding metrics_rel_def grows_def amount_def by (auto simp: fun_upd_def)
qed

lemma rel_bump:
  assumes "counter_laws co" "metrics_rel co m F"
  shows "metrics_rel co (bump co fam ls n m) (\<lambda>f l. F f l + amount (Some (fam, ls, n)) f l)"
proof -
  obtain h v where h: "co_handle co (mt_vec m fam) ls = (h, v)" by (cases "co_handle co (mt_vec m fam) ls")
  have "grows co (mt_vec m fam) (co_add co h n v) ls n"
    using laws_handle [OF assms(1) h] laws_add [OF assms(1)] grows_trans by metis
  from rel_grows [OF assms(2) this] show ?thesis by (simp add: bump_def h add_to_def)
qed

lemma cached_handle_ok:
  assumes "counter_laws co" "handles_ok co v cache" "cached_handle co v cache label = (h, v', cache')"
  shows "handles_ok co v' cache' \<and> co_labels co v' h = Some [label] \<and> grows co v v' [label] 0"
proof (cases "hm_get cache label")
  case (Some x)
  then show ?thesis using assms by (auto simp: cached_handle_def handles_ok_def grows_def)
next
  case None
  then have h: "co_handle co v [label] = (h, v')" "cache' = hm_insert label h cache"
    using assms(3) by (auto simp: cached_handle_def split: prod.splits)
  note l = laws_handle [OF assms(1) h(1)]
  have "handles_ok co v' cache'"
    using l(1) grows_cache [OF l(2) assms(2)] unfolding h(2) handles_ok_def hm.get_insert by auto
  then show ?thesis using l by simp
qed

lemma rel_cached:
  assumes "counter_laws co" "metrics_rel co m F"
    and "cached_handle co (mt_vec m fam) cache label = (h, v, cache')" "handles_ok co (mt_vec m fam) cache"
  shows "metrics_rel co (m\<lparr>mt_vec := (mt_vec m)(fam := co_add co h n v)\<rparr>) (\<lambda>f l. F f l + amount (Some (fam, [label], n)) f l)
    \<and> handles_ok co (co_add co h n v) cache'"
proof -
  note c = cached_handle_ok [OF assms(1) assms(4) assms(3)]
  have g: "grows co v (co_add co h n v) [label] n" using c laws_add [OF assms(1)] by blast
  have "grows co (mt_vec m fam) (co_add co h n v) [label] n" by (rule grows_trans [OF c [THEN conjunct2, THEN conjunct2] g])
  then show ?thesis using rel_grows [OF assms(2)] grows_cache [OF g] c by blast
qed

lemma rel_caches:
  "metrics_rel co m F \<Longrightarrow> handles_ok co (mt_vec m RequestDurationSeconds) cache \<Longrightarrow> metrics_rel co (m\<lparr>mt_duration_cache := cache\<rparr>) F"
  "metrics_rel co m F \<Longrightarrow> handles_ok co (mt_vec m TokensTotal) cache \<Longrightarrow> metrics_rel co (m\<lparr>mt_tokens_cache := cache\<rparr>) F"
  "metrics_rel co m F \<Longrightarrow> handles_ok co (mt_vec m TtftSeconds) cache \<Longrightarrow> metrics_rel co (m\<lparr>mt_ttft_cache := cache\<rparr>) F"
  by (simp_all add: metrics_rel_def)

lemma cache_update_swap:
  "m\<lparr>mt_duration_cache := c, mt_vec := x\<rparr> = m\<lparr>mt_vec := x, mt_duration_cache := c\<rparr>"
  "m\<lparr>mt_tokens_cache := c, mt_vec := x\<rparr> = m\<lparr>mt_vec := x, mt_tokens_cache := c\<rparr>"
  "m\<lparr>mt_ttft_cache := c, mt_vec := x\<rparr> = m\<lparr>mt_vec := x, mt_ttft_cache := c\<rparr>"
  by simp_all

lemma rel_cached_families:
  assumes "counter_laws co" "metrics_rel co m F"
  shows "metrics_rel co (record_request_duration co kind m) (\<lambda>f l. F f l + amount (Some (RequestDurationSeconds, [kind], 1)) f l)"
    and "metrics_rel co (record_tokens co kind n m) (\<lambda>f l. F f l + amount (Some (TokensTotal, [kind], n)) f l)"
    and "metrics_rel co (record_ttft co kind m) (\<lambda>f l. F f l + amount (Some (TtftSeconds, [kind], 1)) f l)"
proof -
  have ok: "handles_ok co (mt_vec m RequestDurationSeconds) (mt_duration_cache m)" "handles_ok co (mt_vec m TokensTotal) (mt_tokens_cache m)"
    "handles_ok co (mt_vec m TtftSeconds) (mt_ttft_cache m)" using assms(2) by (simp_all add: metrics_rel_def)
  show "metrics_rel co (record_request_duration co kind m) (\<lambda>f l. F f l + amount (Some (RequestDurationSeconds, [kind], 1)) f l)"
  proof (cases "cached_handle co (mt_vec m RequestDurationSeconds) (mt_duration_cache m) kind")
    case (fields h v cache)
    have "metrics_rel co (m\<lparr>mt_vec := (mt_vec m)(RequestDurationSeconds := co_add co h 1 v)\<rparr>) (\<lambda>f l. F f l + amount (Some (RequestDurationSeconds, [kind], 1)) f l)"
      "handles_ok co (co_add co h 1 v) cache" using rel_cached [OF assms fields ok(1), of 1] by blast+
    from rel_caches(1) [OF this(1), of cache] this(2) show ?thesis
      by (simp del: One_nat_def add: record_request_duration_def fields add_to_def cache_update_swap)
  qed
  show "metrics_rel co (record_tokens co kind n m) (\<lambda>f l. F f l + amount (Some (TokensTotal, [kind], n)) f l)"
  proof (cases "cached_handle co (mt_vec m TokensTotal) (mt_tokens_cache m) kind")
    case (fields h v cache)
    have "metrics_rel co (m\<lparr>mt_vec := (mt_vec m)(TokensTotal := co_add co h n v)\<rparr>) (\<lambda>f l. F f l + amount (Some (TokensTotal, [kind], n)) f l)"
      "handles_ok co (co_add co h n v) cache" using rel_cached [OF assms fields ok(2), of n] by blast+
    from rel_caches(2) [OF this(1), of cache] this(2) show ?thesis
      by (simp del: One_nat_def add: record_tokens_def fields add_to_def cache_update_swap)
  qed
  show "metrics_rel co (record_ttft co kind m) (\<lambda>f l. F f l + amount (Some (TtftSeconds, [kind], 1)) f l)"
  proof (cases "cached_handle co (mt_vec m TtftSeconds) (mt_ttft_cache m) kind")
    case (fields h v cache)
    have "metrics_rel co (m\<lparr>mt_vec := (mt_vec m)(TtftSeconds := co_add co h 1 v)\<rparr>) (\<lambda>f l. F f l + amount (Some (TtftSeconds, [kind], 1)) f l)"
      "handles_ok co (co_add co h 1 v) cache" using rel_cached [OF assms fields ok(3), of 1] by blast+
    from rel_caches(3) [OF this(1), of cache] this(2) show ?thesis
      by (simp del: One_nat_def add: record_ttft_def fields add_to_def cache_update_swap)
  qed
qed

text \<open>The two-level cache of the request counter.\<close>

definition requests_ok :: "('v, 'h) counter_ops \<Rightarrow> 'v \<Rightarrow> (nat, 'h label_cache) hash_map \<Rightarrow> bool" where
  "requests_ok co v rc \<longleftrightarrow>
     (\<forall>status cache label h. hm_get rc status = Some cache \<and> hm_get cache label = Some h \<longrightarrow>
        co_labels co v h = Some [dec_of_nat status, label])"

lemma rel_requests:
  assumes "counter_laws co" "metrics_rel co m F"
  shows "metrics_rel co (count_request co status kind m) (\<lambda>f l. F f l + amount (Some (RequestsTotal, [dec_of_nat status, kind], 1)) f l)"
proof -
  let ?v = "mt_vec m RequestsTotal" and ?ls = "[dec_of_nat status, kind]"
  define by_status where "by_status = (case hm_get (mt_requests_cache m) status of Some c \<Rightarrow> c | None \<Rightarrow> [])"
  have ok: "requests_ok co ?v (mt_requests_cache m)" using assms(2) by (simp add: metrics_rel_def requests_ok_def)
  have by_ok: "co_labels co ?v h = Some [dec_of_nat status, label]" if "hm_get by_status label = Some h" for label h
    using that ok unfolding by_status_def requests_ok_def by (auto simp: hm.get_empty split: option.splits)
  obtain h v rc where c: "cached_request_counter co status kind m = (h, m\<lparr>mt_vec := (mt_vec m)(RequestsTotal := v), mt_requests_cache := rc\<rparr>)"
    and v: "co_labels co v h = Some ?ls" "grows co ?v v ?ls 0" and rc: "requests_ok co v rc"
  proof (cases "hm_get by_status kind")
    case (Some h)
    have "requests_ok co ?v (hm_insert status by_status (mt_requests_cache m))"
      using ok by_ok by (auto simp: requests_ok_def hm.get_insert split: if_splits)
    then show thesis
      using that [of h _ ?v] by_ok [OF Some] Some
      by (simp add: cached_request_counter_def by_status_def [symmetric] Let_def grows_def)
  next
    case None
    obtain h v where h: "co_handle co ?v ?ls = (h, v)" by (cases "co_handle co ?v ?ls")
    note l = laws_handle [OF assms(1) h]
    have "requests_ok co v (hm_insert status (hm_insert kind h by_status) (mt_requests_cache m))"
      using ok by_ok l unfolding requests_ok_def grows_def by (auto simp: hm.get_insert split: if_splits)
    then show thesis
      using that [of h _ v] l None h by (simp add: cached_request_counter_def by_status_def [symmetric] Let_def)
  qed
  have g: "grows co ?v (co_add co h 1 v) ?ls 1" using v laws_add [OF assms(1)] grows_trans by metis
  have "requests_ok co (co_add co h 1 v) rc"
    using rc laws_add [OF assms(1) v(1)] unfolding requests_ok_def grows_def by blast
  then show ?thesis
    using rel_grows [OF assms(2) g] by (simp add: count_request_def c add_to_def metrics_rel_def requests_ok_def)
qed

lemma rel_none: "metrics_rel co m F \<Longrightarrow> metrics_rel co m (\<lambda>f l. F f l + amount None f l)"
  by (simp add: amount_def)

lemma rel_frame:
  "metrics_rel co (m\<lparr>mt_active := a\<rparr>) F = metrics_rel co m F"
  "metrics_rel co (m\<lparr>mt_last_store := x\<rparr>) F = metrics_rel co m F"
  "metrics_rel co (m\<lparr>mt_last_sync := x\<rparr>) F = metrics_rel co m F"
  by (simp_all add: metrics_rel_def)

lemma rel_metric:
  assumes "counter_laws co" "metrics_rel co m F"
  shows "metrics_rel co (record_metric co e m) (\<lambda>f l. F f l + amount (metric_adds e) f l)"
proof (cases e)
  case ActiveInc
  then show ?thesis using rel_none [OF assms(2)] by (simp add: record_metric_def metric_adds_def rel_frame)
next
  case ActiveDec
  then show ?thesis using rel_none [OF assms(2)] by (simp add: record_metric_def metric_adds_def rel_frame)
qed (simp_all del: One_nat_def add: record_metric_def metric_adds_def rel_bump [OF assms] rel_requests [OF assms] rel_cached_families [OF assms])

lemma rel_signal:
  assumes "counter_laws co" "metrics_rel co m F"
  shows "metrics_rel co (record_signal co m s) (\<lambda>f l. F f l + amount (signal_adds s) f l)"
proof (cases s)
  case (Control h now)
  then show ?thesis
    using rel_bump [OF assms] rel_none [OF assms(2)]
    by (cases h) (simp_all del: One_nat_def add: record_signal_def signal_adds_def record_hook_def rel_frame)
qed (simp_all del: One_nat_def add: record_signal_def signal_adds_def rel_metric [OF assms] rel_bump [OF assms])

lemma gauge_bump [simp]: "mt_active (bump co fam ls n m) = mt_active m"
  by (simp add: bump_def add_to_def split: prod.splits)

lemma gauge_signal: "mt_active (record_signal co m s) = mt_active m + gauge s"
  by (auto simp: record_signal_def record_metric_def record_hook_def count_request_def cached_request_counter_def Let_def
      record_request_duration_def record_tokens_def record_ttft_def add_to_def gauge_def
      split: signal.splits metric.splits hook.splits prod.splits option.splits)

section \<open>The counters of the configuration\<close>

text \<open>
  \<open>ConfigSnapshotCollector\<close>: at every scrape the two counters of the shared configuration are read
  and shown as families of their own.
\<close>

definition snapshot_collect :: "'re shared_config \<Rightarrow> (string \<times> 64 word) list" where
  "snapshot_collect sc =
     [(''hygress_config_reject_total'', sc_reject_total sc), (''hygress_config_object_skipped_total'', sc_skipped_total sc)]"

definition stored_all :: "'re path_engine \<Rightarrow> config_data list \<Rightarrow> 're shared_config \<Rightarrow> 're shared_config" where
  "stored_all rx datas sc = foldl (\<lambda>sc data. snd (shared_store rx data sc)) sc datas"

definition snapshot_rejected :: "'re path_engine \<Rightarrow> config_data \<Rightarrow> bool" where
  "snapshot_rejected rx data \<longleftrightarrow> (case table_rebuild rx (fst (sanitize data)) of Inl _ \<Rightarrow> True | Inr _ \<Rightarrow> False)"

definition objects_skipped :: "config_data \<Rightarrow> 64 word" where
  "objects_skipped data = of_nat (length (snd (sanitize data)))"

lemma shared_store_counts:
  "sc_reject_total (snd (shared_store rx data sc)) = sc_reject_total sc + (if snapshot_rejected rx data then 1 else 0)"
  "sc_skipped_total (snd (shared_store rx data sc)) =
     sc_skipped_total sc + (if snapshot_rejected rx data then 0 else objects_skipped data)"
  by (simp_all add: shared_store_def snapshot_rejected_def objects_skipped_def Let_def split_beta split: sum.splits)

lemma stored_all_counts:
  "sc_reject_total (stored_all rx datas sc) = sc_reject_total sc + of_nat (length (filter (snapshot_rejected rx) datas))"
  "sc_skipped_total (stored_all rx datas sc) =
     sc_skipped_total sc + sum_list (map objects_skipped (filter (\<lambda>d. \<not> snapshot_rejected rx d) datas))"
  by (induction datas rule: rev_induct) (simp_all add: stored_all_def shared_store_counts ac_simps)

lemma shared_new_counts:
  "shared_new rx data = Inr sc \<Longrightarrow> sc_reject_total sc = 0 \<and> sc_skipped_total sc = objects_skipped data"
  by (auto simp: shared_new_def objects_skipped_def Let_def split_beta split: sum.splits)


text \<open>The start stores the empty configuration.\<close>

lemma empty_accepted: "\<exists>sc. shared_new rx config_empty = Inr sc"
proof -
  have "cd_routes (fst (sanitize config_empty)) = []"
    using sanitized_routes_ok [of config_empty] list_emb_Nil2 [of "(=)" "sanitized_routes config_empty"]
    unfolding sanitize_fst by (simp add: config_empty_def)
  then have "\<exists>t. table_rebuild rx (fst (sanitize config_empty)) = Inr t" by (simp add: table_rebuild_def Let_def)
  then show ?thesis by (auto simp: shared_new_def Let_def split_beta)
qed

section \<open>A concrete registry\<close>

text \<open>A handle is its label values, a family an association of counts.\<close>

definition list_counters :: "((string list, 64 word) hash_map, string list) counter_ops" where
  "list_counters = \<lparr>co_new = [], co_handle = (\<lambda>v ls. (ls, v)),
     co_add = (\<lambda>h n v. hm_insert h ((case hm_get v h of Some k \<Rightarrow> k | None \<Rightarrow> 0) + n) v),
     co_value = (\<lambda>v ls. case hm_get v ls of Some k \<Rightarrow> k | None \<Rightarrow> 0), co_labels = (\<lambda>_ h. Some h)\<rparr>"

definition demo_signals :: "signal list" where
  "demo_signals =
     [Request ActiveInc, Request (Requests 200 ''model_route''), Request (Tokens ''input'' 18446744073709551615),
      Control SnapshotStored 7, Request ActiveInc, Request (Requests 200 ''model_route''), Request (Tokens ''input'' 3),
      Request ActiveDec]"


end
