(* ===== verification/Sni.thy ===== *)
theory Sni
  imports Config Policy_Merge
begin

text \<open>
  The certificate store, \<open>hygress-gateway/src/tls_store.rs\<close>: the PEM pairs of a configuration become a
  table, whose lookup picks a certificate by exact name, first-level wildcard, default.

  The lookup is not that of a live handshake. \<open>attach_data_plane\<close> of \<open>bootstrap.rs\<close> fills the store but
  attaches the listener with one PEM pair, that of the default or first host, which is presented to every
  client whatever name it asks for (\<open>Bootstrap\<close>); the store waits for a listener that takes a resolver.

  What is asked of \<open>rustls\<close> and \<open>rustls_pemfile\<close> is the record \<open>tls_ops\<close>: the certificates a PEM text
  yields one by one, its first private key, and the certified key of a pair.
\<close>

section \<open>Names\<close>

definition split_once :: "char \<Rightarrow> string \<Rightarrow> (string \<times> string) option" where
  "split_once c s = map_option (\<lambda>i. (take i s, drop (Suc i) s)) (find_byte c s)"

definition wildcard_of :: "string \<Rightarrow> string option" where
  "wildcard_of domain =
     (case split_once CHR ''.'' domain of
        None \<Rightarrow> None
      | Some (_, rest) \<Rightarrow> if rest = [] then None else Some (''*.'' @ rest))"

definition match_name :: "string \<Rightarrow> (string, 'k) hash_map \<Rightarrow> string option" where
  "match_name host names =
     (let h = to_ascii_lowercase host in
      if hm_get names h \<noteq> None then Some h
      else case wildcard_of h of
             Some w \<Rightarrow> if hm_get names w \<noteq> None then Some w else None
           | None \<Rightarrow> None)"

section \<open>PEM pairs\<close>

record ('c, 'p, 'k) tls_ops =
  tl_certs :: "string \<Rightarrow> (string + 'c) list"
  tl_private_key :: "string \<Rightarrow> string + 'p option"
  tl_from_der :: "'c list \<Rightarrow> 'p \<Rightarrow> string + 'k"

datatype tls_error = PemError string | ProviderError string

definition parse_pem :: "('c, 'p, 'k) tls_ops \<Rightarrow> string \<Rightarrow> string \<Rightarrow> tls_error + 'c list \<times> 'p" where
  "parse_pem ops cert_pem key_pem =
     (case collect_results (tl_certs ops cert_pem) of
        Inl e \<Rightarrow> Inl (PemError e)
      | Inr certs \<Rightarrow>
          if certs = [] then Inl (PemError ''no certificates in PEM'')
          else case tl_private_key ops key_pem of
                 Inr (Some k) \<Rightarrow> Inr (certs, k)
               | Inr None \<Rightarrow> Inl (PemError ''no private key in PEM'')
               | Inl e \<Rightarrow> Inl (PemError e))"

section \<open>The table and the store\<close>

record 'k sni_map =
  sm_by_name :: "(string, 'k) hash_map"
  sm_default :: "'k option"

definition sni_map_default :: "'k sni_map" where
  "sni_map_default = \<lparr>sm_by_name = [], sm_default = None\<rparr>"

definition sni_is_empty :: "'k sni_map \<Rightarrow> bool" where
  "sni_is_empty m \<longleftrightarrow> sm_by_name m = [] \<and> sm_default m = None"

definition sni_count :: "'k sni_map \<Rightarrow> nat" where
  "sni_count m = length (sm_by_name m) + (if sm_default m \<noteq> None then 1 else 0)"

definition sni_resolve :: "'k sni_map \<Rightarrow> string option \<Rightarrow> 'k option" where
  "sni_resolve m host =
     (case Option.bind host (\<lambda>h. match_name h (sm_by_name m)) of
        Some key \<Rightarrow> hm_get (sm_by_name m) key
      | None \<Rightarrow> sm_default m)"

text \<open>The certified key of a host, \<open>None\<close> where the host is skipped.\<close>

definition certified :: "('c, 'p, 'k) tls_ops \<Rightarrow> tls_host \<Rightarrow> 'k option" where
  "certified ops host =
     (case parse_pem ops (th_cert_pem host) (th_key_pem host) of
        Inl _ \<Rightarrow> None
      | Inr (certs, key) \<Rightarrow> (case tl_from_der ops certs key of Inl _ \<Rightarrow> None | Inr ck \<Rightarrow> Some ck))"

definition put_host :: "('c, 'p, 'k) tls_ops \<Rightarrow> 'k sni_map \<Rightarrow> tls_host \<Rightarrow> 'k sni_map" where
  "put_host ops m host =
     (case certified ops host of
        None \<Rightarrow> m
      | Some slot \<Rightarrow>
          if th_is_default host then m\<lparr>sm_default := Some slot\<rparr>
          else m\<lparr>sm_by_name := hm_insert (to_ascii_lowercase (th_host host)) slot (sm_by_name m)\<rparr>)"

text \<open>\<open>store_config\<close> builds a new table and swaps it in; the old one is dropped.\<close>

definition store_config :: "('c, 'p, 'k) tls_ops \<Rightarrow> tls_host list \<Rightarrow> 'k sni_map \<Rightarrow> nat \<times> 'k sni_map" where
  "store_config ops hosts old =
     (let m = foldl (put_host ops) sni_map_default hosts in (sni_count m, m))"

section \<open>The selection\<close>

text \<open>The table by its lookups: of the hosts that certify, the last of a name wins.\<close>

definition named_cert :: "('c, 'p, 'k) tls_ops \<Rightarrow> tls_host list \<Rightarrow> string \<Rightarrow> 'k option" where
  "named_cert ops hosts name =
     Option.bind (find (\<lambda>h. certified ops h \<noteq> None \<and> \<not> th_is_default h \<and> to_ascii_lowercase (th_host h) = name) (rev hosts))
       (certified ops)"

definition default_cert :: "('c, 'p, 'k) tls_ops \<Rightarrow> tls_host list \<Rightarrow> 'k option" where
  "default_cert ops hosts =
     Option.bind (find (\<lambda>h. certified ops h \<noteq> None \<and> th_is_default h) (rev hosts)) (certified ops)"

lemma put_hosts_named:
  "hm_get (sm_by_name (foldl (put_host ops) sni_map_default hosts)) name = named_cert ops hosts name"
proof (induction hosts rule: rev_induct)
  case (snoc h hosts)
  then show ?case
    by (cases "certified ops h") (auto simp: put_host_def named_cert_def hm.get_insert)
qed (simp add: sni_map_default_def named_cert_def hm.get_empty)

lemma put_hosts_default: "sm_default (foldl (put_host ops) sni_map_default hosts) = default_cert ops hosts"
proof (induction hosts rule: rev_induct)
  case (snoc h hosts)
  then show ?case
    by (cases "certified ops h") (auto simp: put_host_def default_cert_def)
qed (simp add: sni_map_default_def default_cert_def)

lemma put_hosts_wf: "hm_wf (sm_by_name (foldl (put_host ops) sni_map_default hosts))"
  by (induction hosts rule: rev_induct)
    (auto simp: put_host_def sni_map_default_def hm.wf_empty hm.wf_insert split: option.splits)

lemma wildcard_of_Some_iff:
  "wildcard_of domain = Some w \<longleftrightarrow>
     (\<exists>label rest. domain = label @ CHR ''.'' # rest \<and> CHR ''.'' \<notin> set label \<and> rest \<noteq> [] \<and> w = ''*.'' @ rest)"
proof (cases "find_byte CHR ''.'' domain")
  case None
  then have "CHR ''.'' \<notin> set domain" by (simp add: find_byte_None_iff)
  moreover have "wildcard_of domain = None" using None by (simp add: wildcard_of_def split_once_def)
  ultimately show ?thesis by auto
next
  case (Some i)
  then have d: "domain = take i domain @ CHR ''.'' # drop (Suc i) domain" "CHR ''.'' \<notin> set (take i domain)"
    using id_take_nth_drop [of i domain] by (auto simp: find_byte_Some_iff)
  have cut: "rest = drop (Suc i) domain" if "domain = label @ CHR ''.'' # rest" "CHR ''.'' \<notin> set label" for label rest
    using Some find_byte_append_notin [OF that(2), of rest] that(1) by simp
  have w: "wildcard_of domain = (if drop (Suc i) domain = [] then None else Some (''*.'' @ drop (Suc i) domain))"
    using Some by (simp add: wildcard_of_def split_once_def)
  show ?thesis
  proof
    assume "wildcard_of domain = Some w"
    then show "\<exists>label rest. domain = label @ CHR ''.'' # rest \<and> CHR ''.'' \<notin> set label \<and> rest \<noteq> [] \<and> w = ''*.'' @ rest"
      using d unfolding w by (metis option.distinct(1) option.inject)
  next
    assume "\<exists>label rest. domain = label @ CHR ''.'' # rest \<and> CHR ''.'' \<notin> set label \<and> rest \<noteq> [] \<and> w = ''*.'' @ rest"
    then show "wildcard_of domain = Some w" using cut unfolding w by metis
  qed
qed

text \<open>
  Property C13. The lookup of the certificate store, for a resolver that the live listener does not
  have: of the hosts whose PEM pair certifies, the certificate of the last one named as the requested name, read without case; else the last one that is a wildcard over all but
  the first label of the name; else the last default. A host that does not certify changes nothing,
  what was stored before is gone, and the count is that of the names and the default that are set.
\<close>

theorem sni_resolution:
  "let (accepted, m) = store_config ops hosts old in
     sni_resolve m None = default_cert ops hosts \<and>
     sni_resolve m (Some host) =
       (let h = to_ascii_lowercase host in
        case named_cert ops hosts h of
          Some ck \<Rightarrow> Some ck
        | None \<Rightarrow>
            (case Option.bind (wildcard_of h) (named_cert ops hosts) of
               Some ck \<Rightarrow> Some ck
             | None \<Rightarrow> default_cert ops hosts)) \<and>
     store_config ops (filter (\<lambda>h. certified ops h \<noteq> None) hosts) old = (accepted, m) \<and>
     accepted = card {name. named_cert ops hosts name \<noteq> None} + (if default_cert ops hosts \<noteq> None then 1 else 0)"
proof -
  define m where "m = foldl (put_host ops) sni_map_default hosts"
  have st: "store_config ops hosts old = (sni_count m, m)" by (simp add: store_config_def m_def Let_def)
  have n: "hm_get (sm_by_name m) name = named_cert ops hosts name" for name by (simp add: m_def put_hosts_named)
  have d: "sm_default m = default_cert ops hosts" by (simp add: m_def put_hosts_default)
  have "foldl (put_host ops) x (filter (\<lambda>h. certified ops h \<noteq> None) hosts) = foldl (put_host ops) x hosts" for x
    by (induction hosts arbitrary: x) (auto simp: put_host_def)
  then have skip: "store_config ops (filter (\<lambda>h. certified ops h \<noteq> None) hosts) old = (sni_count m, m)"
    by (simp add: store_config_def m_def Let_def)
  have "length (sm_by_name m) = card {name. named_cert ops hosts name \<noteq> None}"
  proof -
    have "distinct (hm_keys (sm_by_name m))" using put_hosts_wf unfolding m_def by (rule hm.keys_distinct)
    then have "card (set (hm_keys (sm_by_name m))) = length (hm_keys (sm_by_name m))" by (rule distinct_card)
    then have "card (set (hm_keys (sm_by_name m))) = length (sm_by_name m)" by (simp add: hm_keys_def)
    moreover have "set (hm_keys (sm_by_name m)) = {name. named_cert ops hosts name \<noteq> None}"
      using hm.keys_get [of _ "sm_by_name m"] by (auto simp: n)
    ultimately show ?thesis by simp
  qed
  then have "sni_count m = card {name. named_cert ops hosts name \<noteq> None} + (if default_cert ops hosts \<noteq> None then 1 else 0)"
    by (simp add: sni_count_def d)
  then show ?thesis
    unfolding st skip
    by (auto simp: sni_resolve_def match_name_def n d Let_def split: option.splits)
qed

text \<open>A wildcard stands for exactly one label.\<close>

lemma wildcard_one_label:
  assumes "match_name host names = Some key" "key \<noteq> to_ascii_lowercase host"
  obtains label rest where "to_ascii_lowercase host = label @ CHR ''.'' # rest" "CHR ''.'' \<notin> set label" "key = ''*.'' @ rest"
  using assms by (auto simp: match_name_def Let_def wildcard_of_Some_iff split: if_splits option.splits)

end
