(* ===== verification/Gateway_Config.thy ===== *)
theory Gateway_Config
  imports Prelude
begin

text \<open>
  The process configuration, \<open>hygress-gateway/src/config.rs\<close>: the environment is a lookup, a duration
  is its number of milliseconds. The log lines the parse writes are its second result, the keys and
  values it could not parse.
\<close>

section \<open>Values\<close>

record gateway_config =
  gc_http_port :: nat
  gc_tls_port :: nat
  gc_gpustack_api_port :: nat
  gc_admin_addr :: string
  gc_admin_token :: "string option"
  gc_jwt_secret_key :: "string option"
  gc_data_dir :: string
  gc_gateway_namespace :: string
  gc_poll_interval :: nat
  gc_pilot_agent_metrics_port :: nat
  gc_topology_b :: bool
  gc_api_ready_timeout :: nat
  gc_snapshot_timeout :: nat
  gc_policy_path :: string
  gc_quota_k :: nat
  gc_guardrail_url :: "string option"
  gc_ext_auth_fail_closed :: bool

definition gateway_config_default :: gateway_config where
  "gateway_config_default =
     \<lparr>gc_http_port = 80, gc_tls_port = 443, gc_gpustack_api_port = 80, gc_admin_addr = ''127.0.0.1:8081'',
      gc_admin_token = None, gc_jwt_secret_key = None, gc_data_dir = [], gc_gateway_namespace = ''higress-system'',
      gc_poll_interval = 1000, gc_pilot_agent_metrics_port = 15020, gc_topology_b = False,
      gc_api_ready_timeout = 30000, gc_snapshot_timeout = 60000, gc_policy_path = ''/etc/hygress/policy.yaml'',
      gc_quota_k = 4, gc_guardrail_url = None, gc_ext_auth_fail_closed = True\<rparr>"

definition clean :: "string option \<Rightarrow> string option" where
  "clean v = Option.bind v (\<lambda>s. if trim s \<noteq> [] then Some (trim s) else None)"

definition parse_bool_env :: "string \<Rightarrow> bool option" where
  "parse_bool_env v =
     (let s = to_ascii_lowercase (trim v) in
      if s \<in> {''1'', ''true'', ''yes'', ''on''} then Some True
      else if s \<in> {''0'', ''false'', ''no'', ''off''} then Some False
      else None)"

definition parse_duration_env :: "string \<Rightarrow> nat option" where
  "parse_duration_env v =
     (let s = to_ascii_lowercase (trim v) in
      case strip_suffix ''ms'' s of
        Some ms \<Rightarrow> parse_uint u64_max ms
      | None \<Rightarrow>
          (case strip_suffix ''s'' s of
             Some secs \<Rightarrow> map_option (\<lambda>n. n * 1000) (parse_uint u64_max secs)
           | None \<Rightarrow> map_option (\<lambda>n. n * 1000) (parse_uint u64_max s)))"

definition parse_fail_mode :: "string \<Rightarrow> bool option" where
  "parse_fail_mode v =
     (let s = to_ascii_lowercase v in if s = ''open'' then Some False else if s = ''closed'' then Some True else None)"

section \<open>The parse\<close>

text \<open>One variable: absent or blank keeps the default, unparsable keeps it and is logged.\<close>

definition env_field ::
  "(string \<Rightarrow> string option) \<Rightarrow> string \<Rightarrow> (string \<Rightarrow> 'a option) \<Rightarrow> 'a \<Rightarrow> 'a \<times> (string \<times> string) list" where
  "env_field get key parse d =
     (case clean (get key) of
        None \<Rightarrow> (d, [])
      | Some v \<Rightarrow> (case parse v of Some x \<Rightarrow> (x, []) | None \<Rightarrow> (d, [(key, v)])))"

definition gateway_config_parse :: "(string \<Rightarrow> string option) \<Rightarrow> gateway_config \<times> (string \<times> string) list" where
  "gateway_config_parse get =
     (let c = gateway_config_default;
          text = (\<lambda>key d. case clean (get key) of Some v \<Rightarrow> v | None \<Rightarrow> d);
          (http_port, w1) = env_field get ''GATEWAY_HTTP_PORT'' (parse_uint u16_max) (gc_http_port c);
          (tls_port, w2) = env_field get ''GATEWAY_TLS_PORT'' (parse_uint u16_max) (gc_tls_port c);
          (api_port, w3) = env_field get ''GPUSTACK_API_PORT'' (parse_uint u16_max) (gc_gpustack_api_port c);
          (poll, w4) = env_field get ''POLL_INTERVAL'' parse_duration_env (gc_poll_interval c);
          (pilot, w5) = env_field get ''GATEWAY_PILOT_AGENT_METRICS_PORT'' (parse_uint u16_max) (gc_pilot_agent_metrics_port c);
          (topology, w6) = env_field get ''HYGRESS_TOPOLOGY_B'' parse_bool_env (gc_topology_b c);
          (ready, w7) = env_field get ''HYGRESS_API_READY_TIMEOUT'' parse_duration_env (gc_api_ready_timeout c);
          (snap, w8) = env_field get ''HYGRESS_SNAPSHOT_TIMEOUT'' parse_duration_env (gc_snapshot_timeout c);
          (quota_k, w9) = env_field get ''HYGRESS_QUOTA_K'' (\<lambda>v. map_option (max 1) (parse_uint u64_max v)) (gc_quota_k c);
          (closed, w10) = env_field get ''HYGRESS_EXT_AUTH_FAIL_MODE'' parse_fail_mode (gc_ext_auth_fail_closed c)
      in (\<lparr>gc_http_port = http_port, gc_tls_port = tls_port, gc_gpustack_api_port = api_port,
           gc_admin_addr = text ''HYGRESS_ADMIN_ADDR'' (gc_admin_addr c),
           gc_admin_token = clean (get ''HYGRESS_ADMIN_TOKEN''),
           gc_jwt_secret_key = clean (get ''GPUSTACK_JWT_SECRET_KEY''),
           gc_data_dir = text ''GPUSTACK_DATA_DIR'' (gc_data_dir c),
           gc_gateway_namespace = text ''GATEWAY_NAMESPACE'' (gc_gateway_namespace c),
           gc_poll_interval = poll, gc_pilot_agent_metrics_port = pilot, gc_topology_b = topology,
           gc_api_ready_timeout = ready, gc_snapshot_timeout = snap,
           gc_policy_path = text ''HYGRESS_POLICY_PATH'' (gc_policy_path c),
           gc_quota_k = quota_k, gc_guardrail_url = clean (get ''HYGRESS_GUARDRAIL_URL''),
           gc_ext_auth_fail_closed = closed\<rparr>,
          w1 @ w2 @ w3 @ w4 @ w5 @ w6 @ w7 @ w8 @ w9 @ w10))"

definition http_bind :: "gateway_config \<Rightarrow> string" where
  "http_bind c = ''0.0.0.0:'' @ dec_of_nat (gc_http_port c)"

section \<open>No silent fallback\<close>

definition numeric_keys :: "string list" where
  "numeric_keys = [''GATEWAY_HTTP_PORT'', ''GATEWAY_TLS_PORT'', ''GPUSTACK_API_PORT'', ''POLL_INTERVAL'',
     ''GATEWAY_PILOT_AGENT_METRICS_PORT'', ''HYGRESS_TOPOLOGY_B'', ''HYGRESS_API_READY_TIMEOUT'',
     ''HYGRESS_SNAPSHOT_TIMEOUT'', ''HYGRESS_QUOTA_K'', ''HYGRESS_EXT_AUTH_FAIL_MODE'']"

text \<open>What a field is: the parsed value, or the default, and in that case absent or reported.\<close>

definition announced ::
  "(string \<Rightarrow> string option) \<Rightarrow> (string \<times> string) list \<Rightarrow> string \<Rightarrow> (string \<Rightarrow> 'a option) \<Rightarrow> 'a \<Rightarrow> 'a \<Rightarrow> bool" where
  "announced get ws key parse d x \<longleftrightarrow>
     (case clean (get key) of
        None \<Rightarrow> x = d
      | Some v \<Rightarrow> (case parse v of Some y \<Rightarrow> x = y | None \<Rightarrow> x = d \<and> (key, v) \<in> set ws))"

lemma env_field_announced:
  "set (snd (env_field get key parse d)) \<subseteq> set ws \<Longrightarrow> announced get ws key parse d (fst (env_field get key parse d))"
  by (auto simp: env_field_def announced_def split: option.splits)

lemma env_field_warning:
  "(k, v) \<in> set (snd (env_field get key parse d)) \<Longrightarrow> k = key \<and> clean (get key) = Some v"
  by (auto simp: env_field_def split: option.splits)

lemma env_field_bound:
  "(\<And>v x. parse v = Some x \<Longrightarrow> P x) \<Longrightarrow> P d \<Longrightarrow> P (fst (env_field get key parse d))"
  by (auto simp: env_field_def split: option.splits)

lemma gateway_config_parse_fields:
  "gc_http_port (fst (gateway_config_parse get)) = fst (env_field get ''GATEWAY_HTTP_PORT'' (parse_uint u16_max) (gc_http_port gateway_config_default))"
  "gc_tls_port (fst (gateway_config_parse get)) = fst (env_field get ''GATEWAY_TLS_PORT'' (parse_uint u16_max) (gc_tls_port gateway_config_default))"
  "gc_gpustack_api_port (fst (gateway_config_parse get)) = fst (env_field get ''GPUSTACK_API_PORT'' (parse_uint u16_max) (gc_gpustack_api_port gateway_config_default))"
  "gc_pilot_agent_metrics_port (fst (gateway_config_parse get)) = fst (env_field get ''GATEWAY_PILOT_AGENT_METRICS_PORT'' (parse_uint u16_max) (gc_pilot_agent_metrics_port gateway_config_default))"
  "gc_poll_interval (fst (gateway_config_parse get)) = fst (env_field get ''POLL_INTERVAL'' parse_duration_env (gc_poll_interval gateway_config_default))"
  "gc_api_ready_timeout (fst (gateway_config_parse get)) = fst (env_field get ''HYGRESS_API_READY_TIMEOUT'' parse_duration_env (gc_api_ready_timeout gateway_config_default))"
  "gc_snapshot_timeout (fst (gateway_config_parse get)) = fst (env_field get ''HYGRESS_SNAPSHOT_TIMEOUT'' parse_duration_env (gc_snapshot_timeout gateway_config_default))"
  "gc_topology_b (fst (gateway_config_parse get)) = fst (env_field get ''HYGRESS_TOPOLOGY_B'' parse_bool_env (gc_topology_b gateway_config_default))"
  "gc_ext_auth_fail_closed (fst (gateway_config_parse get)) = fst (env_field get ''HYGRESS_EXT_AUTH_FAIL_MODE'' parse_fail_mode (gc_ext_auth_fail_closed gateway_config_default))"
  "gc_quota_k (fst (gateway_config_parse get)) = fst (env_field get ''HYGRESS_QUOTA_K'' (\<lambda>v. map_option (max 1) (parse_uint u64_max v)) (gc_quota_k gateway_config_default))"
  by (simp_all add: gateway_config_parse_def Let_def case_prod_beta gateway_config_default_def)

lemma gateway_config_parse_warnings:
  "snd (gateway_config_parse get) =
     snd (env_field get ''GATEWAY_HTTP_PORT'' (parse_uint u16_max) (gc_http_port gateway_config_default)) @
     snd (env_field get ''GATEWAY_TLS_PORT'' (parse_uint u16_max) (gc_tls_port gateway_config_default)) @
     snd (env_field get ''GPUSTACK_API_PORT'' (parse_uint u16_max) (gc_gpustack_api_port gateway_config_default)) @
     snd (env_field get ''POLL_INTERVAL'' parse_duration_env (gc_poll_interval gateway_config_default)) @
     snd (env_field get ''GATEWAY_PILOT_AGENT_METRICS_PORT'' (parse_uint u16_max) (gc_pilot_agent_metrics_port gateway_config_default)) @
     snd (env_field get ''HYGRESS_TOPOLOGY_B'' parse_bool_env (gc_topology_b gateway_config_default)) @
     snd (env_field get ''HYGRESS_API_READY_TIMEOUT'' parse_duration_env (gc_api_ready_timeout gateway_config_default)) @
     snd (env_field get ''HYGRESS_SNAPSHOT_TIMEOUT'' parse_duration_env (gc_snapshot_timeout gateway_config_default)) @
     snd (env_field get ''HYGRESS_QUOTA_K'' (\<lambda>v. map_option (max 1) (parse_uint u64_max v)) (gc_quota_k gateway_config_default)) @
     snd (env_field get ''HYGRESS_EXT_AUTH_FAIL_MODE'' parse_fail_mode (gc_ext_auth_fail_closed gateway_config_default))"
  by (simp add: gateway_config_parse_def Let_def case_prod_beta gateway_config_default_def)

text \<open>
  The environment never silently falls back: every number, duration and mode of the
  configuration is the parse of its variable, or its default while the variable is absent or is
  reported with its value; only set variables are reported; and ports fit 16 bits, the quota divisor
  is between 1 and the 64-bit maximum, whatever the environment holds.
\<close>

theorem env_fallback_announced:
  "let (c, ws) = gateway_config_parse get; d = gateway_config_default in
     announced get ws ''GATEWAY_HTTP_PORT'' (parse_uint u16_max) (gc_http_port d) (gc_http_port c) \<and>
     announced get ws ''GATEWAY_TLS_PORT'' (parse_uint u16_max) (gc_tls_port d) (gc_tls_port c) \<and>
     announced get ws ''GPUSTACK_API_PORT'' (parse_uint u16_max) (gc_gpustack_api_port d) (gc_gpustack_api_port c) \<and>
     announced get ws ''GATEWAY_PILOT_AGENT_METRICS_PORT'' (parse_uint u16_max) (gc_pilot_agent_metrics_port d)
       (gc_pilot_agent_metrics_port c) \<and>
     announced get ws ''POLL_INTERVAL'' parse_duration_env (gc_poll_interval d) (gc_poll_interval c) \<and>
     announced get ws ''HYGRESS_API_READY_TIMEOUT'' parse_duration_env (gc_api_ready_timeout d) (gc_api_ready_timeout c) \<and>
     announced get ws ''HYGRESS_SNAPSHOT_TIMEOUT'' parse_duration_env (gc_snapshot_timeout d) (gc_snapshot_timeout c) \<and>
     announced get ws ''HYGRESS_TOPOLOGY_B'' parse_bool_env (gc_topology_b d) (gc_topology_b c) \<and>
     announced get ws ''HYGRESS_EXT_AUTH_FAIL_MODE'' parse_fail_mode (gc_ext_auth_fail_closed d) (gc_ext_auth_fail_closed c) \<and>
     set ws \<subseteq> {(key, v). key \<in> set numeric_keys \<and> clean (get key) = Some v} \<and>
     list_all (\<lambda>port. port \<le> u16_max) [gc_http_port c, gc_tls_port c, gc_gpustack_api_port c, gc_pilot_agent_metrics_port c] \<and>
     1 \<le> gc_quota_k c \<and> gc_quota_k c \<le> u64_max"
proof -
  have q: "1 \<le> fst (env_field get key (\<lambda>v. map_option (max 1) (parse_uint u64_max v)) 4) \<and>
      fst (env_field get key (\<lambda>v. map_option (max 1) (parse_uint u64_max v)) 4) \<le> u64_max" for key
  proof (rule env_field_bound [where P = "\<lambda>k. 1 \<le> k \<and> k \<le> u64_max"])
    fix v x
    assume "map_option (max 1) (parse_uint u64_max v) = Some x"
    then obtain n where n: "parse_uint u64_max v = Some n" "x = max 1 n" by (cases "parse_uint u64_max v") auto
    have "(1 :: nat) \<le> u64_max" by (simp add: u64_max_def)
    then show "1 \<le> x \<and> x \<le> u64_max" using parse_uint_le [OF n(1)] n(2) by simp
  next
    show "1 \<le> (4 :: nat) \<and> 4 \<le> u64_max" by (simp add: u64_max_def)
  qed
  have p: "fst (env_field get key (parse_uint u16_max) d) \<le> u16_max" if "d \<le> u16_max" for key d
    by (rule env_field_bound [where P = "\<lambda>k. k \<le> u16_max"]) (use that parse_uint_le in blast)+
  have u: "(80::nat) \<le> u16_max" "(443::nat) \<le> u16_max" "(15020::nat) \<le> u16_max" by (simp_all add: u16_max_def)
  define ws where "ws = snd (gateway_config_parse get)"
  have only: "set ws \<subseteq> {(key, v). key \<in> set numeric_keys \<and> clean (get key) = Some v}"
    unfolding ws_def gateway_config_parse_warnings numeric_keys_def by (auto dest!: env_field_warning)
  note ws = ws_def [unfolded gateway_config_parse_warnings]
  have ports: "list_all (\<lambda>port. port \<le> u16_max) [gc_http_port (fst (gateway_config_parse get)),
      gc_tls_port (fst (gateway_config_parse get)), gc_gpustack_api_port (fst (gateway_config_parse get)),
      gc_pilot_agent_metrics_port (fst (gateway_config_parse get))]"
    unfolding gateway_config_parse_fields using u by (simp add: p gateway_config_default_def)
  have k: "1 \<le> gc_quota_k (fst (gateway_config_parse get)) \<and> gc_quota_k (fst (gateway_config_parse get)) \<le> u64_max"
    unfolding gateway_config_parse_fields using q by (simp add: gateway_config_default_def)
  have sub: "set (snd (env_field get ''GATEWAY_HTTP_PORT'' (parse_uint u16_max) (gc_http_port gateway_config_default))) \<subseteq> set ws"
    "set (snd (env_field get ''GATEWAY_TLS_PORT'' (parse_uint u16_max) (gc_tls_port gateway_config_default))) \<subseteq> set ws"
    "set (snd (env_field get ''GPUSTACK_API_PORT'' (parse_uint u16_max) (gc_gpustack_api_port gateway_config_default))) \<subseteq> set ws"
    "set (snd (env_field get ''GATEWAY_PILOT_AGENT_METRICS_PORT'' (parse_uint u16_max) (gc_pilot_agent_metrics_port gateway_config_default))) \<subseteq> set ws"
    "set (snd (env_field get ''POLL_INTERVAL'' parse_duration_env (gc_poll_interval gateway_config_default))) \<subseteq> set ws"
    "set (snd (env_field get ''HYGRESS_API_READY_TIMEOUT'' parse_duration_env (gc_api_ready_timeout gateway_config_default))) \<subseteq> set ws"
    "set (snd (env_field get ''HYGRESS_SNAPSHOT_TIMEOUT'' parse_duration_env (gc_snapshot_timeout gateway_config_default))) \<subseteq> set ws"
    "set (snd (env_field get ''HYGRESS_TOPOLOGY_B'' parse_bool_env (gc_topology_b gateway_config_default))) \<subseteq> set ws"
    "set (snd (env_field get ''HYGRESS_EXT_AUTH_FAIL_MODE'' parse_fail_mode (gc_ext_auth_fail_closed gateway_config_default))) \<subseteq> set ws"
    unfolding ws set_append by blast+
  show ?thesis
    unfolding Let_def case_prod_beta ws_def [symmetric]
    using sub [THEN env_field_announced, folded gateway_config_parse_fields] only [unfolded case_prod_beta] ports
      k [THEN conjunct1] k [THEN conjunct2]
    by (intro conjI)
qed

section \<open>Round trip\<close>

text \<open>The environment that spells a configuration out.\<close>

definition env_of :: "gateway_config \<Rightarrow> string \<Rightarrow> string option" where
  "env_of c = map_of
     ([(''GATEWAY_HTTP_PORT'', dec_of_nat (gc_http_port c)), (''GATEWAY_TLS_PORT'', dec_of_nat (gc_tls_port c)),
       (''GPUSTACK_API_PORT'', dec_of_nat (gc_gpustack_api_port c)), (''HYGRESS_ADMIN_ADDR'', gc_admin_addr c),
       (''GPUSTACK_DATA_DIR'', gc_data_dir c), (''GATEWAY_NAMESPACE'', gc_gateway_namespace c),
       (''POLL_INTERVAL'', dec_of_nat (gc_poll_interval c) @ ''ms''),
       (''GATEWAY_PILOT_AGENT_METRICS_PORT'', dec_of_nat (gc_pilot_agent_metrics_port c)),
       (''HYGRESS_TOPOLOGY_B'', if gc_topology_b c then ''true'' else ''false''),
       (''HYGRESS_API_READY_TIMEOUT'', dec_of_nat (gc_api_ready_timeout c) @ ''ms''),
       (''HYGRESS_SNAPSHOT_TIMEOUT'', dec_of_nat (gc_snapshot_timeout c) @ ''ms''),
       (''HYGRESS_POLICY_PATH'', gc_policy_path c), (''HYGRESS_QUOTA_K'', dec_of_nat (gc_quota_k c)),
       (''HYGRESS_EXT_AUTH_FAIL_MODE'', if gc_ext_auth_fail_closed c then ''closed'' else ''open'')] @
      (case gc_admin_token c of Some t \<Rightarrow> [(''HYGRESS_ADMIN_TOKEN'', t)] | None \<Rightarrow> []) @
      (case gc_jwt_secret_key c of Some t \<Rightarrow> [(''GPUSTACK_JWT_SECRET_KEY'', t)] | None \<Rightarrow> []) @
      (case gc_guardrail_url c of Some t \<Rightarrow> [(''HYGRESS_GUARDRAIL_URL'', t)] | None \<Rightarrow> []))"

definition text_clean :: "string \<Rightarrow> bool" where
  "text_clean s \<longleftrightarrow> s \<noteq> [] \<and> trim s = s"

definition gateway_config_ok :: "gateway_config \<Rightarrow> bool" where
  "gateway_config_ok c \<longleftrightarrow>
     gc_http_port c \<le> u16_max \<and> gc_tls_port c \<le> u16_max \<and> gc_gpustack_api_port c \<le> u16_max \<and>
     gc_pilot_agent_metrics_port c \<le> u16_max \<and> gc_poll_interval c \<le> u64_max \<and> gc_api_ready_timeout c \<le> u64_max \<and>
     gc_snapshot_timeout c \<le> u64_max \<and> 1 \<le> gc_quota_k c \<and> gc_quota_k c \<le> u64_max \<and>
     text_clean (gc_admin_addr c) \<and> text_clean (gc_gateway_namespace c) \<and> text_clean (gc_policy_path c) \<and>
     (gc_data_dir c = [] \<or> text_clean (gc_data_dir c)) \<and>
     pred_option text_clean (gc_admin_token c) \<and> pred_option text_clean (gc_jwt_secret_key c) \<and>
     pred_option text_clean (gc_guardrail_url c)"

lemma clean_none: "clean None = None"
  by (simp add: clean_def)

lemma clean_nil: "clean (Some []) = None"
  by (simp add: clean_def trim_plain)

lemma clean_text: "text_clean s \<Longrightarrow> clean (Some s) = Some s"
  by (simp add: clean_def text_clean_def)

lemma digit_plain: "is_ascii_digit c \<Longrightarrow> plain_byte c"
  by (auto simp: is_ascii_digit_def plain_byte_def Let_def)

lemma dec_edges: "is_ascii_digit (hd (dec_of_nat n)) \<and> is_ascii_digit (last (dec_of_nat n))"
  using dec_of_nat_digits [of n] by simp

lemma dec_clean: "text_clean (dec_of_nat n)" and dec_ms_clean: "text_clean (dec_of_nat n @ ''ms'')"
proof -
  have m: "plain_byte CHR ''s''" by (simp add: plain_byte_def)
  show "text_clean (dec_of_nat n)" using dec_edges [of n] digit_plain by (auto simp: text_clean_def intro!: trim_plain)
  show "text_clean (dec_of_nat n @ ''ms'')"
    using dec_edges [of n] digit_plain m by (auto simp: text_clean_def hd_append intro!: trim_plain)
qed

lemma word_clean: "text_clean ''true''" "text_clean ''false''" "text_clean ''open''" "text_clean ''closed''"
  by code_simp+

lemma words_parsed:
  "parse_bool_env ''true'' = Some True" "parse_bool_env ''false'' = Some False"
  "parse_fail_mode ''closed'' = Some True" "parse_fail_mode ''open'' = Some False"
  by code_simp+

lemma parse_duration_ms: "n \<le> u64_max \<Longrightarrow> parse_duration_env (dec_of_nat n @ ''ms'') = Some n"
proof -
  have l: "to_ascii_lowercase (dec_of_nat n @ ''ms'') = dec_of_nat n @ ''ms''"
    using lower_dec [of n] by (simp add: to_ascii_lowercase_def) code_simp
  show "n \<le> u64_max \<Longrightarrow> parse_duration_env (dec_of_nat n @ ''ms'') = Some n"
    using dec_ms_clean [of n]
    by (simp add: parse_duration_env_def Let_def text_clean_def l strip_suffix_def ends_with_def parse_uint_dec)
qed

lemma env_field_parsed:
  "get key = Some s \<Longrightarrow> text_clean s \<Longrightarrow> parse s = Some x \<Longrightarrow> env_field get key parse d = (x, [])"
  by (simp add: env_field_def clean_text)

lemma env_lookups:
  "env_of c ''GATEWAY_HTTP_PORT'' = Some (dec_of_nat (gc_http_port c))"
  "env_of c ''GATEWAY_TLS_PORT'' = Some (dec_of_nat (gc_tls_port c))"
  "env_of c ''GPUSTACK_API_PORT'' = Some (dec_of_nat (gc_gpustack_api_port c))"
  "env_of c ''HYGRESS_ADMIN_ADDR'' = Some (gc_admin_addr c)"
  "env_of c ''GPUSTACK_DATA_DIR'' = Some (gc_data_dir c)"
  "env_of c ''GATEWAY_NAMESPACE'' = Some (gc_gateway_namespace c)"
  "env_of c ''POLL_INTERVAL'' = Some (dec_of_nat (gc_poll_interval c) @ ''ms'')"
  "env_of c ''GATEWAY_PILOT_AGENT_METRICS_PORT'' = Some (dec_of_nat (gc_pilot_agent_metrics_port c))"
  "env_of c ''HYGRESS_TOPOLOGY_B'' = Some (if gc_topology_b c then ''true'' else ''false'')"
  "env_of c ''HYGRESS_API_READY_TIMEOUT'' = Some (dec_of_nat (gc_api_ready_timeout c) @ ''ms'')"
  "env_of c ''HYGRESS_SNAPSHOT_TIMEOUT'' = Some (dec_of_nat (gc_snapshot_timeout c) @ ''ms'')"
  "env_of c ''HYGRESS_POLICY_PATH'' = Some (gc_policy_path c)"
  "env_of c ''HYGRESS_QUOTA_K'' = Some (dec_of_nat (gc_quota_k c))"
  "env_of c ''HYGRESS_EXT_AUTH_FAIL_MODE'' = Some (if gc_ext_auth_fail_closed c then ''closed'' else ''open'')"
  "env_of c ''HYGRESS_ADMIN_TOKEN'' = gc_admin_token c"
  "env_of c ''GPUSTACK_JWT_SECRET_KEY'' = gc_jwt_secret_key c"
  "env_of c ''HYGRESS_GUARDRAIL_URL'' = gc_guardrail_url c"
  by (simp_all add: env_of_def split: option.splits)

text \<open>
  Property C14. Every configuration within its widths whose texts have no outer white space can be
  spelled out in the environment: parsing what spells it out gives it back and reports nothing.
\<close>

theorem env_roundtrip:
  assumes "gateway_config_ok c" shows "gateway_config_parse (env_of c) = (c, [])"
proof -
  have port: "env_field (env_of c) key (parse_uint u16_max) d = (n, [])"
    if "env_of c key = Some (dec_of_nat n)" "n \<le> u16_max" for key d n
    using that dec_clean by (intro env_field_parsed) (auto simp: parse_uint_dec)
  have dur: "env_field (env_of c) key parse_duration_env d = (n, [])"
    if "env_of c key = Some (dec_of_nat n @ ''ms'')" "n \<le> u64_max" for key d n
    using that dec_ms_clean by (intro env_field_parsed) (auto simp: parse_duration_ms)
  have opt: "clean v = v" if "pred_option text_clean v" for v
    using that clean_text by (cases v) (simp_all add: clean_none)
  have "env_field (env_of c) ''HYGRESS_TOPOLOGY_B'' parse_bool_env d = (gc_topology_b c, [])" for d
    using word_clean words_parsed by (cases "gc_topology_b c") (auto intro!: env_field_parsed simp: env_lookups)
  moreover have "env_field (env_of c) ''HYGRESS_EXT_AUTH_FAIL_MODE'' parse_fail_mode d = (gc_ext_auth_fail_closed c, [])" for d
    using word_clean words_parsed by (cases "gc_ext_auth_fail_closed c") (auto intro!: env_field_parsed simp: env_lookups)
  moreover have "env_field (env_of c) ''HYGRESS_QUOTA_K'' (\<lambda>v. map_option (max 1) (parse_uint u64_max v)) d = (gc_quota_k c, [])" for d
    using assms dec_clean by (intro env_field_parsed) (auto simp: env_lookups gateway_config_ok_def parse_uint_dec)
  moreover have "(case clean (Some (gc_data_dir c)) of Some v \<Rightarrow> v | None \<Rightarrow> gc_data_dir gateway_config_default) = gc_data_dir c"
  proof (cases "gc_data_dir c = []")
    case True
    then show ?thesis using clean_nil by (simp add: gateway_config_default_def)
  next
    case False
    then show ?thesis using assms clean_text unfolding gateway_config_ok_def by simp
  qed
  moreover have "clean (Some (gc_admin_addr c)) = Some (gc_admin_addr c)" "clean (Some (gc_policy_path c)) = Some (gc_policy_path c)"
    "clean (Some (gc_gateway_namespace c)) = Some (gc_gateway_namespace c)"
    "clean (gc_admin_token c) = gc_admin_token c" "clean (gc_jwt_secret_key c) = gc_jwt_secret_key c"
    "clean (gc_guardrail_url c) = gc_guardrail_url c"
    using assms clean_text opt unfolding gateway_config_ok_def by blast+
  ultimately show ?thesis
    using assms port dur unfolding gateway_config_ok_def
    by (simp add: gateway_config_parse_def Let_def env_lookups)
qed

definition spelled_config :: gateway_config where
  "spelled_config = gateway_config_default\<lparr>gc_http_port := 9000, gc_admin_token := Some ''secret'', gc_poll_interval := 2500,
     gc_data_dir := ''/data'', gc_ext_auth_fail_closed := False\<rparr>"

theorem env_roundtrip_witness: "gateway_config_parse (env_of spelled_config) = (spelled_config, [])"
proof (rule env_roundtrip)
  have "text_clean ''secret''" "text_clean ''/data''" "text_clean ''127.0.0.1:8081''" "text_clean ''higress-system''"
    "text_clean ''/etc/hygress/policy.yaml''" by code_simp+
  then show "gateway_config_ok spelled_config"
    by (simp add: gateway_config_ok_def spelled_config_def gateway_config_default_def u16_max_def u64_max_def)
qed

end
