(* ===== verification/Bootstrap.thy ===== *)
theory Bootstrap
  imports Watch Metrics Admin Sni Gateway_Config Translate_Demo Egress Ratelimit Quota
begin

text \<open>
  The start of the process and its background tasks, \<open>hygress-gateway/src/bootstrap.rs\<close>: the order
  in which a start gates on its preconditions before a port is bound, the rotation
  watcher and the 30-second task.

  What the machine answers is the record \<open>startup_env\<close>: which connection attempt succeeds, the clock
  after each attempt in milliseconds, the policy file, the key file, the passes the control loop runs before the
  snapshot timeout, and the outcomes of writing and of binding the TLS material.
\<close>

section \<open>Files and certificates\<close>

definition resolve_kubeconfig :: "string option \<Rightarrow> (string \<Rightarrow> bool) \<Rightarrow> gateway_config \<Rightarrow> string option" where
  "resolve_kubeconfig env is_file c =
     (let fallback = path_join (path_join (gc_data_dir c) ''higress'') ''kubeconfig''
      in case clean env of
           Some kc \<Rightarrow> Some kc
         | None \<Rightarrow> if is_file fallback then Some fallback else None)"

definition worker_threads :: "nat option \<Rightarrow> nat" where
  "worker_threads available = min 32 (max 2 (case available of Some n \<Rightarrow> n | None \<Rightarrow> 8))"

text \<open>The host whose PEM pair the listener serves.\<close>

definition default_tls_host :: "tls_host list \<Rightarrow> tls_host option" where
  "default_tls_host hosts =
     or_else (find th_is_default hosts) (case hosts of [] \<Rightarrow> None | h # _ \<Rightarrow> Some h)"

definition tls_fingerprint :: "(bytes \<Rightarrow> string) \<Rightarrow> tls_host list \<Rightarrow> string" where
  "tls_fingerprint sha hosts =
     sha (concat (map (\<lambda>h. th_host h @ th_cert_pem h @ th_key_pem h) (sort_key th_host hosts)))"

text \<open>A tick of the rotation watcher: the fingerprint, what is counted, the PEM pair rewritten.\<close>

definition rotation_tick ::
  "(bytes \<Rightarrow> string) \<Rightarrow> string \<Rightarrow> tls_host list \<Rightarrow> string \<times> signal list \<times> tls_host option" where
  "rotation_tick sha seen hosts =
     (let fp = tls_fingerprint sha hosts
      in if fp = seen then (seen, [], None)
         else (fp, [TlsChanged, TlsRestartRequired], default_tls_host hosts))"

text \<open>A tick of the 30-second task.\<close>

definition idle_ms :: nat where "idle_ms = 300000"

definition duty_tick ::
  "'r regex_engine \<Rightarrow> (bytes \<Rightarrow> string + policy_config) \<Rightarrow> nat option \<Rightarrow> file_view \<Rightarrow> nat
     \<Rightarrow> 'r policy_handle \<times> quota_engine \<times> rate_table \<Rightarrow> 'r policy_handle \<times> quota_engine \<times> rate_table" where
  "duty_tick rx parse_yaml mtime fv now = (\<lambda>(policy, quota, buckets).
     (snd (policy_poll rx parse_yaml mtime fv policy), snd (quota_evict_idle now idle_ms quota),
      snd (ratelimit_evict now idle_ms buckets)))"

section \<open>The state of the process\<close>

record ('re, 'r) data_state =
  ds_config :: gateway_config
  ds_shared :: "'re shared_config"
  ds_policy :: "'r policy_handle"

text \<open>\<open>DataState::new\<close>; the metrics start empty (\<open>metrics_new\<close>) and so does the certificate table.\<close>

definition data_state_new ::
  "'re path_engine \<Rightarrow> 'r regex_engine \<Rightarrow> (bytes \<Rightarrow> string + policy_config) \<Rightarrow> file_view \<Rightarrow> gateway_config \<Rightarrow> config_data
     \<Rightarrow> validation_error list + ('re, 'r) data_state" where
  "data_state_new rx prx parse_yaml fv c data =
     (case shared_new rx data of
        Inl issues \<Rightarrow> Inl issues
      | Inr sc \<Rightarrow> Inr \<lparr>ds_config = c, ds_shared = sc, ds_policy = policy_handle_new prx parse_yaml (gc_policy_path c) fv\<rparr>)"

text \<open>The reload with the observer the state wires to it: every attempt is a signal to the metrics.\<close>

definition observed_reload ::
  "'r regex_engine \<Rightarrow> (bytes \<Rightarrow> string + policy_config) \<Rightarrow> file_view \<Rightarrow> 'r policy_handle \<times> signal list
     \<Rightarrow> bool \<times> 'r policy_handle \<times> signal list" where
  "observed_reload prx parse_yaml fv = (\<lambda>(policy, signals).
     (case policy_reload prx parse_yaml fv policy of (ok, policy') \<Rightarrow> (ok, policy', signals @ [PolicyReloaded ok])))"

definition admin_state_of ::
  "'r regex_engine \<Rightarrow> (bytes \<Rightarrow> string + policy_config) \<Rightarrow> file_view \<Rightarrow> string \<Rightarrow> ('re, 'r) data_state
     \<Rightarrow> ('re, 'r policy_handle \<times> signal list) admin_state" where
  "admin_state_of prx parse_yaml fv metrics ds =
     \<lparr>ad_metrics = metrics, ad_token = gc_admin_token (ds_config ds),
      ad_reloader = Some (observed_reload prx parse_yaml fv), ad_shared = Some (ds_shared ds)\<rparr>"

text \<open>
  An authorised reload through the wired state: one signal with its outcome, the status says it, and
  after a failed one the policy in force is the last good one.
\<close>

lemma wired_reload:
  assumes "authorized (admin_state_of prx parse_yaml fv metrics ds) headers"
  shows "case admin_route ops (admin_state_of prx parse_yaml fv metrics ds) ''POST'' ''/reload'' headers (policy, signals) of
    (r, policy', signals') \<Rightarrow> \<exists>ok. signals' = signals @ [PolicyReloaded ok] \<and> ar_status r = (if ok then 200 else 500) \<and>
      (\<not> ok \<longrightarrow> ph_state policy' = ph_state policy)"
proof -
  obtain ok policy' where r: "policy_reload prx parse_yaml fv policy = (ok, policy')" by fastforce
  have "\<not> ok \<Longrightarrow> ph_state policy' = ph_state policy"
    using policy_lkg.rejected_keeps [of prx parse_yaml fv policy] by (simp add: r)
  then show ?thesis
    using assms r
    by (cases ok) (auto simp: admin_route_def reload_response_def admin_state_of_def observed_reload_def admin_json_def)
qed

text \<open>\<open>resolve_gateway_credentials\<close>: the key is resolved and only the token derived from it is kept.\<close>

definition resolve_gateway_credentials ::
  "(bytes \<Rightarrow> bytes \<Rightarrow> bytes) \<Rightarrow> string option \<Rightarrow> string \<Rightarrow> bytes option \<Rightarrow> egress_error + string" where
  "resolve_gateway_credentials hmac jwt_env data_dir file =
     (case resolve_jwt_key jwt_env data_dir file of Inl e \<Rightarrow> Inl e | Inr key \<Rightarrow> Inr (derive_gateway_token hmac key))"

section \<open>The start\<close>

datatype listener = AdminListener string | StatsListener string | HttpListener string | TlsListener string tls_host

datatype startup_error =
    SnapshotRejected | NotReachable nat | KeyUnresolved egress_error | ControlPlaneInit string | NoFirstSnapshot | TlsBind string

record ('re, 'y, 'c, 'p, 'k, 'r) startup_env =
  su_rx :: "'re path_engine"
  su_reach :: "nat \<Rightarrow> bool"
  su_clock :: "nat \<Rightarrow> nat"
  su_started :: nat
  su_policy_rx :: "'r regex_engine"
  su_policy_parse :: "bytes \<Rightarrow> string + policy_config"
  su_policy_file :: file_view
  su_hmac :: "bytes \<Rightarrow> bytes \<Rightarrow> bytes"
  su_key_file :: "bytes option"
  su_mirror_env :: "string option"
  su_b64 :: "string \<Rightarrow> bytes option"
  su_yaml :: "'y yaml_ops"
  su_passes :: "'re control_event list"
  su_pem_written :: "tls_host \<Rightarrow> bool"
  su_tls_bound :: "string + unit"
  su_tls :: "('c, 'p, 'k) tls_ops"

definition tls_address :: "gateway_config \<Rightarrow> string" where
  "tls_address c = ''0.0.0.0:'' @ dec_of_nat (gc_tls_port c)"

definition build_server :: "gateway_config \<Rightarrow> listener list" where
  "build_server c = [AdminListener (gc_admin_addr c), StatsListener (''0.0.0.0:'' @ dec_of_nat (gc_pilot_agent_metrics_port c))]"

text \<open>
  The listeners of the data plane and the certificate table after the attachment. A TLS listener
  carries the host whose PEM pair it presents: it presents that pair to every client, whatever name
  the client asks for, because nothing asks the table.
\<close>

definition attach_data_plane ::
  "('re, 'y, 'c, 'p, 'k, 'r) startup_env \<Rightarrow> gateway_config \<Rightarrow> tls_host list \<Rightarrow> 'k sni_map \<Rightarrow> startup_error + listener list \<times> 'k sni_map" where
  "attach_data_plane su c hosts sni =
     (case default_tls_host hosts of
        None \<Rightarrow> Inr ([HttpListener (http_bind c)], sni)
      | Some h \<Rightarrow>
          (let sni' = snd (store_config (su_tls su) hosts sni)
           in if su_pem_written su h then
                (case su_tls_bound su of
                   Inl e \<Rightarrow> Inl (TlsBind e)
                 | Inr _ \<Rightarrow> Inr ([HttpListener (http_bind c), TlsListener (tls_address c) h], sni'))
              else Inr ([HttpListener (http_bind c)], sni')))"

record ('re, 'k, 'r) gateway_server =
  gs_listeners :: "listener list"
  gs_controller :: "'re controller"
  gs_sni :: "'k sni_map"
  gs_token :: string
  gs_policy :: "'r policy_handle"

text \<open>The control loop up to the snapshot timeout, and the wait for its ready signal.\<close>

definition first_snapshot ::
  "('re, 'y, 'c, 'p, 'k, 'r) startup_env \<Rightarrow> gateway_config \<Rightarrow> 're shared_config \<Rightarrow> startup_error + 're controller" where
  "first_snapshot su c sc =
     (case controller_create sc (gc_gateway_namespace c) ''higress'' (gc_poll_interval c) (su_mirror_env su) of
        Inl e \<Rightarrow> Inl (ControlPlaneInit e)
      | Inr (ct, mirror) \<Rightarrow>
          (let ct = control_run (su_rx su)
             \<lparr>ce_b64 = su_b64 su, ce_yaml = su_yaml su, ce_namespace = gc_gateway_namespace c, ce_mirror = mirror\<rparr> (su_passes su) ct
           in if ReadyNotified \<in> set (ct_hooks ct) then Inr ct else Inl NoFirstSnapshot))"

definition startup :: "('re, 'y, 'c, 'p, 'k, 'r) startup_env \<Rightarrow> gateway_config \<Rightarrow> (startup_error + ('re, 'k, 'r) gateway_server) option" where
  "startup su c =
     (case data_state_new (su_rx su) (su_policy_rx su) (su_policy_parse su) (su_policy_file su) c config_empty of
        Inl _ \<Rightarrow> Some (Inl SnapshotRejected)
      | Inr ds \<Rightarrow>
          Option.bind (readiness_wait (su_reach su) (su_clock su) (su_started su) (gc_api_ready_timeout c)) (\<lambda>probe. Some (
            case probe of
              Inl n \<Rightarrow> Inl (NotReachable n)
            | Inr _ \<Rightarrow>
                (case resolve_gateway_credentials (su_hmac su) (gc_jwt_secret_key c) (gc_data_dir c) (su_key_file su) of
                   Inl e \<Rightarrow> Inl (KeyUnresolved e)
                 | Inr token \<Rightarrow>
                     (case first_snapshot su c (ds_shared ds) of
                        Inl e \<Rightarrow> Inl e
                      | Inr ct \<Rightarrow>
                          (case attach_data_plane su c (cd_tls (shared_load (ct_shared ct))) sni_map_default of
                             Inl e \<Rightarrow> Inl e
                           | Inr (ls, sni) \<Rightarrow>
                               Inr \<lparr>gs_listeners = build_server c @ ls, gs_controller = ct, gs_sni = sni, gs_token = token,
                                    gs_policy = ds_policy ds\<rparr>))))))"

section \<open>What a started gateway has\<close>

lemma sync_once_stored:
  "SnapshotStored \<in> set (ct_hooks (sync_once rx ce (Inr ls) c)) \<longleftrightarrow>
     SnapshotStored \<in> set (ct_hooks c) \<or>
     (\<not> skipped ce ls c \<and> (\<exists>t. table_rebuild rx (fst (sanitize (translate_listing ce ls))) = Inr t))"
  using shared_store_load(2) [of rx "translate_listing ce ls" "ct_shared c"]
  by (auto simp: sync_once_def build_snapshot_def skipped_def Let_def call_hook_def pass_failed_def
      split: sum.splits prod.splits)

lemma control_run_stored:
  "SnapshotStored \<in> set (ct_hooks (control_run rx ce es (controller_new sc))) \<longleftrightarrow>
     (\<exists>ls \<in> set (listings es). \<exists>t. table_rebuild rx (fst (sanitize (translate_listing ce ls))) = Inr t)"
  "ct_fingerprint (control_run rx ce es (controller_new sc)) \<noteq> None \<longleftrightarrow>
     SnapshotStored \<in> set (ct_hooks (control_run rx ce es (controller_new sc)))"
proof (induction es rule: rev_induct)
  case Nil
  case 1 then show ?case by (simp add: control_run_def controller_new_def)
  case 2 then show ?case by (simp add: control_run_def controller_new_def)
next
  case (snoc e es)
  let ?c = "control_run rx ce es (controller_new sc)"
  have run: "control_run rx ce (es @ [e]) (controller_new sc) = control_step rx ce e ?c" by (simp add: control_run_def)
  have skip: "skipped ce ls ?c \<Longrightarrow> SnapshotStored \<in> set (ct_hooks ?c)" for ls
    unfolding snoc(2) [symmetric] by (auto simp: skipped_def Let_def)
  have failed: "SnapshotStored \<in> set (ct_hooks (sync_once rx ce (Inl a) ?c)) \<longleftrightarrow> SnapshotStored \<in> set (ct_hooks ?c)" for a
    by (simp add: sync_once_def build_snapshot_def pass_failed_def call_hook_def)
  have fp: "ct_fingerprint (sync_once rx ce (Inr ls) ?c) \<noteq> None \<longleftrightarrow>
      ct_fingerprint ?c \<noteq> None \<or> (\<not> skipped ce ls ?c \<and> (\<exists>t. table_rebuild rx (fst (sanitize (translate_listing ce ls))) = Inr t))" for ls
    unfolding sync_once_result(2) by (auto split: sum.splits)
  note IH = snoc
  case 1 show ?case
  proof (cases "(rx, ce, e, ?c)" rule: control_step.cases)
    case (1 _ _ answer _)
    show ?thesis
    proof (cases answer)
      case (Inr ls)
      have "listings (es @ [e]) = listings es @ [ls]" using 1 Inr by (simp add: listings_append)
      then show ?thesis unfolding run using IH(1) skip 1 Inr by (simp add: sync_once_stored) blast
    next
      case (Inl a)
      have "listings (es @ [e]) = listings es" using 1 Inl by (simp add: listings_append)
      then show ?thesis unfolding run using IH(1) 1 Inl failed by simp
    qed
  next
    case (2 _ _ t i _)
    then show ?thesis unfolding run using IH(1) by (simp add: listings_append)
  qed
  case 2 show ?case
  proof (cases "(rx, ce, e, ?c)" rule: control_step.cases)
    case (1 _ _ answer _)
    then have r: "control_run rx ce (es @ [e]) (controller_new sc) = sync_once rx ce answer ?c" unfolding run by simp
    show ?thesis
    proof (cases answer)
      case (Inl a)
      show ?thesis unfolding r Inl sync_once_result(4) failed by (rule IH(2))
    next
      case (Inr ls)
      show ?thesis unfolding r Inr fp sync_once_stored IH(2) ..
    qed
  next
    case (2 _ _ t i _)
    then show ?thesis unfolding run using IH(2) by simp
  qed
qed

lemma ready_iff_stored:
  "ReadyNotified \<in> set (ct_hooks (control_run rx ce es (controller_new sc))) \<longleftrightarrow>
     SnapshotStored \<in> set (ct_hooks (control_run rx ce es (controller_new sc)))"
proof -
  let ?hs = "ct_hooks (control_run rx ce es (controller_new sc))"
  have "ReadyNotified \<in> set ?hs \<longleftrightarrow> count_list ?hs ReadyNotified \<noteq> 0" by (simp add: count_list_0_iff)
  then show ?thesis using control_run_hooks [of rx ce es sc] by (simp add: hooks_inv_def)
qed

definition control_of :: "('re, 'y, 'c, 'p, 'k, 'r) startup_env \<Rightarrow> gateway_config \<Rightarrow> 'y control_env" where
  "control_of su c =
     \<lparr>ce_b64 = su_b64 su, ce_yaml = su_yaml su, ce_namespace = gc_gateway_namespace c,
      ce_mirror = (case su_mirror_env su of Some s \<Rightarrow> if trim s \<noteq> [] then s else mirror_name_default | None \<Rightarrow> mirror_name_default)\<rparr>"

definition stores :: "('re, 'y, 'c, 'p, 'k, 'r) startup_env \<Rightarrow> gateway_config \<Rightarrow> listing \<Rightarrow> bool" where
  "stores su c ls \<longleftrightarrow> (\<exists>t. table_rebuild (su_rx su) (fst (sanitize (translate_listing (control_of su c) ls))) = Inr t)"

lemma controller_create_refuses:
  "controller_create sc ns ''higress'' poll mirror = Inl m \<longleftrightarrow>
     (trim ns = [] \<and> m = ''gateway_namespace must be non-empty'' \<or>
      trim ns \<noteq> [] \<and> poll = 0 \<and> m = ''poll_interval must be > 0'')"
proof -
  have "trim ''higress'' \<noteq> []" by code_simp
  then show ?thesis by (auto simp: controller_create_def)
qed

lemma first_snapshot_cases:
  "case first_snapshot su c sc of
     Inr ct \<Rightarrow> trim (gc_gateway_namespace c) \<noteq> [] \<and> gc_poll_interval c \<noteq> 0 \<and>
       (\<exists>ls \<in> set (listings (su_passes su)). shared_load (ct_shared ct) = fst (sanitize (translate_listing (control_of su c) ls))) \<and>
       (\<exists>ls \<in> set (listings (su_passes su)). stores su c ls)
   | Inl e \<Rightarrow>
       (\<exists>m. e = ControlPlaneInit m \<and> controller_create sc (gc_gateway_namespace c) ''higress'' (gc_poll_interval c) (su_mirror_env su) = Inl m) \<or>
       e = NoFirstSnapshot \<and> trim (gc_gateway_namespace c) \<noteq> [] \<and> gc_poll_interval c \<noteq> 0 \<and>
         (\<forall>ls \<in> set (listings (su_passes su)). \<not> stores su c ls)"
proof (cases "controller_create sc (gc_gateway_namespace c) ''higress'' (gc_poll_interval c) (su_mirror_env su)")
  case (Inl e)
  then show ?thesis by (simp add: first_snapshot_def)
next
  case (Inr p)
  let ?ct = "control_run (su_rx su) (control_of su c) (su_passes su) (controller_new sc)"
  have fs: "first_snapshot su c sc = (if ReadyNotified \<in> set (ct_hooks ?ct) then Inr ?ct else Inl NoFirstSnapshot)"
    using Inr by (auto simp: first_snapshot_def controller_create_def control_of_def Let_def split: if_splits)
  have ok: "trim (gc_gateway_namespace c) \<noteq> []" "gc_poll_interval c \<noteq> 0"
    using Inr by (auto simp: controller_create_def split: if_splits)
  have inv: "control_inv (control_of su c) (listings (su_passes su)) ?ct" by (rule control_run_inv)
  show ?thesis
  proof (cases "ReadyNotified \<in> set (ct_hooks ?ct)")
    case True
    then have "ct_fingerprint ?ct \<noteq> None" unfolding ready_iff_stored control_run_stored(2) .
    moreover have "\<exists>ls \<in> set (listings (su_passes su)). stores su c ls"
      using True unfolding ready_iff_stored control_run_stored(1) stores_def .
    ultimately show ?thesis using inv True ok by (auto simp: fs control_inv_def)
  next
    case False
    then have "\<forall>ls \<in> set (listings (su_passes su)). \<not> stores su c ls"
      unfolding ready_iff_stored control_run_stored(1) stores_def by blast
    then show ?thesis using False ok by (simp add: fs)
  qed
qed

lemma default_tls_host_None [simp]: "default_tls_host hosts = None \<longleftrightarrow> hosts = []"
  by (cases hosts) (auto simp: default_tls_host_def or_else_def split: option.splits)

lemma attach_ok:
  "attach_data_plane su c hosts sni = Inr (ls, sni') \<Longrightarrow>
     HttpListener (http_bind c) \<in> set ls \<and>
     (\<forall>a h. TlsListener a h \<in> set ls \<longleftrightarrow> a = tls_address c \<and> default_tls_host hosts = Some h \<and> su_pem_written su h) \<and>
     (\<forall>h. TlsListener (tls_address c) h \<in> set ls \<longrightarrow> su_tls_bound su = Inr ()) \<and>
     sni' = (if hosts = [] then sni else snd (store_config (su_tls su) hosts sni))"
  using default_tls_host_None [of hosts]
  by (cases "default_tls_host hosts")
    (auto simp: attach_data_plane_def Let_def simp del: default_tls_host_None split: if_splits sum.splits)

lemma resolved_key_nonempty: "resolve_jwt_key env dir file = Inr key \<Longrightarrow> key \<noteq> []"
  by (auto simp: resolve_jwt_key_def Let_def split: option.splits if_splits)

text \<open>A start whose probe answered: the gates that are left.\<close>

lemma startup_probed:
  assumes "readiness_wait (su_reach su) (su_clock su) (su_started su) (gc_api_ready_timeout c) = Some probe"
  shows "\<exists>sc. startup su c = Some
    (case probe of
       Inl n \<Rightarrow> Inl (NotReachable n)
     | Inr _ \<Rightarrow>
         (case resolve_jwt_key (gc_jwt_secret_key c) (gc_data_dir c) (su_key_file su) of
            Inl e \<Rightarrow> Inl (KeyUnresolved e)
          | Inr key \<Rightarrow>
              (case first_snapshot su c sc of
                 Inl e \<Rightarrow> Inl e
               | Inr ct \<Rightarrow> map_sum id (\<lambda>(ls, sni). \<lparr>gs_listeners = build_server c @ ls, gs_controller = ct, gs_sni = sni,
                     gs_token = derive_gateway_token (su_hmac su) key,
                     gs_policy = policy_handle_new (su_policy_rx su) (su_policy_parse su) (gc_policy_path c) (su_policy_file su)\<rparr>)
                   (attach_data_plane su c (cd_tls (shared_load (ct_shared ct))) sni_map_default))))"
proof -
  obtain sc where "shared_new (su_rx su) config_empty = Inr sc" using empty_accepted by blast
  then show ?thesis
    using assms
    by (intro exI [of _ sc]) (auto simp: startup_def data_state_new_def resolve_gateway_credentials_def split: sum.splits)
qed

lemma attach_fails:
  "attach_data_plane su c hosts sni = Inl e \<Longrightarrow>
     \<exists>m h. e = TlsBind m \<and> su_tls_bound su = Inl m \<and> default_tls_host hosts = Some h \<and> su_pem_written su h"
  by (auto simp: attach_data_plane_def Let_def split: option.splits if_splits sum.splits)

lemma tls_bind_failed:
  assumes "first_snapshot su c sc = Inr ct"
    and "attach_data_plane su c (cd_tls (shared_load (ct_shared ct))) sni = Inl e"
  obtains m where "e = TlsBind m" "su_tls_bound su = Inl m" "\<exists>ls \<in> set (listings (su_passes su)). \<exists>h.
    default_tls_host (cd_tls (fst (sanitize (translate_listing (control_of su c) ls)))) = Some h \<and> su_pem_written su h"
proof -
  obtain m h where "e = TlsBind m" "su_tls_bound su = Inl m" "su_pem_written su h"
    "default_tls_host (cd_tls (shared_load (ct_shared ct))) = Some h" using attach_fails [OF assms(2)] by blast
  then show thesis
    using that first_snapshot_cases [where su = su and c = c and sc = sc, unfolded assms(1) sum.case] by metis
qed

text \<open>The API port answered: an attempt connected, and it was begun before the deadline.\<close>

definition api_answered :: "('re, 'y, 'c, 'p, 'k, 'r) startup_env \<Rightarrow> gateway_config \<Rightarrow> bool" where
  "api_answered su c \<longleftrightarrow>
     (\<exists>n. first_try (su_reach su) n \<and> (n = 1 \<or> su_clock su (n - 1) < su_started su + gc_api_ready_timeout c))"

text \<open>The two outcomes of the probe exclude each other.\<close>

lemma answered_or_down:
  assumes ticks: "clock_ticks (su_clock su) (su_started su) interval"
    and down: "1 \<le> n" "\<forall>k. 1 \<le> k \<and> k \<le> n \<longrightarrow> \<not> su_reach su k" "su_started su + gc_api_ready_timeout c \<le> su_clock su n"
  shows "\<not> api_answered su c"
proof
  assume "api_answered su c"
  then obtain m where m: "first_try (su_reach su) m" "m = 1 \<or> su_clock su (m - 1) < su_started su + gc_api_ready_timeout c"
    by (auto simp: api_answered_def)
  then have "n < m" using down(2) by (metis first_try_def not_le)
  moreover have "mono (su_clock su)"
    unfolding mono_iff_le_Suc using ticks by (metis add_leD1 clock_ticks_def)
  moreover have "n \<le> m - 1" "m \<noteq> 1" using \<open>n < m\<close> down(1) by simp_all
  ultimately have "su_clock su n \<le> su_clock su (m - 1)" by (metis monoD)
  moreover have "su_clock su (m - 1) < su_started su + gc_api_ready_timeout c" using m(2) \<open>m \<noteq> 1\<close> by blast
  ultimately show False using down(3) by linarith
qed

text \<open>
  Property C8. The start is gated and fails fast: it always returns, and what it returns names the
  first gate that failed. A started gateway had its API port answer in time, derives its token from
  the resolved, non-empty key, has the policy handle its file built, a controller that was accepted,
  and in use the validated translation of a listing the control loop stored; it listens for HTTP, and
  for TLS exactly when there are hosts and the PEM pair of the default host was written, with that one
  host's pair for every client. An unreachable port, an unresolved key, a refused controller, a
  missing first snapshot and a failed TLS bind are reported each with its own cause, only when every
  gate before it was passed; as the conditions exclude each other, they are also the only outcomes
  when they hold.
\<close>

theorem startup_gates:
  assumes "clock_ticks (su_clock su) (su_started su) interval"
  shows "\<exists>r. startup su c = Some r \<and>
    (let key = resolve_jwt_key (gc_jwt_secret_key c) (gc_data_dir c) (su_key_file su);
         stored = (\<exists>ls \<in> set (listings (su_passes su)). stores su c ls);
         accepted = (trim (gc_gateway_namespace c) \<noteq> [] \<and> gc_poll_interval c \<noteq> 0)
     in case r of
       Inr gs \<Rightarrow>
         api_answered su c \<and> accepted \<and> stored \<and>
         (\<exists>k. key = Inr k \<and> k \<noteq> [] \<and> gs_token gs = derive_gateway_token (su_hmac su) k) \<and>
         gs_policy gs = policy_handle_new (su_policy_rx su) (su_policy_parse su) (gc_policy_path c) (su_policy_file su) \<and>
         policy_reachable (su_policy_rx su) (su_policy_parse su) (gs_policy gs) \<and>
         (\<exists>ls \<in> set (listings (su_passes su)).
            shared_load (ct_shared (gs_controller gs)) = fst (sanitize (translate_listing (control_of su c) ls))) \<and>
         HttpListener (http_bind c) \<in> set (gs_listeners gs) \<and>
         (let hosts = cd_tls (shared_load (ct_shared (gs_controller gs))) in
            (\<forall>a h. TlsListener a h \<in> set (gs_listeners gs) \<longleftrightarrow>
               a = tls_address c \<and> default_tls_host hosts = Some h \<and> su_pem_written su h) \<and>
            (\<forall>h. TlsListener (tls_address c) h \<in> set (gs_listeners gs) \<longrightarrow> su_tls_bound su = Inr ()) \<and>
            (hosts \<noteq> [] \<longrightarrow> gs_sni gs = snd (store_config (su_tls su) hosts sni_map_default)))
     | Inl SnapshotRejected \<Rightarrow> False
     | Inl (NotReachable n) \<Rightarrow> \<not> api_answered su c \<and> 1 \<le> n \<and> (\<forall>k. 1 \<le> k \<and> k \<le> n \<longrightarrow> \<not> su_reach su k) \<and>
         su_started su + gc_api_ready_timeout c \<le> su_clock su n
     | Inl (KeyUnresolved e) \<Rightarrow> api_answered su c \<and> key = Inl e
     | Inl (ControlPlaneInit m) \<Rightarrow> api_answered su c \<and> (\<exists>k. key = Inr k) \<and> \<not> accepted \<and>
         m = (if trim (gc_gateway_namespace c) = [] then ''gateway_namespace must be non-empty'' else ''poll_interval must be > 0'')
     | Inl NoFirstSnapshot \<Rightarrow> api_answered su c \<and> (\<exists>k. key = Inr k) \<and> accepted \<and> \<not> stored
     | Inl (TlsBind m) \<Rightarrow> api_answered su c \<and> (\<exists>k. key = Inr k) \<and> accepted \<and> stored \<and> su_tls_bound su = Inl m \<and>
         (\<exists>ls \<in> set (listings (su_passes su)). \<exists>h.
            default_tls_host (cd_tls (fst (sanitize (translate_listing (control_of su c) ls)))) = Some h \<and> su_pem_written su h))"
  using assms
proof (cases rule: readiness_probe [where reach = "su_reach su" and timeout = "gc_api_ready_timeout c"])
  case (down n)
  then show ?thesis using startup_probed [OF down(1)] answered_or_down [OF assms down(2, 3, 4)] by auto
next
  case probe: (up n)
  have up: "api_answered su c" using probe(2, 3) by (auto simp: api_answered_def)
  obtain sc where start: "startup su c = Some
     (case resolve_jwt_key (gc_jwt_secret_key c) (gc_data_dir c) (su_key_file su) of
        Inl e \<Rightarrow> Inl (KeyUnresolved e)
      | Inr key \<Rightarrow>
          (case first_snapshot su c sc of
             Inl e \<Rightarrow> Inl e
           | Inr ct \<Rightarrow> map_sum id (\<lambda>(ls, sni). \<lparr>gs_listeners = build_server c @ ls, gs_controller = ct, gs_sni = sni,
                 gs_token = derive_gateway_token (su_hmac su) key,
                 gs_policy = policy_handle_new (su_policy_rx su) (su_policy_parse su) (gc_policy_path c) (su_policy_file su)\<rparr>)
               (attach_data_plane su c (cd_tls (shared_load (ct_shared ct))) sni_map_default)))"
    using startup_probed [OF probe(1)] by auto
  show ?thesis
  proof (cases "resolve_jwt_key (gc_jwt_secret_key c) (gc_data_dir c) (su_key_file su)")
    case key: (Inr key)
    show ?thesis
    proof (cases "first_snapshot su c sc")
      case (Inl e)
      then show ?thesis
        using first_snapshot_cases [where su = su and c = c and sc = sc] key up by (auto simp: start controller_create_refuses)
    next
      case ct: (Inr ct)
      note stored = first_snapshot_cases [where su = su and c = c and sc = sc, unfolded ct sum.case]
      show ?thesis
      proof (cases "attach_data_plane su c (cd_tls (shared_load (ct_shared ct))) sni_map_default")
        case (Inl e)
        obtain m where e: "e = TlsBind m" "su_tls_bound su = Inl m" "\<exists>ls \<in> set (listings (su_passes su)). \<exists>h.
            default_tls_host (cd_tls (fst (sanitize (translate_listing (control_of su c) ls)))) = Some h \<and> su_pem_written su h"
          by (rule tls_bind_failed [OF ct Inl])
        then have "startup su c = Some (Inl (TlsBind m))" using Inl key ct by (simp add: start)
        then show ?thesis using key up stored e(2,3) by simp
      next
        case a: (Inr r)
        obtain ls sni where r: "r = (ls, sni)" by (cases r)
        show ?thesis
          using attach_ok [OF a [unfolded r]] stored resolved_key_nonempty [OF key] up policy_reachable.built a r key ct
          by (auto simp: start build_server_def Let_def)
      qed
    qed
  qed (use up in \<open>simp add: start\<close>)
qed

section \<open>A concrete start\<close>

definition demo_startup :: "(string, unit, unit, unit, unit, string) startup_env" where
  "demo_startup = \<lparr>su_rx = slash_engine, su_reach = (\<lambda>_. True), su_clock = (\<lambda>n. 500 * n), su_started = 0,
     su_policy_rx = word_engine, su_policy_parse = (\<lambda>_. Inl ''bad yaml''),
     su_policy_file = \<lparr>fv_is_file = False, fv_read = ReadNotFound, fv_mtime = None\<rparr>, su_hmac = (@), su_key_file = None,
     su_mirror_env = Some ''m'', su_b64 = (\<lambda>_. None), su_yaml = no_yaml, su_passes = [Pass (Inl ''timeout''), Pass (Inr demo_listing)],
     su_pem_written = (\<lambda>_. False), su_tls_bound = Inr (),
     su_tls = \<lparr>tl_certs = (\<lambda>_. []), tl_private_key = (\<lambda>_. Inr None), tl_from_der = (\<lambda>_ _. Inr ())\<rparr>\<rparr>"

definition demo_config :: gateway_config where
  "demo_config = gateway_config_default\<lparr>gc_gateway_namespace := ''gw'', gc_jwt_secret_key := Some ''key''\<rparr>"

lemma demo_control_of: "control_of demo_startup demo_config = demo_control"
proof -
  have "trim ''m'' \<noteq> []" by code_simp
  then show ?thesis by (simp add: control_of_def demo_startup_def demo_config_def demo_control_def)
qed

lemma demo_first_snapshot: "\<exists>ct. first_snapshot demo_startup demo_config sc = Inr ct"
proof -
  have "stores demo_startup demo_config demo_listing"
    unfolding stores_def demo_control_of using demo_rebuilt by (simp add: demo_startup_def)
  moreover have "controller_create sc ''gw'' ''higress'' 1000 (Some ''m'') = Inr (controller_new sc, ''m'')"
  proof -
    have "trim ''gw'' \<noteq> []" "trim ''higress'' \<noteq> []" "trim ''m'' \<noteq> []" by code_simp+
    then show ?thesis by (simp add: controller_create_def)
  qed
  ultimately show ?thesis
    using first_snapshot_cases [where su = demo_startup and c = demo_config and sc = sc]
    by (cases "first_snapshot demo_startup demo_config sc")
      (auto simp: first_snapshot_def demo_startup_def demo_config_def gateway_config_default_def Let_def split: if_splits)
qed

theorem startup_gates_witness:
  "\<exists>gs. startup demo_startup demo_config = Some (Inr gs) \<and> api_answered demo_startup demo_config \<and> HttpListener (http_bind demo_config) \<in> set (gs_listeners gs) \<and>
     shared_load (ct_shared (gs_controller gs)) = fst (sanitize (translate_listing demo_control demo_listing))"
proof -
  have ticks: "clock_ticks (su_clock demo_startup) (su_started demo_startup) 500"
    using even_clock by (simp add: demo_startup_def)
  obtain sc where sc: "shared_new (su_rx demo_startup) config_empty = Inr sc" using empty_accepted by blast
  obtain ct where ct: "first_snapshot demo_startup demo_config sc = Inr ct" using demo_first_snapshot by blast
  have "readiness_wait (su_reach demo_startup) (su_clock demo_startup) (su_started demo_startup) t = Some (Inr 1)" for t
    by (simp add: readiness_wait_def readiness_loop.simps demo_startup_def)
  moreover have "resolve_jwt_key (gc_jwt_secret_key demo_config) (gc_data_dir demo_config) (su_key_file demo_startup) = Inr ''key''"
  proof -
    have "key_normalize ''key'' = ''key''" by code_simp
    then show ?thesis by (simp add: resolve_jwt_key_def demo_config_def)
  qed
  moreover obtain ls sni where "attach_data_plane demo_startup demo_config (cd_tls (shared_load (ct_shared ct))) sni_map_default = Inr (ls, sni)"
    by (cases "default_tls_host (cd_tls (shared_load (ct_shared ct)))")
      (auto simp: attach_data_plane_def demo_startup_def Let_def)
  ultimately obtain gs where gs: "startup demo_startup demo_config = Some (Inr gs)"
    using sc ct by (simp add: startup_def data_state_new_def resolve_gateway_credentials_def)
  have "set (listings (su_passes demo_startup)) = {demo_listing}" by (simp add: demo_startup_def)
  then show ?thesis
    using startup_gates [OF ticks, of demo_config] unfolding gs demo_control_of by auto
qed

end
