(* ===== verification/Spec2Isabelle.thy ===== *)
theory Spec2Isabelle
  imports Shared_Config Transformer Policy_Merge Prepare Usage Ratelimit Dial Egress Proxy_Demo Translate_Demo Admin Bootstrap
begin

text \<open>
  Hygress, an AI gateway in Rust (\<open>src/crates\<close>), as HOL definitions with the theorems that make it
  correct. This theory is the root of the library: it imports every component.

  \<^bold>\<open>The program.\<close> A control plane (\<open>hygress-adapter\<close>) lists custom resources and ingresses of a cluster,
  translates them to one configuration snapshot and stores it in a holder (\<open>SharedConfig\<close> of
  \<open>hygress-core\<close>), which validates it, compiles it to a route table and swaps it in. The data plane
  (\<open>hygress-gateway\<close>) runs each request against the snapshot it loaded: it reads head and body, matches a
  route, transforms headers, extracts and maps the model, authenticates (\<open>hygress-egress\<close>), enforces rate
  limits, token quotas and guardrails of a policy file, selects upstreams by smooth weighted round-robin,
  dials them with failover, follows fallback routes, streams the response back while counting its tokens,
  and reports usage. A start-up sequence gates all of it, an admin listener reloads and inspects it, and
  counters observe it.

  \<^bold>\<open>How the code corresponds.\<close> A struct is a record whose field names carry a prefix of its type; an enum is
  a datatype; a method on \<open>&mut self\<close> takes the state last and returns it updated; \<open>Result\<close> is a sum with
  the error on the left, \<open>Option\<close> an option; \<open>String\<close> and byte slices are lists of 8-bit characters; a
  \<open>HashMap\<close> is an association list behind the interface \<open>map_interface\<close>. Integers are words where the code
  wraps (the weights of \<open>Swrr\<close>, the counters of \<open>SharedConfig\<close> and of \<open>Metrics\<close>), and numbers with the saturation, the
  checks and the casts of the code written out elsewhere. What a function reads from outside, a clock, the
  network, a file, the environment or a third-party crate (\<open>regex\<close>, \<open>serde_yaml\<close>, \<open>rustls\<close>, \<open>prometheus\<close>,
  \<open>url\<close>, SHA-256, HMAC), is an argument; a law of such an argument that a theorem needs is a named hypothesis
  of it. Log lines are left out unless a property is about them.

  \<^bold>\<open>The theories\<close>, in the order of the program's layers.

  \<^item> Foundations. \<open>Prelude\<close>: the standard library the crates call, the map interface and shared lemmas.
    \<open>Utf8\<close>: lossy decoding. \<open>Json_Value\<close>: \<open>serde_json::Value\<close>. \<open>Last_Known_Good\<close>: the contract of what is
    replaced at run time. \<open>Probe\<close>: the two bounded probes, \<open>readiness_wait\<close> (\<open>bootstrap.rs\<close>) and
    \<open>wait_for_apiserver_ready\<close> (\<open>reconcile.rs\<close>).
  \<^item> Routing core. \<open>Destination\<close> (\<open>destination.rs\<close>, \<open>error.rs\<close>), \<open>Registry\<close> (\<open>registry.rs\<close>), \<open>Retry\<close>
    (\<open>retry.rs\<close>), \<open>Route\<close> (\<open>route.rs\<close>), \<open>Swrr\<close> (\<open>swrr.rs\<close>), \<open>Headers\<close> and \<open>Transformer\<close> (\<open>transform.rs\<close>),
    \<open>Config\<close> (\<open>config.rs\<close>: data, validation), \<open>Route_Table\<close> (\<open>config.rs\<close>, \<open>matcher.rs\<close>: index and lookup),
    \<open>Shared_Config\<close> (\<open>config.rs\<close>: holder and selection), \<open>Typed_Config\<close> (the widths of every field,
    which justify reading them as numbers).
  \<^item> Policy. \<open>Policy\<close> (\<open>policy.rs\<close>), \<open>Policy_Merge\<close> (\<open>policy_loader.rs\<close>), \<open>Guardrail\<close> (\<open>guardrail.rs\<close> of the
    core), \<open>Quota\<close> (\<open>quota.rs\<close> of core and gateway), \<open>Ratelimit\<close> (\<open>ratelimit.rs\<close>, the bucket table of \<open>pipe.rs\<close>).
  \<^item> Bodies. \<open>Bytes\<close> (\<open>bytes.rs\<close>, multipart spans of \<open>body.rs\<close>), \<open>Json_Scan\<close>, \<open>Json_Object\<close>, \<open>Json_Splice\<close>
    and \<open>Body\<close> (\<open>body.rs\<close>: the scanner, the member loop, the splices, the model of a body), \<open>Usage\<close> (\<open>usage.rs\<close>).
  \<^item> Request path. \<open>Pipeline\<close> and \<open>Prepare\<close> (\<open>pipeline/*.rs\<close>, \<open>context.rs\<close>: decisions before a dial), \<open>Proxy_Io\<close>
    and \<open>Dial\<close> (\<open>pipe.rs\<close>, \<open>provider.rs\<close>: edges and dials), \<open>Egress\<close> (\<open>forward_auth.rs\<close>, \<open>guardrail.rs\<close>,
    \<open>usage_sink.rs\<close>, \<open>token.rs\<close>), \<open>Proxy\<close> (\<open>pipe.rs\<close>: \<open>request_filter\<close>, one definition per stage),
    \<open>Proxy_Facts\<close> and \<open>Proxy_Ends\<close> (its accounts, its end, its gates), \<open>Proxy_Demo\<close> (a run).
  \<^item> Control plane. \<open>Translate\<close> (\<open>translate.rs\<close>), \<open>Controller\<close> (\<open>lib.rs\<close>, \<open>snapshot.rs\<close>: a pass), \<open>Watch\<close>
    (\<open>lib.rs\<close>, \<open>reconcile.rs\<close>: the loop around the passes), \<open>Translate_Demo\<close> (a cluster).
  \<^item> Process. \<open>Gateway_Config\<close> (\<open>config.rs\<close> of the gateway), \<open>Sni\<close> (\<open>tls_store.rs\<close>:
    the certificate store, which the live TLS listener does not ask), \<open>Metrics\<close> (\<open>metrics.rs\<close>),
    \<open>Admin\<close> (\<open>admin.rs\<close>, \<open>stats.rs\<close>), \<open>Bootstrap\<close> (\<open>bootstrap.rs\<close>).
\<close>

text \<open>
  \<^bold>\<open>What the lemmas show.\<close>

  \<^item> Every request (\<open>Proxy_Facts\<close>, \<open>Proxy_Ends\<close>): each function appends a known \<open>audit\<close> to the trace, and
    from the audits come the books of a request (one head, one count, at most one usage row, a reservation
    settled once, no dial after the head), that it ends, and what a dial was preceded by.
  \<^item> The configuration: translation meets the validation (\<open>Translate\<close>), validation keeps what is valid and
    gives a well-formed snapshot (\<open>Config\<close>), the table is the snapshot's and its lookups are what a scan of
    the routes would select (\<open>Route_Table\<close>), the holder stays consistent under any stores and selections
    (\<open>Shared_Config\<close>), a pass converges to the listing although unchanged listings are skipped (\<open>Controller\<close>),
    no change waits for the poll tick and a failing watch keeps its pauses (\<open>Watch\<close>).
  \<^item> Optimised routines against references: the header overlay against the cloned map, the fused body scan
    against the three scans it replaces, the memo of the prepared body against a new scan, the cached metric
    handles against plain sums modulo \<open>2 ^ 64\<close>, the precomputed policy table against the merge, the chunked usage reader
    against the whole stream, the chunk scanner against the whole text.
  \<^item> Byte surgery (\<open>Json_Splice\<close>, \<open>Body\<close>): what a splice changes and what it moves unchanged, round trips of
    the encoder and of multipart bodies.
  \<^item> Limits: buckets and quotas over interleavings of requests, settlements, evictions and window changes. A
    quota never holds a key against more than the ledger of committed and outstanding tokens, and exactly
    against it under restrictions that the gateway does not keep to (a commit in its own window, an eviction
    that waits a window); a bucket grants its burst and its rate, and a burst more for every eviction that
    comes before it has refilled, as the gateway's can for a slow bucket; a throttled key recovers.
  \<^item> Services: the forward-auth exchange for every answer, the verdict cache, the conservation of usage rows,
    the redaction and the gate of the admin listener, the order and the outcomes of a start. A started
    gateway presents one certificate, of the default or first host, to every TLS client; the lookup by name
    is proved of the store only.

  \<^bold>\<open>Interfaces.\<close> \<open>map_interface\<close> (\<open>Prelude\<close>) is what the code asks of a hash map, interpreted on the
  association lists. \<open>header_contract\<close> (\<open>Headers\<close>) is what the rule engine asks of headers, interpreted on the
  map and on the overlay, so that each rule is proved once. \<open>last_known_good\<close> is interpreted on the policy
  reload and on the snapshot store. \<open>stage_contract\<close> (\<open>Proxy_Facts\<close>) is what composing the stages of a hop
  needs, interpreted on the audits.

  \<^bold>\<open>Termination, bounds and fuel.\<close> \<open>dispatch\<close> is a partial function, as the hop loop is a loop; it returns
  within the hop budget of the routes (at most the budget plus one hops, \<open>Proxy_Ends\<close>). The probes are partial
  functions that return within the timeout divided by the interval, plus two attempts, given a clock that
  advances by the sleep. \<open>glob_loop\<close> is one too and returns for every text. The JSON scanner, the usage reader
  and the delivery of a usage row (three attempts) are total with measures; the scanner refuses values
  nested deeper than the code's 128. The loop over the members of an object takes fuel, and
  one more than the length of the body is enough (\<open>trace_loop_fuel\<close>). The cascade of dropped fallback links in
  the validation runs the code's rounds, one more than there are routes, which reaches the fixpoint
  because every round but the last drops a route.

  \<^bold>\<open>Granularity.\<close> A stage of a request acts on the shared state in one step at each access the code makes
  under a lock; between two accesses \<open>pause\<close> lets the rest of the process change what is shared in
  any way. A control pass, a store, a cache lookup and a policy reload are one step each.

  \<^bold>\<open>Not modelled.\<close> Third-party calls and what only feeds them: the construction of the pingora server, its
  sessions and TLS acceptor, the reqwest client, the kube client, its resource descriptions and watch streams
  (their items are the environment), the registration, help texts and rendering of the metrics, the text of
  errors beyond the names the code matches on, tracing and log lines, the panic hook, process signals and
  shutdown, \<open>main\<close>. The asynchronous guardrail call beside a stream is one event of the response. The crate
  roots are re-exports. The module comments of what is modelled say which smaller parts they leave out.
\<close>

end
